(* ===== verification/Prelude.thy ===== *)
theory Prelude
  imports Main "HOL-Library.AList" "HOL-Library.List_Lexorder" "HOL-Library.Char_ord"
    "HOL-Library.Product_Lexorder"
begin

text \<open>
  What every component shares: the error values of the program, the state-and-error programs its
  methods are translated to, JavaScript's insertion-ordered \<open>Map\<close> as an association list,
  \<open>Array.prototype.sort\<close> as a stable sort by a comparator, the string helpers the code calls
  (\<open>trim\<close>, decimal rendering, \<open>split\<close>), and a locale for invariants of transition systems.
\<close>

named_theorems run_simps "how a program of the state-and-error monad runs"
named_theorems frame_simps "fields and entries an operation leaves unchanged"

subsection \<open>Errors and programs\<close>

text \<open>
  A thrown \<open>Error\<close> carries its message; a thrown \<open>ControlPlaneError\<close> (control-plane/service.ts)
  carries the HTTP status, the message and the optional machine-readable code; a
  \<open>NoEffectError\<close> (tools/definition.ts) carries its message and code and says nothing was committed.
\<close>

datatype os_error = JsError string | ControlPlaneError int string "string option" | NoEffectError string string

type_synonym ('s, 'a) prog = "'s \<Rightarrow> (os_error + 'a) \<times> 's"

text \<open>
  A throw leaves the state as it is at that point: nothing is rolled back, exactly as an exception
  in the source leaves the maps it has already mutated.
\<close>

definition ret :: "'a \<Rightarrow> ('s, 'a) prog" where
  "ret x = (\<lambda>s. (Inr x, s))"

definition throw :: "os_error \<Rightarrow> ('s, 'a) prog" where
  "throw e = (\<lambda>s. (Inl e, s))"

definition andThen :: "('s, 'a) prog \<Rightarrow> ('a \<Rightarrow> ('s, 'b) prog) \<Rightarrow> ('s, 'b) prog" where
  "andThen m f = (\<lambda>s. case m s of (Inl e, s') \<Rightarrow> (Inl e, s') | (Inr x, s') \<Rightarrow> f x s')"

definition asks :: "('s \<Rightarrow> 'a) \<Rightarrow> ('s, 'a) prog" where
  "asks f = (\<lambda>s. (Inr (f s), s))"

definition update :: "('s \<Rightarrow> 's) \<Rightarrow> ('s, unit) prog" where
  "update f = (\<lambda>s. (Inr (), f s))"

definition guardE :: "bool \<Rightarrow> os_error \<Rightarrow> ('s, unit) prog" where
  "guardE b e = (if b then ret () else throw e)"

text \<open>\<open>try { m } catch { h }\<close>: the handler starts in the state the throw left.\<close>

definition catchE :: "('s, 'a) prog \<Rightarrow> (os_error \<Rightarrow> ('s, 'a) prog) \<Rightarrow> ('s, 'a) prog" where
  "catchE m h = (\<lambda>s. case m s of (Inl e, s') \<Rightarrow> h e s' | (Inr x, s') \<Rightarrow> (Inr x, s'))"

definition liftR :: "os_error + 'a \<Rightarrow> ('s, 'a) prog" where
  "liftR r = (\<lambda>s. (r, s))"

lemma andThen_run [run_simps]:
  "m s = (Inl e, s') \<Longrightarrow> andThen m f s = (Inl e, s')"
  "m s = (Inr x, s') \<Longrightarrow> andThen m f s = f x s'"
  by (simp_all add: andThen_def)

lemma basic_run [simp]:
  "ret x s = (Inr x, s)"
  "throw e s = (Inl e, s)"
  "asks g s = (Inr (g s), s)"
  "update h s = (Inr (), h s)"
  "liftR r s = (r, s)"
  by (simp_all add: ret_def throw_def asks_def update_def liftR_def)

lemma guardE_run [simp]:
  "guardE True e s = (Inr (), s)"
  "guardE False e s = (Inl e, s)"
  by (simp_all add: guardE_def)

lemma andThen_basic [simp]:
  "andThen (ret x) f = f x"
  "andThen (throw e) f' = throw e"
  "andThen (asks g) k s = k (g s) s"
  "andThen (update h) k' s = k' () (h s)"
  by (simp_all add: andThen_def ret_def throw_def asks_def update_def fun_eq_iff)

lemma andThen_assoc: "andThen (andThen m f) g = andThen m (\<lambda>x. andThen (f x) g)"
  by (auto simp: andThen_def fun_eq_iff split: prod.splits sum.splits)

lemma andThen_InrE:
  assumes "andThen m f s = (Inr y, s')"
  obtains x s1 where "m s = (Inr x, s1)" and "f x s1 = (Inr y, s')"
  using assms by (auto simp: andThen_def split: prod.splits sum.splits)

lemma guardE_Inr: "guardE b e s = (Inr u, s') \<longleftrightarrow> b \<and> s' = s"
  by (auto simp: guardE_def)

lemma andThen_guardE: "andThen (guardE b e) f s = (if b then f () s else (Inl e, s))"
  by (simp add: guardE_def)

subsection \<open>Insertion-ordered maps\<close>

text \<open>
  A JavaScript \<open>Map\<close> keeps its keys in insertion order; \<open>set\<close> on a present key keeps the key's
  place. \<^const>\<open>AList.update\<close> does exactly that, \<^const>\<open>AList.delete\<close> is \<open>delete\<close>, \<^const>\<open>map_of\<close>
  is \<open>get\<close>. Well-formed maps have distinct keys.
\<close>

type_synonym ('k, 'v) jsmap = "('k \<times> 'v) list"

abbreviation keys_distinct :: "('k, 'v) jsmap \<Rightarrow> bool" where
  "keys_distinct m \<equiv> distinct (map fst m)"

abbreviation jvalues :: "('k, 'v) jsmap \<Rightarrow> 'v list" where
  "jvalues m \<equiv> map snd m"

definition jhas :: "('k, 'v) jsmap \<Rightarrow> 'k \<Rightarrow> bool" where
  "jhas m k = (map_of m k \<noteq> None)"

declare map_of_eq_Some_iff [simp del]

lemma map_of_jset [simp]: "map_of (AList.update k v m) = (map_of m)(k \<mapsto> v)"
  by (rule update_conv')

lemma map_of_jdelete [simp]: "map_of (AList.delete k m) = (map_of m)(k := None)"
  by (rule delete_conv')

lemma jhas_update [simp]: "jhas (AList.update k v m) k' = (k' = k \<or> jhas m k')"
  by (simp add: jhas_def)

lemma jhas_keys: "jhas m k \<longleftrightarrow> k \<in> set (map fst m)"
  by (simp add: jhas_def map_of_eq_None_iff)

lemma keys_distinct_jset [simp]: "keys_distinct m \<Longrightarrow> keys_distinct (AList.update k v m)"
  by (simp add: distinct_update)

lemma keys_distinct_jdelete [simp]: "keys_distinct m \<Longrightarrow> keys_distinct (AList.delete k m)"
  by (simp add: distinct_delete)

lemma jvalues_iff: "keys_distinct m \<Longrightarrow> v \<in> set (jvalues m) \<longleftrightarrow> (\<exists>k. map_of m k = Some v)"
  by (force simp: image_iff map_of_eq_Some_iff)

lemma jset_keys: "map fst (AList.update k v m) =
    (if k \<in> fst ` set m then map fst m else map fst m @ [k])"
  by (induction m) auto

lemma jset_triv: "map_of m k = Some v \<Longrightarrow> AList.update k v m = m"
  by (rule update_triv)

lemma length_jset: "length (AList.update k v m) = (if k \<in> fst ` set m then length m else Suc (length m))"
  by (induction m) auto

lemma filter_split: "filter P xs = us @ r # vs \<Longrightarrow> \<exists>us' vs'. xs = us' @ r # vs' \<and> filter P us' = us"
proof (induction xs arbitrary: us)
  case (Cons x xs)
  show ?case
  proof (cases "P x")
    case False
    then obtain us' vs' where "xs = us' @ r # vs'" "filter P us' = us" using Cons by auto
    then have "x # xs = (x # us') @ r # vs'" "filter P (x # us') = us" using False by auto
    then show ?thesis by blast
  next
    case True
    show ?thesis
    proof (cases us)
      case Nil
      then have "x # xs = [] @ r # xs" "filter P [] = us" using True Cons.prems by auto
      then show ?thesis by blast
    next
      case (Cons u us1)
      then have "x = u" "filter P xs = us1 @ r # vs" using True Cons.prems by auto
      then obtain us' vs' where "xs = us' @ r # vs'" "filter P us' = us1" using Cons.IH by blast
      then have "x # xs = (x # us') @ r # vs'" "filter P (x # us') = us" using True Cons \<open>x = u\<close> by auto
      then show ?thesis by blast
    qed
  qed
qed simp

subsection \<open>Sorting by a comparator\<close>

text \<open>
  \<open>Array.prototype.sort(cmp)\<close> is stable: elements that compare equal keep their order.
\<close>

fun js_insert :: "('a \<Rightarrow> 'a \<Rightarrow> int) \<Rightarrow> 'a \<Rightarrow> 'a list \<Rightarrow> 'a list" where
  "js_insert cmp x [] = [x]"
| "js_insert cmp x (y # ys) = (if cmp x y \<le> 0 then x # y # ys else y # js_insert cmp x ys)"

fun js_sort :: "('a \<Rightarrow> 'a \<Rightarrow> int) \<Rightarrow> 'a list \<Rightarrow> 'a list" where
  "js_sort cmp [] = []"
| "js_sort cmp (x # xs) = js_insert cmp x (js_sort cmp xs)"

lemma set_js_insert [simp]: "set (js_insert cmp x xs) = insert x (set xs)"
  by (induction xs) auto

lemma set_js_sort [simp]: "set (js_sort cmp xs) = set xs"
  by (induction xs) auto

lemma js_sort_Nil_iff [simp]: "js_sort cmp xs = [] \<longleftrightarrow> xs = []"
  by (metis set_empty set_js_sort)

locale js_comparator =
  fixes cmp :: "'a \<Rightarrow> 'a \<Rightarrow> int" and key :: "'a \<Rightarrow> 'k::linorder"
  assumes cmp_key: "cmp x y \<le> 0 \<longleftrightarrow> key x \<le> key y"
begin

lemma js_insert_insort: "js_insert cmp x xs = insort_key key x xs"
  by (induction xs) (auto simp: cmp_key)

lemma js_sort_is_sort_key: "js_sort cmp xs = sort_key key xs"
  by (induction xs) (auto simp: js_insert_insort)

lemma js_sort_sorted: "sorted (map key (js_sort cmp xs))"
  by (simp add: js_sort_is_sort_key)

lemma js_sort_hd_least: "js_sort cmp xs = y # ys \<Longrightarrow> x \<in> set xs \<Longrightarrow> key y \<le> key x"
proof -
  assume sorted_xs: "js_sort cmp xs = y # ys" and x: "x \<in> set xs"
  have "x \<in> set (y # ys)" using x sorted_xs by (metis set_js_sort)
  moreover have "sorted (map key (y # ys))" using sorted_xs js_sort_sorted by metis
  ultimately show "key y \<le> key x" by auto
qed

lemma js_sort_hd_first:
  assumes "js_sort cmp xs = y # ys"
  shows "\<exists>us vs. xs = us @ y # vs \<and> (\<forall>u \<in> set us. key y < key u)"
proof -
  have "[x\<leftarrow>sort_key key xs . key x = key y] = [x\<leftarrow>xs . key x = key y]"
    by (rule sort_key_stable)
  moreover have "[x\<leftarrow>sort_key key xs . key x = key y] = y # [x\<leftarrow>ys . key x = key y]"
    using assms by (simp flip: js_sort_is_sort_key)
  ultimately have "[x\<leftarrow>xs . key x = key y] = y # [x\<leftarrow>ys . key x = key y]" by simp
  then obtain us vs where xs: "xs = us @ y # vs" and us: "\<forall>u \<in> set us. key u \<noteq> key y"
    by (auto simp: filter_eq_Cons_iff)
  have "key y < key u" if "u \<in> set us" for u
    using js_sort_hd_least [OF assms, of u] us that xs by (metis UnCI order.strict_iff_order set_append)
  with xs show ?thesis by blast
qed

end

subsection \<open>Invariants of transition systems\<close>

locale transition_system =
  fixes init :: "'s \<Rightarrow> bool" and step :: "'s \<Rightarrow> 's \<Rightarrow> bool" and inv :: "'s \<Rightarrow> bool"
  assumes init_inv: "init s \<Longrightarrow> inv s"
    and step_inv: "inv s \<Longrightarrow> step s s' \<Longrightarrow> inv s'"
begin

lemma steps_inv: "step\<^sup>*\<^sup>* s s' \<Longrightarrow> inv s \<Longrightarrow> inv s'"
  by (induction rule: rtranclp_induct) (auto intro: step_inv)

lemma reachable_inv: "init s \<Longrightarrow> step\<^sup>*\<^sup>* s s' \<Longrightarrow> inv s'"
  using steps_inv init_inv by blast

end

subsection \<open>Strings\<close>

text \<open>The \<open>length\<close> (or \<open>size\<close>) of a sequence, a JavaScript number.\<close>

abbreviation js_len :: "'a list \<Rightarrow> int" where
  "js_len xs \<equiv> int (length xs)"

text \<open>
  A JavaScript string is modelled as the list of its code units, restricted to the units 0 to 255
  an Isabelle \<^typ>\<open>char\<close> holds. The lengths the code compares are numbers of code units.
\<close>

definition js_space :: "char \<Rightarrow> bool" where
  "js_space c = (of_char c \<in> {9::int, 10, 11, 12, 13, 32, 160})"

definition js_trim :: "string \<Rightarrow> string" where
  "js_trim s = rev (dropWhile js_space (rev (dropWhile js_space s)))"

definition blank :: "string \<Rightarrow> bool" where
  "blank s = list_all js_space s"

lemma js_trim_Nil_iff: "js_trim s = [] \<longleftrightarrow> blank s"
proof -
  have "(\<forall>x \<in> set (dropWhile js_space s). js_space x) \<longleftrightarrow> (\<forall>x \<in> set s. js_space x)"
    by (induction s) auto
  then show ?thesis
    by (auto simp: js_trim_def blank_def list_all_iff dropWhile_eq_Nil_conv)
qed

fun starts_with :: "string \<Rightarrow> string \<Rightarrow> bool" where
  "starts_with s [] = True"
| "starts_with [] (p # ps) = False"
| "starts_with (c # cs) (p # ps) = (c = p \<and> starts_with cs ps)"

lemma starts_with_iff: "starts_with s p \<longleftrightarrow> (\<exists>r. s = p @ r)"
  by (induction s p rule: starts_with.induct) auto

fun js_includes :: "string \<Rightarrow> string \<Rightarrow> bool" where
  "js_includes [] p = (p = [])"
| "js_includes (c # cs) p = (starts_with (c # cs) p \<or> js_includes cs p)"

lemma js_includes_iff: "js_includes s p \<longleftrightarrow> (\<exists>u v. s = u @ p @ v)"
proof (induction s)
  case Nil
  then show ?case by auto
next
  case (Cons c cs)
  show ?case
  proof
    assume "js_includes (c # cs) p"
    then consider "starts_with (c # cs) p" | "js_includes cs p" by auto
    then show "\<exists>u v. c # cs = u @ p @ v"
    proof cases
      case 1
      then show ?thesis by (metis append_Nil starts_with_iff)
    next
      case 2
      then show ?thesis using Cons.IH by (metis append_Cons)
    qed
  next
    assume "\<exists>u v. c # cs = u @ p @ v"
    then obtain u v where *: "c # cs = u @ p @ v" by blast
    show "js_includes (c # cs) p"
    proof (cases u)
      case Nil
      then have "starts_with (c # cs) p" using * by (simp add: starts_with_iff)
      then show ?thesis by simp
    next
      case (Cons d u')
      then have "js_includes cs p" using * Cons.IH by auto
      then show ?thesis by simp
    qed
  qed
qed

text \<open>\<open>s.split('.')\<close>\<close>

fun split_on :: "char \<Rightarrow> string \<Rightarrow> string list" where
  "split_on d [] = [[]]"
| "split_on d (c # cs) = (if c = d then [] # split_on d cs
     else (case split_on d cs of [] \<Rightarrow> [[c]] | w # ws \<Rightarrow> (c # w) # ws))"

fun join_with :: "string \<Rightarrow> string list \<Rightarrow> string" where
  "join_with sep [] = []"
| "join_with sep [x] = x"
| "join_with sep (x # y # ys) = x @ sep @ join_with sep (y # ys)"

lemma split_on_nonempty [simp]: "split_on d s \<noteq> []"
  by (induction s) (auto split: list.splits)

lemma join_split_on: "join_with [d] (split_on d s) = s"
proof (induction s)
  case Nil
  then show ?case by simp
next
  case (Cons c cs)
  show ?case
  proof (cases "split_on d cs")
    case Nil
    then show ?thesis by simp
  next
    case (Cons w ws)
    then show ?thesis using Cons.IH by (cases ws) auto
  qed
qed

text \<open>Decimal rendering of an integral number, \<open>String(n)\<close>.\<close>

definition digit_char :: "nat \<Rightarrow> char" where
  "digit_char d = char_of (48 + d)"

fun show_nat :: "nat \<Rightarrow> string" where
  "show_nat n = (if n < 10 then [digit_char n] else show_nat (n div 10) @ [digit_char (n mod 10)])"

declare show_nat.simps [simp del]

definition show_int :: "int \<Rightarrow> string" where
  "show_int i = (if i < 0 then CHR ''-'' # show_nat (nat (- i)) else show_nat (nat i))"

definition read_digits :: "string \<Rightarrow> nat" where
  "read_digits s = foldl (\<lambda>n c. 10 * n + (of_char c - 48)) 0 s"

lemma of_char_digit [simp]: "d < 10 \<Longrightarrow> of_char (digit_char d) = (48 + d :: nat)"
  by (simp add: digit_char_def)

lemma read_digits_snoc: "read_digits (s @ [c]) = 10 * read_digits s + (of_char c - 48)"
  by (simp add: read_digits_def)

lemma read_show_nat: "read_digits (show_nat n) = n"
proof (induction n rule: show_nat.induct)
  case (1 n)
  show ?case
  proof (cases "n < 10")
    case True
    then show ?thesis by (subst show_nat.simps) (simp add: read_digits_def)
  next
    case False
    with 1 show ?thesis by (subst show_nat.simps) (simp add: read_digits_snoc)
  qed
qed

lemma show_nat_inj: "show_nat m = show_nat n \<Longrightarrow> m = n"
  by (metis read_show_nat)

lemma show_nat_digits: "c \<in> set (show_nat n) \<Longrightarrow> 48 \<le> (of_char c :: nat) \<and> of_char c < (58 :: nat)"
proof (induction n rule: show_nat.induct)
  case (1 n)
  then show ?case
    by (subst (asm) (2) show_nat.simps) (auto split: if_splits)
qed

lemma show_nat_nonempty [simp]: "show_nat n \<noteq> []"
  by (subst show_nat.simps) simp

lemma show_int_inj: "show_int i = show_int j \<Longrightarrow> i = j"
proof -
  have minus: "CHR ''-'' # s \<noteq> show_nat n" for s n
  proof
    assume "CHR ''-'' # s = show_nat n"
    then have "CHR ''-'' \<in> set (show_nat n)" by (metis list.set_intros(1))
    from show_nat_digits [OF this] show False by simp
  qed
  assume eq: "show_int i = show_int j"
  consider "i < 0" "j < 0" | "i < 0" "0 \<le> j" | "0 \<le> i" "j < 0" | "0 \<le> i" "0 \<le> j" by linarith
  then show "i = j"
  proof cases
    case 1
    then have "nat (- i) = nat (- j)" using eq by (auto simp: show_int_def dest: show_nat_inj)
    with 1 show ?thesis by simp
  next
    case 2
    then show ?thesis using eq minus [of "show_nat (nat (- i))" "nat j"] by (auto simp: show_int_def)
  next
    case 3
    then show ?thesis using eq minus [of "show_nat (nat (- j))" "nat i"] by (auto simp: show_int_def)
  next
    case 4
    then have "nat i = nat j" using eq by (auto simp: show_int_def dest: show_nat_inj)
    with 4 show ?thesis by simp
  qed
qed

text \<open>\<open>Number.isSafeInteger\<close> on an integral number.\<close>

definition max_safe :: int where
  "max_safe = 9007199254740991"

definition safe_int :: "int \<Rightarrow> bool" where
  "safe_int i = (- max_safe \<le> i \<and> i \<le> max_safe)"

end
