(* ===== verification/Json.thy ===== *)
theory Json
  imports Prelude
begin

text \<open>
  The JSON values the program passes around as \<open>unknown\<close>, \<open>JSON.stringify\<close> on them,
  \<open>util.isDeepStrictEqual\<close>, and the accessors the code applies to unknown objects. The lemmas
  show that the serialisation of a string can be read back (so keys built by \<open>JSON.stringify\<close> of a
  tuple identify the tuple), bound its length, and that deep equality is reflexive on
  well-formed values.
\<close>

subsection \<open>Values\<close>

text \<open>
  Integral numbers are \<open>JNum\<close>; a finite number that is not integral is kept as its canonical decimal
  text \<open>JFrac\<close> (the program never computes with one). An object lists its properties in order.
\<close>

datatype json =
    JNull
  | JBool bool
  | JNum int
  | JFrac string
  | JStr string
  | JArr "json list"
  | JObj "(string \<times> json) list"

type_synonym jobj = "(string \<times> json) list"

text \<open>\<open>typeof v === 'string'\<close> and the like, on a property that may be missing.\<close>

definition str_of :: "json option \<Rightarrow> string option" where
  "str_of v = (case v of Some (JStr s) \<Rightarrow> Some s | _ \<Rightarrow> None)"

definition prop_of :: "jobj option \<Rightarrow> string \<Rightarrow> json option" where
  "prop_of m k = (case m of None \<Rightarrow> None | Some kvs \<Rightarrow> map_of kvs k)"

lemma str_of_Some_iff: "str_of v = Some s \<longleftrightarrow> v = Some (JStr s)"
  by (auto simp: str_of_def split: option.splits json.splits)

text \<open>\<open>String(v)\<close>\<close>

fun js_String :: "json \<Rightarrow> string" where
  "js_String JNull = ''null''"
| "js_String (JBool b) = (if b then ''true'' else ''false'')"
| "js_String (JNum i) = show_int i"
| "js_String (JFrac t) = t"
| "js_String (JStr s) = s"
| "js_String (JArr vs) = join_with '','' (map (\<lambda>v. if v = JNull then [] else js_String v) vs)"
| "js_String (JObj kvs) = ''[object Object]''"

definition js_String_opt :: "json option \<Rightarrow> string" where
  "js_String_opt v = (case v of None \<Rightarrow> ''undefined'' | Some w \<Rightarrow> js_String w)"

subsection \<open>Deep equality\<close>

lemma size_zip_fst [termination_simp]:
  "(a, b) \<in> set (zip xs ys) \<Longrightarrow> size a < Suc (size_list size xs)"
  using size_list_estimation' [of a xs "size a" size] by (auto dest: set_zip_leftD)

fun deep_eq :: "json \<Rightarrow> json \<Rightarrow> bool" where
  "deep_eq (JArr xs) (JArr ys) =
     (length xs = length ys \<and> list_all (\<lambda>(x, y). deep_eq x y) (zip xs ys))"
| "deep_eq (JObj xs) (JObj ys) =
     (length xs = length ys \<and>
      list_all (\<lambda>(k, x). case map_of ys k of None \<Rightarrow> False | Some y \<Rightarrow> deep_eq x y) xs)"
| "deep_eq x y = (x = y)"

definition obj_eq :: "jobj \<Rightarrow> jobj \<Rightarrow> bool" where
  "obj_eq x y = deep_eq (JObj x) (JObj y)"

definition opt_eq :: "('a \<Rightarrow> 'a \<Rightarrow> bool) \<Rightarrow> 'a option \<Rightarrow> 'a option \<Rightarrow> bool" where
  "opt_eq eq x y = (case (x, y) of (None, None) \<Rightarrow> True | (Some a, Some b) \<Rightarrow> eq a b | _ \<Rightarrow> False)"

text \<open>Every object of the value has distinct keys, as JavaScript objects have.\<close>

fun wf_json :: "json \<Rightarrow> bool" where
  "wf_json (JArr xs) = list_all wf_json xs"
| "wf_json (JObj kvs) = (distinct (map fst kvs) \<and> list_all (\<lambda>(k, v). wf_json v) kvs)"
| "wf_json _ = True"

lemma deep_eq_refl: "wf_json v \<Longrightarrow> deep_eq v v"
proof (induction v)
  case (JArr xs)
  have "deep_eq x y" if "(x, y) \<in> set (zip xs xs)" for x y
  proof -
    from that have "x = y" and "x \<in> set xs" by (auto simp: set_zip in_set_conv_nth)
    with JArr show ?thesis by (auto simp: list_all_iff)
  qed
  then show ?case by (auto simp: list_all_iff)
next
  case (JObj kvs)
  have "\<exists>y. map_of kvs k = Some y \<and> deep_eq v y" if "(k, v) \<in> set kvs" for k v
  proof -
    from that JObj.prems have "map_of kvs k = Some v" by simp
    moreover have "deep_eq v v" using JObj.IH [of "(k, v)" v] JObj.prems that by (auto simp: list_all_iff)
    ultimately show ?thesis by blast
  qed
  then show ?case by (force simp: list_all_iff)
qed auto

lemma obj_eq_refl: "wf_json (JObj m) \<Longrightarrow> obj_eq m m"
  using deep_eq_refl [of "JObj m"] by (simp add: obj_eq_def del: deep_eq.simps)

subsection \<open>Serialisation\<close>

definition hex_digit :: "nat \<Rightarrow> char" where
  "hex_digit d = (if d < 10 then char_of (48 + d) else char_of (87 + d))"

definition hex_value :: "char \<Rightarrow> nat" where
  "hex_value c = (let n = of_char c in if n < 58 then n - 48 else n - 87)"

text \<open>One code unit inside a JSON string, as \<open>QuoteJSONString\<close> of ECMA-262 writes it.\<close>

definition esc_char :: "char \<Rightarrow> string" where
  "esc_char c =
     (if c = CHR 0x22 then [CHR 0x5C, CHR 0x22]
      else if c = CHR 0x5C then [CHR 0x5C, CHR 0x5C]
      else if c = CHR 0x08 then [CHR 0x5C, CHR ''b'']
      else if c = CHR 0x09 then [CHR 0x5C, CHR ''t'']
      else if c = CHR 0x0A then [CHR 0x5C, CHR ''n'']
      else if c = CHR 0x0C then [CHR 0x5C, CHR ''f'']
      else if c = CHR 0x0D then [CHR 0x5C, CHR ''r'']
      else if (of_char c :: nat) < 32 then
        [CHR 0x5C, CHR ''u'', CHR ''0'', CHR ''0'',
         hex_digit (of_char c div 16), hex_digit (of_char c mod 16)]
      else [c])"

definition esc :: "string \<Rightarrow> string" where
  "esc s = concat (map esc_char s)"

definition quote :: "string \<Rightarrow> string" where
  "quote s = CHR 0x22 # esc s @ [CHR 0x22]"

fun stringify :: "json \<Rightarrow> string" where
  "stringify JNull = ''null''"
| "stringify (JBool b) = (if b then ''true'' else ''false'')"
| "stringify (JNum i) = show_int i"
| "stringify (JFrac t) = t"
| "stringify (JStr s) = quote s"
| "stringify (JArr vs) = ''['' @ join_with '','' (map stringify vs) @ '']''"
| "stringify (JObj kvs) = CHR 0x7B #
     join_with '','' (map (\<lambda>(k, v). quote k @ '':'' @ stringify v) kvs) @ [CHR 0x7D]"

subsection \<open>Reading one escaped unit back\<close>

definition unesc_one :: "string \<Rightarrow> (char \<times> string) option" where
  "unesc_one s = (case s of
      [] \<Rightarrow> None
    | c # r \<Rightarrow>
        if c = CHR 0x22 then None
        else if c \<noteq> CHR 0x5C then Some (c, r)
        else (case r of
            [] \<Rightarrow> None
          | d # r' \<Rightarrow>
              if d = CHR ''b'' then Some (CHR 0x08, r')
              else if d = CHR ''t'' then Some (CHR 0x09, r')
              else if d = CHR ''n'' then Some (CHR 0x0A, r')
              else if d = CHR ''f'' then Some (CHR 0x0C, r')
              else if d = CHR ''r'' then Some (CHR 0x0D, r')
              else if d = CHR ''u'' then
                (case r' of a # b # x # y # r'' \<Rightarrow> Some (char_of (16 * hex_value x + hex_value y), r'')
                 | _ \<Rightarrow> None)
              else Some (d, r')))"

lemma hex_value_digit: "d < 16 \<Longrightarrow> hex_value (hex_digit d) = d"
  by (auto simp: hex_value_def hex_digit_def Let_def)

lemma of_char_eq_iff: "(of_char c :: nat) = n \<Longrightarrow> c = char_of n"
  by auto

lemma unesc_esc_char: "unesc_one (esc_char c @ r) = Some (c, r)"
proof -
  consider "c = CHR 0x22" | "c = CHR 0x5C" | "c = CHR 0x08"
    | "c = CHR 0x09" | "c = CHR 0x0A" | "c = CHR 0x0C"
    | "c = CHR 0x0D"
    | "c \<notin> {CHR 0x22, CHR 0x5C, CHR 0x08, CHR 0x09,
          CHR 0x0A, CHR 0x0C, CHR 0x0D}" by blast
  then show ?thesis
  proof cases
    case 8
    show ?thesis
    proof (cases "(of_char c :: nat) < 32")
      case True
      then have "char_of (16 * (of_char c div 16) + of_char c mod 16 :: nat) = c" by simp
      moreover have "(of_char c :: nat) div 16 < 16" using True by linarith
      ultimately show ?thesis using 8 True
        by (simp add: esc_char_def unesc_one_def hex_value_digit)
    next
      case False
      with 8 show ?thesis by (simp add: esc_char_def unesc_one_def)
    qed
  qed (simp_all add: esc_char_def unesc_one_def)
qed

lemma esc_append_inj:
  "esc s @ CHR 0x22 # r = esc t @ CHR 0x22 # r' \<Longrightarrow> s = t \<and> r = r'"
proof (induction s arbitrary: t)
  case Nil
  show ?case
  proof (cases t)
    case Nil
    with Nil.prems show ?thesis by (simp add: esc_def)
  next
    case (Cons d t')
    then have "unesc_one (CHR 0x22 # r) = Some (d, esc t' @ CHR 0x22 # r')"
      using Nil.prems by (simp add: esc_def unesc_esc_char)
    then show ?thesis by (simp add: unesc_one_def)
  qed
next
  case (Cons c s)
  have un: "unesc_one (esc (c # s) @ CHR 0x22 # r) = Some (c, esc s @ CHR 0x22 # r)"
    by (simp add: esc_def unesc_esc_char)
  show ?case
  proof (cases t)
    case Nil
    then have "unesc_one (CHR 0x22 # r') = Some (c, esc s @ CHR 0x22 # r)"
      using Cons.prems un by (simp add: esc_def)
    then show ?thesis by (simp add: unesc_one_def)
  next
    case (Cons d t')
    have "unesc_one (esc (d # t') @ CHR 0x22 # r') = Some (d, esc t' @ CHR 0x22 # r')"
      by (simp add: esc_def unesc_esc_char)
    then have "Some (c, esc s @ CHR 0x22 # r) = Some (d, esc t' @ CHR 0x22 # r')"
      using un Cons.prems unfolding Cons by simp
    with Cons.IH [of t'] Cons show ?thesis by auto
  qed
qed

lemma quote_append_inj: "quote s @ r = quote t @ r' \<Longrightarrow> s = t \<and> r = r'"
  using esc_append_inj [of s r t r'] by (simp add: quote_def)

lemma quote_inj: "quote s = quote t \<Longrightarrow> s = t"
  using quote_append_inj [of s "[]" t "[]"] by simp

lemma quote_neq_null: "quote s @ r \<noteq> CHR ''n'' # r'"
  by (simp add: quote_def)

subsection \<open>Lengths\<close>

lemma length_esc_char: "length (esc_char c) \<le> 6"
  by (simp add: esc_char_def)

lemma length_esc: "length (esc s) \<le> 6 * length s"
proof (induction s)
  case Nil
  then show ?case by (simp add: esc_def)
next
  case (Cons c s)
  then show ?case using length_esc_char [of c] by (simp add: esc_def)
qed

lemma length_quote: "length (quote s) \<le> 6 * length s + 2"
  using length_esc [of s] by (simp add: quote_def)

end
