(* ===== verification/Protocol.thy ===== *)
theory Protocol
  imports Json
begin

text \<open>
  The shared protocol types (src/protocol/types.ts, outcome.ts, constants.ts): work lanes and
  statuses, work items, completions and goal outcomes, host actions and their results, run events,
  model items, and the composite keys of sessions and actions.

  Optional fields are options. ISO timestamps are modelled by the instant they denote, in
  milliseconds, so \<open>Date.parse(new Date(t).toISOString())\<close> is \<open>t\<close>; every timestamp is a valid one.
\<close>

subsection \<open>Lanes, classes, statuses\<close>

datatype lane = Interactive | Approval | Collaboration | Background

fun lane_priority :: "lane \<Rightarrow> int" where
  "lane_priority Interactive = 4"
| "lane_priority Approval = 3"
| "lane_priority Collaboration = 2"
| "lane_priority Background = 1"

fun lane_name :: "lane \<Rightarrow> string" where
  "lane_name Interactive = ''interactive''"
| "lane_name Approval = ''approval''"
| "lane_name Collaboration = ''collaboration''"
| "lane_name Background = ''background''"

lemma lane_priority_inj: "lane_priority a = lane_priority b \<Longrightarrow> a = b"
  by (cases a; cases b) auto

text \<open>Lanes are ordered by their scheduling priority.\<close>

instantiation lane :: linorder
begin
definition less_eq_lane :: "lane \<Rightarrow> lane \<Rightarrow> bool" where
  "less_eq_lane a b = (lane_priority a \<le> lane_priority b)"
definition less_lane :: "lane \<Rightarrow> lane \<Rightarrow> bool" where
  "less_lane a b = (lane_priority a < lane_priority b)"
instance
  by standard (auto simp: less_eq_lane_def less_lane_def intro: lane_priority_inj)
end

datatype exec_class = Conversation | Operation

definition executionClassOf :: "jobj option \<Rightarrow> lane \<Rightarrow> exec_class" where
  "executionClassOf meta ln =
     (if prop_of meta ''executionClass'' = Some (JStr ''conversation'') then Conversation
      else if prop_of meta ''executionClass'' = Some (JStr ''operation'') then Operation
      else if ln \<in> {Interactive, Approval} then Conversation else Operation)"

datatype work_status =
  Queued | Leased | Waiting | Succeeded | Partial | Blocked | Failed | Cancelled

text \<open>The statuses a work item never leaves.\<close>

definition terminal :: "work_status \<Rightarrow> bool" where
  "terminal st = (st \<notin> {Queued, Leased, Waiting})"

lemma terminal_simps [simp]:
  "\<not> terminal Queued" "\<not> terminal Leased" "\<not> terminal Waiting"
  "terminal Succeeded" "terminal Partial" "terminal Blocked" "terminal Failed" "terminal Cancelled"
  by (simp_all add: terminal_def)

subsection \<open>Goal outcomes\<close>

datatype verification = Passed | NotRun | Inconclusive

datatype goal_status =
  Satisfied | PartialGoal | BlockedGoal | AwaitingInput | AwaitingApproval string | Delegated string

record goal_outcome =
  go_status :: goal_status
  go_verification :: verification
  go_requestVersion :: int
  go_gaps :: "string list option"
  go_question :: "string option"

definition isWaitingOutcome :: "goal_outcome option \<Rightarrow> bool" where
  "isWaitingOutcome g = (case g of None \<Rightarrow> False
     | Some o' \<Rightarrow> (case go_status o' of AwaitingInput \<Rightarrow> True | AwaitingApproval _ \<Rightarrow> True
         | Delegated _ \<Rightarrow> True | _ \<Rightarrow> False))"

fun verification_name :: "verification \<Rightarrow> string" where
  "verification_name Passed = ''passed''"
| "verification_name NotRun = ''not_run''"
| "verification_name Inconclusive = ''inconclusive''"

fun goal_status_name :: "goal_status \<Rightarrow> string" where
  "goal_status_name Satisfied = ''satisfied''"
| "goal_status_name PartialGoal = ''partial''"
| "goal_status_name BlockedGoal = ''blocked''"
| "goal_status_name AwaitingInput = ''awaiting_input''"
| "goal_status_name (AwaitingApproval _) = ''awaiting_approval''"
| "goal_status_name (Delegated _) = ''delegated''"

text \<open>The outcome as the object that crosses the wire.\<close>

definition goal_json :: "goal_outcome \<Rightarrow> json" where
  "goal_json g = JObj
     ([(''status'', JStr (goal_status_name (go_status g))),
       (''verification'', JStr (verification_name (go_verification g))),
       (''requestVersion'', JNum (go_requestVersion g))]
      @ (case go_gaps g of None \<Rightarrow> [] | Some gs \<Rightarrow> [(''gaps'', JArr (map JStr gs))])
      @ (case go_question g of None \<Rightarrow> [] | Some q \<Rightarrow> [(''question'', JStr q)])
      @ (case go_status g of AwaitingApproval a \<Rightarrow> [(''approvalId'', JStr a)]
          | Delegated t \<Rightarrow> [(''taskRef'', JStr t)] | _ \<Rightarrow> []))"

text \<open>The runtime check of an unknown value.\<close>

definition isGoalOutcome :: "json \<Rightarrow> bool" where
  "isGoalOutcome v = (case v of JObj item \<Rightarrow>
      (case map_of item ''requestVersion'' of Some (JNum n) \<Rightarrow> safe_int n \<and> n > 0 | _ \<Rightarrow> False)
    \<and> (case str_of (map_of item ''verification'') of
         Some s \<Rightarrow> s \<in> set [''passed'', ''not_run'', ''inconclusive''] | None \<Rightarrow> False)
    \<and> (case str_of (map_of item ''status'') of
         Some s \<Rightarrow> s \<in> set [''satisfied'', ''partial'', ''awaiting_input'', ''awaiting_approval'',
                     ''delegated'', ''blocked''] | None \<Rightarrow> False)
    \<and> (case map_of item ''gaps'' of None \<Rightarrow> True
         | Some (JArr gs) \<Rightarrow> list_all (\<lambda>g. case g of JStr _ \<Rightarrow> True | _ \<Rightarrow> False) gs | _ \<Rightarrow> False)
    \<and> (case map_of item ''question'' of None \<Rightarrow> True
         | Some q \<Rightarrow> str_of (map_of item ''status'') = Some ''awaiting_input''
             \<and> (case q of JStr t \<Rightarrow> \<not> blank t \<and> js_len t \<le> 4000 | _ \<Rightarrow> False))
    \<and> (str_of (map_of item ''status'') \<noteq> Some ''satisfied''
         \<or> (case map_of item ''gaps'' of None \<Rightarrow> True | Some (JArr gs) \<Rightarrow> gs = [] | _ \<Rightarrow> False))
    \<and> (str_of (map_of item ''status'') \<noteq> Some ''awaiting_approval''
         \<or> (case map_of item ''approvalId'' of Some (JStr a) \<Rightarrow> \<not> blank a | _ \<Rightarrow> False))
    \<and> (str_of (map_of item ''status'') \<noteq> Some ''delegated''
         \<or> (case map_of item ''taskRef'' of Some (JStr t) \<Rightarrow> \<not> blank t | _ \<Rightarrow> False))
   | _ \<Rightarrow> False)"

text \<open>What \<^const>\<open>isGoalOutcome\<close> accepts of the outcomes the types allow.\<close>

definition valid_goal :: "goal_outcome \<Rightarrow> bool" where
  "valid_goal g = (safe_int (go_requestVersion g) \<and> go_requestVersion g > 0
     \<and> (\<forall>q. go_question g = Some q \<longrightarrow> go_status g = AwaitingInput \<and> \<not> blank q \<and> js_len q \<le> 4000)
     \<and> (go_status g = Satisfied \<longrightarrow> go_gaps g \<in> {None, Some []})
     \<and> (\<forall>a. go_status g = AwaitingApproval a \<longrightarrow> \<not> blank a)
     \<and> (\<forall>t. go_status g = Delegated t \<longrightarrow> \<not> blank t))"

lemma isGoalOutcome_goal_json: "isGoalOutcome (goal_json g) = valid_goal g"
  by (cases "go_status g"; cases "go_verification g"; cases "go_gaps g"; cases "go_question g")
    (auto simp: isGoalOutcome_def goal_json_def valid_goal_def str_of_def list_all_iff)

subsection \<open>Completions\<close>

datatype completion_status = CompCompleted | CompFailed | CompCancelled

record completion =
  cp_status :: completion_status
  cp_goalOutcome :: "goal_outcome option"
  cp_error :: "string option"

definition workStatusOf :: "completion \<Rightarrow> work_status" where
  "workStatusOf c = (case cp_status c of
      CompFailed \<Rightarrow> Failed
    | CompCancelled \<Rightarrow> Cancelled
    | CompCompleted \<Rightarrow> (case cp_goalOutcome c of
        None \<Rightarrow> Succeeded
      | Some g \<Rightarrow> (case go_status g of
            AwaitingInput \<Rightarrow> Waiting | AwaitingApproval _ \<Rightarrow> Waiting | Delegated _ \<Rightarrow> Waiting
          | PartialGoal \<Rightarrow> Partial | BlockedGoal \<Rightarrow> Blocked | Satisfied \<Rightarrow> Succeeded)))"

lemma workStatusOf_cases: "workStatusOf c = Waiting \<or> terminal (workStatusOf c)"
  by (simp add: workStatusOf_def split: completion_status.splits option.splits goal_status.splits)

subsection \<open>Work items and the session key\<close>

record work_item =
  wi_id :: string
  wi_fence :: int
  wi_homeEpoch :: int
  wi_tenantId :: string
  wi_agentId :: string
  wi_sessionId :: string
  wi_threadId :: "string option"
  wi_kind :: string
  wi_lane :: lane
  wi_triggerRef :: string
  wi_principalId :: "string option"
  wi_createdAt :: int
  wi_availableAt :: int
  wi_attempts :: int
  wi_preemptions :: int
  wi_meta :: "jobj option"

text \<open>\<open>JSON.stringify([tenantId, agentId, sessionId, threadId ?? null])\<close>\<close>

definition opt_json :: "string option \<Rightarrow> json" where
  "opt_json t = (case t of None \<Rightarrow> JNull | Some s \<Rightarrow> JStr s)"

definition sessionKeyOf :: "string \<Rightarrow> string \<Rightarrow> string \<Rightarrow> string option \<Rightarrow> string" where
  "sessionKeyOf tenant agent session thread =
     stringify (JArr [JStr tenant, JStr agent, JStr session, opt_json thread])"

definition work_session_key :: "work_item \<Rightarrow> string" where
  "work_session_key w = sessionKeyOf (wi_tenantId w) (wi_agentId w) (wi_sessionId w) (wi_threadId w)"

lemma sessionKeyOf_inj:
  assumes "sessionKeyOf t a s th = sessionKeyOf t' a' s' th'"
  shows "t = t' \<and> a = a' \<and> s = s' \<and> th = th'"
proof -
  let ?tl = "\<lambda>th. stringify (opt_json th) @ '']''"
  have eq: "quote t @ '','' @ quote a @ '','' @ quote s @ '','' @ ?tl th
      = quote t' @ '','' @ quote a' @ '','' @ quote s' @ '','' @ ?tl th'"
    using assms by (simp add: sessionKeyOf_def)
  from quote_append_inj [OF eq]
  have t: "t = t'" and eq: "quote a @ '','' @ quote s @ '','' @ ?tl th
      = quote a' @ '','' @ quote s' @ '','' @ ?tl th'" by auto
  from quote_append_inj [OF eq]
  have a: "a = a'" and eq: "quote s @ '','' @ ?tl th = quote s' @ '','' @ ?tl th'" by auto
  from quote_append_inj [OF eq] have s: "s = s'" and eq: "?tl th = ?tl th'" by auto
  have "th = th'"
  proof (cases th; cases th')
    fix x y
    assume *: "th = Some x" "th' = Some y"
    then have "quote x @ '']'' = quote y @ '']''" using eq by (simp add: opt_json_def)
    from quote_append_inj [OF this] * show ?thesis by simp
  qed (use eq in \<open>auto simp: opt_json_def quote_def\<close>)
  with t a s show ?thesis by blast
qed

subsection \<open>Host actions\<close>

record host_action =
  ha_runId :: string
  ha_cellId :: string
  ha_callIndex :: int
  ha_action :: string
  ha_args :: jobj
  ha_key :: string

text \<open>\<open>JSON.stringify([runId, cellId, callIndex])\<close>\<close>

definition actionKeyOf :: "string \<Rightarrow> string \<Rightarrow> int \<Rightarrow> string" where
  "actionKeyOf runId cellId callIndex =
     stringify (JArr [JStr runId, JStr cellId, JNum callIndex])"

lemma actionKeyOf_inj:
  assumes "actionKeyOf r c i = actionKeyOf r' c' i'"
  shows "r = r' \<and> c = c' \<and> i = i'"
proof -
  have eq: "quote r @ '','' @ quote c @ '','' @ show_int i @ '']''
      = quote r' @ '','' @ quote c' @ '','' @ show_int i' @ '']''"
    using assms by (simp add: actionKeyOf_def)
  from quote_append_inj [OF eq] have r: "r = r'"
    and eq: "quote c @ '','' @ show_int i @ '']'' = quote c' @ '','' @ show_int i' @ '']''" by auto
  from quote_append_inj [OF eq] have c: "c = c'" and "show_int i @ '']'' = show_int i' @ '']''"
    by auto
  then have "i = i'" by (auto intro: show_int_inj)
  with r c show ?thesis by blast
qed

text \<open>\<open>isDeepStrictEqual\<close> on actions: property order inside the arguments does not count.\<close>

definition action_eq :: "host_action \<Rightarrow> host_action \<Rightarrow> bool" where
  "action_eq a b = (ha_runId a = ha_runId b \<and> ha_cellId a = ha_cellId b
     \<and> ha_callIndex a = ha_callIndex b \<and> ha_action a = ha_action b
     \<and> obj_eq (ha_args a) (ha_args b) \<and> ha_key a = ha_key b)"

datatype exec_state = Rejected | NoEffect | SucceededState | AwaitingApprovalState | Unknown

record artifact =
  af_path :: string
  af_size :: int
  af_mime :: string
  af_sha256 :: string
  af_source :: "(string \<times> string) option"

datatype directive_type = Defer | TaskContractDirective

record directive =
  dv_type :: directive_type
  dv_reason :: "string option"
  dv_data :: "jobj option"

text \<open>A source excerpt returned by an authorized read (\<open>EvidenceItem\<close> without marker and key).\<close>

record source_excerpt =
  se_sourceId :: string
  se_sourceVersion :: string
  se_chunkId :: string
  se_title :: string
  se_excerpt :: string
  se_url :: "string option"
  se_truncated :: "bool option"

record observation =
  ob_resourceType :: string
  ob_resourceId :: string
  ob_version :: string
  ob_full :: bool

record action_result =
  hr_ok :: bool
  hr_state :: "exec_state option"
  hr_code :: "string option"
  hr_value :: "json option"
  hr_artifacts :: "artifact list option"
  hr_error :: "string option"
  hr_approval :: "string option"
  hr_directive :: "directive option"
  hr_evidence :: "source_excerpt list option"
  hr_observations :: "observation list option"

definition empty_result :: "bool \<Rightarrow> action_result" where
  "empty_result b = \<lparr>hr_ok = b, hr_state = None, hr_code = None, hr_value = None,
     hr_artifacts = None, hr_error = None, hr_approval = None, hr_directive = None,
     hr_evidence = None, hr_observations = None\<rparr>"

definition directive_eq :: "directive \<Rightarrow> directive \<Rightarrow> bool" where
  "directive_eq a b = (dv_type a = dv_type b \<and> dv_reason a = dv_reason b
     \<and> opt_eq obj_eq (dv_data a) (dv_data b))"

definition result_eq :: "action_result \<Rightarrow> action_result \<Rightarrow> bool" where
  "result_eq a b = (hr_ok a = hr_ok b \<and> hr_state a = hr_state b \<and> hr_code a = hr_code b
     \<and> opt_eq deep_eq (hr_value a) (hr_value b) \<and> hr_artifacts a = hr_artifacts b
     \<and> hr_error a = hr_error b \<and> hr_approval a = hr_approval b
     \<and> opt_eq directive_eq (hr_directive a) (hr_directive b) \<and> hr_evidence a = hr_evidence b
     \<and> hr_observations a = hr_observations b)"

record capability_grant =
  cg_name :: string
  cg_methods :: "string list option"

subsection \<open>Run events and model items\<close>

datatype run_stage = StStarted | StDelta | StCompleted | StFailed | StCancelled
datatype visibility = UserVisible | InternalOnly

record run_event =
  ev_runId :: string
  ev_seq :: int
  ev_kind :: string
  ev_stage :: run_stage
  ev_visibility :: visibility
  ev_data :: jobj

definition RUN_SEQUENCE_SPAN :: int where
  "RUN_SEQUENCE_SPAN = 100000"

datatype msg_role = RoleUser | RoleAssistant | RoleSystem

datatype model_item =
    Msg msg_role string
  | FunCall string string string "string option"
  | FunOut string string

record steer =
  st_id :: string
  st_text :: string
  st_createdAt :: int

end
