(* ===== verification/WorkStore.thy ===== *)
theory WorkStore
  imports Protocol
begin

text \<open>
  \<open>MemoryWorkStore\<close> of src/control-plane/memory-store.ts, the executable specification of the lease
  state machine: queueing, claiming under session exclusivity and worker routing, heartbeats,
  yielding, settling, cancelling a work tree, preemption and steering.

  A method is a function of the clock reading \<open>now\<close> (the injected \<open>this.now()\<close>, constant during
  one synchronous method), of the fresh random values it draws (lease token, uuid), and of the
  store; \<open>hash\<close> is the SHA-256 of node:crypto.
\<close>

subsection \<open>State\<close>

record work_row =
  row_id :: string
  row_fence :: int
  row_tenantId :: string
  row_agentId :: string
  row_sessionId :: string
  row_threadId :: "string option"
  row_kind :: string
  row_lane :: lane
  row_triggerRef :: string
  row_principalId :: "string option"
  row_priority :: int
  row_status :: work_status
  row_createdAt :: int
  row_availableAt :: int
  row_attempts :: int
  row_preemptions :: int
  row_leaseTokenHash :: "string option"
  row_leasedBy :: "string option"
  row_leaseExpiresAt :: "int option"
  row_cancelRequestedAt :: "int option"
  row_preemptRequestedAt :: "int option"
  row_steerInputs :: "steer list"
  row_error :: "string option"
  row_meta :: "jobj option"
  row_goalOutcome :: "goal_outcome option"

record session_route =
  rt_workerId :: string
  rt_homeEpoch :: int

record session_lease =
  sl_workId :: string
  sl_fence :: int
  sl_expiresAt :: int

record claim_record =
  cr_workerId :: string
  cr_work :: "(work_item \<times> string) option"
  cr_kinds :: "string list option"
  cr_lanes :: "lane list option"
  cr_class :: "exec_class option"

record work_store =
  ws_attempts :: "(string, work_item) jsmap"
  ws_rows :: "(string, work_row) jsmap"
  ws_routes :: "(string, session_route) jsmap"
  ws_leases :: "(string, session_lease) jsmap"
  ws_lastSeen :: "(string, int) jsmap"
  ws_claims :: "(string, claim_record) jsmap"
  ws_leaseTtl :: int
  ws_workerTimeout :: int

definition new_work_store :: "int option \<Rightarrow> int option \<Rightarrow> work_store" where
  "new_work_store ttl timeout = \<lparr>ws_attempts = [], ws_rows = [], ws_routes = [], ws_leases = [],
     ws_lastSeen = [], ws_claims = [],
     ws_leaseTtl = (case ttl of None \<Rightarrow> 45000 | Some t \<Rightarrow> t),
     ws_workerTimeout = (case timeout of None \<Rightarrow> 90000 | Some t \<Rightarrow> t)\<rparr>"

abbreviation get_row :: "work_store \<Rightarrow> string \<Rightarrow> work_row option" where
  "get_row s i \<equiv> map_of (ws_rows s) i"

abbreviation set_row :: "work_row \<Rightarrow> work_store \<Rightarrow> work_store" where
  "set_row r s \<equiv> s\<lparr>ws_rows := AList.update (row_id r) r (ws_rows s)\<rparr>"

definition row_session_key :: "work_row \<Rightarrow> string" where
  "row_session_key r = sessionKeyOf (row_tenantId r) (row_agentId r) (row_sessionId r) (row_threadId r)"

text \<open>Tenant and principal agree: the guard of every parent/child relation.\<close>

definition same_owner :: "work_row \<Rightarrow> work_row \<Rightarrow> bool" where
  "same_owner a b = (row_tenantId a = row_tenantId b \<and> row_principalId a = row_principalId b)"

definition parent_of :: "jobj option \<Rightarrow> json option" where
  "parent_of m = prop_of m ''parentWorkId''"

subsection \<open>Lineage queries\<close>

definition attempt_key :: "string \<Rightarrow> int \<Rightarrow> string \<Rightarrow> string" where
  "attempt_key i fence h = stringify (JArr [JStr i, JNum fence, JStr h])"

definition getAttempt :: "string \<Rightarrow> int \<Rightarrow> string \<Rightarrow> work_store \<Rightarrow> work_item option" where
  "getAttempt i fence h s = map_of (ws_attempts s) (attempt_key i fence h)"

definition work_children :: "work_item \<Rightarrow> work_store \<Rightarrow> (string \<times> work_status \<times> goal_outcome option) list" where
  "work_children parent s =
     map (\<lambda>r. (row_id r, row_status r, row_goalOutcome r))
       (take 64 (filter (\<lambda>r. parent_of (row_meta r) = Some (JStr (wi_id parent))
           \<and> row_tenantId r = wi_tenantId parent \<and> row_principalId r = wi_principalId parent)
         (jvalues (ws_rows s))))"

text \<open>The loop of \<open>ownsBudgetRoot\<close>: at most 64 parents are followed, and a repeated one stops it.\<close>

fun owns_loop :: "nat \<Rightarrow> work_store \<Rightarrow> work_item \<Rightarrow> string \<Rightarrow> string list \<Rightarrow> json option \<Rightarrow> bool" where
  "owns_loop 0 s work root seen p = False"
| "owns_loop (Suc d) s work root seen p =
     (case p of
        Some (JStr pid) \<Rightarrow>
          if pid \<in> set seen then False
          else (case get_row s pid of
              None \<Rightarrow> False
            | Some parent \<Rightarrow>
                if row_tenantId parent \<noteq> wi_tenantId work
                  \<or> row_principalId parent \<noteq> wi_principalId work then False
                else if row_id parent = root then True
                else owns_loop d s work root (pid # seen) (parent_of (row_meta parent)))
      | _ \<Rightarrow> False)"

definition ownsBudgetRoot :: "work_item \<Rightarrow> string \<Rightarrow> work_store \<Rightarrow> bool" where
  "ownsBudgetRoot work root s =
     (if root = wi_id work then True
      else if prop_of (wi_meta work) ''rootWorkId'' \<noteq> Some (JStr root) then False
      else owns_loop 64 s work root [wi_id work] (parent_of (wi_meta work)))"

definition hasChild :: "work_item \<Rightarrow> string \<Rightarrow> int \<Rightarrow> work_store \<Rightarrow> bool" where
  "hasChild parent childId requestVersion s =
     (case get_row s childId of
        None \<Rightarrow> False
      | Some child \<Rightarrow> row_tenantId child = wi_tenantId parent
          \<and> row_principalId child = wi_principalId parent
          \<and> parent_of (row_meta child) = Some (JStr (wi_id parent))
          \<and> prop_of (row_meta child) ''parentRequestVersion'' = Some (JNum requestVersion))"

subsection \<open>Enqueueing\<close>

record enqueue_input =
  eq_id :: "string option"
  eq_tenantId :: string
  eq_agentId :: string
  eq_sessionId :: string
  eq_threadId :: "string option"
  eq_kind :: string
  eq_lane :: lane
  eq_triggerRef :: string
  eq_principalId :: "string option"
  eq_availableAt :: "int option"
  eq_priority :: "int option"
  eq_meta :: "jobj option"

text \<open>\<open>...(x ? { principalId: x } : {})\<close>: the empty string is dropped.\<close>

definition truthy_str :: "string option \<Rightarrow> string option" where
  "truthy_str x = (case x of Some t \<Rightarrow> if t = [] then None else Some t | None \<Rightarrow> None)"

definition num_or_zero :: "int option \<Rightarrow> int" where
  "num_or_zero p = (case p of None \<Rightarrow> 0 | Some i \<Rightarrow> i)"

definition new_row :: "int \<Rightarrow> string \<Rightarrow> enqueue_input \<Rightarrow> work_row" where
  "new_row now i input =
     \<lparr>row_id = i, row_fence = 0, row_tenantId = eq_tenantId input, row_agentId = eq_agentId input,
      row_sessionId = eq_sessionId input, row_threadId = eq_threadId input,
      row_kind = eq_kind input, row_lane = eq_lane input, row_triggerRef = eq_triggerRef input,
      row_principalId = truthy_str (eq_principalId input),
      row_priority = num_or_zero (eq_priority input), row_status = Queued,
      row_createdAt = now,
      row_availableAt = (case eq_availableAt input of None \<Rightarrow> now | Some t \<Rightarrow> t),
      row_attempts = 0, row_preemptions = 0, row_leaseTokenHash = None, row_leasedBy = None,
      row_leaseExpiresAt = None, row_cancelRequestedAt = None, row_preemptRequestedAt = None,
      row_steerInputs = [], row_error = None, row_meta = eq_meta input, row_goalOutcome = None\<rparr>"

definition same_request :: "work_row \<Rightarrow> enqueue_input \<Rightarrow> bool" where
  "same_request r input =
     (row_tenantId r = eq_tenantId input \<and> row_agentId r = eq_agentId input
      \<and> row_sessionId r = eq_sessionId input \<and> row_threadId r = eq_threadId input
      \<and> row_principalId r = eq_principalId input \<and> row_kind r = eq_kind input
      \<and> row_lane r = eq_lane input \<and> row_triggerRef r = eq_triggerRef input
      \<and> row_priority r = num_or_zero (eq_priority input)
      \<and> opt_eq obj_eq (row_meta r) (eq_meta input))"

definition enqueue :: "int \<Rightarrow> string \<Rightarrow> enqueue_input \<Rightarrow> (work_store, string \<times> bool) prog" where
  "enqueue now uuid input = (\<lambda>s.
     let i = (case eq_id input of None \<Rightarrow> uuid | Some x \<Rightarrow> x) in
     case get_row s i of
       Some existing \<Rightarrow>
         if \<not> same_request existing input
         then (Inl (JsError ''work identity reused with a different request or principal''), s)
         else (Inr (i, True), s)
     | None \<Rightarrow> (Inr (i, False), s\<lparr>ws_rows := AList.update i (new_row now i input) (ws_rows s)\<rparr>))"

subsection \<open>Claiming\<close>

definition workerAlive :: "string \<Rightarrow> int \<Rightarrow> work_store \<Rightarrow> bool" where
  "workerAlive w now s = (case map_of (ws_lastSeen s) w of
      None \<Rightarrow> False | Some seen \<Rightarrow> now - seen < ws_workerTimeout s)"

definition canon_kinds :: "string list \<Rightarrow> string list" where
  "canon_kinds ks = sort (remdups ks)"

definition canon_lanes :: "lane list \<Rightarrow> lane list" where
  "canon_lanes ls = sort_key lane_name (remdups ls)"

text \<open>The worker's filters, normalised: \<open>[...new Set(xs)].sort()\<close>.\<close>

record claim_request =
  cq_workerId :: string
  cq_requestId :: "string option"
  cq_kinds :: "string list option"
  cq_lanes :: "lane list option"
  cq_class :: "exec_class option"

definition purge_leases :: "int \<Rightarrow> (string, session_lease) jsmap \<Rightarrow> (string, session_lease) jsmap" where
  "purge_leases now m = filter (\<lambda>(k, l). sl_expiresAt l > now) m"

text \<open>A dependency blocks while it is missing, foreign or unfinished; ids are \<open>String(id)\<close>.\<close>

definition dependency_blocks :: "work_store \<Rightarrow> work_row \<Rightarrow> json \<Rightarrow> bool" where
  "dependency_blocks s r d = (case get_row s (js_String d) of
      None \<Rightarrow> True
    | Some dep \<Rightarrow> \<not> same_owner dep r \<or> row_status dep \<in> {Queued, Leased, Waiting})"

definition lease_lapsed :: "int \<Rightarrow> work_row \<Rightarrow> bool" where
  "lease_lapsed now r = (num_or_zero (row_leaseExpiresAt r) \<le> now)"

definition candidate :: "int \<Rightarrow> string list option \<Rightarrow> lane list option \<Rightarrow> exec_class option
    \<Rightarrow> work_store \<Rightarrow> work_row \<Rightarrow> bool" where
  "candidate now kinds lanes cls s r =
     ((case kinds of None \<Rightarrow> True | Some ks \<Rightarrow> row_kind r \<in> set ks)
      \<and> (case lanes of None \<Rightarrow> True | Some ls \<Rightarrow> row_lane r \<in> set ls)
      \<and> (case cls of None \<Rightarrow> True | Some c \<Rightarrow> executionClassOf (row_meta r) (row_lane r) = c)
      \<and> \<not> (row_kind r \<in> {''memory_synthesis'', ''memory_index'', ''memory_evaluation''}
             \<and> row_attempts r \<ge> 3)
      \<and> (row_status r = Queued \<or> row_status r = Leased \<and> lease_lapsed now r)
      \<and> row_cancelRequestedAt r = None
      \<and> \<not> (case prop_of (row_meta r) ''dependsOn'' of
             Some (JArr ds) \<Rightarrow> list_ex (dependency_blocks s r) ds | _ \<Rightarrow> False)
      \<and> \<not> row_availableAt r > now
      \<and> \<not> jhas (ws_leases s) (row_session_key r))"

text \<open>
  The comparator: lane priority plus one per whole minute of waiting, then priority, then a
  session already routed to this worker, then the oldest.
\<close>

definition aged_priority :: "int \<Rightarrow> work_row \<Rightarrow> int" where
  "aged_priority now r = lane_priority (row_lane r) + max 0 (now - row_availableAt r) div 60000"

definition routed_here :: "(string, session_route) jsmap \<Rightarrow> string \<Rightarrow> work_row \<Rightarrow> int" where
  "routed_here routes w r = (case map_of routes (row_session_key r) of
      None \<Rightarrow> 0 | Some rt \<Rightarrow> if rt_workerId rt = w then 1 else 0)"

definition claim_cmp :: "int \<Rightarrow> (string, session_route) jsmap \<Rightarrow> string \<Rightarrow> work_row \<Rightarrow> work_row \<Rightarrow> int" where
  "claim_cmp now routes w a b =
     (let d1 = aged_priority now b - aged_priority now a;
          d2 = row_priority b - row_priority a;
          d3 = routed_here routes w b - routed_here routes w a
      in if d1 \<noteq> 0 then d1 else if d2 \<noteq> 0 then d2 else if d3 \<noteq> 0 then d3
         else row_createdAt a - row_createdAt b)"

definition claim_key :: "int \<Rightarrow> (string, session_route) jsmap \<Rightarrow> string \<Rightarrow> work_row
    \<Rightarrow> int \<times> int \<times> int \<times> int" where
  "claim_key now routes w r =
     (- aged_priority now r, - row_priority r, - routed_here routes w r, row_createdAt r)"

definition toWorkItem :: "work_row \<Rightarrow> int \<Rightarrow> work_item" where
  "toWorkItem r epoch =
     \<lparr>wi_id = row_id r, wi_fence = row_fence r, wi_homeEpoch = epoch,
      wi_tenantId = row_tenantId r, wi_agentId = row_agentId r, wi_sessionId = row_sessionId r,
      wi_threadId = row_threadId r, wi_kind = row_kind r, wi_lane = row_lane r,
      wi_triggerRef = row_triggerRef r, wi_principalId = truthy_str (row_principalId r),
      wi_createdAt = row_createdAt r, wi_availableAt = row_availableAt r,
      wi_attempts = row_attempts r, wi_preemptions = row_preemptions r, wi_meta = row_meta r\<rparr>"

definition home_epoch :: "work_store \<Rightarrow> work_row \<Rightarrow> int" where
  "home_epoch s r = (case map_of (ws_routes s) (row_session_key r) of
      None \<Rightarrow> 1 | Some rt \<Rightarrow> rt_homeEpoch rt)"

text \<open>The route to use: a fresh one, the worker's own, or a takeover with the next home epoch.\<close>

definition take_route :: "string \<Rightarrow> string \<Rightarrow> (string, session_route) jsmap
    \<Rightarrow> int \<times> (string, session_route) jsmap" where
  "take_route w key routes = (case map_of routes key of
      None \<Rightarrow> (1, AList.update key \<lparr>rt_workerId = w, rt_homeEpoch = 1\<rparr> routes)
    | Some rt \<Rightarrow>
        if rt_workerId rt = w then (rt_homeEpoch rt, routes)
        else (rt_homeEpoch rt + 1,
              AList.update key \<lparr>rt_workerId = w, rt_homeEpoch = rt_homeEpoch rt + 1\<rparr> routes))"

definition leased_row :: "int \<Rightarrow> int \<Rightarrow> string \<Rightarrow> string \<Rightarrow> work_row \<Rightarrow> work_row" where
  "leased_row now ttl w h r = r\<lparr>row_status := Leased, row_fence := row_fence r + 1,
     row_leaseTokenHash := Some h, row_leasedBy := Some w, row_leaseExpiresAt := Some (now + ttl),
     row_attempts := row_attempts r + 1\<rparr>"

definition remember_claim :: "claim_request \<Rightarrow> string list option \<Rightarrow> lane list option
    \<Rightarrow> (work_item \<times> string) option \<Rightarrow> work_store \<Rightarrow> work_store" where
  "remember_claim q kinds lanes work s = (case truthy_str (cq_requestId q) of
      None \<Rightarrow> s
    | Some rid \<Rightarrow> s\<lparr>ws_claims := AList.update rid \<lparr>cr_workerId = cq_workerId q, cr_work = work,
        cr_kinds = kinds, cr_lanes = lanes, cr_class = cq_class q\<rparr> (ws_claims s)\<rparr>)"

text \<open>Lease the chosen row under the fresh token and issue its work item.\<close>

definition grant_lease :: "(string \<Rightarrow> string) \<Rightarrow> int \<Rightarrow> string \<Rightarrow> string \<Rightarrow> work_row \<Rightarrow> work_store
    \<Rightarrow> work_item \<times> work_store" where
  "grant_lease hash now token w r s =
     (let key = row_session_key r;
          (epoch, routes) = take_route w key (ws_routes s);
          r' = leased_row now (ws_leaseTtl s) w (hash token) r;
          work = toWorkItem r' epoch
      in (work, s\<lparr>ws_routes := routes,
           ws_rows := AList.update (row_id r') r' (ws_rows s),
           ws_leases := AList.update key \<lparr>sl_workId = row_id r', sl_fence = row_fence r',
             sl_expiresAt = now + ws_leaseTtl s\<rparr> (ws_leases s),
           ws_attempts := AList.update (attempt_key (wi_id work) (wi_fence work) (hash token)) work
             (ws_attempts s)\<rparr>))"

text \<open>The candidates in claiming order.\<close>

definition candidates :: "int \<Rightarrow> string list option \<Rightarrow> lane list option \<Rightarrow> exec_class option
    \<Rightarrow> string \<Rightarrow> work_store \<Rightarrow> work_row list" where
  "candidates now kinds lanes cls w s =
     js_sort (claim_cmp now (ws_routes s) w) (filter (candidate now kinds lanes cls s) (jvalues (ws_rows s)))"

text \<open>
  The part of \<open>claim\<close> after the replay of an earlier request: note that the worker is alive, purge
  expired session leases, and lease the first candidate.
\<close>

definition note_worker :: "int \<Rightarrow> string \<Rightarrow> work_store \<Rightarrow> work_store" where
  "note_worker now w s = s\<lparr>ws_lastSeen := AList.update w now (ws_lastSeen s),
     ws_leases := purge_leases now (ws_leases s)\<rparr>"

definition claim_fresh :: "(string \<Rightarrow> string) \<Rightarrow> int \<Rightarrow> string \<Rightarrow> claim_request \<Rightarrow> string list option
    \<Rightarrow> lane list option \<Rightarrow> work_store \<Rightarrow> (work_item \<times> string) option \<times> work_store" where
  "claim_fresh hash now token q kinds lanes s =
     (let s1 = note_worker now (cq_workerId q) s in
      case candidates now kinds lanes (cq_class q) (cq_workerId q) s1 of
        [] \<Rightarrow> (None, remember_claim q kinds lanes None s1)
      | r # _ \<Rightarrow>
          (case grant_lease hash now token (cq_workerId q) r s1 of
             (work, s2) \<Rightarrow> (Some (work, token), remember_claim q kinds lanes (Some (work, token)) s2)))"

definition evict_claim :: "work_store \<Rightarrow> work_store" where
  "evict_claim s = (if js_len (ws_claims s) \<ge> 10000 then s\<lparr>ws_claims := tl (ws_claims s)\<rparr> else s)"

definition claim :: "(string \<Rightarrow> string) \<Rightarrow> int \<Rightarrow> string \<Rightarrow> claim_request
    \<Rightarrow> (work_store, (work_item \<times> string) option) prog" where
  "claim hash now token q = (\<lambda>s.
     let kinds = map_option canon_kinds (cq_kinds q);
         lanes = map_option canon_lanes (cq_lanes q)
     in case truthy_str (cq_requestId q) of
          None \<Rightarrow> map_prod Inr id (claim_fresh hash now token q kinds lanes s)
        | Some rid \<Rightarrow>
            (case map_of (ws_claims s) rid of
               Some prior \<Rightarrow>
                 if cr_workerId prior \<noteq> cq_workerId q
                 then (Inl (JsError ''claim request identity reused by another worker''), s)
                 else if cr_kinds prior \<noteq> kinds
                 then (Inl (JsError ''claim request task types changed''), s)
                 else if cr_lanes prior \<noteq> lanes
                 then (Inl (JsError ''claim request lanes changed''), s)
                 else if cr_class prior \<noteq> cq_class q
                 then (Inl (JsError ''claim request execution class changed''), s)
                 else (Inr (cr_work prior), s)
             | None \<Rightarrow> map_prod Inr id (claim_fresh hash now token q kinds lanes (evict_claim s))))"

subsection \<open>Operations under a lease\<close>

definition validLease :: "int \<Rightarrow> string \<Rightarrow> int \<Rightarrow> string \<Rightarrow> work_store \<Rightarrow> work_row option" where
  "validLease now i fence h s = (case get_row s i of
      None \<Rightarrow> None
    | Some r \<Rightarrow>
        if row_status r \<noteq> Leased \<or> row_fence r \<noteq> fence then None
        else if row_leaseTokenHash r \<noteq> Some h then None
        else if lease_lapsed now r then None
        else Some r)"

record heartbeat_row =
  hb_cancelRequested :: bool
  hb_preemptRequested :: bool
  hb_steer :: "steer list"

definition heartbeat_view :: "work_row \<Rightarrow> heartbeat_row" where
  "heartbeat_view r = \<lparr>hb_cancelRequested = (row_cancelRequestedAt r \<noteq> None),
     hb_preemptRequested = (row_preemptRequestedAt r \<noteq> None), hb_steer = row_steerInputs r\<rparr>"

text \<open>\<open>leasedBy\<close> is always a non-empty string or null, so its truthiness is its presence.\<close>

definition heartbeat :: "int \<Rightarrow> string \<Rightarrow> int \<Rightarrow> string \<Rightarrow> work_store
    \<Rightarrow> heartbeat_row option \<times> work_store" where
  "heartbeat now i fence h s = (case validLease now i fence h s of
      None \<Rightarrow> (None, s)
    | Some r \<Rightarrow>
        let r' = r\<lparr>row_leaseExpiresAt := Some (now + ws_leaseTtl s)\<rparr>;
            key = row_session_key r
        in (Some (heartbeat_view r),
            s\<lparr>ws_rows := AList.update (row_id r) r' (ws_rows s),
              ws_lastSeen := (case truthy_str (row_leasedBy r) of
                  None \<Rightarrow> ws_lastSeen s | Some w \<Rightarrow> AList.update w now (ws_lastSeen s)),
              ws_leases := (case map_of (ws_leases s) key of
                  None \<Rightarrow> ws_leases s
                | Some l \<Rightarrow> if sl_workId l = i \<and> sl_fence l = fence
                    then AList.update key (l\<lparr>sl_expiresAt := now + ws_leaseTtl s\<rparr>) (ws_leases s)
                    else ws_leases s)\<rparr>))"

text \<open>\<open>LeasedWork\<close>: the work item and whether its cancellation has been requested.\<close>

definition getLeased :: "int \<Rightarrow> string \<Rightarrow> int \<Rightarrow> string \<Rightarrow> work_store \<Rightarrow> (work_item \<times> bool) option" where
  "getLeased now i fence h s = (case validLease now i fence h s of
      None \<Rightarrow> None
    | Some r \<Rightarrow> Some (toWorkItem r (home_epoch s r), row_cancelRequestedAt r \<noteq> None))"

definition releaseSessionLease :: "work_row \<Rightarrow> int \<Rightarrow> work_store \<Rightarrow> work_store" where
  "releaseSessionLease r fence s = (case map_of (ws_leases s) (row_session_key r) of
      None \<Rightarrow> s
    | Some l \<Rightarrow> if sl_workId l = row_id r \<and> sl_fence l = fence
        then s\<lparr>ws_leases := AList.delete (row_session_key r) (ws_leases s)\<rparr> else s)"

definition yielded_row :: "int \<Rightarrow> work_row \<Rightarrow> work_row" where
  "yielded_row now r = r\<lparr>row_status := Queued, row_fence := row_fence r + 1,
     row_leaseTokenHash := None, row_leasedBy := None, row_leaseExpiresAt := None,
     row_preemptRequestedAt := None, row_preemptions := row_preemptions r + 1,
     row_availableAt := now + 1000\<rparr>"

definition yieldWork :: "int \<Rightarrow> string \<Rightarrow> int \<Rightarrow> string \<Rightarrow> work_store \<Rightarrow> bool \<times> work_store" where
  "yieldWork now i fence h s = (case validLease now i fence h s of
      None \<Rightarrow> (False, s)
    | Some r \<Rightarrow>
        if row_preemptRequestedAt r = None then (False, s)
        else (True, releaseSessionLease r fence (set_row (yielded_row now r) s)))"

subsection \<open>Cancelling a work tree\<close>

text \<open>One sweep over the rows, collecting rows whose parent is already collected.\<close>

definition cancel_sweep :: "work_row \<Rightarrow> work_row list \<Rightarrow> string list \<Rightarrow> string list" where
  "cancel_sweep r rs ds = foldl (\<lambda>ds child.
     if same_owner child r \<and> js_String_opt (parent_of (row_meta child)) \<in> set ds
       \<and> row_id child \<notin> set ds
     then ds @ [row_id child] else ds) ds rs"

text \<open>At most 64 sweeps, stopping as soon as one adds nothing.\<close>

fun descendants_loop :: "nat \<Rightarrow> work_row \<Rightarrow> work_row list \<Rightarrow> string list \<Rightarrow> string list" where
  "descendants_loop 0 r rs ds = ds"
| "descendants_loop (Suc d) r rs ds =
     (let ds' = cancel_sweep r rs ds in if ds' = ds then ds else descendants_loop d r rs ds')"

definition cancelled_outcome :: "work_row \<Rightarrow> goal_outcome" where
  "cancelled_outcome r = \<lparr>go_status = BlockedGoal, go_verification = NotRun,
     go_requestVersion = int (length (row_steerInputs r)) + 1,
     go_gaps = Some [''Cancelled by user''], go_question = None\<rparr>"

definition cancelled_row :: "int \<Rightarrow> work_row \<Rightarrow> work_row" where
  "cancelled_row now r =
     (if terminal (row_status r) then r
      else if row_status r = Leased then r\<lparr>row_cancelRequestedAt := Some now\<rparr>
      else r\<lparr>row_cancelRequestedAt := Some now, row_status := Cancelled,
             row_goalOutcome := Some (cancelled_outcome r)\<rparr>)"

definition cancel_target :: "int \<Rightarrow> string \<Rightarrow> work_store \<Rightarrow> work_store" where
  "cancel_target now i s = (case get_row s i of
      None \<Rightarrow> s | Some r \<Rightarrow> set_row (cancelled_row now r) s)"

definition requestCancel :: "int \<Rightarrow> string \<Rightarrow> work_store \<Rightarrow> bool \<times> work_store" where
  "requestCancel now i s = (case get_row s i of
      None \<Rightarrow> (False, s)
    | Some r \<Rightarrow>
        if terminal (row_status r) then (False, s)
        else (True, foldl (\<lambda>s t. cancel_target now t s) s
                (descendants_loop 64 r (jvalues (ws_rows s)) [i])))"

text \<open>
  The loop of \<open>settle\<close> and \<open>addSteer\<close> over a row's children: the rows are visited in insertion order
  while \<open>requestCancel\<close> mutates them in place; parent, tenant and principal never change.
\<close>

definition child_of :: "work_row \<Rightarrow> work_row \<Rightarrow> bool" where
  "child_of r child = (parent_of (row_meta child) = Some (JStr (row_id r)) \<and> same_owner child r)"

definition cancel_children :: "int \<Rightarrow> work_row \<Rightarrow> work_store \<Rightarrow> work_store" where
  "cancel_children now r s =
     foldl (\<lambda>s child. if child_of r child then snd (requestCancel now (row_id child) s) else s)
       s (jvalues (ws_rows s))"

subsection \<open>Settling\<close>

definition settle_refused :: "work_status \<Rightarrow> goal_outcome option \<Rightarrow> work_row \<Rightarrow> bool" where
  "settle_refused status goal r =
     (status \<notin> {Failed, Cancelled} \<and>
      (row_cancelRequestedAt r \<noteq> None
       \<or> str_of (prop_of (row_meta r) ''text'') \<noteq> None \<and> goal = None
       \<or> (case goal of None \<Rightarrow> False
            | Some g \<Rightarrow> go_requestVersion g \<noteq> int (length (row_steerInputs r)) + 1)))"

definition settled_row :: "work_status \<Rightarrow> goal_outcome option \<Rightarrow> string option \<Rightarrow> work_row \<Rightarrow> work_row" where
  "settled_row status goal err r = r\<lparr>row_status := status, row_error := err,
     row_goalOutcome := (case goal of None \<Rightarrow> row_goalOutcome r | Some g \<Rightarrow> Some g),
     row_leaseTokenHash := None, row_leaseExpiresAt := None\<rparr>"

definition settle :: "int \<Rightarrow> string \<Rightarrow> int \<Rightarrow> string \<Rightarrow> work_status \<Rightarrow> goal_outcome option \<Rightarrow> string option
    \<Rightarrow> work_store \<Rightarrow> bool \<times> work_store" where
  "settle now i fence h status goal err s = (case validLease now i fence h s of
      None \<Rightarrow> (False, s)
    | Some r \<Rightarrow>
        if settle_refused status goal r then (False, s)
        else let r' = settled_row status goal err r;
                 s1 = releaseSessionLease r' fence (set_row r' s)
             in (True, if status \<noteq> Waiting then cancel_children now r' s1 else s1))"

definition complete :: "int \<Rightarrow> string \<Rightarrow> int \<Rightarrow> string \<Rightarrow> completion \<Rightarrow> (work_store, bool) prog" where
  "complete now i fence h c = (\<lambda>s.
     if workStatusOf c = Waiting then (Inl (JsError ''waiting requires wait''), s)
     else map_prod Inr id
       (settle now i fence h (workStatusOf c) (cp_goalOutcome c) (cp_error c) s))"

definition wait :: "int \<Rightarrow> string \<Rightarrow> int \<Rightarrow> string \<Rightarrow> goal_outcome \<Rightarrow> work_store \<Rightarrow> bool \<times> work_store" where
  "wait now i fence h g s = settle now i fence h Waiting (Some g) None s"

subsection \<open>Control operations\<close>

definition requestPreempt :: "int \<Rightarrow> string \<Rightarrow> work_store \<Rightarrow> bool \<times> work_store" where
  "requestPreempt now i s = (case get_row s i of
      None \<Rightarrow> (False, s)
    | Some r \<Rightarrow> if row_status r \<noteq> Leased then (False, s)
        else (True, set_row (r\<lparr>row_preemptRequestedAt := Some now\<rparr>) s))"

definition steered_row :: "int \<Rightarrow> string \<Rightarrow> string \<Rightarrow> work_row \<Rightarrow> work_row" where
  "steered_row now uuid text r =
     r\<lparr>row_steerInputs := row_steerInputs r @ [\<lparr>st_id = uuid, st_text = text, st_createdAt = now\<rparr>],
       row_status := (if row_status r = Waiting then Queued else row_status r),
       row_goalOutcome := None\<rparr>"

definition addSteer :: "int \<Rightarrow> string \<Rightarrow> string \<Rightarrow> string \<Rightarrow> work_store \<Rightarrow> bool \<times> work_store" where
  "addSteer now uuid i text s = (case get_row s i of
      None \<Rightarrow> (False, s)
    | Some r \<Rightarrow>
        if terminal (row_status r) \<or> row_cancelRequestedAt r \<noteq> None then (False, s)
        else let r' = steered_row now uuid text r in (True, cancel_children now r' (set_row r' s)))"

subsection \<open>Test helpers of the class\<close>

definition expireLease :: "string \<Rightarrow> work_store \<Rightarrow> work_store" where
  "expireLease i s = (case get_row s i of
      None \<Rightarrow> s
    | Some r \<Rightarrow> set_row (r\<lparr>row_leaseExpiresAt := Some 0\<rparr>)
        (s\<lparr>ws_leases := AList.delete (row_session_key r) (ws_leases s)\<rparr>))"

definition markWorkerDead :: "string \<Rightarrow> work_store \<Rightarrow> work_store" where
  "markWorkerDead w s = s\<lparr>ws_lastSeen := AList.update w 0 (ws_lastSeen s)\<rparr>"

end
