(* ===== verification/WorkStoreInv.thy ===== *)
theory WorkStoreInv
  imports WorkStore
begin

text \<open>
  How the rows of the work store evolve. Every operation changes a row only by the few
  transformations of \<open>row_evol\<close>; what those preserve (identity, fences, terminal states, dead
  lease proofs, cancellation) therefore holds along every run of the store, a sequence of
  \<open>wstep\<close> transitions at non-decreasing clock readings.
\<close>

subsection \<open>The transformations of one row\<close>

inductive row_evol :: "int \<Rightarrow> work_row \<Rightarrow> work_row \<Rightarrow> bool" for now :: int where
  lease: "row_status r = Queued \<or> row_status r = Leased \<and> lease_lapsed now r \<Longrightarrow>
    row_cancelRequestedAt r = None \<Longrightarrow> row_evol now r (leased_row now ttl w h r)"
| renew: "row_status r = Leased \<Longrightarrow> \<not> lease_lapsed now r \<Longrightarrow>
    row_evol now r (r\<lparr>row_leaseExpiresAt := Some e\<rparr>)"
| yield: "row_status r = Leased \<Longrightarrow> row_evol now r (yielded_row now r)"
| settle: "row_status r = Leased \<Longrightarrow> \<not> settle_refused st goal r \<Longrightarrow> st = Waiting \<or> terminal st \<Longrightarrow>
    row_evol now r (settled_row st goal err r)"
| cancel: "row_evol now r (cancelled_row now r)"
| preempt: "row_status r = Leased \<Longrightarrow> row_evol now r (r\<lparr>row_preemptRequestedAt := Some now\<rparr>)"
| steer: "\<not> terminal (row_status r) \<Longrightarrow> row_cancelRequestedAt r = None \<Longrightarrow>
    row_evol now r (steered_row now uuid text r)"

lemmas row_change_defs = leased_row_def yielded_row_def settled_row_def cancelled_row_def steered_row_def

text \<open>What identifies the request of a row.\<close>

definition row_identity :: "work_row \<Rightarrow> string \<times> string \<times> string \<times> string \<times> string option" where
  "row_identity r = (row_id r, row_tenantId r, row_agentId r, row_sessionId r, row_threadId r)"

definition row_request :: "work_row \<Rightarrow> string \<times> lane \<times> string \<times> string option \<times> int \<times> int \<times> jobj option" where
  "row_request r = (row_kind r, row_lane r, row_triggerRef r, row_principalId r, row_priority r,
     row_createdAt r, row_meta r)"

lemma row_evol_same:
  assumes "row_evol now r r'"
  shows "row_identity r' = row_identity r \<and> row_request r' = row_request r"
  using assms by cases (simp_all add: row_identity_def row_request_def row_change_defs)

lemma row_evol_steps_same:
  assumes "(row_evol now)\<^sup>*\<^sup>* r r'"
  shows "row_identity r' = row_identity r \<and> row_request r' = row_request r"
  using assms by (induction rule: rtranclp_induct) (auto dest: row_evol_same)

lemma row_evol_fence: "row_evol now r r' \<Longrightarrow> row_fence r \<le> row_fence r'"
  by (induction rule: row_evol.induct) (simp_all add: row_change_defs)

lemma row_evol_terminal: "row_evol now r r' \<Longrightarrow> terminal (row_status r) \<Longrightarrow> r' = r"
  by (induction rule: row_evol.induct) (auto simp: row_change_defs)

text \<open>A proof of a lease of this row: its fence, token hash and an unexpired lease.\<close>

definition row_proof :: "int \<Rightarrow> int \<Rightarrow> string \<Rightarrow> work_row \<Rightarrow> bool" where
  "row_proof now fence h r = (row_status r = Leased \<and> row_fence r = fence
     \<and> row_leaseTokenHash r = Some h \<and> \<not> lease_lapsed now r)"

lemma validLease_iff: "validLease now i fence h s = Some r \<longleftrightarrow> get_row s i = Some r \<and> row_proof now fence h r"
  by (auto simp: validLease_def row_proof_def split: option.splits if_splits)

lemma validLease_None_iff:
  "validLease now i fence h s = None \<longleftrightarrow> (\<forall>r. get_row s i = Some r \<longrightarrow> \<not> row_proof now fence h r)"
  using validLease_iff [of now i fence h s] by (metis not_None_eq)

text \<open>The proof is spent: the row has reached its fence and the proof does not hold.\<close>

definition proof_spent :: "int \<Rightarrow> int \<Rightarrow> string \<Rightarrow> work_row \<Rightarrow> bool" where
  "proof_spent now fence h r = (fence \<le> row_fence r \<and> \<not> row_proof now fence h r)"

lemma row_proof_later: "row_proof t' f h r \<Longrightarrow> t \<le> t' \<Longrightarrow> row_proof t f h r"
  by (auto simp: row_proof_def lease_lapsed_def)

lemma proof_spent_later: "proof_spent t f h r \<Longrightarrow> t \<le> t' \<Longrightarrow> proof_spent t' f h r"
  by (auto simp: proof_spent_def dest: row_proof_later)

lemma row_evol_spent:
  assumes "row_evol now r r'" and "proof_spent now f h r"
  shows "proof_spent now f h r'"
  using assms by cases
    (auto simp: proof_spent_def row_proof_def row_change_defs lease_lapsed_def terminal_def)

lemma row_evol_cancel_kept:
  "row_evol now r r' \<Longrightarrow> row_cancelRequestedAt r \<noteq> None \<Longrightarrow> row_cancelRequestedAt r' \<noteq> None"
  by (induction rule: row_evol.induct) (auto simp: row_change_defs)

text \<open>The statuses a row whose cancellation was requested can still take.\<close>

definition cancelling :: "work_row \<Rightarrow> bool" where
  "cancelling r = (row_cancelRequestedAt r \<noteq> None
     \<and> row_status r \<in> {Queued, Leased, Waiting, Failed, Cancelled})"

lemma row_evol_cancelling:
  assumes "row_evol now r r'" and "cancelling r" shows "cancelling r'"
  using assms by cases (auto simp: cancelling_def row_change_defs settle_refused_def)

lemma row_evol_steer_prefix: "row_evol now r r' \<Longrightarrow> \<exists>new. row_steerInputs r' = row_steerInputs r @ new"
  by (induction rule: row_evol.induct) (auto simp: row_change_defs)

text \<open>A row property kept by every transformation is kept by a sequence of them.\<close>

lemma row_evol_steps_inv:
  assumes "(row_evol now)\<^sup>*\<^sup>* r r'" and "\<And>r r'. row_evol now r r' \<Longrightarrow> P r \<Longrightarrow> P r'" and "P r"
  shows "P r'"
  using assms(1,3) by (induction rule: rtranclp_induct) (auto intro: assms(2))

subsection \<open>Well-formed stores\<close>

text \<open>Rows are stored under their own id.\<close>

definition rows_ok :: "work_store \<Rightarrow> bool" where
  "rows_ok s = (keys_distinct (ws_rows s) \<and> (\<forall>i r. get_row s i = Some r \<longrightarrow> row_id r = i))"

definition live :: "int \<Rightarrow> work_row \<Rightarrow> bool" where
  "live t r = (row_status r = Leased \<and> \<not> lease_lapsed t r)"

text \<open>Every live lease holds its session: the session lease names the row, its fence and expiry.\<close>

definition held_by :: "work_row \<Rightarrow> session_lease" where
  "held_by r = \<lparr>sl_workId = row_id r, sl_fence = row_fence r,
     sl_expiresAt = num_or_zero (row_leaseExpiresAt r)\<rparr>"

definition covered :: "int \<Rightarrow> work_store \<Rightarrow> bool" where
  "covered t s = (\<forall>i r. get_row s i = Some r \<and> live t r
     \<longrightarrow> map_of (ws_leases s) (row_session_key r) = Some (held_by r))"

definition store_ok :: "int \<Rightarrow> work_store \<Rightarrow> bool" where
  "store_ok t s = (rows_ok s \<and> keys_distinct (ws_leases s) \<and> covered t s)"

lemma live_later: "live t' r \<Longrightarrow> t \<le> t' \<Longrightarrow> live t r"
  by (auto simp: live_def lease_lapsed_def)

lemma store_ok_later: "store_ok t s \<Longrightarrow> t \<le> t' \<Longrightarrow> store_ok t' s"
  by (auto simp: store_ok_def covered_def dest: live_later)

lemma store_ok_new: "store_ok t (new_work_store ttl timeout)"
  by (simp add: store_ok_def rows_ok_def covered_def new_work_store_def)

text \<open>How the stores before and after an operation are related, row by row.\<close>

definition evolves :: "int \<Rightarrow> work_store \<Rightarrow> work_store \<Rightarrow> bool" where
  "evolves now s s' = (\<forall>i r. get_row s i = Some r
     \<longrightarrow> (\<exists>r'. get_row s' i = Some r' \<and> (row_evol now)\<^sup>*\<^sup>* r r'))"

lemma evolves_refl [simp]: "evolves now s s"
  by (auto simp: evolves_def)

lemma evolves_trans:
  assumes "evolves now s1 s2" and "evolves now s2 s3" shows "evolves now s1 s3"
  unfolding evolves_def
proof (intro allI impI)
  fix i r
  assume "get_row s1 i = Some r"
  then obtain r2 where "get_row s2 i = Some r2" and 12: "(row_evol now)\<^sup>*\<^sup>* r r2"
    using assms(1) unfolding evolves_def by blast
  then obtain r3 where "get_row s3 i = Some r3" and "(row_evol now)\<^sup>*\<^sup>* r2 r3"
    using assms(2) unfolding evolves_def by blast
  with 12 show "\<exists>r3. get_row s3 i = Some r3 \<and> (row_evol now)\<^sup>*\<^sup>* r r3"
    using rtranclp_trans [OF 12] by blast
qed

lemma evolves_rows: "ws_rows s' = ws_rows s'' \<Longrightarrow> evolves now s s' = evolves now s s''"
  by (simp add: evolves_def)

lemma evolves_set_row:
  "rows_ok s \<Longrightarrow> get_row s i = Some r \<Longrightarrow> row_evol now r r' \<Longrightarrow>
   ws_rows s' = AList.update i r' (ws_rows s) \<Longrightarrow> evolves now s s'"
  by (auto simp: evolves_def)

lemma rows_ok_set:
  "rows_ok s \<Longrightarrow> row_id r' = i \<Longrightarrow> ws_rows s' = AList.update i r' (ws_rows s) \<Longrightarrow> rows_ok s'"
  by (auto simp: rows_ok_def)

text \<open>Replacing a row keeps the cover when the new row is live only as the old one was.\<close>

definition lease_kept :: "int \<Rightarrow> work_row \<Rightarrow> work_row \<Rightarrow> bool" where
  "lease_kept t r r' = (row_id r' = row_id r \<and> row_session_key r' = row_session_key r
     \<and> (live t r' \<longrightarrow> live t r \<and> held_by r' = held_by r))"

lemma store_ok_set_row:
  assumes ok: "store_ok t s" and r: "get_row s i = Some r" and k: "lease_kept t r r'"
  shows "store_ok t (set_row r' s)"
proof -
  have id: "row_id r = i" using ok r by (simp add: store_ok_def rows_ok_def)
  then have id': "row_id r' = i" using k by (simp add: lease_kept_def)
  have "rows_ok (set_row r' s)"
    using ok id' by (simp add: store_ok_def rows_ok_def)
  moreover have "covered t (set_row r' s)"
    using ok r k id' by (auto simp: store_ok_def covered_def lease_kept_def split: if_splits)
  ultimately show ?thesis using ok by (simp add: store_ok_def)
qed

lemma row_session_key_identity: "row_identity r' = row_identity r \<Longrightarrow>
    row_id r' = row_id r \<and> row_session_key r' = row_session_key r"
  by (simp add: row_identity_def row_session_key_def)

lemma lease_kept_unleased: "row_identity r' = row_identity r \<Longrightarrow> row_status r' \<noteq> Leased \<Longrightarrow> lease_kept t r r'"
  using row_session_key_identity [of r' r] by (simp add: lease_kept_def live_def)

lemma lease_kept_same: "row_identity r' = row_identity r \<Longrightarrow> row_status r' = row_status r \<Longrightarrow>
    row_fence r' = row_fence r \<Longrightarrow> row_leaseExpiresAt r' = row_leaseExpiresAt r \<Longrightarrow> lease_kept t r r'"
  using row_session_key_identity [of r' r]
  by (simp add: lease_kept_def live_def held_by_def lease_lapsed_def)

lemma lease_kept_preempt: "lease_kept t r (r\<lparr>row_preemptRequestedAt := p\<rparr>)"
  by (rule lease_kept_same) (simp_all add: row_identity_def)

lemma lease_kept_yield: "lease_kept t r (yielded_row now r)"
  by (rule lease_kept_unleased) (simp_all add: row_identity_def yielded_row_def)

lemma lease_kept_settle: "st \<noteq> Leased \<Longrightarrow> lease_kept t r (settled_row st goal err r)"
  by (rule lease_kept_unleased) (simp_all add: row_identity_def settled_row_def)

lemma lease_kept_cancel: "lease_kept t r (cancelled_row now r)"
proof (cases "row_status r = Leased \<or> terminal (row_status r)")
  case True
  then show ?thesis by (intro lease_kept_same; cases "row_status r") (simp_all add: row_identity_def cancelled_row_def)
next
  case False
  then have "row_status (cancelled_row now r) \<noteq> Leased" by (simp add: cancelled_row_def)
  then show ?thesis by (intro lease_kept_unleased) (simp_all add: row_identity_def cancelled_row_def)
qed

lemma lease_kept_steer: "lease_kept t r (steered_row now uuid text r)"
proof (cases "row_status r = Waiting")
  case True
  then show ?thesis by (intro lease_kept_unleased) (simp_all add: row_identity_def steered_row_def)
next
  case False
  then show ?thesis by (intro lease_kept_same) (simp_all add: row_identity_def steered_row_def)
qed

text \<open>Releasing the session lease of a row that is no longer live.\<close>

lemma release_rows [simp]: "ws_rows (releaseSessionLease r f s) = ws_rows s"
  by (simp add: releaseSessionLease_def split: option.splits)

lemma store_ok_release:
  assumes ok: "store_ok t s" and r: "get_row s (row_id r) = Some r" and dead: "\<not> live t r"
  shows "store_ok t (releaseSessionLease r f s)"
proof (cases "map_of (ws_leases s) (row_session_key r)")
  case None
  then show ?thesis using ok by (simp add: releaseSessionLease_def)
next
  case (Some l)
  show ?thesis
  proof (cases "sl_workId l = row_id r \<and> sl_fence l = f")
    case True
    let ?s = "s\<lparr>ws_leases := AList.delete (row_session_key r) (ws_leases s)\<rparr>"
    have "row_session_key r' \<noteq> row_session_key r" if "get_row s i = Some r'" "live t r'" for i r'
    proof
      assume "row_session_key r' = row_session_key r"
      moreover have "map_of (ws_leases s) (row_session_key r') = Some (held_by r')"
        using ok that by (simp add: store_ok_def covered_def)
      ultimately have "row_id r' = row_id r" using Some True by (simp add: held_by_def)
      moreover have "row_id r' = i" using ok that by (simp add: store_ok_def rows_ok_def)
      ultimately have "r' = r" using r that(1) by (metis option.inject)
      with dead that show False by simp
    qed
    then have "store_ok t ?s" using ok by (auto simp: store_ok_def covered_def rows_ok_def)
    then show ?thesis using Some True by (simp add: releaseSessionLease_def)
  next
    case False
    then show ?thesis using Some ok by (auto simp: releaseSessionLease_def)
  qed
qed

subsection \<open>Each operation\<close>

text \<open>
  \<open>now\<close> is the clock reading of the operation; \<open>good\<close> says that it keeps the invariant and changes
  rows only by \<open>row_evol\<close>.
\<close>

definition good :: "int \<Rightarrow> work_store \<Rightarrow> work_store \<Rightarrow> bool" where
  "good now s s' = (store_ok now s' \<and> evolves now s s')"

lemma good_refl [simp]: "good now s s = store_ok now s"
  by (simp add: good_def)

lemma good_trans: "good now s1 s2 \<Longrightarrow> good now s2 s3 \<Longrightarrow> good now s1 s3"
  by (auto simp: good_def intro: evolves_trans)

lemma good_set_row:
  assumes "store_ok now s" and "get_row s i = Some r" and "row_evol now r r'" and "lease_kept now r r'"
  shows "good now s (set_row r' s)"
proof -
  have "row_id r' = i"
    using assms by (auto simp: store_ok_def rows_ok_def lease_kept_def)
  then have "evolves now s (set_row r' s)"
    using assms by (intro evolves_set_row [of s i r now r']) (auto simp: store_ok_def)
  then show ?thesis using store_ok_set_row [OF assms(1,2,4)] by (simp add: good_def)
qed

text \<open>Replacing a row by an unleased one and releasing its session.\<close>

lemma good_release_row:
  assumes ok: "store_ok now s" and r: "get_row s i = Some r" and ev: "row_evol now r r'"
    and st: "row_status r' \<noteq> Leased"
  shows "good now s (releaseSessionLease r' f (set_row r' s))"
proof -
  have id: "row_identity r' = row_identity r" using row_evol_same [OF ev] by simp
  have g: "good now s (set_row r' s)"
    using good_set_row [OF ok r ev lease_kept_unleased [OF id st]] .
  then have "store_ok now (releaseSessionLease r' f (set_row r' s))"
    using st by (intro store_ok_release) (auto simp: good_def live_def)
  with g show ?thesis by (simp add: good_def evolves_def)
qed

lemma release_identity: "row_identity r' = row_identity r \<Longrightarrow> releaseSessionLease r' f s = releaseSessionLease r f s"
  using row_session_key_identity [of r' r] by (simp add: releaseSessionLease_def split: option.split)

lemma good_new_row:
  assumes ok: "store_ok now s" and new: "get_row s (row_id r) = None" and q: "\<not> live now r"
  shows "good now s (set_row r s)"
proof -
  have "rows_ok (set_row r s)" using ok by (simp add: store_ok_def rows_ok_def)
  moreover have "covered now s" using ok by (simp add: store_ok_def)
  then have "covered now (set_row r s)" using q by (auto simp: covered_def)
  moreover have "evolves now s (set_row r s)" using new by (auto simp: evolves_def)
  ultimately show ?thesis using ok by (simp add: good_def store_ok_def)
qed

lemma new_row_fresh [simp]: "row_id (new_row now i input) = i" "\<not> live t (new_row now i input)"
  by (simp_all add: new_row_def live_def)

lemma good_enqueue:
  assumes ok: "store_ok now s" shows "good now s (snd (enqueue now uuid input s))"
proof -
  let ?i = "case eq_id input of None \<Rightarrow> uuid | Some x \<Rightarrow> x"
  show ?thesis
  proof (cases "get_row s ?i")
    case None
    then have "good now s (set_row (new_row now ?i input) s)"
      by (intro good_new_row [OF ok]) simp_all
    with None show ?thesis by (simp add: enqueue_def Let_def)
  next
    case (Some r)
    then show ?thesis using ok by (simp add: enqueue_def Let_def)
  qed
qed

lemma good_yield: "store_ok now s \<Longrightarrow> good now s (snd (yieldWork now i f h s))"
proof (cases "validLease now i f h s")
  case (Some r)
  assume ok: "store_ok now s"
  from Some have r: "get_row s i = Some r" and "row_status r = Leased"
    by (auto simp: validLease_iff row_proof_def)
  then have "good now s (releaseSessionLease (yielded_row now r) f (set_row (yielded_row now r) s))"
    using ok by (intro good_release_row [OF ok r] row_evol.yield) (simp_all add: yielded_row_def)
  moreover have "row_identity (yielded_row now r) = row_identity r"
    by (simp add: row_identity_def yielded_row_def)
  then have "releaseSessionLease (yielded_row now r) f s' = releaseSessionLease r f s'" for s'
    by (rule release_identity)
  ultimately show ?thesis using Some ok by (simp add: yieldWork_def)
qed (simp add: yieldWork_def)

lemma good_preempt: "store_ok now s \<Longrightarrow> good now s (snd (requestPreempt now i s))"
proof (cases "get_row s i")
  case (Some r)
  assume ok: "store_ok now s"
  show ?thesis
  proof (cases "row_status r = Leased")
    case True
    from good_set_row [OF ok Some row_evol.preempt [OF True] lease_kept_preempt]
    show ?thesis using Some True by (simp add: requestPreempt_def)
  qed (use Some ok in \<open>simp add: requestPreempt_def\<close>)
qed (simp add: requestPreempt_def)

lemma good_cancel_target: "store_ok now s \<Longrightarrow> good now s (cancel_target now i s)"
  by (auto simp: cancel_target_def split: option.splits
      intro!: good_set_row row_evol.cancel lease_kept_cancel)

lemma good_foldl:
  assumes "\<And>s x. store_ok now s \<Longrightarrow> good now s (f s x)"
  shows "store_ok now s \<Longrightarrow> good now s (foldl f s xs)"
proof (induction xs arbitrary: s)
  case (Cons x xs)
  then show ?case using assms [of s x] good_trans [of now s "f s x"] by (simp add: good_def)
qed simp

lemma good_cancel: "store_ok now s \<Longrightarrow> good now s (snd (requestCancel now i s))"
  by (auto simp: requestCancel_def split: option.splits intro: good_foldl good_cancel_target)

lemma good_cancel_children: "store_ok now s \<Longrightarrow> good now s (cancel_children now r s)"
  unfolding cancel_children_def by (rule good_foldl) (auto intro: good_cancel)

lemma good_settle:
  assumes ok: "store_ok now s" and st: "st = Waiting \<or> terminal st"
  shows "good now s (snd (settle now i f h st goal err s))"
proof (cases "validLease now i f h s")
  case (Some r)
  let ?r = "settled_row st goal err r"
  let ?s = "releaseSessionLease ?r f (set_row ?r s)"
  from Some have r: "get_row s i = Some r" and l: "row_status r = Leased"
    by (auto simp: validLease_iff row_proof_def)
  show ?thesis
  proof (cases "settle_refused st goal r")
    case False
    have "row_status ?r \<noteq> Leased" using st by (auto simp: settled_row_def)
    then have g: "good now s ?s"
      using good_release_row [OF ok r row_evol.settle [OF l False st]] by blast
    then have "good now s (cancel_children now ?r ?s)"
      by (meson good_def good_trans good_cancel_children)
    with g Some False show ?thesis by (cases "st = Waiting") (simp_all add: settle_def Let_def)
  qed (use Some ok in \<open>simp add: settle_def\<close>)
qed (simp add: settle_def ok)

lemma good_steer: "store_ok now s \<Longrightarrow> good now s (snd (addSteer now uuid i text s))"
proof (cases "get_row s i")
  case (Some r)
  assume ok: "store_ok now s"
  show ?thesis
  proof (cases "terminal (row_status r) \<or> row_cancelRequestedAt r \<noteq> None")
    case False
    let ?r = "steered_row now uuid text r"
    have "row_evol now r ?r" using False by (intro row_evol.steer) auto
    then have g: "good now s (set_row ?r s)" by (rule good_set_row [OF ok Some]) (rule lease_kept_steer)
    then have "good now s (cancel_children now ?r (set_row ?r s))"
      by (meson good_def good_trans good_cancel_children)
    with Some False show ?thesis by (simp add: addSteer_def Let_def)
  qed (use Some ok in \<open>simp add: addSteer_def\<close>)
qed (simp add: addSteer_def)

subsection \<open>Heartbeats and claims\<close>

text \<open>Writing a live row together with the session lease it holds.\<close>

lemma good_hold:
  assumes ok: "store_ok now s" and r: "get_row s i = Some r" and ev: "row_evol now r r'"
    and free: "live now r \<or> \<not> jhas (ws_leases s) (row_session_key r)"
    and rows: "ws_rows s' = AList.update i r' (ws_rows s)"
    and leases: "ws_leases s' = AList.update (row_session_key r) (held_by r') (ws_leases s)"
  shows "good now s s'"
proof -
  have same: "row_id r' = row_id r" "row_session_key r' = row_session_key r"
    using row_evol_same [OF ev] row_session_key_identity [of r' r] by auto
  have id: "row_id r = i" using ok r by (simp add: store_ok_def rows_ok_def)
  have "rows_ok s'"
    using rows_ok_set [of s r' i s'] ok same(1) id rows by (simp add: store_ok_def)
  moreover have "covered now s'" unfolding covered_def
  proof (intro allI impI, elim conjE)
    fix j x
    assume x: "get_row s' j = Some x" and l: "live now x"
    show "map_of (ws_leases s') (row_session_key x) = Some (held_by x)"
    proof (cases "j = i")
      case True
      then show ?thesis using x rows leases same by simp
    next
      case False
      then have xs: "get_row s j = Some x" using x rows by simp
      then have c: "map_of (ws_leases s) (row_session_key x) = Some (held_by x)"
        using ok l by (simp add: store_ok_def covered_def)
      have "row_session_key x \<noteq> row_session_key r"
      proof
        assume k: "row_session_key x = row_session_key r"
        then have "live now r" using free c by (simp add: jhas_def)
        then have "map_of (ws_leases s) (row_session_key r) = Some (held_by r)"
          using ok r by (simp add: store_ok_def covered_def)
        then have "row_id x = row_id r" using c k by (simp add: held_by_def)
        moreover have "row_id x = j" using ok xs by (simp add: store_ok_def rows_ok_def)
        ultimately show False using False id by simp
      qed
      then show ?thesis using c leases by simp
    qed
  qed
  moreover have "keys_distinct (ws_leases s')" using ok leases by (simp add: store_ok_def)
  moreover have "evolves now s s'"
    using evolves_set_row [OF _ r ev rows] ok by (simp add: store_ok_def)
  ultimately show ?thesis by (simp add: good_def store_ok_def)
qed

lemma good_heartbeat:
  assumes ok: "store_ok now s" shows "good now s (snd (heartbeat now i f h s))"
proof (cases "validLease now i f h s")
  case (Some r)
  then have r: "get_row s i = Some r" and l: "row_status r = Leased" "\<not> lease_lapsed now r"
    and f: "row_fence r = f" by (auto simp: validLease_iff row_proof_def)
  have id: "row_id r = i" using ok r by (simp add: store_ok_def rows_ok_def)
  have "map_of (ws_leases s) (row_session_key r) = Some (held_by r)"
    using ok r l by (simp add: store_ok_def covered_def live_def)
  then have leases: "ws_leases (snd (heartbeat now i f h s)) =
      AList.update (row_session_key r) (held_by (r\<lparr>row_leaseExpiresAt := Some (now + ws_leaseTtl s)\<rparr>))
        (ws_leases s)"
    using Some id f by (simp add: heartbeat_def Let_def held_by_def num_or_zero_def)
  show ?thesis
  proof (rule good_hold [OF ok r])
    show "row_evol now r (r\<lparr>row_leaseExpiresAt := Some (now + ws_leaseTtl s)\<rparr>)"
      using l by (rule row_evol.renew)
  qed (use Some id l leases in \<open>simp_all add: heartbeat_def Let_def live_def\<close>)
qed (simp add: heartbeat_def ok)

lemma map_of_purge: "keys_distinct m \<Longrightarrow>
    map_of (purge_leases now m) k = Some l \<longleftrightarrow> map_of m k = Some l \<and> sl_expiresAt l > now"
  by (simp add: purge_leases_def distinct_map_filter map_of_eq_Some_iff)

lemma keys_distinct_purge: "keys_distinct m \<Longrightarrow> keys_distinct (purge_leases now m)"
  by (simp add: purge_leases_def distinct_map_filter)

lemma good_note_worker:
  assumes ok: "store_ok now s" shows "good now s (note_worker now w s)"
proof -
  let ?m = "ws_leases s"
  have "map_of (purge_leases now ?m) (row_session_key r) = Some (held_by r)"
    if r: "get_row s i = Some r" "live now r" for i r
  proof -
    have "map_of ?m (row_session_key r) = Some (held_by r)"
      using ok r by (simp add: store_ok_def covered_def)
    moreover have "sl_expiresAt (held_by r) > now"
      using r by (simp add: live_def lease_lapsed_def held_by_def)
    ultimately show ?thesis using ok map_of_purge [of ?m] by (simp add: store_ok_def)
  qed
  then have "covered now (note_worker now w s)"
    by (auto simp: covered_def note_worker_def)
  then show ?thesis using ok keys_distinct_purge [of ?m now]
    by (simp add: good_def store_ok_def rows_ok_def note_worker_def evolves_def)
qed

text \<open>What is leased is a candidate.\<close>

lemma set_candidates: "set (candidates now kinds lanes cls w s) =
    {r \<in> set (jvalues (ws_rows s)). candidate now kinds lanes cls s r}"
  by (simp add: candidates_def)

lemma rows_value: "rows_ok s \<Longrightarrow> r \<in> set (jvalues (ws_rows s)) \<Longrightarrow> get_row s (row_id r) = Some r"
  by (auto simp: rows_ok_def map_of_eq_Some_iff)

lemma candidateD:
  assumes "candidates now kinds lanes cls w s = r # rs" and "rows_ok s"
  shows "get_row s (row_id r) = Some r" and "candidate now kinds lanes cls s r"
proof -
  have "r \<in> set (candidates now kinds lanes cls w s)" using assms by simp
  then show "get_row s (row_id r) = Some r" "candidate now kinds lanes cls s r"
    using rows_value [OF assms(2), of r] by (auto simp: set_candidates)
qed

lemma grant_lease_fields:
  "ws_rows (snd (grant_lease hash now token w r s)) =
     AList.update (row_id r) (leased_row now (ws_leaseTtl s) w (hash token) r) (ws_rows s)"
  "ws_leases (snd (grant_lease hash now token w r s)) =
     AList.update (row_session_key r) (held_by (leased_row now (ws_leaseTtl s) w (hash token) r)) (ws_leases s)"
  "fst (grant_lease hash now token w r s) =
     toWorkItem (leased_row now (ws_leaseTtl s) w (hash token) r) (fst (take_route w (row_session_key r) (ws_routes s)))"
  by (simp_all add: grant_lease_def Let_def split_beta leased_row_def held_by_def num_or_zero_def)

lemma good_grant:
  assumes ok: "store_ok now s" and c: "candidates now kinds lanes cls w s = r # rs"
  shows "good now s (snd (grant_lease hash now token w r s))"
proof -
  from ok have rows: "rows_ok s" by (simp add: store_ok_def)
  note cand = candidateD [OF c rows]
  have ev: "row_evol now r (leased_row now (ws_leaseTtl s) w (hash token) r)"
    using cand(2) by (intro row_evol.lease) (auto simp: candidate_def)
  have "\<not> jhas (ws_leases s) (row_session_key r)" using cand(2) by (simp add: candidate_def)
  then show ?thesis
    using good_hold [OF ok cand(1) ev] grant_lease_fields(1,2) by meson
qed

lemma remember_claim_fields [simp]:
  "ws_rows (remember_claim q kinds lanes work s) = ws_rows s"
  "ws_leases (remember_claim q kinds lanes work s) = ws_leases s"
  by (simp_all add: remember_claim_def split: option.splits)

lemma good_frame: "ws_rows s2 = ws_rows s1 \<Longrightarrow> ws_leases s2 = ws_leases s1 \<Longrightarrow> good now s s1 \<Longrightarrow> good now s s2"
  by (simp add: good_def store_ok_def rows_ok_def evolves_def) (auto simp: covered_def)

lemma good_claim_fresh:
  assumes ok: "store_ok now s" shows "good now s (snd (claim_fresh hash now token q kinds lanes s))"
proof -
  let ?s1 = "note_worker now (cq_workerId q) s"
  have g1: "good now s ?s1" by (rule good_note_worker [OF ok])
  show ?thesis
  proof (cases "candidates now kinds lanes (cq_class q) (cq_workerId q) ?s1")
    case Nil
    then show ?thesis using good_frame [OF _ _ g1] by (simp add: claim_fresh_def Let_def)
  next
    case (Cons r rs)
    have "good now ?s1 (snd (grant_lease hash now token (cq_workerId q) r ?s1))"
      using g1 good_grant [OF _ Cons] by (simp add: good_def)
    then have "good now s (snd (grant_lease hash now token (cq_workerId q) r ?s1))"
      using good_trans [OF g1] by blast
    then show ?thesis
      using good_frame by (simp add: claim_fresh_def Let_def Cons split_beta)
  qed
qed

lemma evict_claim_fields [simp]: "ws_rows (evict_claim s) = ws_rows s" "ws_leases (evict_claim s) = ws_leases s"
  by (simp_all add: evict_claim_def)

lemma good_claim:
  assumes ok: "store_ok now s" shows "good now s (snd (claim hash now token q s))"
proof -
  have fresh: "good now s (snd (claim_fresh hash now token q kinds lanes s'))"
    if "s' = s \<or> s' = evict_claim s" for s' kinds lanes
  proof -
    have g: "good now s s'" using that ok good_frame [of s' s now s] by auto
    then show ?thesis using good_claim_fresh [of now s'] good_trans [OF g] by (auto simp: good_def)
  qed
  then show ?thesis using ok by (simp add: claim_def Let_def split: option.split)
qed

subsection \<open>Runs of the store\<close>

text \<open>
  One call on the store, at a clock reading that does not go back. The state pairs the last reading
  with the store. The test helpers \<^const>\<open>expireLease\<close> and \<^const>\<open>markWorkerDead\<close> are not part of a run.
\<close>

type_synonym work_conf = "int \<times> work_store"

inductive wstep :: "(string \<Rightarrow> string) \<Rightarrow> work_conf \<Rightarrow> work_conf \<Rightarrow> bool" for hash :: "string \<Rightarrow> string" where
  w_enqueue: "t \<le> t' \<Longrightarrow> wstep hash (t, s) (t', snd (enqueue t' uuid input s))"
| w_claim: "t \<le> t' \<Longrightarrow> wstep hash (t, s) (t', snd (claim hash t' token q s))"
| w_heartbeat: "t \<le> t' \<Longrightarrow> wstep hash (t, s) (t', snd (heartbeat t' i f h s))"
| w_yield: "t \<le> t' \<Longrightarrow> wstep hash (t, s) (t', snd (yieldWork t' i f h s))"
| w_complete: "t \<le> t' \<Longrightarrow> wstep hash (t, s) (t', snd (complete t' i f h c s))"
| w_wait: "t \<le> t' \<Longrightarrow> wstep hash (t, s) (t', snd (wait t' i f h g s))"
| w_cancel: "t \<le> t' \<Longrightarrow> wstep hash (t, s) (t', snd (requestCancel t' i s))"
| w_preempt: "t \<le> t' \<Longrightarrow> wstep hash (t, s) (t', snd (requestPreempt t' i s))"
| w_steer: "t \<le> t' \<Longrightarrow> wstep hash (t, s) (t', snd (addSteer t' uuid i text s))"

inductive_cases wstepE: "wstep hash (t, s) (t', s')"

definition conf_ok :: "work_conf \<Rightarrow> bool" where
  "conf_ok c = store_ok (fst c) (snd c)"

definition conf_init :: "work_conf \<Rightarrow> bool" where
  "conf_init c = (\<exists>t ttl timeout. c = (t, new_work_store ttl timeout))"

lemma good_complete: "store_ok now s \<Longrightarrow> good now s (snd (complete now i f h c s))"
  using workStatusOf_cases [of c] by (auto simp: complete_def intro: good_settle)

lemma good_wait: "store_ok now s \<Longrightarrow> good now s (snd (wait now i f h g s))"
  by (simp add: wait_def good_settle)

lemmas good_ops = good_enqueue good_claim good_heartbeat good_yield good_complete good_wait
  good_cancel good_preempt good_steer

lemma wstep_good:
  assumes "wstep hash (t, s) (t', s')" and "store_ok t s"
  shows "t \<le> t' \<and> good t' s s'"
proof -
  have "t \<le> t'" using assms(1) by cases auto
  then have "store_ok t' s" using assms(2) store_ok_later by blast
  with assms(1) \<open>t \<le> t'\<close> show ?thesis by cases (auto intro: good_ops)
qed

interpretation store_run: transition_system conf_init "wstep hash" conf_ok for hash
proof
  fix c :: work_conf
  assume "conf_init c"
  then show "conf_ok c" by (auto simp: conf_init_def conf_ok_def store_ok_new)
next
  fix c c' :: work_conf
  assume "conf_ok c" and "wstep hash c c'"
  then show "conf_ok c'"
    using wstep_good by (cases c; cases c') (auto simp: conf_ok_def good_def)
qed

text \<open>Any row property kept by time and by the transformations is kept along a run.\<close>

lemma run_row_inv:
  assumes "(wstep hash)\<^sup>*\<^sup>* c c'" and "conf_ok c" and "get_row (snd c) i = Some r" and "P (fst c) r"
    and evol: "\<And>t r r'. row_evol t r r' \<Longrightarrow> P t r \<Longrightarrow> P t r'"
    and time: "\<And>t t' r. t \<le> t' \<Longrightarrow> P t r \<Longrightarrow> P t' r"
  shows "\<exists>r'. get_row (snd c') i = Some r' \<and> P (fst c') r'"
  using assms(1-4)
proof (induction rule: rtranclp_induct)
  case (step c1 c2)
  then obtain r1 where r1: "get_row (snd c1) i = Some r1" and P: "P (fst c1) r1" by blast
  have ok: "conf_ok c1" using store_run.steps_inv step by blast
  obtain t1 s1 t2 s2 where c: "c1 = (t1, s1)" "c2 = (t2, s2)" by (cases c1; cases c2) blast
  then have le: "t1 \<le> t2" and "evolves t2 s1 s2"
    using wstep_good [of hash t1 s1 t2 s2] step.hyps ok by (auto simp: conf_ok_def good_def)
  then obtain r2 where r2: "get_row s2 i = Some r2" and ev: "(row_evol t2)\<^sup>*\<^sup>* r1 r2"
    using r1 c unfolding evolves_def by auto
  have "P t2 r2" using row_evol_steps_inv [where P = "P t2", OF ev evol time [OF le]] P c by auto
  with r2 c show ?case by auto
qed auto

end
