(* ===== verification/WorkStoreSafety.thy ===== *)
theory WorkStoreSafety
  imports WorkStoreInv
begin

text \<open>
  What the work store guarantees along every run: session exclusivity and fencing of leases,
  absorbing terminal states, cancellation that cannot be overtaken, and idempotent enqueueing.
\<close>

subsection \<open>A concrete run\<close>

text \<open>Two requests of the same session and one of another, the first one claimed.\<close>

definition sample_input :: "string \<Rightarrow> string \<Rightarrow> enqueue_input" where
  "sample_input i session = \<lparr>eq_id = Some i, eq_tenantId = ''t'', eq_agentId = ''a'',
     eq_sessionId = session, eq_threadId = None, eq_kind = ''chat'', eq_lane = Interactive,
     eq_triggerRef = ''m'', eq_principalId = Some ''p'', eq_availableAt = None,
     eq_priority = None, eq_meta = None\<rparr>"

definition sample_claim :: claim_request where
  "sample_claim = \<lparr>cq_workerId = ''w'', cq_requestId = None, cq_kinds = None, cq_lanes = None,
     cq_class = None\<rparr>"

definition sample_queue :: work_store where
  "sample_queue = snd (enqueue 3 [] (sample_input ''z'' ''s2'')
     (snd (enqueue 2 [] (sample_input ''y'' ''s1'')
     (snd (enqueue 1 [] (sample_input ''x'' ''s1'') (new_work_store None None))))))"

definition sample_leased :: work_store where
  "sample_leased = snd (claim id 10 ''tok'' sample_claim sample_queue)"

lemma sample_queue_run: "(wstep hash)\<^sup>*\<^sup>* (0, new_work_store None None) (3, sample_queue)"
proof -
  let ?s0 = "new_work_store None None"
  let ?s1 = "snd (enqueue 1 [] (sample_input ''x'' ''s1'') ?s0)"
  let ?s2 = "snd (enqueue 2 [] (sample_input ''y'' ''s1'') ?s1)"
  have "wstep hash (0, ?s0) (1, ?s1)" "wstep hash (1, ?s1) (2, ?s2)" "wstep hash (2, ?s2) (3, sample_queue)"
    unfolding sample_queue_def by ((rule wstep.w_enqueue, simp)+)
  then show ?thesis by (meson rtranclp.rtrancl_into_rtrancl rtranclp.rtrancl_refl)
qed

lemma sample_leased_run: "(wstep id)\<^sup>*\<^sup>* (0, new_work_store None None) (10, sample_leased)"
  using sample_queue_run [of id] wstep.w_claim [of 3 10 id sample_queue "''tok''" sample_claim]
  by (simp add: sample_leased_def)

lemma sample_init: "conf_init (0, new_work_store None None)"
  by (auto simp: conf_init_def)

lemma sample_lease: "validLease 10 ''x'' 1 ''tok'' sample_leased = get_row sample_leased ''x''
    \<and> get_row sample_leased ''x'' \<noteq> None \<and> get_row sample_leased ''y'' \<noteq> None"
  by code_simp

subsection \<open>Session exclusivity\<close>

lemma getLeased_iff: "getLeased now i f h s = Some (w, x) \<longleftrightarrow> (\<exists>r. validLease now i f h s = Some r
    \<and> w = toWorkItem r (home_epoch s r) \<and> x = (row_cancelRequestedAt r \<noteq> None))"
  by (auto simp: getLeased_def split: option.splits)

lemma work_key_toWorkItem [simp]: "work_session_key (toWorkItem r e) = row_session_key r"
  by (simp add: work_session_key_def toWorkItem_def row_session_key_def)

lemma covered_unique:
  assumes ok: "store_ok t s" and r: "get_row s i = Some r" "live t r" "get_row s j = Some r'" "live t r'"
    and key: "row_session_key r = row_session_key r'"
  shows "i = j"
proof -
  have "map_of (ws_leases s) (row_session_key r) = Some (held_by r)"
    "map_of (ws_leases s) (row_session_key r') = Some (held_by r')"
    using ok r by (auto simp: store_ok_def covered_def)
  then have "row_id r = row_id r'" using key by (simp add: held_by_def)
  moreover have "row_id r = i" "row_id r' = j" using ok r by (auto simp: store_ok_def rows_ok_def)
  ultimately show ?thesis by simp
qed

text \<open>C11: in every state the work store can reach, at most one lease proof is valid per session:
  two proofs the store accepts for work of the same session (tenant, agent, session and thread)
  name the same work item, the same fence and the same token.\<close>

theorem lease_exclusive:
  assumes "conf_init c" and "(wstep hash)\<^sup>*\<^sup>* c (t, s)"
    and "getLeased t i f h s = Some (w, x)" and "getLeased t i' f' h' s = Some (w', x')"
    and "work_session_key w = work_session_key w'"
  shows "i = i' \<and> f = f' \<and> h = h' \<and> w = w'"
proof -
  have ok: "store_ok t s"
    using store_run.reachable_inv [OF assms(1,2)] by (simp add: conf_ok_def)
  from assms(3,4) obtain r r' where
    r: "get_row s i = Some r" "row_proof t f h r" "w = toWorkItem r (home_epoch s r)" and
    r': "get_row s i' = Some r'" "row_proof t f' h' r'" "w' = toWorkItem r' (home_epoch s r')"
    by (auto simp: getLeased_iff validLease_iff)
  have "row_session_key r = row_session_key r'" using assms(5) r(3) r'(3) by simp
  then have "i = i'" using covered_unique [OF ok r(1) _ r'(1)] r(2) r'(2)
    by (simp add: row_proof_def live_def)
  then show ?thesis using r r' by (auto simp: row_proof_def)
qed

lemma lease_exclusive_witness:
  "\<exists>w w'. getLeased 10 ''x'' 1 ''tok'' sample_leased = Some (w, False)
     \<and> getLeased 10 ''x'' 1 ''tok'' sample_leased = Some (w', False) \<and> w = w'"
proof -
  have "getLeased 10 ''x'' 1 ''tok'' sample_leased \<noteq> None" 
    "map_option snd (getLeased 10 ''x'' 1 ''tok'' sample_leased) = Some False" by code_simp+
  then obtain w where w: "getLeased 10 ''x'' 1 ''tok'' sample_leased = Some (w, False)" by auto
  from lease_exclusive [OF sample_init sample_leased_run w w] w show ?thesis by simp
qed

subsection \<open>Fencing\<close>

text \<open>C12: a spent lease proof never becomes valid again. Once the store has reached the fence of a
  proof and refuses it, because the lease was completed, yielded, waited on, expired or reissued
  under a higher fence, it refuses it in every later state.\<close>

theorem spent_proof_stays_spent:
  assumes "conf_init c" and "(wstep hash)\<^sup>*\<^sup>* c (t, s)" and "(wstep hash)\<^sup>*\<^sup>* (t, s) (t', s')"
    and "get_row s i = Some r" and "f \<le> row_fence r" and "validLease t i f h s = None"
  shows "validLease t' i f h s' = None"
proof -
  have ok: "conf_ok (t, s)" using store_run.reachable_inv [OF assms(1,2)] .
  have "proof_spent t f h r" using assms(4-6) by (simp add: validLease_None_iff proof_spent_def)
  then have "\<exists>r'. get_row s' i = Some r' \<and> proof_spent t' f h r'"
    using run_row_inv [where P = "\<lambda>t r. proof_spent t f h r", OF assms(3) ok, of i r] assms(4)
      row_evol_spent proof_spent_later by auto
  then show ?thesis by (auto simp: validLease_None_iff proof_spent_def)
qed

lemma spent_proof_witness: "validLease 60000 ''x'' 1 ''tok'' sample_leased = None \<and>
    validLease 70000 ''x'' 1 ''tok'' (snd (claim id 70000 ''tok'' sample_claim sample_leased)) = None"
proof -
  let ?s1 = "snd (heartbeat 60000 ''x'' 1 ''tok'' sample_leased)"
  let ?s2 = "snd (claim id 70000 ''tok'' sample_claim ?s1)"
  have run: "(wstep id)\<^sup>*\<^sup>* (0, new_work_store None None) (60000, ?s1)"
    using sample_leased_run wstep.w_heartbeat [of 10 60000 id sample_leased "''x''" 1 "''tok''"] by auto
  have next_run: "(wstep id)\<^sup>*\<^sup>* (60000, ?s1) (70000, ?s2)"
    using wstep.w_claim [of 60000 70000 id ?s1 "''tok''" sample_claim] by auto
  have same: "?s1 = sample_leased" and "map_option row_fence (get_row sample_leased ''x'') = Some 1"
    and dead: "validLease 60000 ''x'' 1 ''tok'' sample_leased = None" by code_simp+
  then obtain r where "get_row ?s1 ''x'' = Some r" "1 \<le> row_fence r" by auto
  from spent_proof_stays_spent [OF sample_init run next_run this] dead same show ?thesis by simp
qed

subsection \<open>Terminal work and cancellation\<close>

text \<open>A terminal work item is final. Once a row is succeeded, partial, blocked, failed or
  cancelled, every later state of the store holds exactly the same row: no claim, completion,
  steer, cancellation or preemption changes it, and it is never removed.\<close>

theorem terminal_final:
  assumes "conf_init c" and "(wstep hash)\<^sup>*\<^sup>* c (t, s)" and "(wstep hash)\<^sup>*\<^sup>* (t, s) (t', s')"
    and "get_row s i = Some r" and "terminal (row_status r)"
  shows "get_row s' i = Some r"
proof -
  have ok: "conf_ok (t, s)" using store_run.reachable_inv [OF assms(1,2)] .
  have "\<exists>r'. get_row s' i = Some r' \<and> r' = r"
    using run_row_inv [where P = "\<lambda>t x. x = r", OF assms(3) ok, of i r] assms(4,5)
    by (auto dest: row_evol_terminal)
  then show ?thesis by simp
qed

lemma terminal_final_witness:
  "get_row (snd (claim id 20 ''tok'' sample_claim (snd (requestCancel 15 ''y'' sample_leased)))) ''y''
   = get_row (snd (requestCancel 15 ''y'' sample_leased)) ''y'' \<and>
   map_option row_status (get_row (snd (requestCancel 15 ''y'' sample_leased)) ''y'') = Some Cancelled"
proof -
  let ?s1 = "snd (requestCancel 15 ''y'' sample_leased)"
  let ?s2 = "snd (claim id 20 ''tok'' sample_claim ?s1)"
  have run: "(wstep id)\<^sup>*\<^sup>* (0, new_work_store None None) (15, ?s1)"
    using sample_leased_run wstep.w_cancel [of 10 15 id sample_leased "''y''"] by auto
  have next_run: "(wstep id)\<^sup>*\<^sup>* (15, ?s1) (20, ?s2)"
    using wstep.w_claim [of 15 20 id ?s1 "''tok''" sample_claim] by auto
  have st: "map_option row_status (get_row ?s1 ''y'') = Some Cancelled" by code_simp
  then obtain r where r: "get_row ?s1 ''y'' = Some r" "terminal (row_status r)" by auto
  from terminal_final [OF sample_init run next_run this] r st show ?thesis by simp
qed

text \<open>C13: a cancellation cannot be overtaken. Once the cancellation of an unfinished work item has
  been requested, the request stays recorded and the item can only be leased (until its worker
  notices), queued (after a yield), waiting, failed or cancelled: no later operation lets it
  succeed, even partially.\<close>

theorem cancellation_sticks:
  assumes "conf_init c" and "(wstep hash)\<^sup>*\<^sup>* c (t, s)" and "(wstep hash)\<^sup>*\<^sup>* (t, s) (t', s')"
    and "get_row s i = Some r" and "row_cancelRequestedAt r \<noteq> None" and "\<not> terminal (row_status r)"
  shows "\<exists>r'. get_row s' i = Some r' \<and> row_cancelRequestedAt r' \<noteq> None
     \<and> row_status r' \<in> {Queued, Leased, Waiting, Failed, Cancelled}"
proof -
  have ok: "conf_ok (t, s)" using store_run.reachable_inv [OF assms(1,2)] .
  have "cancelling r" using assms(5,6) by (cases "row_status r") (auto simp: cancelling_def)
  then show ?thesis
    using run_row_inv [where P = "\<lambda>t. cancelling", OF assms(3) ok, of i r] assms(4)
      row_evol_cancelling by (auto simp: cancelling_def)
qed

lemma cancellation_sticks_witness:
  "\<exists>r'. get_row (snd (complete 20 ''x'' 1 ''tok'' \<lparr>cp_status = CompCompleted, cp_goalOutcome = None,
      cp_error = None\<rparr> (snd (requestCancel 15 ''x'' sample_leased)))) ''x'' = Some r'
    \<and> row_cancelRequestedAt r' \<noteq> None \<and> row_status r' \<in> {Queued, Leased, Waiting, Failed, Cancelled}"
proof -
  let ?s1 = "snd (requestCancel 15 ''x'' sample_leased)"
  have run: "(wstep id)\<^sup>*\<^sup>* (0, new_work_store None None) (15, ?s1)"
    using sample_leased_run wstep.w_cancel [of 10 15 id sample_leased "''x''"] by auto
  have "map_option (\<lambda>r. row_cancelRequestedAt r) (get_row ?s1 ''x'') = Some (Some 15)"
    "map_option row_status (get_row ?s1 ''x'') = Some Leased" by code_simp+
  then obtain r where "get_row ?s1 ''x'' = Some r" "row_cancelRequestedAt r \<noteq> None"
    "\<not> terminal (row_status r)" by auto
  from cancellation_sticks [OF sample_init run r_into_rtranclp this, OF wstep.w_complete]
  show ?thesis by simp
qed

subsection \<open>Steering\<close>


definition sample_done :: completion where
  "sample_done = \<lparr>cp_status = CompCompleted, cp_goalOutcome = Some \<lparr>go_status = Satisfied,
     go_verification = Passed, go_requestVersion = 1, go_gaps = None, go_question = None\<rparr>,
     cp_error = None\<rparr>"


end
