(* ===== verification/WorkStoreTree.thy ===== *)
theory WorkStoreTree
  imports WorkStoreSafety
begin

text \<open>
  Trees of work: which rows a cancellation reaches, who may charge a budget root, what yielding a
  cancelled work item does, and enqueueing the same request again.
\<close>

subsection \<open>The cancelled subtree\<close>

text \<open>One parent/child edge between rows of the owner of \<open>r\<close>, and chains of them.\<close>

definition child_edge :: "work_row \<Rightarrow> work_row list \<Rightarrow> string \<Rightarrow> string \<Rightarrow> bool" where
  "child_edge r rs p c = (\<exists>child \<in> set rs. row_id child = c \<and> same_owner child r
     \<and> js_String_opt (parent_of (row_meta child)) = p)"

inductive below :: "work_row \<Rightarrow> work_row list \<Rightarrow> nat \<Rightarrow> string \<Rightarrow> string \<Rightarrow> bool" for r rs where
  here: "below r rs 0 a a"
| down: "child_edge r rs a b \<Longrightarrow> below r rs n b c \<Longrightarrow> below r rs (Suc n) a c"

lemma below_snoc: "below r rs n a b \<Longrightarrow> child_edge r rs b c \<Longrightarrow> below r rs (Suc n) a c"
  by (induction rule: below.induct) (auto intro: below.intros)

lemma cancel_sweep_Cons: "cancel_sweep r (x # rs) ds =
    cancel_sweep r rs (if same_owner x r \<and> js_String_opt (parent_of (row_meta x)) \<in> set ds
       \<and> row_id x \<notin> set ds then ds @ [row_id x] else ds)"
  by (simp add: cancel_sweep_def)

lemma cancel_sweep_mono: "set ds \<subseteq> set (cancel_sweep r rs ds)"
proof (induction rs arbitrary: ds)
  case (Cons x rs)
  from Cons.IH [of "ds @ [row_id x]"] Cons.IH [of ds] show ?case
    unfolding cancel_sweep_Cons by auto
qed (simp add: cancel_sweep_def)

lemma cancel_sweep_child:
  "child \<in> set rs \<Longrightarrow> same_owner child r \<Longrightarrow> js_String_opt (parent_of (row_meta child)) \<in> set ds \<Longrightarrow>
   row_id child \<in> set (cancel_sweep r rs ds)"
proof (induction rs arbitrary: ds)
  case (Cons x rs)
  show ?case
  proof (cases "x = child")
    case True
    let ?ds = "if same_owner x r \<and> js_String_opt (parent_of (row_meta x)) \<in> set ds
       \<and> row_id x \<notin> set ds then ds @ [row_id x] else ds"
    have "row_id child \<in> set ?ds" using True Cons.prems by auto
    then show ?thesis unfolding cancel_sweep_Cons using cancel_sweep_mono [of ?ds r rs] by blast
  next
    case False
    then show ?thesis unfolding cancel_sweep_Cons using Cons by auto
  qed
qed simp

lemma cancel_sweep_edge: "child_edge r rs p c \<Longrightarrow> p \<in> set ds \<Longrightarrow> c \<in> set (cancel_sweep r rs ds)"
  by (auto simp: child_edge_def intro: cancel_sweep_child)

lemma cancel_sweep_distinct: "distinct ds \<Longrightarrow> distinct (cancel_sweep r rs ds)"
  by (induction rs arbitrary: ds) (auto simp: cancel_sweep_Cons, simp add: cancel_sweep_def)

lemma cancel_sweep_sound:
  "b \<in> set (cancel_sweep r rs ds) \<Longrightarrow> \<forall>a \<in> set ds. \<exists>n. below r all n i a \<Longrightarrow> set rs \<subseteq> set all \<Longrightarrow>
   \<exists>n. below r all n i b"
proof (induction rs arbitrary: ds)
  case (Cons x rs)
  let ?c = "same_owner x r \<and> js_String_opt (parent_of (row_meta x)) \<in> set ds \<and> row_id x \<notin> set ds"
  have "\<exists>n. below r all n i (row_id x)" if ?c
  proof -
    from that Cons.prems(2) obtain n where "below r all n i (js_String_opt (parent_of (row_meta x)))" by blast
    moreover have "child_edge r all (js_String_opt (parent_of (row_meta x))) (row_id x)"
      using that Cons.prems(3) by (auto simp: child_edge_def)
    ultimately show ?thesis by (blast intro: below_snoc)
  qed
  then show ?case using Cons.IH Cons.prems unfolding cancel_sweep_Cons
    by (cases ?c) auto
qed (simp add: cancel_sweep_def)

lemma descendants_mono: "set ds \<subseteq> set (descendants_loop d r rs ds)"
proof (induction d arbitrary: ds)
  case (Suc d)
  then show ?case using cancel_sweep_mono [of ds r rs] by (auto simp: Let_def)
qed simp

lemma closed_below:
  assumes "below r rs n a b" and "cancel_sweep r rs ds = ds" and "a \<in> set ds"
  shows "b \<in> set ds"
  using assms
proof (induction rule: below.induct)
  case (down a b n c)
  then have "b \<in> set (cancel_sweep r rs ds)"
    by (blast intro: cancel_sweep_edge)
  with down show ?case by simp
qed

lemma descendants_complete:
  "below r rs n a b \<Longrightarrow> a \<in> set ds \<Longrightarrow> n \<le> d \<Longrightarrow> b \<in> set (descendants_loop d r rs ds)"
proof (induction d arbitrary: ds n a)
  case 0
  then show ?case by (auto elim: below.cases)
next
  case (Suc d)
  let ?ds = "cancel_sweep r rs ds"
  show ?case
  proof (cases "?ds = ds")
    case True
    then show ?thesis using closed_below [OF Suc.prems(1) True Suc.prems(2)] by simp
  next
    case False
    from Suc.prems(1) show ?thesis
    proof cases
      case here
      then show ?thesis
        using Suc.prems(2) descendants_mono [of ds "Suc d" r rs] by blast
    next
      case (down b' m)
      then have "b' \<in> set ?ds" using Suc.prems(2) by (blast intro: cancel_sweep_edge)
      then have "b \<in> set (descendants_loop d r rs ?ds)"
        using Suc.IH [OF down(3)] Suc.prems(3) down(1) by simp
      then show ?thesis using False by (simp add: Let_def)
    qed
  qed
qed

lemma descendants_sound:
  "b \<in> set (descendants_loop d r rs ds) \<Longrightarrow> \<forall>a \<in> set ds. \<exists>n. below r rs n i a \<Longrightarrow> \<exists>n. below r rs n i b"
proof (induction d arbitrary: ds)
  case (Suc d)
  let ?ds = "cancel_sweep r rs ds"
  have "\<forall>a \<in> set ?ds. \<exists>n. below r rs n i a" using cancel_sweep_sound [OF _ Suc.prems(2)] by blast
  then show ?case using Suc by (auto simp: Let_def split: if_splits)
qed auto

lemma descendants_distinct: "distinct ds \<Longrightarrow> distinct (descendants_loop d r rs ds)"
  by (induction d arbitrary: ds) (auto simp: Let_def cancel_sweep_distinct)

text \<open>The loop over the collected rows.\<close>

lemma cancel_target_rows:
  "rows_ok s \<Longrightarrow> rows_ok (cancel_target now i s) \<and> get_row (cancel_target now i s) j =
     (if j = i then map_option (cancelled_row now) (get_row s j) else get_row s j)"
proof -
  assume ok: "rows_ok s"
  have id: "row_id (cancelled_row now r) = row_id r" for r by (simp add: cancelled_row_def)
  show ?thesis using ok by (auto simp: cancel_target_def rows_ok_def id split: option.splits)
qed

lemma cancel_targets_rows:
  "rows_ok s \<Longrightarrow> distinct ds \<Longrightarrow> get_row (foldl (\<lambda>s t. cancel_target now t s) s ds) j =
     (if j \<in> set ds then map_option (cancelled_row now) (get_row s j) else get_row s j)"
proof (induction ds arbitrary: s)
  case (Cons i ds)
  then show ?case using cancel_target_rows [OF Cons.prems(1), of now i] by auto
qed simp

lemma cancelled_row_fields: "\<not> terminal (row_status r) \<Longrightarrow>
    row_cancelRequestedAt (cancelled_row now r) = Some now
    \<and> row_status (cancelled_row now r) = (if row_status r = Leased then Leased else Cancelled)"
  by (simp add: cancelled_row_def)

text \<open>C16: cancelling an unfinished work item succeeds and reaches its whole tree: every unfinished
  row of the same owner at most 64 parent links below it (itself included) has its cancellation
  recorded at once and is cancelled unless it is leased; every row it changes is a descendant, and
  a finished row is left as it is.\<close>

theorem cancel_closure:
  assumes "rows_ok s" and "get_row s i = Some r" and "\<not> terminal (row_status r)"
    and "requestCancel now i s = (b, s')"
  shows "b \<and> (\<forall>j x n. get_row s j = Some x \<and> below r (jvalues (ws_rows s)) n i j \<and> n \<le> 64 \<longrightarrow>
      get_row s' j = Some (cancelled_row now x)) \<and>
    (\<forall>j. get_row s' j \<noteq> get_row s j \<longrightarrow> (\<exists>n. below r (jvalues (ws_rows s)) n i j))"
proof -
  let ?ds = "descendants_loop 64 r (jvalues (ws_rows s)) [i]"
  have "b" and s': "s' = foldl (\<lambda>s t. cancel_target now t s) s ?ds"
    using assms(2-4) by (auto simp: requestCancel_def)
  have rows: "get_row s' j = (if j \<in> set ?ds then map_option (cancelled_row now) (get_row s j) else get_row s j)" for j
    unfolding s' using cancel_targets_rows [OF assms(1)] descendants_distinct [of "[i]"] by simp
  have "j \<in> set ?ds" if "below r (jvalues (ws_rows s)) n i j" "n \<le> 64" for j n
    using descendants_complete [OF that(1) _ that(2)] by simp
  moreover have "\<exists>n. below r (jvalues (ws_rows s)) n i j" if "j \<in> set ?ds" for j
    using descendants_sound [OF that] below.here by fastforce
  ultimately show ?thesis using \<open>b\<close> rows by (metis option.map(2))
qed

definition sample_child :: work_store where
  "sample_child = snd (enqueue 11 [] ((sample_input ''c'' ''s3'')
     \<lparr>eq_meta := Some [(''parentWorkId'', JStr ''y'')]\<rparr>) sample_leased)"

lemma sample_child_run: "(wstep id)\<^sup>*\<^sup>* (0, new_work_store None None) (11, sample_child)"
  using sample_leased_run wstep.w_enqueue [of 10 11 id sample_leased]
  by (auto simp: sample_child_def intro: rtranclp.rtrancl_into_rtrancl)

lemma sample_child_ok: "rows_ok sample_child"
  using store_run.reachable_inv [OF sample_init sample_child_run] by (simp add: conf_ok_def store_ok_def)

lemma cancel_closure_witness:
  "\<exists>x. get_row sample_child ''c'' = Some x \<and>
    get_row (snd (requestCancel 12 ''y'' sample_child)) ''c'' = Some (cancelled_row 12 x)"
proof -
  have "map_option row_status (get_row sample_child ''y'') = Some Queued"
    "get_row sample_child ''c'' \<noteq> None"
    "(case get_row sample_child ''y'' of None \<Rightarrow> False | Some r \<Rightarrow>
       child_edge r (jvalues (ws_rows sample_child)) ''y'' ''c'')" by code_simp+
  then obtain r x where r: "get_row sample_child ''y'' = Some r" "\<not> terminal (row_status r)"
    and x: "get_row sample_child ''c'' = Some x"
    and e: "child_edge r (jvalues (ws_rows sample_child)) ''y'' ''c''" by (auto split: option.splits)
  have "below r (jvalues (ws_rows sample_child)) (Suc 0) ''y'' ''c''"
    by (rule below.down [OF e below.here])
  moreover obtain b s' where c: "requestCancel 12 ''y'' sample_child = (b, s')" by fastforce
  ultimately have "get_row s' ''c'' = Some (cancelled_row 12 x)"
    using cancel_closure [OF sample_child_ok r c] x by fastforce
  with x c show ?thesis by simp
qed

subsection \<open>Budget roots\<close>

text \<open>A chain of parents of the same tenant and principal that ends in the root.\<close>

inductive owned_up :: "work_store \<Rightarrow> work_item \<Rightarrow> json option \<Rightarrow> string \<Rightarrow> bool" for s work where
  found: "get_row s p = Some parent \<Longrightarrow> row_tenantId parent = wi_tenantId work \<Longrightarrow>
    row_principalId parent = wi_principalId work \<Longrightarrow> owned_up s work (Some (JStr p)) (row_id parent)"
| up: "get_row s p = Some parent \<Longrightarrow> row_tenantId parent = wi_tenantId work \<Longrightarrow>
    row_principalId parent = wi_principalId work \<Longrightarrow>
    owned_up s work (parent_of (row_meta parent)) root \<Longrightarrow> owned_up s work (Some (JStr p)) root"

lemma owns_loop_sound: "owns_loop d s work root seen p \<Longrightarrow> owned_up s work p root"
proof (induction d arbitrary: seen p)
  case (Suc d)
  then obtain q where p: "p = Some (JStr q)" by (simp split: option.splits json.splits)
  with Suc.prems obtain r where r: "get_row s q = Some r" by (simp split: option.splits if_splits)
  with p Suc.prems have own: "row_tenantId r = wi_tenantId work" "row_principalId r = wi_principalId work"
    by (simp_all split: if_splits)
  show ?case
  proof (cases "row_id r = root")
    case True
    with owned_up.found [OF r own] p show ?thesis by simp
  next
    case False
    then have "owns_loop d s work root (q # seen) (parent_of (row_meta r))"
      using p r own Suc.prems by (simp split: if_splits)
    from owned_up.up [OF r own Suc.IH [OF this]] p show ?thesis by simp
  qed
qed simp

lemma owned_up_row: "owned_up s work p root \<Longrightarrow>
    \<exists>parent. row_id parent = root \<and> (\<exists>q. get_row s q = Some parent)
      \<and> row_tenantId parent = wi_tenantId work \<and> row_principalId parent = wi_principalId work"
  by (induction rule: owned_up.induct) auto

text \<open>A work item may charge another item's model budget only when its own metadata names that
  item as its root and a chain of parents, all of its own tenant and principal, leads there; in
  particular the root exists and belongs to the same tenant and principal.\<close>

theorem budget_root_owned:
  assumes "rows_ok s" and "ownsBudgetRoot work root s" and "root \<noteq> wi_id work"
  shows "prop_of (wi_meta work) ''rootWorkId'' = Some (JStr root)
    \<and> owned_up s work (parent_of (wi_meta work)) root
    \<and> (\<exists>r. get_row s root = Some r \<and> row_tenantId r = wi_tenantId work \<and> row_principalId r = wi_principalId work)"
proof -
  from assms(2,3) have "prop_of (wi_meta work) ''rootWorkId'' = Some (JStr root)"
    and up: "owned_up s work (parent_of (wi_meta work)) root"
    by (auto simp: ownsBudgetRoot_def intro: owns_loop_sound split: if_splits)
  with owned_up_row [OF up] assms(1) show ?thesis by (auto simp: rows_ok_def)
qed

definition sample_owned :: work_item where
  "sample_owned = toWorkItem (new_row 11 ''d'' ((sample_input ''d'' ''s3'')
     \<lparr>eq_meta := Some [(''parentWorkId'', JStr ''c''), (''rootWorkId'', JStr ''y'')]\<rparr>)) 1"

lemma budget_root_owned_witness:
  "ownsBudgetRoot sample_owned ''y'' sample_child \<and> get_row sample_child ''y'' \<noteq> None"
proof -
  have "ownsBudgetRoot sample_owned ''y'' sample_child" "''y'' \<noteq> wi_id sample_owned" by code_simp+
  with budget_root_owned [OF sample_child_ok this] show ?thesis by auto
qed

subsection \<open>Yielding a cancelled work item\<close>

text \<open>C17: a work item that is yielded after its cancellation was requested is queued with the
  request recorded, and from then on it is never leased again: it stays queued until another
  cancellation request finally cancels it.\<close>

theorem yielded_cancelled_never_runs:
  assumes "conf_init c" and "(wstep hash)\<^sup>*\<^sup>* c (t, s)" and "yieldWork t i f h s = (True, s1)"
    and "get_row s i = Some r" and "row_cancelRequestedAt r \<noteq> None"
    and "(wstep hash)\<^sup>*\<^sup>* (t, s1) (t', s')"
  shows "\<exists>r'. get_row s' i = Some r' \<and> row_status r' \<in> {Queued, Cancelled} \<and> row_cancelRequestedAt r' \<noteq> None"
proof -
  have ok: "conf_ok (t, s)" using store_run.reachable_inv [OF assms(1,2)] .
  have ok1: "conf_ok (t, s1)"
    using good_yield [of t s i f h] ok assms(3) by (simp add: conf_ok_def good_def)
  have "row_id r = i" using ok assms(4) by (auto simp: conf_ok_def store_ok_def rows_ok_def)
  then have "get_row s1 i = Some (yielded_row t r)"
    using assms(3,4) by (auto simp: yieldWork_def validLease_iff yielded_row_def split: option.splits if_splits)
  moreover define P where "P = (\<lambda>(_ :: int) (x :: work_row). row_status x \<in> {Queued, Cancelled} \<and> row_cancelRequestedAt x \<noteq> None)"
  have "P t (yielded_row t r)" using assms(5) by (simp add: P_def yielded_row_def)
  moreover have "P now x'" if "row_evol now x x'" "P now x" for now x x'
    using that by cases (auto simp: P_def row_change_defs)
  ultimately have "\<exists>r'. get_row s' i = Some r' \<and> P t' r'"
    using run_row_inv [where P = P, OF assms(6) ok1, of i "yielded_row t r"] by (auto simp: P_def)
  then show ?thesis by (simp add: P_def)
qed

definition sample_stuck :: work_store where
  "sample_stuck = snd (requestCancel 12 ''x'' (snd (requestPreempt 11 ''x'' sample_leased)))"

lemma yielded_cancelled_witness:
  "fst (yieldWork 12 ''x'' 1 ''tok'' sample_stuck) \<and>
   (\<exists>r'. get_row (snd (claim id 99999 ''tok2'' sample_claim (snd (yieldWork 12 ''x'' 1 ''tok'' sample_stuck)))) ''x'' = Some r'
     \<and> row_status r' \<in> {Queued, Cancelled} \<and> row_cancelRequestedAt r' \<noteq> None)"
proof -
  let ?s0 = "snd (requestPreempt 11 ''x'' sample_leased)" and ?s1 = "snd (yieldWork 12 ''x'' 1 ''tok'' sample_stuck)"
  have "(wstep id)\<^sup>*\<^sup>* (0, new_work_store None None) (11, ?s0)"
    using sample_leased_run wstep.w_preempt [of 10 11 id sample_leased "''x''"] by auto
  then have run: "(wstep id)\<^sup>*\<^sup>* (0, new_work_store None None) (12, sample_stuck)"
    using wstep.w_cancel [of 11 12 id ?s0 "''x''"] by (auto simp: sample_stuck_def)
  have y: "fst (yieldWork 12 ''x'' 1 ''tok'' sample_stuck)"
    "map_option row_cancelRequestedAt (get_row sample_stuck ''x'') = Some (Some 12)" by code_simp+
  then obtain r where r: "get_row sample_stuck ''x'' = Some r" "row_cancelRequestedAt r \<noteq> None" by auto
  have y1: "yieldWork 12 ''x'' 1 ''tok'' sample_stuck = (True, ?s1)"
    using y(1) by (cases "yieldWork 12 ''x'' 1 ''tok'' sample_stuck") simp
  have "(wstep id)\<^sup>*\<^sup>* (12, ?s1) (99999, snd (claim id 99999 ''tok2'' sample_claim ?s1))"
    using wstep.w_claim [of 12 99999 id ?s1 "''tok2''" sample_claim] by auto
  from yielded_cancelled_never_runs [OF sample_init run y1 r this] y(1)
  show ?thesis by blast
qed

subsection \<open>Enqueueing again\<close>

text \<open>Enqueueing is idempotent for good. Enqueueing the same request again under the id it was
  given, in any later state of the store, reports a duplicate and changes nothing, whatever has
  happened to the work item since (the principal, if any, being a non-empty string).\<close>

theorem enqueue_idempotent:
  assumes "conf_init c" and "(wstep hash)\<^sup>*\<^sup>* c (t, s)" and "enqueue t uuid input s = (Inr (i, False), s1)"
    and "(wstep hash)\<^sup>*\<^sup>* (t, s1) (t', s')" and "eq_principalId input \<noteq> Some []"
    and "\<forall>m. eq_meta input = Some m \<longrightarrow> wf_json (JObj m)"
  shows "enqueue t' uuid' (input\<lparr>eq_id := Some i\<rparr>) s' = (Inr (i, True), s')"
proof -
  have ok1: "conf_ok (t, s1)"
    using good_enqueue [of t s uuid input] store_run.reachable_inv [OF assms(1,2)] assms(3)
    by (simp add: conf_ok_def good_def)
  have "get_row s1 i = Some (new_row t i input)"
    using assms(3) by (auto simp: enqueue_def Let_def split: option.splits if_splits)
  then obtain r where r: "get_row s' i = Some r"
    and same: "row_identity r = row_identity (new_row t i input) \<and> row_request r = row_request (new_row t i input)"
    using run_row_inv [where P = "\<lambda>_ x. row_identity x = row_identity (new_row t i input)
        \<and> row_request x = row_request (new_row t i input)", OF assms(4) ok1, of i] row_evol_same by auto
  have "truthy_str (eq_principalId input) = eq_principalId input"
    using assms(5) by (auto simp: truthy_str_def split: option.splits)
  moreover have "opt_eq obj_eq (eq_meta input) (eq_meta input)"
    using assms(6) obj_eq_refl by (auto simp: opt_eq_def split: option.splits)
  ultimately have "same_request r (input\<lparr>eq_id := Some i\<rparr>)"
    using same by (simp add: row_identity_def row_request_def new_row_def same_request_def)
  with r show ?thesis by (simp add: enqueue_def Let_def)
qed

lemma enqueue_idempotent_witness:
  "enqueue 10 ''other'' ((sample_input ''x'' ''s1'')\<lparr>eq_id := Some ''x''\<rparr>) sample_leased = (Inr (''x'', True), sample_leased)"
proof -
  let ?s0 = "new_work_store None None"
  let ?s1 = "snd (enqueue 1 [] (sample_input ''x'' ''s1'') ?s0)"
  let ?s2 = "snd (enqueue 2 [] (sample_input ''y'' ''s1'') ?s1)"
  have "wstep id (1, ?s1) (2, ?s2)" "wstep id (2, ?s2) (3, sample_queue)"
    unfolding sample_queue_def by ((rule wstep.w_enqueue, simp)+)
  moreover have "wstep id (3, sample_queue) (10, sample_leased)"
    unfolding sample_leased_def by (rule wstep.w_claim) simp
  ultimately have run: "(wstep id)\<^sup>*\<^sup>* (1, ?s1) (10, sample_leased)" by auto
  have e: "enqueue 1 [] (sample_input ''x'' ''s1'') ?s0 = (Inr (''x'', False), ?s1)"
    by (simp add: enqueue_def sample_input_def new_work_store_def Let_def)
  have "conf_init (1, ?s0)" by (auto simp: conf_init_def)
  from enqueue_idempotent [OF this rtranclp.rtrancl_refl e run] show ?thesis
    by (simp add: sample_input_def)
qed

end
