(* ===== verification/WorkStoreQueue.thy ===== *)
theory WorkStoreQueue
  imports WorkStoreSafety
begin

text \<open>
  What single operations of the work store do: which row a claim leases, what the claimed lease
  gives access to, replayed claims and enqueues, and the lineage queries.
\<close>

subsection \<open>The claiming order\<close>

interpretation claim_order: js_comparator "claim_cmp now routes w" "claim_key now routes w"
  for now routes w
  by unfold_locales (auto simp: claim_cmp_def claim_key_def Let_def less_eq_prod_def)

definition fresh_request :: "claim_request \<Rightarrow> work_store \<Rightarrow> bool" where
  "fresh_request q s = (case truthy_str (cq_requestId q) of
      None \<Rightarrow> True | Some rid \<Rightarrow> map_of (ws_claims s) rid = None)"

text \<open>The rows a claim may lease, under the normalised filters and after expired leases are purged.\<close>

definition claimable :: "int \<Rightarrow> claim_request \<Rightarrow> work_store \<Rightarrow> work_row \<Rightarrow> bool" where
  "claimable now q s = candidate now (map_option canon_kinds (cq_kinds q))
     (map_option canon_lanes (cq_lanes q)) (cq_class q) (note_worker now (cq_workerId q) s)"

lemma candidate_cong:
  assumes "ws_rows s = ws_rows s'" and "ws_leases s = ws_leases s'"
  shows "candidate now ks ls c s = candidate now ks ls c s'"
proof -
  have d: "dependency_blocks s = dependency_blocks s'"
    using assms by (simp add: dependency_blocks_def fun_eq_iff)
  show ?thesis by (rule ext) (simp only: candidate_def d assms)
qed

lemma candidate_evict [simp]:
  "candidate now ks ls c (note_worker now w (evict_claim s)) = candidate now ks ls c (note_worker now w s)"
  by (rule candidate_cong) (simp_all add: note_worker_def)

lemma note_worker_fields [simp]: "ws_rows (note_worker now w s) = ws_rows s"
  "ws_routes (note_worker now w s) = ws_routes s"
  "ws_leaseTtl (note_worker now w s) = ws_leaseTtl s"
  by (simp_all add: note_worker_def)

lemma evict_more [simp]: "ws_routes (evict_claim s) = ws_routes s" "ws_leaseTtl (evict_claim s) = ws_leaseTtl s"
  by (simp_all add: evict_claim_def)

lemma claimable_candidate:
  assumes "s1 = s \<or> s1 = evict_claim s"
  shows "candidate now (map_option canon_kinds (cq_kinds q)) (map_option canon_lanes (cq_lanes q))
      (cq_class q) (note_worker now (cq_workerId q) s1) = claimable now q s"
  using assms by (elim disjE) (simp_all only: claimable_def candidate_evict)

lemma evict_or_fields:
  assumes "s1 = s \<or> s1 = evict_claim s"
  shows "ws_rows (note_worker now w s1) = ws_rows s" and "ws_routes (note_worker now w s1) = ws_routes s"
    and "ws_leaseTtl (note_worker now w s1) = ws_leaseTtl s"
  using assms by auto

text \<open>A claim that is not a replay, through its sorted candidates.\<close>

lemma claim_fresh_run:
  assumes "fresh_request q s"
  shows "\<exists>s1 ks ls. (s1 = s \<or> s1 = evict_claim s) \<and> ks = map_option canon_kinds (cq_kinds q)
    \<and> ls = map_option canon_lanes (cq_lanes q)
    \<and> claim hash now token q s = map_prod Inr id (claim_fresh hash now token q ks ls s1)"
proof (cases "truthy_str (cq_requestId q)")
  case None
  then have "claim hash now token q s = map_prod Inr id (claim_fresh hash now token q
      (map_option canon_kinds (cq_kinds q)) (map_option canon_lanes (cq_lanes q)) s)"
    by (simp add: claim_def Let_def)
  then show ?thesis by blast
next
  case (Some rid)
  then have "map_of (ws_claims s) rid = None" using assms by (simp add: fresh_request_def)
  with Some have "claim hash now token q s = map_prod Inr id (claim_fresh hash now token q
      (map_option canon_kinds (cq_kinds q)) (map_option canon_lanes (cq_lanes q)) (evict_claim s))"
    by (simp add: claim_def Let_def)
  then show ?thesis by blast
qed

lemma claim_None:
  assumes "fresh_request q s"
  shows "fst (claim hash now token q s) = Inr None \<longleftrightarrow> (\<forall>r \<in> set (jvalues (ws_rows s)). \<not> claimable now q s r)"
proof -
  obtain s1 ks ls where s1: "s1 = s \<or> s1 = evict_claim s" and ks: "ks = map_option canon_kinds (cq_kinds q)"
    "ls = map_option canon_lanes (cq_lanes q)"
    and run: "claim hash now token q s = map_prod Inr id (claim_fresh hash now token q ks ls s1)"
    using claim_fresh_run [OF assms, of hash now token] by (elim exE conjE) (rule that)
  let ?c = "candidates now ks ls (cq_class q) (cq_workerId q) (note_worker now (cq_workerId q) s1)"
  have "fst (claim hash now token q s) = Inr None \<longleftrightarrow> ?c = []"
    unfolding run by (cases ?c) (simp_all add: claim_fresh_def Let_def split_beta)
  also have "\<dots> \<longleftrightarrow> set ?c = {}" by simp
  also have "\<dots> \<longleftrightarrow> (\<forall>r \<in> set (jvalues (ws_rows s)). \<not> claimable now q s r)"
    unfolding set_candidates ks claimable_candidate [OF s1] evict_or_fields [OF s1] by blast
  finally show ?thesis .
qed

lemma claim_Some:
  assumes fresh: "fresh_request q s" and run: "claim hash now token q s = (Inr (Some (w, tok)), s')"
  obtains us r vs where "jvalues (ws_rows s) = us @ r # vs" and "claimable now q s r" and "tok = token"
    and "w = toWorkItem (leased_row now (ws_leaseTtl s) (cq_workerId q) (hash token) r)
           (fst (take_route (cq_workerId q) (row_session_key r) (ws_routes s)))"
    and "\<And>x. x \<in> set (jvalues (ws_rows s)) \<Longrightarrow> claimable now q s x \<Longrightarrow>
      claim_key now (ws_routes s) (cq_workerId q) r \<le> claim_key now (ws_routes s) (cq_workerId q) x"
    and "\<And>x. x \<in> set us \<Longrightarrow> claimable now q s x \<Longrightarrow>
      claim_key now (ws_routes s) (cq_workerId q) r < claim_key now (ws_routes s) (cq_workerId q) x"
    and "ws_rows s' = AList.update (row_id r) (leased_row now (ws_leaseTtl s) (cq_workerId q) (hash token) r) (ws_rows s)"
proof -
  obtain s1 ks ls where s1: "s1 = s \<or> s1 = evict_claim s" and ks: "ks = map_option canon_kinds (cq_kinds q)"
    "ls = map_option canon_lanes (cq_lanes q)"
    and eq: "claim hash now token q s = map_prod Inr id (claim_fresh hash now token q ks ls s1)"
    using claim_fresh_run [OF fresh, of hash now token] by (elim exE conjE) (rule that)
  let ?s = "note_worker now (cq_workerId q) s1" and ?w = "cq_workerId q"
  let ?ok = "candidate now ks ls (cq_class q) ?s"
  have ok: "?ok = claimable now q s" unfolding ks by (rule claimable_candidate [OF s1])
  have same: "ws_rows ?s = ws_rows s" "ws_routes ?s = ws_routes s" "ws_leaseTtl ?s = ws_leaseTtl s"
    by (rule evict_or_fields [OF s1])+
  obtain r rs where c: "candidates now ks ls (cq_class q) ?w ?s = r # rs"
    using eq run by (auto simp: claim_fresh_def Let_def split: list.splits)
  then have sorted: "js_sort (claim_cmp now (ws_routes s) ?w) (filter ?ok (jvalues (ws_rows s))) = r # rs"
    using same by (simp add: candidates_def)
  from claim_order.js_sort_hd_first [OF this] obtain us vs where
    split: "filter ?ok (jvalues (ws_rows s)) = us @ r # vs"
    and first: "\<forall>u \<in> set us. claim_key now (ws_routes s) ?w r < claim_key now (ws_routes s) ?w u" by blast
  from split obtain us' vs' where rows: "jvalues (ws_rows s) = us' @ r # vs'" and us': "filter ?ok us' = us"
    using filter_split [OF split] by (elim exE conjE) (rule that)
  have "r \<in> set (filter ?ok (jvalues (ws_rows s)))" using split by simp
  then have cand: "claimable now q s r" using ok by simp
  have out: "tok = token" "w = fst (grant_lease hash now token ?w r ?s)"
    "ws_rows s' = ws_rows (snd (grant_lease hash now token ?w r ?s))"
    using eq run c by (auto simp: claim_fresh_def Let_def split_beta)
  have least: "claim_key now (ws_routes s) ?w r \<le> claim_key now (ws_routes s) ?w x"
    if "x \<in> set (jvalues (ws_rows s))" "claimable now q s x" for x
    using claim_order.js_sort_hd_least [OF sorted, of x] that ok by simp
  have earlier: "claim_key now (ws_routes s) ?w r < claim_key now (ws_routes s) ?w x"
    if "x \<in> set us'" "claimable now q s x" for x
  proof -
    have "x \<in> set us" using us' that ok by auto
    with first show ?thesis by blast
  qed
  show thesis
    by (rule that [OF rows cand out(1) _ least earlier]) (simp_all only: out grant_lease_fields same)
qed

definition best_claim :: "int \<Rightarrow> claim_request \<Rightarrow> work_store \<Rightarrow> work_row \<Rightarrow> bool" where
  "best_claim now q s r = (\<exists>us vs. jvalues (ws_rows s) = us @ r # vs \<and> claimable now q s r
     \<and> (\<forall>x \<in> set (us @ vs). claimable now q s x \<longrightarrow> claim_key now (ws_routes s) (cq_workerId q) r
          \<le> claim_key now (ws_routes s) (cq_workerId q) x)
     \<and> (\<forall>x \<in> set us. claimable now q s x \<longrightarrow> claim_key now (ws_routes s) (cq_workerId q) r
          < claim_key now (ws_routes s) (cq_workerId q) x))"

text \<open>C15: a claim that is not a replay returns null exactly when no row is claimable; otherwise it
  leases, under the fresh token and the next fence, a claimable row that is least in the order of
  aged lane priority, priority, affinity to the claiming worker and creation time, and the first
  such row in the order the rows were enqueued.\<close>

theorem claim_takes_best:
  assumes "fresh_request q s"
  shows "case claim hash now token q s of
      (Inr None, s') \<Rightarrow> (\<forall>r \<in> set (jvalues (ws_rows s)). \<not> claimable now q s r) \<and> ws_rows s' = ws_rows s
    | (Inr (Some (w, tok)), s') \<Rightarrow> tok = token \<and> (\<exists>r. best_claim now q s r
        \<and> wi_id w = row_id r \<and> wi_fence w = row_fence r + 1
        \<and> get_row s' (row_id r) = Some (leased_row now (ws_leaseTtl s) (cq_workerId q) (hash token) r))
    | (Inl _, _) \<Rightarrow> False"
proof (cases "claim hash now token q s")
  case (Pair res s')
  obtain s1 ks ls where s1: "s1 = s \<or> s1 = evict_claim s"
    and run: "claim hash now token q s = map_prod Inr id (claim_fresh hash now token q ks ls s1)"
    using claim_fresh_run [OF assms, of hash now token] by (elim exE conjE) (rule that)
  then obtain o' where res: "res = Inr o'" using Pair by (cases "claim_fresh hash now token q ks ls s1") simp
  show ?thesis
  proof (cases o')
    case None
    have "ws_rows s' = ws_rows s"
      using Pair run res None evict_or_fields [OF s1]
      by (auto simp: claim_fresh_def Let_def split_beta split: list.splits)
    moreover have "\<forall>r \<in> set (jvalues (ws_rows s)). \<not> claimable now q s r"
      using claim_None [OF assms, of hash now token] Pair res None by simp
    ultimately show ?thesis using Pair res None by simp
  next
    case (Some wt)
    obtain w tok where wt: "wt = (w, tok)" by (cases wt)
    with Pair res Some have c: "claim hash now token q s = (Inr (Some (w, tok)), s')" by simp
    from claim_Some [OF assms c] obtain us r vs where
      split: "jvalues (ws_rows s) = us @ r # vs" and ok: "claimable now q s r" "tok = token" and
      w: "w = toWorkItem (leased_row now (ws_leaseTtl s) (cq_workerId q) (hash token) r)
           (fst (take_route (cq_workerId q) (row_session_key r) (ws_routes s)))" and
      least: "\<And>x. x \<in> set (jvalues (ws_rows s)) \<Longrightarrow> claimable now q s x \<Longrightarrow>
        claim_key now (ws_routes s) (cq_workerId q) r \<le> claim_key now (ws_routes s) (cq_workerId q) x" and
      first: "\<And>x. x \<in> set us \<Longrightarrow> claimable now q s x \<Longrightarrow>
        claim_key now (ws_routes s) (cq_workerId q) r < claim_key now (ws_routes s) (cq_workerId q) x" and
      rows: "ws_rows s' = AList.update (row_id r) (leased_row now (ws_leaseTtl s) (cq_workerId q) (hash token) r) (ws_rows s)"
      by blast
    have "best_claim now q s r" unfolding best_claim_def
      using split ok(1) first least by (intro exI [of _ us] exI [of _ vs]) auto
    moreover have "wi_id w = row_id r" "wi_fence w = row_fence r + 1"
      using w by (simp_all add: toWorkItem_def leased_row_def)
    moreover have "get_row s' (row_id r) = Some (leased_row now (ws_leaseTtl s) (cq_workerId q) (hash token) r)"
      using rows by simp
    ultimately show ?thesis using c ok(2) by auto
  qed
qed

lemma claim_takes_best_witness:
  "\<exists>w s' r. claim id 10 ''tok'' sample_claim sample_queue = (Inr (Some (w, ''tok'')), s')
     \<and> best_claim 10 sample_claim sample_queue r \<and> row_id r = ''x''"
proof -
  have fresh: "fresh_request sample_claim sample_queue"
    by (simp add: fresh_request_def sample_claim_def truthy_str_def)
  have "(case claim id 10 ''tok'' sample_claim sample_queue of
      (Inr (Some (w, tok)), _) \<Rightarrow> wi_id w = ''x'' | _ \<Rightarrow> False)" by code_simp
  with claim_takes_best [OF fresh, where hash = id and now = 10 and token = "''tok''"] show ?thesis
    by (auto split: prod.splits sum.splits option.splits)
qed

text \<open>A claimed lease is usable at once. The proof made of the work id, fence and token that a
  fresh claim returns is accepted for exactly that work item, with no cancellation pending, as long
  as the clock has not reached the lease's expiry.\<close>

theorem claimed_lease_valid:
  assumes "fresh_request q s" and "claim hash now token q s = (Inr (Some (w, tok)), s')"
    and "now \<le> t" and "t < now + ws_leaseTtl s"
  shows "\<exists>w'. getLeased t (wi_id w) (wi_fence w) (hash tok) s' = Some (w', False)
    \<and> wi_id w' = wi_id w \<and> wi_fence w' = wi_fence w \<and> work_session_key w' = work_session_key w"
proof -
  from claim_Some [OF assms(1,2)] obtain us r vs where
    ok: "claimable now q s r" "tok = token" and
    w: "w = toWorkItem (leased_row now (ws_leaseTtl s) (cq_workerId q) (hash token) r)
           (fst (take_route (cq_workerId q) (row_session_key r) (ws_routes s)))" and
    rows: "ws_rows s' = AList.update (row_id r) (leased_row now (ws_leaseTtl s) (cq_workerId q) (hash token) r) (ws_rows s)"
    by blast
  let ?r = "leased_row now (ws_leaseTtl s) (cq_workerId q) (hash token) r"
  have id: "wi_id w = row_id r" "wi_fence w = row_fence ?r" using w by (simp_all add: toWorkItem_def leased_row_def)
  have "get_row s' (wi_id w) = Some ?r" using rows id by simp
  moreover have "row_proof t (wi_fence w) (hash tok) ?r"
    using id ok assms(4) by (simp add: row_proof_def leased_row_def lease_lapsed_def num_or_zero_def)
  moreover have "row_cancelRequestedAt ?r = None"
    using ok(1) by (simp add: claimable_def candidate_def leased_row_def)
  ultimately have "validLease t (wi_id w) (wi_fence w) (hash tok) s' = Some ?r"
    by (simp add: validLease_iff)
  then have "getLeased t (wi_id w) (wi_fence w) (hash tok) s' = Some (toWorkItem ?r (home_epoch s' ?r), False)"
    using \<open>row_cancelRequestedAt ?r = None\<close> by (simp add: getLeased_iff)
  then show ?thesis using w by (auto simp: toWorkItem_def work_session_key_def)
qed

lemma claimed_lease_valid_witness:
  "\<exists>w w'. claim id 10 ''tok'' sample_claim sample_queue = (Inr (Some (w, ''tok'')), sample_leased)
    \<and> getLeased 45009 (wi_id w) (wi_fence w) ''tok'' sample_leased = Some (w', False)"
proof -
  have fresh: "fresh_request sample_claim sample_queue"
    by (simp add: fresh_request_def sample_claim_def truthy_str_def)
  have "(case claim id 10 ''tok'' sample_claim sample_queue of
      (Inr (Some (w, tok)), _) \<Rightarrow> tok = ''tok'' | _ \<Rightarrow> False)" by code_simp
  then obtain w where c: "claim id 10 ''tok'' sample_claim sample_queue = (Inr (Some (w, ''tok'')), sample_leased)"
    by (auto simp: sample_leased_def split: prod.splits sum.splits option.splits)
  have "ws_leaseTtl sample_queue = 45000" by code_simp
  with claimed_lease_valid [OF fresh c, of 45009] c show ?thesis by auto
qed

subsection \<open>Replays\<close>

text \<open>Repeating a claim request with the same request id, worker and filters returns the work
  item and token of the first call and changes nothing, however the clock has moved and whatever
  token would have been drawn.\<close>

theorem claim_replay:
  assumes "truthy_str (cq_requestId q) = Some rid" and "claim hash now token q s = (Inr res, s')"
  shows "claim hash' now' token' q s' = (Inr res, s')"
proof (cases "map_of (ws_claims s) rid")
  case None
  let ?ks = "map_option canon_kinds (cq_kinds q)" and ?ls = "map_option canon_lanes (cq_lanes q)"
  have "claim_fresh hash now token q ?ks ?ls (evict_claim s) = (res, s')"
    using assms None by (cases "claim_fresh hash now token q ?ks ?ls (evict_claim s)")
      (simp add: claim_def Let_def)
  then have "\<exists>s1. s' = remember_claim q ?ks ?ls res s1"
    by (auto simp: claim_fresh_def Let_def split_beta split: list.splits)
  then have "map_of (ws_claims s') rid = Some \<lparr>cr_workerId = cq_workerId q, cr_work = res,
      cr_kinds = ?ks, cr_lanes = ?ls, cr_class = cq_class q\<rparr>"
    using assms(1) by (auto simp: remember_claim_def)
  then show ?thesis using assms(1) by (simp add: claim_def Let_def)
next
  case (Some prior)
  then have "s' = s" "cr_work prior = res" "cr_workerId prior = cq_workerId q"
    "cr_kinds prior = map_option canon_kinds (cq_kinds q)"
    "cr_lanes prior = map_option canon_lanes (cq_lanes q)" "cr_class prior = cq_class q"
    using assms by (auto simp: claim_def Let_def split: if_splits)
  then show ?thesis using Some assms(1) by (simp add: claim_def Let_def)
qed

lemma claim_replay_witness:
  "\<exists>w s'. claim id 10 ''tok'' (sample_claim\<lparr>cq_requestId := Some ''r''\<rparr>) sample_queue = (Inr (Some (w, ''tok'')), s')
    \<and> claim id 99 ''other'' (sample_claim\<lparr>cq_requestId := Some ''r''\<rparr>) s' = (Inr (Some (w, ''tok'')), s')"
proof -
  let ?q = "sample_claim\<lparr>cq_requestId := Some ''r''\<rparr>"
  have "(case claim id 10 ''tok'' ?q sample_queue of
      (Inr (Some (w, tok)), _) \<Rightarrow> tok = ''tok'' | _ \<Rightarrow> False)" by code_simp
  then obtain w s' where c: "claim id 10 ''tok'' ?q sample_queue = (Inr (Some (w, ''tok'')), s')"
    by (auto split: prod.splits sum.splits option.splits)
  have "truthy_str (cq_requestId ?q) = Some ''r''" by (simp add: truthy_str_def)
  from claim_replay [OF this c, of id 99 "''other''"] c show ?thesis by blast
qed

end
