(* ===== verification/WorkStoreRoutes.thy ===== *)
theory WorkStoreRoutes
  imports WorkStoreQueue
begin

text \<open>
  Session routing: which worker holds a session's kernel home, and the home epoch that separates
  the file systems of successive workers.
\<close>

text \<open>What a step may do to the route of a session.\<close>

definition route_moves :: "session_route \<Rightarrow> session_route \<Rightarrow> bool" where
  "route_moves r r' = (rt_homeEpoch r \<le> rt_homeEpoch r'
     \<and> (rt_homeEpoch r = rt_homeEpoch r' \<longrightarrow> rt_workerId r = rt_workerId r'))"

definition routes_move :: "work_store \<Rightarrow> work_store \<Rightarrow> bool" where
  "routes_move s s' = (\<forall>k r. map_of (ws_routes s) k = Some r
     \<longrightarrow> (\<exists>r'. map_of (ws_routes s') k = Some r' \<and> route_moves r r'))"

lemma route_moves_trans: "route_moves r1 r2 \<Longrightarrow> route_moves r2 r3 \<Longrightarrow> route_moves r1 r3"
  by (auto simp: route_moves_def)

lemma routes_move_refl: "ws_routes s' = ws_routes s \<Longrightarrow> routes_move s s'"
  by (simp add: routes_move_def route_moves_def)

lemma routes_move_trans:
  assumes "routes_move s1 s2" and "routes_move s2 s3" shows "routes_move s1 s3"
  unfolding routes_move_def
proof (intro allI impI)
  fix k r
  assume "map_of (ws_routes s1) k = Some r"
  then obtain r2 where "map_of (ws_routes s2) k = Some r2" "route_moves r r2"
    using assms(1) unfolding routes_move_def by blast
  moreover then obtain r3 where "map_of (ws_routes s3) k = Some r3" "route_moves r2 r3"
    using assms(2) unfolding routes_move_def by blast
  ultimately show "\<exists>r'. map_of (ws_routes s3) k = Some r' \<and> route_moves r r'"
    using route_moves_trans by blast
qed

lemma foldl_routes: "(\<And>s x. ws_routes (f s x) = ws_routes s) \<Longrightarrow> ws_routes (foldl f s xs) = ws_routes s"
  by (induction xs arbitrary: s) auto

lemma cancel_routes [simp]: "ws_routes (snd (requestCancel now i s)) = ws_routes s"
  by (simp add: requestCancel_def split: option.split)
    (auto intro!: foldl_routes simp: cancel_target_def split: option.split)

lemma cancel_children_routes [simp]: "ws_routes (cancel_children now r s) = ws_routes s"
  unfolding cancel_children_def by (rule foldl_routes) simp

lemma release_routes [simp]: "ws_routes (releaseSessionLease r f s) = ws_routes s"
  by (simp add: releaseSessionLease_def split: option.split)

lemma settle_routes [simp]: "ws_routes (snd (settle now i f h st g e s)) = ws_routes s"
  by (simp add: settle_def Let_def split: option.split)

lemma op_routes [simp]:
  "ws_routes (snd (enqueue now uuid input s)) = ws_routes s"
  "ws_routes (snd (heartbeat now i f h s)) = ws_routes s"
  "ws_routes (snd (yieldWork now i f h s)) = ws_routes s"
  "ws_routes (snd (complete now i f h c s)) = ws_routes s"
  "ws_routes (snd (wait now i f h g s)) = ws_routes s"
  "ws_routes (snd (requestPreempt now i s)) = ws_routes s"
  "ws_routes (snd (addSteer now uuid i text s)) = ws_routes s"
  by (simp_all add: enqueue_def heartbeat_def yieldWork_def complete_def wait_def requestPreempt_def
      addSteer_def Let_def split: option.split)

lemma take_route_map: "map_of (snd (take_route w k m)) k' =
    (if k' = k then Some \<lparr>rt_workerId = w, rt_homeEpoch = (case map_of m k of None \<Rightarrow> 1
       | Some r \<Rightarrow> if rt_workerId r = w then rt_homeEpoch r else rt_homeEpoch r + 1)\<rparr>
     else map_of m k')"
  by (auto simp: take_route_def split: option.split)

lemma grant_routes: "ws_routes (snd (grant_lease hash now token w r s)) =
    snd (take_route w (row_session_key r) (ws_routes s))"
  by (simp add: grant_lease_def Let_def split_beta)

lemma grant_routes_move: "routes_move s (snd (grant_lease hash now token w r s))"
  by (auto simp: routes_move_def route_moves_def grant_routes take_route_map)

lemma remember_routes [simp]: "ws_routes (remember_claim q ks ls w s) = ws_routes s"
  by (simp add: remember_claim_def split: option.split)

lemma claim_fresh_routes: "routes_move s (snd (claim_fresh hash now token q ks ls s))"
proof -
  let ?s = "note_worker now (cq_workerId q) s"
  have n: "routes_move s ?s" by (rule routes_move_refl) simp
  show ?thesis
  proof (cases "candidates now ks ls (cq_class q) (cq_workerId q) ?s")
    case Nil
    then show ?thesis by (intro routes_move_refl) (simp add: claim_fresh_def Let_def)
  next
    case (Cons r rs)
    have "routes_move s (snd (grant_lease hash now token (cq_workerId q) r ?s))"
      using routes_move_trans [OF n grant_routes_move] .
    with Cons show ?thesis by (simp add: claim_fresh_def Let_def split_beta routes_move_def)
  qed
qed

lemma claim_routes: "routes_move s (snd (claim hash now token q s))"
proof -
  have e: "routes_move s (snd (claim_fresh hash now token q ks ls (evict_claim s)))" for ks ls
    using routes_move_trans [OF routes_move_refl claim_fresh_routes] evict_more(1) by blast
  show ?thesis using e claim_fresh_routes [of s] routes_move_refl [of s s]
    by (simp add: claim_def Let_def split: option.split)
qed

lemma wstep_routes: "wstep hash (t, s) (t', s') \<Longrightarrow> routes_move s s'"
  by (elim wstepE) (auto intro: claim_routes routes_move_refl)

text \<open>A session's home epoch never decreases along a run, and it is strictly larger whenever the
  session has moved to another worker: two workers never share a home epoch of a session.\<close>

theorem home_epoch_separates_workers:
  assumes "(wstep hash)\<^sup>*\<^sup>* (t, s) (t', s')" and "map_of (ws_routes s) key = Some r"
  shows "\<exists>r'. map_of (ws_routes s') key = Some r' \<and> rt_homeEpoch r \<le> rt_homeEpoch r'
    \<and> (rt_workerId r' \<noteq> rt_workerId r \<longrightarrow> rt_homeEpoch r < rt_homeEpoch r')"
proof -
  have "routes_move s (snd c)" if "(wstep hash)\<^sup>*\<^sup>* (t, s) c" for c
    using that
  proof (induction rule: rtranclp_induct)
    case base
    then show ?case by (simp add: routes_move_refl)
  next
    case (step c1 c2)
    then show ?case
      using wstep_routes [of hash "fst c1" "snd c1" "fst c2" "snd c2"] routes_move_trans by auto
  qed
  from this [OF assms(1)] assms(2) obtain r' where "map_of (ws_routes s') key = Some r'" "route_moves r r'"
    by (auto simp: routes_move_def)
  then show ?thesis by (auto simp: route_moves_def)
qed

text \<open>A fresh claim routes the session to the claiming worker under the issued home epoch. The
  epoch is 1 for a new session, unchanged for the worker that already holds it, and one more when
  the session moves, whether or not the former worker was still alive.\<close>

theorem claim_routes_session:
  assumes "fresh_request q s" and "claim hash now token q s = (Inr (Some (w, tok)), s')"
  shows "wi_homeEpoch w = (case map_of (ws_routes s) (work_session_key w) of
      None \<Rightarrow> 1
    | Some r \<Rightarrow> if rt_workerId r = cq_workerId q then rt_homeEpoch r else rt_homeEpoch r + 1)"
proof -
  from claim_Some [OF assms] obtain r where
    w: "w = toWorkItem (leased_row now (ws_leaseTtl s) (cq_workerId q) (hash token) r)
           (fst (take_route (cq_workerId q) (row_session_key r) (ws_routes s)))" by metis
  then have "work_session_key w = row_session_key r"
    by (simp add: work_session_key_def toWorkItem_def leased_row_def row_session_key_def)
  then show ?thesis using w by (simp add: toWorkItem_def take_route_def split: option.split)
qed

definition sample_free :: work_store where
  "sample_free = snd (complete 12 ''x'' 1 ''tok'' sample_done sample_leased)"

lemma home_epoch_separates_workers_witness:
  "\<exists>r r'. map_of (ws_routes sample_free) (sessionKeyOf ''t'' ''a'' ''s1'' None) = Some r \<and>
     map_of (ws_routes (snd (claim id 20 ''tok2'' (sample_claim\<lparr>cq_workerId := ''v''\<rparr>) sample_free)))
       (sessionKeyOf ''t'' ''a'' ''s1'' None) = Some r' \<and> rt_workerId r' \<noteq> rt_workerId r
     \<and> rt_homeEpoch r < rt_homeEpoch r'"
proof -
  let ?k = "sessionKeyOf ''t'' ''a'' ''s1'' None"
  let ?s1 = "snd (claim id 20 ''tok2'' (sample_claim\<lparr>cq_workerId := ''v''\<rparr>) sample_free)"
  have e: "map_option rt_workerId (map_of (ws_routes sample_free) ?k) = Some ''w''"
    "map_option rt_workerId (map_of (ws_routes ?s1) ?k) = Some ''v''" by code_simp+
  then obtain r where r: "map_of (ws_routes sample_free) ?k = Some r" "rt_workerId r = ''w''" by auto
  have "(wstep id)\<^sup>*\<^sup>* (12, sample_free) (20, ?s1)"
    using wstep.w_claim [of 12 20 id sample_free "''tok2''" "sample_claim\<lparr>cq_workerId := ''v''\<rparr>"] by auto
  from home_epoch_separates_workers [OF this r(1)] e r show ?thesis by auto
qed

lemma claimed_cases:
  assumes "case res of (Inr (Some (w, tok)), _) \<Rightarrow> P w tok | _ \<Rightarrow> False"
  obtains w tok s' where "res = (Inr (Some (w, tok)), s')" and "P w tok"
  using assms by (auto split: prod.splits sum.splits option.splits)

lemma claim_routes_session_witness:
  "\<exists>w s'. claim id 20 ''tok2'' (sample_claim\<lparr>cq_workerId := ''v''\<rparr>) sample_free = (Inr (Some (w, ''tok2'')), s')
     \<and> wi_homeEpoch w = 2 \<and> workerAlive ''w'' 20 sample_free"
proof -
  let ?q = "sample_claim\<lparr>cq_workerId := ''v''\<rparr>"
  have "(case claim id 20 ''tok2'' ?q sample_free of (Inr (Some (w, tok)), _) \<Rightarrow> tok = ''tok2''
      \<and> map_of (ws_routes sample_free) (work_session_key w) = Some \<lparr>rt_workerId = ''w'', rt_homeEpoch = 1\<rparr> | _ \<Rightarrow> False)"
    and alive: "workerAlive ''w'' 20 sample_free" by code_simp+
  from this(1) obtain w tok s' where "claim id 20 ''tok2'' ?q sample_free = (Inr (Some (w, tok)), s')"
    and tok: "tok = ''tok2''"
    and k: "map_of (ws_routes sample_free) (work_session_key w) = Some \<lparr>rt_workerId = ''w'', rt_homeEpoch = 1\<rparr>"
    by (elim claimed_cases conjE)
  then have c: "claim id 20 ''tok2'' ?q sample_free = (Inr (Some (w, ''tok2'')), s')" by simp
  have f: "fresh_request ?q sample_free" by (simp add: fresh_request_def sample_claim_def truthy_str_def)
  have "wi_homeEpoch w = 2" using claim_routes_session [OF f c] unfolding k by (simp add: sample_claim_def)
  with c alive show ?thesis by blast
qed

end
