(* ===== verification/Context.thy ===== *)
theory Context
  imports Protocol
begin

text \<open>
  What a turn knows (src/context): citation evidence and its markers, request attachments, derived
  task contracts, recorded resource checks, and the immutable request snapshot. Validators of
  \<open>unknown\<close> values work on \<^typ>\<open>json\<close>; \<open>hash\<close> is the hexadecimal SHA-256.
\<close>

subsection \<open>Canonical JSON\<close>

text \<open>\<open>canonicalJson\<close> of context/compiler.ts: object keys in code-unit order.\<close>

fun canonicalJson :: "json \<Rightarrow> string" where
  "canonicalJson (JArr vs) = ''['' @ join_with '','' (map canonicalJson vs) @ '']''"
| "canonicalJson (JObj kvs) = CHR 0x7B #
     join_with '','' (map (\<lambda>(k, t). quote k @ '':'' @ t)
       (sort_key fst (map (\<lambda>(k, v). (k, canonicalJson v)) kvs))) @ [CHR 0x7D]"
| "canonicalJson v = stringify v"

subsection \<open>Shapes of strings\<close>

definition is_digit :: "char \<Rightarrow> bool" where
  "is_digit c = (48 \<le> (of_char c :: int) \<and> (of_char c :: int) \<le> 57)"

definition is_lower :: "char \<Rightarrow> bool" where
  "is_lower c = (97 \<le> (of_char c :: int) \<and> (of_char c :: int) \<le> 122)"

definition is_upper :: "char \<Rightarrow> bool" where
  "is_upper c = (65 \<le> (of_char c :: int) \<and> (of_char c :: int) \<le> 90)"

definition is_hex_lower :: "char \<Rightarrow> bool" where
  "is_hex_lower c = (is_digit c \<or> 97 \<le> (of_char c :: int) \<and> (of_char c :: int) \<le> 102)"

text \<open>\<open>/^[a-f0-9]{64}$/\<close>\<close>

definition is_sha256 :: "string \<Rightarrow> bool" where
  "is_sha256 s = (js_len s = 64 \<and> list_all is_hex_lower s)"

text \<open>\<open>/^S[1-9]\d*$/\<close>\<close>

definition valid_marker :: "string \<Rightarrow> bool" where
  "valid_marker s = (case s of c # d # r \<Rightarrow> c = CHR ''S'' \<and> is_digit d \<and> d \<noteq> CHR ''0'' \<and> list_all is_digit r
     | _ \<Rightarrow> False)"

definition to_lower :: "char \<Rightarrow> char" where
  "to_lower c = (if is_upper c then char_of (of_char c + 32 :: int) else c)"

text \<open>\<open>/^https?:\/\//\<close>, and the same ignoring case.\<close>

definition is_http :: "string \<Rightarrow> bool" where
  "is_http s = (starts_with s ''http://'' \<or> starts_with s ''https://'')"

definition is_http_ci :: "string \<Rightarrow> bool" where
  "is_http_ci s = is_http (map to_lower s)"

subsection \<open>Evidence\<close>

record evidence_item =
  el_marker :: string
  el_actionKey :: "string option"
  el_sourceId :: string
  el_sourceVersion :: string
  el_chunkId :: string
  el_title :: string
  el_excerpt :: string
  el_url :: "string option"
  el_truncated :: "bool option"

record evidence_snapshot =
  es_id :: string
  es_items :: "evidence_item list"

definition opt_prop :: "string \<Rightarrow> json option \<Rightarrow> jobj" where
  "opt_prop k v = (case v of None \<Rightarrow> [] | Some x \<Rightarrow> [(k, x)])"

definition evidence_json :: "evidence_item \<Rightarrow> json" where
  "evidence_json e = JObj ([(''marker'', JStr (el_marker e))]
     @ opt_prop ''actionKey'' (map_option JStr (el_actionKey e))
     @ [(''sourceId'', JStr (el_sourceId e)), (''sourceVersion'', JStr (el_sourceVersion e)),
        (''chunkId'', JStr (el_chunkId e)), (''title'', JStr (el_title e)), (''excerpt'', JStr (el_excerpt e))]
     @ opt_prop ''url'' (map_option JStr (el_url e)) @ opt_prop ''truncated'' (map_option JBool (el_truncated e)))"

text \<open>The checks of one item; the runtime type checks are the types of the record.\<close>

definition valid_item :: "evidence_item \<Rightarrow> bool" where
  "valid_item e = (valid_marker (el_marker e)
     \<and> list_all (\<lambda>s. \<not> blank s) [el_sourceId e, el_sourceVersion e, el_chunkId e, el_title e, el_excerpt e]
     \<and> js_len (el_excerpt e) \<le> 65536 \<and> js_len (el_title e) \<le> 2000)"

definition valid_action_key :: "evidence_item \<Rightarrow> bool" where
  "valid_action_key e = (case el_actionKey e of None \<Rightarrow> True | Some k \<Rightarrow> \<not> blank k \<and> js_len k \<le> 2000)"

definition valid_url :: "evidence_item \<Rightarrow> bool" where
  "valid_url e = (case el_url e of None \<Rightarrow> True | Some u \<Rightarrow> is_http_ci u)"

definition source_key :: "evidence_item \<Rightarrow> string" where
  "source_key e = stringify (JArr [JStr (el_sourceId e), JStr (el_sourceVersion e), JStr (el_title e)])"

definition chunk_key :: "evidence_item \<Rightarrow> string" where
  "chunk_key e = stringify (JArr [JStr (el_marker e), JStr (el_chunkId e)])"

fun check_evidence :: "(string, string) jsmap \<Rightarrow> string list \<Rightarrow> evidence_item list \<Rightarrow> os_error + unit" where
  "check_evidence sources chunks [] = Inr ()"
| "check_evidence sources chunks (e # es) =
     (if \<not> valid_item e then Inl (JsError ''invalid evidence item'')
      else if \<not> valid_action_key e then Inl (JsError ''invalid evidence action key'')
      else if \<not> valid_url e then Inl (JsError ''invalid evidence URL'')
      else if jhas sources (el_marker e) \<and> map_of sources (el_marker e) \<noteq> Some (source_key e)
        then Inl (JsError ''conflicting evidence marker'')
      else if chunk_key e \<in> set chunks then Inl (JsError ''duplicate evidence chunk'')
      else check_evidence (AList.update (el_marker e) (source_key e) sources) (chunk_key e # chunks) es)"

definition snapshotEvidence :: "string \<Rightarrow> evidence_item list \<Rightarrow> os_error + evidence_snapshot" where
  "snapshotEvidence i items =
     (if blank i \<or> js_len items > 200 then Inl (JsError ''invalid evidence snapshot'')
      else map_sum id (\<lambda>_. \<lparr>es_id = i, es_items = items\<rparr>) (check_evidence [] [] items))"

text \<open>UTF-8 length of a string of code units up to 255.\<close>

definition utf8_length :: "string \<Rightarrow> int" where
  "utf8_length s = sum_list (map (\<lambda>c. if (of_char c :: int) < 128 then 1 else 2) s)"

definition citation_item :: "evidence_item \<Rightarrow> evidence_item" where
  "citation_item e = e\<lparr>el_actionKey := None\<rparr>"

definition citation_json :: "evidence_item \<Rightarrow> json" where
  "citation_json e = JObj ([(''marker'', JStr (el_marker e)), (''sourceId'', JStr (el_sourceId e)),
        (''sourceVersion'', JStr (el_sourceVersion e)), (''chunkId'', JStr (el_chunkId e)),
        (''title'', JStr (el_title e)), (''excerpt'', JStr (el_excerpt e))]
     @ opt_prop ''url'' (map_option JStr (el_url e)) @ opt_prop ''truncated'' (map_option JBool (el_truncated e)))"

definition snapshotCitationEvidence :: "evidence_item list \<Rightarrow> os_error + evidence_item list" where
  "snapshotCitationEvidence items = (case snapshotEvidence ''citation-evidence'' items of
      Inl e \<Rightarrow> Inl e
    | Inr snap \<Rightarrow>
        let checked = map citation_item (es_items snap) in
        if utf8_length (stringify (JArr (map citation_json checked))) > 256 * 1024
        then Inl (JsError ''Cited excerpts exceed 256 KiB. Read narrower source ranges and cite those markers; do not replace excerpts with invented summaries.'')
        else Inr checked)"

record citation_source =
  cs_sourceId :: string
  cs_sourceVersion :: string
  cs_chunkIds :: "string list"
  cs_truncated :: "bool option"

fun citationSources :: "string list \<Rightarrow> evidence_item list \<Rightarrow> os_error + citation_source list" where
  "citationSources [] evidence = Inr []"
| "citationSources (m # ms) evidence = (case filter (\<lambda>e. el_marker e = m) evidence of
      [] \<Rightarrow> Inl (JsError (''unknown citation marker: '' @ m))
    | e # es \<Rightarrow> map_sum id (Cons \<lparr>cs_sourceId = el_sourceId e, cs_sourceVersion = el_sourceVersion e,
          cs_chunkIds = map el_chunkId (e # es),
          cs_truncated = (if list_ex (\<lambda>x. el_truncated x = Some True) (e # es) then Some True else None)\<rparr>)
        (citationSources ms evidence))"

subsection \<open>Evidence promoted from reads\<close>

definition marker_of :: "nat \<Rightarrow> string" where
  "marker_of n = CHR ''S'' # show_nat n"

text \<open>
  \<open>while (items.some(item => item.marker === `S${number}`)) number++\<close>; the search needs at most one
  round per item, so \<open>length items\<close> rounds of fuel are enough (\<open>next_number_fresh\<close>).
\<close>

fun next_number :: "nat \<Rightarrow> nat \<Rightarrow> evidence_item list \<Rightarrow> nat" where
  "next_number 0 n items = n"
| "next_number (Suc d) n items =
     (if list_ex (\<lambda>e. el_marker e = marker_of n) items then next_number d (Suc n) items else n)"

definition fresh_marker :: "evidence_item list \<Rightarrow> string" where
  "fresh_marker items = marker_of (next_number (length items) 1 items)"

definition truthy_flag :: "bool option \<Rightarrow> bool" where
  "truthy_flag b = (b = Some True)"

definition unusable_read :: "action_result \<Rightarrow> bool" where
  "unusable_read r = (\<not> hr_ok r \<or> hr_state r = Some Unknown \<or> hr_directive r \<noteq> None)"

definition snapshot_id :: "(string \<Rightarrow> string) \<Rightarrow> evidence_item list \<Rightarrow> string" where
  "snapshot_id hash items = ''evidence:'' @ hash (canonicalJson (JArr (map evidence_json items)))"

text \<open>The text of a successful recorded research read, when it has the shape of one.\<close>

definition research_text :: "action_result \<Rightarrow> (string \<times> string \<times> string \<times> bool) option" where
  "research_text r = (case hr_value r of
      Some (JObj v) \<Rightarrow> (case (map_of v ''text'', map_of v ''finalUrl'', map_of v ''sha256'') of
          (Some (JStr t), Some (JStr u), Some (JStr h)) \<Rightarrow>
            if \<not> blank t \<and> js_len t \<le> 65536 \<and> is_http u \<and> is_sha256 h
            then Some (t, u, h, map_of v ''truncated'' = Some (JBool True)) else None
        | _ \<Rightarrow> None)
    | _ \<Rightarrow> None)"

definition appendResearchEvidence :: "(string \<Rightarrow> string) \<Rightarrow> evidence_snapshot \<Rightarrow> string \<Rightarrow> action_result
    \<Rightarrow> os_error + evidence_snapshot" where
  "appendResearchEvidence hash snap key r =
     (if unusable_read r then Inr snap
      else (case research_text r of
          None \<Rightarrow> Inr snap
        | Some (t, u, h, trunc) \<Rightarrow>
            if list_ex (\<lambda>e. el_actionKey e = Some key
                 \<or> el_sourceId e = u \<and> el_sourceVersion e = ''sha256:'' @ h \<and> el_excerpt e = t
                   \<and> truthy_flag (el_truncated e) = trunc) (es_items snap)
               \<or> js_len (es_items snap) \<ge> 200
            then Inr snap
            else let items = es_items snap @ [\<lparr>el_marker = fresh_marker (es_items snap), el_actionKey = Some key,
                   el_sourceId = u, el_sourceVersion = ''sha256:'' @ h, el_chunkId = key, el_title = take 2000 u,
                   el_excerpt = t, el_url = Some u, el_truncated = (if trunc then Some True else None)\<rparr>]
                 in snapshotEvidence (snapshot_id hash items) items))"

definition known_source :: "source_excerpt \<Rightarrow> evidence_item \<Rightarrow> bool" where
  "known_source s e = (el_sourceId e = se_sourceId s \<and> el_sourceVersion e = se_sourceVersion s
     \<and> el_chunkId e = se_chunkId s \<and> el_excerpt e = se_excerpt s
     \<and> truthy_flag (el_truncated e) = truthy_flag (se_truncated s))"

definition promoted :: "string \<Rightarrow> evidence_item list \<Rightarrow> source_excerpt \<Rightarrow> evidence_item" where
  "promoted key items s = \<lparr>el_marker = fresh_marker items, el_actionKey = Some key,
     el_sourceId = se_sourceId s, el_sourceVersion = se_sourceVersion s, el_chunkId = se_chunkId s,
     el_title = se_title s, el_excerpt = se_excerpt s, el_url = se_url s, el_truncated = se_truncated s\<rparr>"

fun promote_sources :: "string \<Rightarrow> evidence_item list \<Rightarrow> source_excerpt list \<Rightarrow> evidence_item list" where
  "promote_sources key items [] = items"
| "promote_sources key items (s # ss) =
     (if js_len items \<ge> 200 then items
      else if list_ex (known_source s) items then promote_sources key items ss
      else promote_sources key (items @ [promoted key items s]) ss)"

definition appendReadEvidence :: "(string \<Rightarrow> string) \<Rightarrow> evidence_snapshot \<Rightarrow> string \<Rightarrow> action_result \<Rightarrow> string
    \<Rightarrow> os_error + evidence_snapshot" where
  "appendReadEvidence hash snap key r action =
     (case (if action = ''research.read'' then appendResearchEvidence hash snap key r else Inr snap) of
        Inl e \<Rightarrow> Inl e
      | Inr snap1 \<Rightarrow>
          if unusable_read r \<or> hr_approval r \<noteq> None then Inr snap1
          else (case hr_evidence r of
              None \<Rightarrow> Inr snap1
            | Some [] \<Rightarrow> Inr snap1
            | Some sources \<Rightarrow>
                if js_len sources > 8 then Inl (JsError ''read evidence exceeds the per-action limit'')
                else let items = promote_sources key (es_items snap1) sources in
                  if length items = length (es_items snap1) then Inr snap1
                  else snapshotEvidence (snapshot_id hash items) items))"

subsection \<open>Task contracts\<close>

record task_contract =
  tc_requestVersion :: int
  tc_originalInputSha256 :: string
  tc_deliverables :: "string list"
  tc_constraints :: "string list"
  tc_actions :: "string list"
  tc_acceptance :: "string list"

definition contract_fields :: "string list" where
  "contract_fields = [''deliverables'', ''constraints'', ''actions'', ''acceptance'']"

definition short_text :: "int \<Rightarrow> json \<Rightarrow> bool" where
  "short_text n v = (case v of JStr s \<Rightarrow> \<not> blank s \<and> js_len s \<le> n | _ \<Rightarrow> False)"

definition strings_of :: "json list \<Rightarrow> string list" where
  "strings_of vs = map (\<lambda>v. case v of JStr s \<Rightarrow> s | _ \<Rightarrow> []) vs"

definition contract_field :: "jobj \<Rightarrow> string \<Rightarrow> os_error + string list" where
  "contract_field draft field = (case map_of draft field of
      Some (JArr vs) \<Rightarrow>
        if js_len vs \<le> 64 \<and> list_all (short_text 2000) vs then Inr (strings_of vs)
        else Inl (JsError (''invalid task contract '' @ field))
    | _ \<Rightarrow> Inl (JsError (''invalid task contract '' @ field)))"

definition bindR :: "os_error + 'a \<Rightarrow> ('a \<Rightarrow> os_error + 'b) \<Rightarrow> os_error + 'b" where
  "bindR m f = (case m of Inl e \<Rightarrow> Inl e | Inr x \<Rightarrow> f x)"

lemma bindR_simps [simp]: "bindR (Inl e) f = Inl e" "bindR (Inr x) f = f x"
  by (simp_all add: bindR_def)

lemma bindR_Inr: "bindR m f = Inr y \<longleftrightarrow> (\<exists>x. m = Inr x \<and> f x = Inr y)"
  by (cases m) auto

definition createTaskContract :: "(string \<Rightarrow> string) \<Rightarrow> string \<Rightarrow> int \<Rightarrow> json \<Rightarrow> os_error + task_contract" where
  "createTaskContract hash original version draft =
     (if \<not> safe_int version \<or> version < 1 then Inl (JsError ''invalid contract request version'')
      else (case draft of
          JObj d \<Rightarrow>
            if \<not> list_all (\<lambda>(k, _). k \<in> set contract_fields) d then Inl (JsError ''unknown task contract field'')
            else bindR (contract_field d ''deliverables'') (\<lambda>deliverables.
              bindR (contract_field d ''constraints'') (\<lambda>constraints.
              bindR (contract_field d ''actions'') (\<lambda>actions.
              bindR (contract_field d ''acceptance'') (\<lambda>acceptance.
              if deliverables = [] \<or> acceptance = []
              then Inl (JsError ''task contract requires deliverables and acceptance conditions'')
              else Inr \<lparr>tc_requestVersion = version, tc_originalInputSha256 = hash original,
                tc_deliverables = deliverables, tc_constraints = constraints, tc_actions = actions,
                tc_acceptance = acceptance\<rparr>))))
        | _ \<Rightarrow> Inl (JsError ''task contract draft must be an object'')))"

text \<open>The contract as the object that a directive carries and the model sends back as a draft.\<close>

definition contract_draft :: "task_contract \<Rightarrow> json" where
  "contract_draft c = JObj [(''deliverables'', JArr (map JStr (tc_deliverables c))),
     (''constraints'', JArr (map JStr (tc_constraints c))), (''actions'', JArr (map JStr (tc_actions c))),
     (''acceptance'', JArr (map JStr (tc_acceptance c)))]"

definition contract_json :: "task_contract \<Rightarrow> jobj" where
  "contract_json c = [(''version'', JNum 1), (''requestVersion'', JNum (tc_requestVersion c)),
     (''originalInputSha256'', JStr (tc_originalInputSha256 c)),
     (''deliverables'', JArr (map JStr (tc_deliverables c))),
     (''constraints'', JArr (map JStr (tc_constraints c))), (''actions'', JArr (map JStr (tc_actions c))),
     (''acceptance'', JArr (map JStr (tc_acceptance c)))]"

subsection \<open>Attachments\<close>

definition nonempty_text :: "int \<Rightarrow> json option \<Rightarrow> bool" where
  "nonempty_text n v = (case v of Some x \<Rightarrow> short_text n x | None \<Rightarrow> False)"

definition attachment_fields :: "string list" where
  "attachment_fields = [''id'', ''sourceVersion'', ''name'', ''mimeType'', ''size'', ''text'', ''contentStatus'']"

definition valid_attachment :: "json \<Rightarrow> bool" where
  "valid_attachment v = (case v of
      JObj a \<Rightarrow> list_all (\<lambda>(k, _). k \<in> set attachment_fields) a
        \<and> list_all (\<lambda>k. nonempty_text 2000 (map_of a k)) [''id'', ''sourceVersion'', ''name'', ''mimeType'']
        \<and> (case map_of a ''size'' of Some (JNum n) \<Rightarrow> safe_int n \<and> n \<ge> 0 | _ \<Rightarrow> False)
        \<and> (case map_of a ''text'' of None \<Rightarrow> True | Some (JStr s) \<Rightarrow> js_len s \<le> 1000000 | _ \<Rightarrow> False)
        \<and> (case map_of a ''contentStatus'' of None \<Rightarrow> True
           | Some (JStr s) \<Rightarrow> s \<in> set [''unsupported'', ''empty'', ''failed'', ''too_large'', ''unavailable'']
               \<and> map_of a ''text'' = None
           | _ \<Rightarrow> False)
    | _ \<Rightarrow> False)"

definition json_prop :: "json \<Rightarrow> string \<Rightarrow> json option" where
  "json_prop v k = (case v of JObj kvs \<Rightarrow> map_of kvs k | _ \<Rightarrow> None)"

fun check_attachments :: "json option list \<Rightarrow> json list \<Rightarrow> os_error + unit" where
  "check_attachments ids [] = Inr ()"
| "check_attachments ids (v # vs) =
     (if \<not> valid_attachment v then Inl (JsError ''invalid request attachment'')
      else if json_prop v ''id'' \<in> set ids then Inl (JsError ''duplicate request attachment identity'')
      else check_attachments (json_prop v ''id'' # ids) vs)"

definition snapshotAttachments :: "json \<Rightarrow> os_error + json list" where
  "snapshotAttachments v = (case v of
      JArr vs \<Rightarrow>
        if js_len vs > 20 then Inl (JsError ''request attachments must be an array of at most 20 items'')
        else map_sum id (\<lambda>_. vs) (check_attachments [] vs)
    | _ \<Rightarrow> Inl (JsError ''request attachments must be an array of at most 20 items''))"

subsection \<open>Delivery obligations\<close>

text \<open>\<open>snapshotObligations\<close> of outcome/obligations.ts.\<close>

definition is_word :: "(char \<Rightarrow> bool) \<Rightarrow> string \<Rightarrow> bool" where
  "is_word extra s = list_all (\<lambda>c. is_lower c \<or> is_upper c \<or> is_digit c \<or> extra c) s"

definition is_obligation_id :: "string \<Rightarrow> bool" where
  "is_obligation_id s = (s \<noteq> [] \<and> js_len s \<le> 128 \<and> is_word (\<lambda>c. c \<in> set ''._-'') s)"

text \<open>\<open>/^[a-z][a-z0-9_]*\.[a-z][a-z0-9_]*$/\<close>\<close>

definition is_snake :: "string \<Rightarrow> bool" where
  "is_snake s = (case s of [] \<Rightarrow> False
     | c # cs \<Rightarrow> is_lower c \<and> list_all (\<lambda>d. is_lower d \<or> is_digit d \<or> d = CHR ''_'') cs)"

definition is_action_name :: "string \<Rightarrow> bool" where
  "is_action_name s = (case split_on CHR ''.'' s of [a, b] \<Rightarrow> is_snake a \<and> is_snake b | _ \<Rightarrow> False)"

definition is_checker :: "string \<Rightarrow> bool" where
  "is_checker s = (starts_with s ''product:'' \<and> (let r = drop 8 s in r \<noteq> [] \<and> js_len r \<le> 128
     \<and> is_word (\<lambda>c. c \<in> set ''._:-'') r))"

definition bounded_text :: "int \<Rightarrow> json option \<Rightarrow> bool" where
  "bounded_text n v = (case v of Some (JStr s) \<Rightarrow> s \<noteq> [] \<and> js_len s \<le> n | _ \<Rightarrow> False)"

definition obligation_kind_fields :: "jobj \<Rightarrow> os_error + string list" where
  "obligation_kind_fields o' =
     (if map_of o' ''kind'' = Some (JStr ''external-delivery'') then
        (if (case map_of o' ''action'' of Some (JStr a) \<Rightarrow> is_action_name a \<and> \<not> starts_with a ''task.'' | _ \<Rightarrow> False)
            \<and> (case map_of o' ''args'' of Some (JObj _) \<Rightarrow> True | _ \<Rightarrow> False)
         then Inr [''action'', ''args'', ''expected''] else Inl (JsError ''invalid action obligation''))
      else if map_of o' ''kind'' = Some (JStr ''artifact'') then
        (if bounded_text 4096 (map_of o' ''path'') then Inr [''path''] else Inl (JsError ''invalid artifact obligation''))
      else if map_of o' ''kind'' \<in> {Some (JStr ''answer-content''), Some (JStr ''resource-postcondition'')} then
        (if (case map_of o' ''checker'' of Some (JStr c) \<Rightarrow> is_checker c | _ \<Rightarrow> False)
         then Inr [''checker''] else Inl (JsError ''obligation requires a native product checker''))
      else if map_of o' ''kind'' = Some (JStr ''delegation'') then
        (if bounded_text 1000 (map_of o' ''taskId'') then Inr [''taskId''] else Inl (JsError ''invalid delegation obligation''))
      else Inl (JsError ''unknown delivery obligation kind''))"

fun check_obligations :: "string list \<Rightarrow> json list \<Rightarrow> os_error + unit" where
  "check_obligations ids [] = Inr ()"
| "check_obligations ids (JObj o' # vs) =
     (case map_of o' ''id'' of
        Some (JStr i) \<Rightarrow>
          if \<not> is_obligation_id i \<or> i \<in> set ids
             \<or> \<not> (case map_of o' ''description'' of None \<Rightarrow> True | Some (JStr d) \<Rightarrow> js_len d \<le> 2000 | _ \<Rightarrow> False)
          then Inl (JsError ''invalid delivery obligation'')
          else bindR (obligation_kind_fields o') (\<lambda>fields.
            if list_all (\<lambda>(k, _). k \<in> set ([''id'', ''description'', ''kind''] @ fields)) o'
            then check_obligations (i # ids) vs else Inl (JsError ''unknown obligation field''))
      | _ \<Rightarrow> Inl (JsError ''invalid delivery obligation''))"
| "check_obligations ids (v # vs) = Inl (JsError ''invalid delivery obligation'')"

definition snapshotObligations :: "json \<Rightarrow> os_error + json list" where
  "snapshotObligations v = (case v of
      JArr vs \<Rightarrow>
        if js_len vs > 32 \<or> utf8_length (stringify v) > 64000 then Inl (JsError ''invalid delivery obligations'')
        else map_sum id (\<lambda>_. vs) (check_obligations [] vs)
    | _ \<Rightarrow> Inl (JsError ''invalid delivery obligations''))"

end
