(* ===== verification/Request.thy ===== *)
theory Request
  imports Context
begin

text \<open>
  The request snapshot of src/context/request.ts and what is read from it: the captured original
  request and its ordered revisions, its attachments (read by exact version and character range),
  its evidence, its derived checklist and its recorded resource checks; and the execution mode of
  src/runtime/execution-policy.ts.
\<close>

subsection \<open>Resource checks\<close>

record resource_check =
  rc_actionKey :: string
  rc_result :: action_result

text \<open>Values of a recorded result that are arrays have no properties.\<close>

definition resource_value :: "action_result \<Rightarrow> jobj option" where
  "resource_value r = (case hr_value r of Some (JObj v) \<Rightarrow> Some v | Some (JArr _) \<Rightarrow> Some [] | _ \<Rightarrow> None)"

definition appendResourceCheck :: "resource_check list \<Rightarrow> string \<Rightarrow> action_result \<Rightarrow> int
    \<Rightarrow> os_error + resource_check list" where
  "appendResourceCheck records key r version =
     (if unusable_read r then Inr records
      else (case resource_value r of
          None \<Rightarrow> Inr records
        | Some v \<Rightarrow>
            if map_of v ''scope'' \<noteq> Some (JStr ''observed_resource_fields'')
               \<or> map_of v ''requestVersion'' \<noteq> Some (JNum version)
               \<or> js_String_opt (map_of v ''status'') \<notin> set [''pass'', ''fail'', ''not_observed'']
            then Inl (JsError ''invalid resource observation'')
            else if list_ex (\<lambda>c. rc_actionKey c = key) records then Inr records
            else if js_len records \<ge> 64 then Inl (JsError ''resource observation limit reached'')
            else Inr (records @ [\<lparr>rc_actionKey = key, rc_result = r\<rparr>])))"

subsection \<open>The snapshot\<close>

datatype author_kind = HumanAuthor | AgentAuthor

record revision =
  rv_id :: string
  rv_text :: string
  rv_createdAt :: int
  rv_author :: "(string \<times> author_kind) option"
  rv_attachments :: "json list option"

text \<open>A steering input of the work store as the revision it becomes.\<close>

definition revision_of :: "steer \<Rightarrow> revision" where
  "revision_of s = \<lparr>rv_id = st_id s, rv_text = st_text s, rv_createdAt = st_createdAt s,
     rv_author = None, rv_attachments = None\<rparr>"

definition revision_eq :: "revision \<Rightarrow> revision \<Rightarrow> bool" where
  "revision_eq a b = (rv_id a = rv_id b \<and> rv_text a = rv_text b \<and> rv_createdAt a = rv_createdAt b
     \<and> rv_author a = rv_author b
     \<and> opt_eq (\<lambda>x y. deep_eq (JArr x) (JArr y)) (rv_attachments a) (rv_attachments b))"

definition revisions_eq :: "revision list \<Rightarrow> revision list \<Rightarrow> bool" where
  "revisions_eq as bs = list_all2 revision_eq as bs"

record request_snapshot =
  rq_workId :: string
  rq_tenantId :: string
  rq_sessionId :: string
  rq_authorId :: string
  rq_sourceRef :: string
  rq_originalText :: string
  rq_revisions :: "revision list"
  rq_codeExecution :: "json option"
  rq_deliveryMode :: "json option"
  rq_mode :: "json option"
  rq_obligations :: "json list option"
  rq_inheritedRevisions :: "revision list option"
  rq_attachments :: "json list"
  rq_evidence :: "evidence_snapshot option"
  rq_contract :: "task_contract option"
  rq_resourceChecks :: "resource_check list option"
  rq_parentWorkId :: "string option"
  rq_rootWorkId :: "string option"
  rq_parentRequestVersion :: "int option"
  rq_instructionAuthor :: "(string \<times> string) option"
  rq_delegatedAssignment :: "string option"
  rq_conversation :: "json option"

definition request_version :: "request_snapshot \<Rightarrow> int" where
  "request_version r = js_len (rq_revisions r) + 1"

definition opt_list :: "'a list option \<Rightarrow> 'a list" where
  "opt_list x = (case x of None \<Rightarrow> [] | Some xs \<Rightarrow> xs)"

lemma opt_list_simps [simp]: "opt_list None = []" "opt_list (Some xs) = xs"
  by (simp_all add: opt_list_def)

text \<open>Every attachment of the request: its own, then those of inherited and own revisions.\<close>

definition all_attachments :: "request_snapshot \<Rightarrow> json list" where
  "all_attachments r = rq_attachments r
     @ concat (map (\<lambda>v. opt_list (rv_attachments v)) (opt_list (rq_inheritedRevisions r) @ rq_revisions r))"

record attachment_slice =
  sl_id :: "json option"
  sl_sourceVersion :: "json option"
  sl_offset :: int
  sl_text :: string
  sl_textLength :: int
  sl_nextOffset :: int
  sl_cut :: bool

definition json_int :: "json option \<Rightarrow> int option" where
  "json_int v = (case v of Some (JNum n) \<Rightarrow> if safe_int n then Some n else None | _ \<Rightarrow> None)"

definition readRequestAttachment :: "request_snapshot \<Rightarrow> jobj \<Rightarrow> os_error + attachment_slice" where
  "readRequestAttachment r args =
     (case filter (\<lambda>a. json_prop a ''id'' = map_of args ''id''
           \<and> json_prop a ''sourceVersion'' = map_of args ''sourceVersion'') (all_attachments r) of
        [] \<Rightarrow> Inl (JsError ''attachment version is missing or ambiguous'')
      | a # as \<Rightarrow>
          if list_ex (\<lambda>x. json_prop x ''text'' \<noteq> json_prop a ''text'') as
          then Inl (JsError ''attachment version is missing or ambiguous'')
          else (case str_of (json_prop a ''text'') of
              None \<Rightarrow> Inl (JsError (''attachment text is unavailable ('' @
                  (case str_of (json_prop a ''contentStatus'') of None \<Rightarrow> ''unavailable'' | Some s \<Rightarrow> s)
                  @ ''); metadata does not verify its contents''))
            | Some text \<Rightarrow>
                (case (json_int (map_of args ''offset''), json_int (map_of args ''limit'')) of
                   (Some offset, Some limit) \<Rightarrow>
                     if offset < 0 \<or> offset > js_len text \<or> limit < 1 \<or> limit > 16000
                     then Inl (JsError ''invalid attachment range'')
                     else Inr \<lparr>sl_id = json_prop a ''id'', sl_sourceVersion = json_prop a ''sourceVersion'',
                       sl_offset = offset, sl_text = take (nat limit) (drop (nat offset) text),
                       sl_textLength = js_len text,
                       sl_nextOffset = min (offset + limit) (js_len text),
                       sl_cut = (offset + limit < js_len text)\<rparr>
                 | _ \<Rightarrow> Inl (JsError ''invalid attachment range''))))"

subsection \<open>Execution mode and capture\<close>

text \<open>\<open>work.meta?.['mode'] ?? 'execute'\<close>, which must print as one of the three modes.\<close>

definition executionMode :: "jobj option \<Rightarrow> os_error + json" where
  "executionMode meta =
     (let mode = (case prop_of meta ''mode'' of None \<Rightarrow> JStr ''execute'' | Some JNull \<Rightarrow> JStr ''execute'' | Some m \<Rightarrow> m)
      in if js_String mode \<in> set [''chat'', ''read'', ''execute''] then Inr mode
         else Inl (JsError ''invalid execution mode''))"

record context_message =
  cm_ref :: string
  cm_authorId :: string
  cm_body :: string

text \<open>A property that is present and truthy is copied.\<close>

definition truthy_json :: "json option \<Rightarrow> json option" where
  "truthy_json v = (case v of None \<Rightarrow> None | Some JNull \<Rightarrow> None | Some (JBool False) \<Rightarrow> None
     | Some (JNum n) \<Rightarrow> if n = 0 then None else v
     | Some (JStr s) \<Rightarrow> if s = [] then None else v | _ \<Rightarrow> v)"

definition or_empty_array :: "json option \<Rightarrow> json" where
  "or_empty_array v = (case v of None \<Rightarrow> JArr [] | Some JNull \<Rightarrow> JArr [] | Some x \<Rightarrow> x)"

text \<open>
  A request another work item delegated carries the parent's snapshot in \<open>meta.delegation\<close>; the code
  reads that object as a \<open>RequestSnapshot\<close> without decoding it, so the model takes its typed view as an
  argument (\<open>None\<close> when the work item has no parent request). The in-memory work store issues no
  \<open>conversation\<close>, so none is copied.
\<close>

definition delegation_of :: "work_item \<Rightarrow> jobj option" where
  "delegation_of work = (case prop_of (wi_meta work) ''delegation'' of Some (JObj d) \<Rightarrow> Some d | _ \<Rightarrow> None)"

definition valid_delegation :: "work_item \<Rightarrow> request_snapshot \<Rightarrow> bool" where
  "valid_delegation work parent =
     (let d = delegation_of work in
      prop_of d ''parentWorkId'' = Some (JStr (rq_workId parent)) \<and> Some (rq_authorId parent) = wi_principalId work
      \<and> str_of (prop_of d ''assignment'') \<noteq> None \<and> str_of (prop_of d ''instructionAuthorId'') \<noteq> None
      \<and> json_int (prop_of d ''parentRequestVersion'') = Some (request_version parent))"

text \<open>Code execution is disabled when either side disables it; a narrower parent mode is kept.\<close>

definition inherited_code :: "json option \<Rightarrow> json option \<Rightarrow> json option" where
  "inherited_code parentCode configured =
     (if parentCode = Some (JStr ''disabled'') \<or> configured = Some (JStr ''disabled'') then Some (JStr ''disabled'')
      else if configured \<noteq> None then configured else parentCode)"

definition inherited_mode :: "json option \<Rightarrow> json \<Rightarrow> json option \<Rightarrow> json option" where
  "inherited_mode configured mode parentMode =
     (if configured \<noteq> None \<or> truthy_json parentMode \<noteq> None
      then (if parentMode = Some (JStr ''chat'') \<or> parentMode = Some (JStr ''read'') \<and> mode = JStr ''execute''
            then parentMode else Some mode)
      else None)"

definition delegated_request :: "work_item \<Rightarrow> context_message \<Rightarrow> request_snapshot \<Rightarrow> json \<Rightarrow> json list \<Rightarrow> request_snapshot" where
  "delegated_request work m parent mode obligations =
     (let d = delegation_of work; code = prop_of (wi_meta work) ''codeExecution'' in
      parent\<lparr>rq_workId := wi_id work, rq_sessionId := wi_sessionId work, rq_sourceRef := cm_ref m,
        rq_revisions := [],
        rq_inheritedRevisions := Some (opt_list (rq_inheritedRevisions parent) @ rq_revisions parent),
        rq_codeExecution := truthy_json (inherited_code (rq_codeExecution parent) code),
        rq_obligations := (if obligations = [] then None else Some obligations),
        rq_mode := inherited_mode (prop_of (wi_meta work) ''mode'') mode (rq_mode parent),
        rq_deliveryMode := truthy_json (prop_of (wi_meta work) ''deliveryMode''),
        rq_contract := None, rq_resourceChecks := None,
        rq_parentWorkId := Some (rq_workId parent),
        rq_rootWorkId := Some (case prop_of d ''rootWorkId'' of
            Some v \<Rightarrow> if v = JNull then (case rq_rootWorkId parent of Some r \<Rightarrow> r | None \<Rightarrow> rq_workId parent) else js_String v
          | None \<Rightarrow> (case rq_rootWorkId parent of Some r \<Rightarrow> r | None \<Rightarrow> rq_workId parent)),
        rq_parentRequestVersion := Some (request_version parent),
        rq_instructionAuthor := Some (js_String_opt (prop_of d ''instructionAuthorId''), ''agent''),
        rq_delegatedAssignment := Some (js_String_opt (prop_of d ''assignment''))\<rparr>)"

definition snapshotRequest :: "work_item \<Rightarrow> request_snapshot option \<Rightarrow> context_message list \<Rightarrow> evidence_item list
    \<Rightarrow> os_error + request_snapshot" where
  "snapshotRequest work parentRequest messages evidence =
     (case filter (\<lambda>m. cm_ref m = wi_triggerRef work) messages of
        [m] \<Rightarrow>
          bindR (executionMode (wi_meta work)) (\<lambda>mode.
          bindR (snapshotObligations (or_empty_array (prop_of (wi_meta work) ''obligations''))) (\<lambda>obligations.
          let code = prop_of (wi_meta work) ''codeExecution''; delivery = prop_of (wi_meta work) ''deliveryMode'' in
          if code \<notin> {None, Some (JStr ''enabled''), Some (JStr ''disabled'')}
          then Inl (JsError ''invalid code execution policy'')
          else if delivery \<noteq> None \<and> js_String_opt delivery \<notin> set [''auto'', ''text'', ''action'']
          then Inl (JsError ''invalid delivery mode'')
          else (case parentRequest of
            Some parent \<Rightarrow>
              if \<not> valid_delegation work parent then Inl (JsError ''invalid delegated request snapshot'')
              else Inr (delegated_request work m parent mode obligations)
          | None \<Rightarrow>
              bindR (snapshotAttachments (or_empty_array (prop_of (wi_meta work) ''attachments''))) (\<lambda>attachments.
              bindR (snapshotEvidence (wi_id work @ '':evidence:1'') evidence) (\<lambda>snap.
              Inr \<lparr>rq_workId = wi_id work, rq_tenantId = wi_tenantId work, rq_sessionId = wi_sessionId work,
                rq_authorId = cm_authorId m, rq_sourceRef = cm_ref m, rq_originalText = cm_body m,
                rq_revisions = [], rq_codeExecution = truthy_json code, rq_deliveryMode = truthy_json delivery,
                rq_mode = (if prop_of (wi_meta work) ''mode'' = None then None else Some mode),
                rq_obligations = (if obligations = [] then None else Some obligations),
                rq_inheritedRevisions = None, rq_attachments = attachments, rq_evidence = Some snap,
                rq_contract = None, rq_resourceChecks = None, rq_parentWorkId = None, rq_rootWorkId = None,
                rq_parentRequestVersion = None, rq_instructionAuthor = None, rq_delegatedAssignment = None,
                rq_conversation = None\<rparr>)))))
      | _ \<Rightarrow> Inl (JsError ''exactly one trigger message is required to capture the original request''))"

end
