(* ===== verification/JsonParse.thy ===== *)
theory JsonParse
  imports Json
begin

text \<open>
  \<open>JSON.parse\<close>, which the program applies to model output and stored step output. The grammar is that
  of ECMA-404 over code units below 256; a number with a fraction or an exponent is kept as its text.
  The lemmas show that the fuel, two units per character, is always enough, and that parsing what
  \<open>JSON.stringify\<close> printed gives the value back.
\<close>

subsection \<open>Tokens\<close>

definition json_ws :: "char \<Rightarrow> bool" where
  "json_ws c = (c = CHR 0x20 \<or> c = CHR 0x09 \<or> c = CHR 0x0A \<or> c = CHR 0x0D)"

definition skip_ws :: "string \<Rightarrow> string" where
  "skip_ws s = dropWhile json_ws s"

definition hex_char :: "char \<Rightarrow> bool" where
  "hex_char c = (let n = of_char c :: nat in 48 \<le> n \<and> n < 58 \<or> 65 \<le> n \<and> n < 71 \<or> 97 \<le> n \<and> n < 103)"

definition hex_any :: "char \<Rightarrow> nat" where
  "hex_any c = (let n = of_char c :: nat in if n < 58 then n - 48 else if n < 71 then n - 55 else n - 87)"

text \<open>One unit of a string: a plain character from U+0020 on, or one of the eight escapes.\<close>

definition escapes :: "(char \<times> char) list" where
  "escapes = [(CHR ''b'', CHR 0x08), (CHR ''t'', CHR 0x09), (CHR ''n'', CHR 0x0A), (CHR ''f'', CHR 0x0C),
     (CHR ''r'', CHR 0x0D), (CHR 0x22, CHR 0x22), (CHR 0x5C, CHR 0x5C), (CHR 0x2F, CHR 0x2F)]"

fun code_unit :: "string \<Rightarrow> (char \<times> string) option" where
  "code_unit (a # b # x # y # r) =
     (if a = CHR ''0'' \<and> b = CHR ''0'' \<and> hex_char x \<and> hex_char y
      then Some (char_of (16 * hex_any x + hex_any y), r) else None)"
| "code_unit _ = None"

definition read_unit :: "string \<Rightarrow> (char \<times> string) option" where
  "read_unit s = (case s of
      [] \<Rightarrow> None
    | c # r \<Rightarrow>
        if (of_char c :: nat) < 32 then None
        else if c \<noteq> CHR 0x5C then Some (c, r)
        else (case r of
            [] \<Rightarrow> None
          | d # r' \<Rightarrow>
              (case map_of escapes d of
                Some e \<Rightarrow> Some (e, r')
              | None \<Rightarrow> if d = CHR ''u'' then code_unit r' else None)))"

lemma code_unit_shorter: "code_unit s = Some (c, r) \<Longrightarrow> length r < length s"
  by (cases s rule: code_unit.cases) (auto split: if_splits)

lemma read_unit_shorter: "read_unit s = Some (c, r) \<Longrightarrow> length r < length s"
  by (auto simp: read_unit_def split: list.splits if_splits option.splits dest: code_unit_shorter)

text \<open>The rest of a string after its opening quotation mark.\<close>

function read_string :: "string \<Rightarrow> (string \<times> string) option" where
  "read_string s = (case s of
      [] \<Rightarrow> None
    | c # r \<Rightarrow> if c = CHR 0x22 then Some ([], r)
        else (case read_unit s of
            None \<Rightarrow> None
          | Some (d, r') \<Rightarrow> (case read_string r' of None \<Rightarrow> None | Some (t, r'') \<Rightarrow> Some (d # t, r''))))"
  by auto
termination by (relation "measure length") (auto dest: read_unit_shorter)

declare read_string.simps [simp del]

lemma read_string_shorter: "read_string s = Some (t, r) \<Longrightarrow> length r < length s"
proof (induction s arbitrary: t r rule: read_string.induct)
  case (1 s)
  show ?case
  proof (cases s)
    case Nil
    then show ?thesis using "1.prems" by (simp add: read_string.simps)
  next
    case (Cons c u)
    show ?thesis
    proof (cases "c = CHR 0x22")
      case True
      then show ?thesis using "1.prems" Cons by (subst (asm) read_string.simps) simp
    next
      case False
      then obtain d r' where d: "read_unit s = Some (d, r')"
        using "1.prems" Cons by (subst (asm) read_string.simps) (auto split: option.splits)
      then obtain t' where "read_string r' = Some (t', r)"
        using "1.prems" Cons False by (subst (asm) read_string.simps) (auto split: option.splits)
      with "1.IH" [OF Cons False d] have "length r < length r'" by simp
      then show ?thesis using read_unit_shorter [OF d] by simp
    qed
  qed
qed

definition dec_char :: "char \<Rightarrow> bool" where
  "dec_char c = (let n = of_char c :: nat in 48 \<le> n \<and> n < 58)"

text \<open>\<open>-? (0 | [1-9] digits) (. digits)? ([eE] [+-]? digits)?\<close>, split off the front of the input.\<close>

definition int_token :: "string \<Rightarrow> bool" where
  "int_token t = (t \<noteq> [] \<and> list_all dec_char t \<and> (hd t = CHR ''0'' \<longrightarrow> t = ''0''))"

definition number_char :: "char \<Rightarrow> bool" where
  "number_char c = (dec_char c \<or> c \<in> set ''+-.eE'')"

definition frac_token :: "string \<Rightarrow> bool" where
  "frac_token t = (let a = takeWhile dec_char t; r = dropWhile dec_char t;
       f = (case r of c # r1 \<Rightarrow> if c = CHR ''.'' then takeWhile dec_char r1 else ''0'' | [] \<Rightarrow> ''0'');
       r2 = (case r of c # r1 \<Rightarrow> if c = CHR ''.'' then dropWhile dec_char r1 else r | [] \<Rightarrow> [])
     in int_token a \<and> f \<noteq> []
       \<and> (case r2 of [] \<Rightarrow> r \<noteq> []
          | e # r3 \<Rightarrow> e \<in> set ''eE'' \<and>
              (let ex = (case r3 of g # r4 \<Rightarrow> if g \<in> set ''+-'' then r4 else r3 | [] \<Rightarrow> [])
               in ex \<noteq> [] \<and> list_all dec_char ex)))"

definition read_number :: "string \<Rightarrow> (json \<times> string) option" where
  "read_number s =
     (let neg = (s \<noteq> [] \<and> hd s = CHR ''-''); s1 = (if neg then tl s else s);
          t = takeWhile number_char s1; r = dropWhile number_char s1
      in if int_token t then Some (JNum (if neg then - int (read_digits t) else int (read_digits t)), r)
         else if frac_token t then Some (JFrac (if neg then CHR ''-'' # t else t), r)
         else None)"

lemma read_number_shorter: "read_number s = Some (v, r) \<Longrightarrow> length r < length s"
proof -
  assume a: "read_number s = Some (v, r)"
  define s1 where "s1 = (if s \<noteq> [] \<and> hd s = CHR ''-'' then tl s else s)"
  have r: "r = dropWhile number_char s1" and t: "takeWhile number_char s1 \<noteq> []"
    using a by (auto simp: read_number_def s1_def Let_def int_token_def frac_token_def split: if_splits)
  have "length (takeWhile number_char s1) + length r = length s1"
    unfolding r by (metis length_append takeWhile_dropWhile_id)
  then have "length r < length s1" using t by (cases "takeWhile number_char s1") auto
  moreover have "length s1 \<le> length s" by (simp add: s1_def)
  ultimately show ?thesis by linarith
qed

subsection \<open>Values\<close>

definition after :: "char \<Rightarrow> string \<Rightarrow> string option" where
  "after c s = (case skip_ws s of [] \<Rightarrow> None | d # r \<Rightarrow> if d = c then Some r else None)"

fun literal :: "string \<Rightarrow> json \<Rightarrow> string \<Rightarrow> (json \<times> string) option" where
  "literal w v s = (if take (length w) s = w then Some (v, drop (length w) s) else None)"

fun p_value :: "nat \<Rightarrow> string \<Rightarrow> (json \<times> string) option"
  and p_items :: "nat \<Rightarrow> json list \<Rightarrow> string \<Rightarrow> (json \<times> string) option"
  and p_members :: "nat \<Rightarrow> jobj \<Rightarrow> string \<Rightarrow> (json \<times> string) option" where
  "p_value 0 s = None"
| "p_value (Suc n) s = (case skip_ws s of
      [] \<Rightarrow> None
    | c # r \<Rightarrow>
        if c = CHR 0x7B then (case after (CHR 0x7D) r of Some r' \<Rightarrow> Some (JObj [], r') | None \<Rightarrow> p_members n [] r)
        else if c = CHR ''['' then (case after (CHR '']'') r of Some r' \<Rightarrow> Some (JArr [], r') | None \<Rightarrow> p_items n [] r)
        else if c = CHR 0x22 then (case read_string r of None \<Rightarrow> None | Some (t, r') \<Rightarrow> Some (JStr t, r'))
        else if c = CHR ''n'' then literal ''null'' JNull (c # r)
        else if c = CHR ''t'' then literal ''true'' (JBool True) (c # r)
        else if c = CHR ''f'' then literal ''false'' (JBool False) (c # r)
        else read_number (c # r))"
| "p_items 0 acc s = None"
| "p_items (Suc n) acc s = (case p_value n s of
      None \<Rightarrow> None
    | Some (v, r) \<Rightarrow> (case after (CHR '','') r of
        Some r' \<Rightarrow> p_items n (acc @ [v]) r'
      | None \<Rightarrow> (case after (CHR '']'') r of Some r' \<Rightarrow> Some (JArr (acc @ [v]), r') | None \<Rightarrow> None)))"
| "p_members 0 acc s = None"
| "p_members (Suc n) acc s = (case after (CHR 0x22) s of
      None \<Rightarrow> None
    | Some r \<Rightarrow> (case read_string r of
        None \<Rightarrow> None
      | Some (k, r1) \<Rightarrow> (case after (CHR '':'') r1 of
          None \<Rightarrow> None
        | Some r2 \<Rightarrow> (case p_value n r2 of
            None \<Rightarrow> None
          | Some (v, r3) \<Rightarrow> (case after (CHR '','') r3 of
              Some r4 \<Rightarrow> p_members n (AList.update k v acc) r4
            | None \<Rightarrow> (case after (CHR 0x7D) r3 of
                Some r4 \<Rightarrow> Some (JObj (AList.update k v acc), r4) | None \<Rightarrow> None))))))"

definition json_parse :: "string \<Rightarrow> json option" where
  "json_parse s = (case p_value (2 * length s) s of
      Some (v, r) \<Rightarrow> if skip_ws r = [] then Some v else None | None \<Rightarrow> None)"

subsection \<open>The fuel is enough\<close>

lemma skip_ws_length: "length (skip_ws s) \<le> length s"
  unfolding skip_ws_def by (rule length_dropWhile_le)

lemma after_shorter: "after c s = Some r \<Longrightarrow> length r < length s"
  using skip_ws_length [of s] by (auto simp: after_def split: list.splits if_splits)

lemma p_shorter:
  "p_value n s = Some (v, r) \<Longrightarrow> length r < length s"
  "p_items n acc s = Some (v, r) \<Longrightarrow> length r < length s"
  "p_members n kvs s = Some (v, r) \<Longrightarrow> length r < length s"
proof (induction n s and n acc s and n kvs s arbitrary: v r and v r and v r rule: p_value_p_items_p_members.induct)
  case (2 n s)
  from "2.prems" "2.IH" skip_ws_length [of s] show ?case
    by (fastforce split: list.splits if_splits option.splits dest: after_shorter read_string_shorter read_number_shorter)
next
  case (4 n acc s)
  from "4.prems" "4.IH" show ?case
    by (fastforce split: option.splits prod.splits dest: after_shorter)
next
  case (6 n acc s)
  from "6.prems" "6.IH" show ?case
    by (fastforce split: option.splits prod.splits dest: after_shorter read_string_shorter)
qed auto

lemma p_fuel:
  "2 * length s \<le> n \<Longrightarrow> p_value (Suc n) s = p_value n s"
  "2 * length s < n \<Longrightarrow> p_items (Suc n) acc s = p_items n acc s"
  "2 * length s < n \<Longrightarrow> p_members (Suc n) kvs s = p_members n kvs s"
proof (induction n s and n acc s and n kvs s rule: p_value_p_items_p_members.induct)
  case (1 s)
  then show ?case by (simp add: skip_ws_def)
next
  case (2 n s)
  show ?case
  proof (cases "skip_ws s")
    case (Cons c r)
    then have "2 * length r < n" using skip_ws_length [of s] "2.prems" by simp
    with "2.IH" Cons show ?thesis by (simp only: p_value.simps) (auto split: option.split)
  qed simp
next
  case (4 n acc s)
  show ?case
  proof (cases "p_value n s")
    case (Some vr)
    obtain v r where [simp]: "vr = (v, r)" by (cases vr)
    have r: "length r < length s" using p_shorter(1) Some by simp
    have "p_items (Suc n) (acc @ [v]) r' = p_items n (acc @ [v]) r'" if "after (CHR '','') r = Some r'" for r'
      using "4.IH"(2) [OF Some _ that] after_shorter [OF that] r "4.prems" by simp
    moreover have "p_value (Suc n) s = p_value n s" using "4.IH"(1) "4.prems" by simp
    ultimately show ?thesis using Some by (subst (1 2) p_items.simps) (auto split: option.split)
  next
    case None
    moreover have "p_value (Suc n) s = p_value n s" using "4.IH"(1) "4.prems" by simp
    ultimately show ?thesis by (subst (1 2) p_items.simps) simp
  qed
next
  case (6 n kvs s)
  show ?case
  proof (cases "after (CHR 0x22) s")
    case (Some q)
    show ?thesis
    proof (cases "read_string q")
      case rd: (Some kr)
      obtain k r1 where [simp]: "kr = (k, r1)" by (cases kr)
      show ?thesis
      proof (cases "after (CHR '':'') r1")
        case cl: (Some r2)
        have len: "length r2 < length s"
          using after_shorter [OF Some] read_string_shorter rd after_shorter [OF cl] by fastforce
        have v: "p_value (Suc n) r2 = p_value n r2" using "6.IH"(1) [OF Some rd _ cl] len "6.prems" by simp
        have "p_members (Suc n) (AList.update k v kvs) r4 = p_members n (AList.update k v kvs) r4"
          if "p_value n r2 = Some (v, r3)" "after (CHR '','') r3 = Some r4" for v r3 r4
          using "6.IH"(2) [OF Some rd _ cl that(1) _ that(2)] p_shorter(1) [OF that(1)] after_shorter [OF that(2)] len "6.prems"
          by simp
        then show ?thesis using Some rd cl v by (subst (1 2) p_members.simps) (auto split: option.split)
      qed (simp add: Some rd)
    qed (simp add: Some)
  qed simp
qed simp_all

declare p_value.simps(2) [simp del] p_items.simps(2) [simp del] p_members.simps(2) [simp del]

lemma p_value_fuel: "2 * length s \<le> n \<Longrightarrow> p_value n s = p_value (2 * length s) s"
proof (induction n)
  case (Suc n)
  then show ?case by (cases "2 * length s \<le> n") (auto simp: p_fuel(1) le_Suc_eq)
qed simp

subsection \<open>Parsing printed values\<close>

lemma hex_any_digit: "d < 16 \<Longrightarrow> hex_char (hex_digit d) \<and> hex_any (hex_digit d) = d"
  by (auto simp: hex_char_def hex_any_def hex_digit_def Let_def)

lemma read_unit_esc: "read_unit (esc_char c @ r) = Some (c, r)"
proof -
  consider "c \<in> {CHR 0x22, CHR 0x5C, CHR 0x08, CHR 0x09, CHR 0x0A, CHR 0x0C, CHR 0x0D}"
    | "c \<notin> {CHR 0x22, CHR 0x5C, CHR 0x08, CHR 0x09, CHR 0x0A, CHR 0x0C, CHR 0x0D}" by blast
  then show ?thesis
  proof cases
    case 1
    then show ?thesis by (auto simp: esc_char_def read_unit_def escapes_def)
  next
    case 2
    show ?thesis
    proof (cases "(of_char c :: nat) < 32")
      case True
      then have "char_of (16 * (of_char c div 16) + of_char c mod 16 :: nat) = c" by simp
      moreover have "(of_char c :: nat) div 16 < 16" using True by linarith
      ultimately show ?thesis using 2 True
        by (simp add: esc_char_def read_unit_def escapes_def hex_any_digit)
    qed (use 2 in \<open>simp add: esc_char_def read_unit_def\<close>)
  qed
qed

lemma esc_char_head: "\<exists>d u. esc_char c @ r = d # u \<and> d \<noteq> CHR 0x22"
  by (auto simp: esc_char_def)

lemma read_string_esc: "read_string (esc s @ CHR 0x22 # r) = Some (s, r)"
proof (induction s)
  case Nil
  then show ?case by (simp add: esc_def read_string.simps)
next
  case (Cons c s)
  obtain d u where h: "esc_char c @ esc s @ CHR 0x22 # r = d # u" "d \<noteq> CHR 0x22"
    using esc_char_head by blast
  have "esc (c # s) @ CHR 0x22 # r = esc_char c @ esc s @ CHR 0x22 # r" by (simp add: esc_def)
  then show ?case using read_unit_esc [of c "esc s @ CHR 0x22 # r"] Cons.IH h
    by (subst read_string.simps) simp
qed

definition stops :: "string \<Rightarrow> bool" where
  "stops r = (r = [] \<or> \<not> number_char (hd r))"

lemma show_nat_dec: "list_all dec_char (show_nat n)"
  using show_nat_digits [of _ n] by (auto simp: list_all_iff dec_char_def Let_def)

lemma show_nat_head: "hd (show_nat n) = CHR ''0'' \<Longrightarrow> show_nat n = ''0''"
proof (induction n rule: show_nat.induct)
  case (1 n)
  have zero: "show_nat 0 = ''0''" by code_simp
  show ?case
  proof (cases "n < 10")
    case True
    then have "digit_char n = CHR ''0''" using "1.prems" by (subst (asm) show_nat.simps) simp
    then have "(of_char (digit_char n) :: nat) = 48" by simp
    then have "n = 0" using True by simp
    with zero show ?thesis by simp
  next
    case False
    then have "hd (show_nat (n div 10)) = CHR ''0''" using "1.prems" by (subst (asm) show_nat.simps) simp
    then have "show_nat (n div 10) = show_nat 0" using "1.IH" [OF False] zero by simp
    then have "n div 10 = 0" by (rule show_nat_inj)
    with False show ?thesis by simp
  qed
qed

lemma takeWhile_stop: "list_all P t \<Longrightarrow> (r = [] \<or> \<not> P (hd r)) \<Longrightarrow> takeWhile P (t @ r) = t \<and> dropWhile P (t @ r) = r"
  by (induction t) (cases r; auto)+

lemma read_number_show: "stops r \<Longrightarrow> read_number (show_int i @ r) = Some (JNum i, r)"
proof -
  assume r: "stops r"
  have tok: "takeWhile number_char (show_nat n @ r) = show_nat n \<and> dropWhile number_char (show_nat n @ r) = r" for n
  proof (rule takeWhile_stop)
    show "list_all number_char (show_nat n)" using show_nat_dec [of n] by (auto simp: list_all_iff number_char_def)
    show "r = [] \<or> \<not> number_char (hd r)" using r by (simp add: stops_def)
  qed
  have it: "int_token (show_nat n)" for n
    using show_nat_dec show_nat_head by (simp add: int_token_def)
  have nm: "hd (show_nat n @ r) \<noteq> CHR ''-''" for n
  proof -
    have "hd (show_nat n) \<in> set (show_nat n)" by simp
    from show_nat_digits [OF this] have "hd (show_nat n) \<noteq> CHR ''-''" by auto
    then show ?thesis by simp
  qed
  show ?thesis
  proof (cases "i < 0")
    case True
    then show ?thesis using tok it read_show_nat by (simp add: read_number_def show_int_def Let_def)
  next
    case False
    then show ?thesis using tok it nm read_show_nat by (simp add: read_number_def show_int_def Let_def)
  qed
qed

text \<open>Values without fractional numbers; a number in front of \<open>r\<close> must end there.\<close>

fun integral :: "json \<Rightarrow> bool" where
  "integral (JFrac t) = False"
| "integral (JArr vs) = list_all integral vs"
| "integral (JObj kvs) = list_all (\<lambda>(k, v). integral v) kvs"
| "integral _ = True"

definition parses :: "json \<Rightarrow> bool" where
  "parses v = (\<forall>n r. 2 * length (stringify v @ r) \<le> n \<longrightarrow> stops r \<longrightarrow> p_value n (stringify v @ r) = Some (v, r))"

lemma parsesD: "parses v \<Longrightarrow> 2 * length (stringify v @ r) \<le> n \<Longrightarrow> stops r \<Longrightarrow> p_value n (stringify v @ r) = Some (v, r)"
  by (simp add: parses_def)

lemma stops_close [simp]: "stops (CHR '','' # r)" "stops (CHR '']'' # r)" "stops (CHR 0x7D # r)" "stops []"
  by (simp_all add: stops_def number_char_def dec_char_def)

lemma after_simps [simp]: "after c (d # r) = (if json_ws d then after c r else if d = c then Some r else None)"
  by (simp add: after_def skip_ws_def)

lemma ws_simps [simp]: "\<not> json_ws (CHR 0x7B)" "\<not> json_ws (CHR 0x7D)" "\<not> json_ws (CHR ''['')" "\<not> json_ws (CHR '']'')"
  "\<not> json_ws (CHR 0x22)" "\<not> json_ws (CHR '','')" "\<not> json_ws (CHR '':'')" "\<not> json_ws (CHR ''n'')"
  "\<not> json_ws (CHR ''t'')" "\<not> json_ws (CHR ''f'')"
  by (simp_all add: json_ws_def)

lemma stringify_head: "integral v \<Longrightarrow> \<exists>c s. stringify v = c # s \<and> \<not> json_ws c \<and> c \<noteq> CHR '']''"
proof (cases v)
  case (JNum i)
  obtain c s where cs: "show_int i = c # s" by (cases "show_int i") (auto simp: show_int_def split: if_splits)
  have "c = CHR ''-'' \<or> c \<in> set (show_nat (nat i))" using cs by (auto simp: show_int_def split: if_splits)
  then have "\<not> json_ws c \<and> c \<noteq> CHR '']''"
    using show_nat_digits [of c "nat i"] by (auto simp: json_ws_def)
  with cs JNum show ?thesis by simp
qed (auto simp: quote_def)

lemma parses_JNum: "parses (JNum i)"
  unfolding parses_def
proof (intro allI impI)
  fix n r assume n: "2 * length (stringify (JNum i) @ r) \<le> n" and r: "stops r"
  obtain c s where cs: "show_int i = c # s" by (cases "show_int i") (auto simp: show_int_def split: if_splits)
  have c: "c = CHR ''-'' \<or> c \<in> set (show_nat (nat i))" using cs by (auto simp: show_int_def split: if_splits)
  have plain: "\<not> json_ws c" "c \<noteq> CHR 0x7B" "c \<noteq> CHR ''[''" "c \<noteq> CHR 0x22" "c \<noteq> CHR ''n''" "c \<noteq> CHR ''t''" "c \<noteq> CHR ''f''"
    using c show_nat_digits [of c "nat i"] by (auto simp: json_ws_def)
  obtain m where "n = Suc m" using n cs by (cases n) auto
  with plain cs read_number_show [OF r, of i] show "p_value n (stringify (JNum i) @ r) = Some (JNum i, r)"
    by (simp add: p_value.simps(2) skip_ws_def)
qed

lemma parses_JStr: "parses (JStr t)"
  unfolding parses_def
proof (intro allI impI)
  fix n r assume n: "2 * length (stringify (JStr t) @ r) \<le> n"
  then obtain m where "n = Suc m" by (cases n) (auto simp: quote_def)
  then show "p_value n (stringify (JStr t) @ r) = Some (JStr t, r)"
    by (simp add: p_value.simps(2) skip_ws_def quote_def read_string_esc)
qed

lemma parses_const: "parses JNull" "parses (JBool b)"
proof -
  show "parses JNull" unfolding parses_def
  proof (intro allI impI)
    fix n r assume "2 * length (stringify JNull @ r) \<le> n"
    then obtain m where "n = Suc m" by (cases n) auto
    then show "p_value n (stringify JNull @ r) = Some (JNull, r)" by (simp add: p_value.simps(2) skip_ws_def)
  qed
  show "parses (JBool b)" unfolding parses_def
  proof (intro allI impI)
    fix n r assume "2 * length (stringify (JBool b) @ r) \<le> n"
    then obtain m where "n = Suc m" by (cases n) (auto split: if_splits)
    then show "p_value n (stringify (JBool b) @ r) = Some (JBool b, r)"
      by (cases b) (simp_all add: p_value.simps(2) skip_ws_def)
  qed
qed

lemma parse_items:
  "list_all parses (v # vs) \<Longrightarrow> 2 * length (join_with '','' (map stringify (v # vs)) @ CHR '']'' # r) < n \<Longrightarrow>
    p_items n acc (join_with '','' (map stringify (v # vs)) @ CHR '']'' # r) = Some (JArr (acc @ v # vs), r)"
proof (induction vs arbitrary: v n acc)
  case Nil
  then obtain m where m: "n = Suc m" by (cases n) auto
  have "p_value m (stringify v @ CHR '']'' # r) = Some (v, CHR '']'' # r)"
    using Nil m by (intro parsesD) auto
  with m show ?case by (simp add: p_items.simps(2))
next
  case (Cons w ws)
  obtain m where m: "n = Suc m" using Cons.prems by (cases n) auto
  let ?rest = "join_with '','' (map stringify (w # ws)) @ CHR '']'' # r"
  have layout: "join_with '','' (map stringify (v # w # ws)) @ CHR '']'' # r = stringify v @ CHR '','' # ?rest" by simp
  have "p_value m (stringify v @ CHR '','' # ?rest) = Some (v, CHR '','' # ?rest)"
    using Cons.prems m by (intro parsesD) auto
  moreover have "p_items m (acc @ [v]) ?rest = Some (JArr ((acc @ [v]) @ w # ws), r)"
    using Cons.prems m by (intro Cons.IH) auto
  ultimately show ?case unfolding layout using m by (simp add: p_items.simps(2))
qed

definition member_text :: "string \<times> json \<Rightarrow> string" where
  "member_text kv = quote (fst kv) @ CHR '':'' # stringify (snd kv)"

lemma member_text_pair: "member_text (k, v) = quote k @ CHR '':'' # stringify v"
  by (simp add: member_text_def)

lemma member_text_eq: "(\<lambda>(k, v). quote k @ '':'' @ stringify v) = member_text"
  by (simp add: fun_eq_iff member_text_def)

lemma update_fresh: "k \<notin> set (map fst m) \<Longrightarrow> AList.update k v m = m @ [(k, v)]"
  by (induction m) auto

lemma parse_members:
  "list_all (\<lambda>kv. parses (snd kv)) (kv # kvs) \<Longrightarrow> distinct (map fst (acc @ kv # kvs)) \<Longrightarrow>
   2 * length (join_with '','' (map member_text (kv # kvs)) @ CHR 0x7D # r) < n \<Longrightarrow>
    p_members n acc (join_with '','' (map member_text (kv # kvs)) @ CHR 0x7D # r) = Some (JObj (acc @ kv # kvs), r)"
proof (induction kvs arbitrary: kv n acc)
  case Nil
  obtain k v where [simp]: "kv = (k, v)" by (cases kv)
  obtain m where m: "n = Suc m" using Nil by (cases n) auto
  have "p_value m (stringify v @ CHR 0x7D # r) = Some (v, CHR 0x7D # r)"
    using Nil m by (intro parsesD) (auto simp: member_text_pair)
  with m Nil show ?case by (simp add: p_members.simps(2) member_text_pair quote_def read_string_esc update_fresh)
next
  case (Cons w ws)
  obtain k v where [simp]: "kv = (k, v)" by (cases kv)
  obtain m where m: "n = Suc m" using Cons.prems by (cases n) auto
  let ?rest = "join_with '','' (map member_text (w # ws)) @ CHR 0x7D # r"
  have layout: "join_with '','' (map member_text (kv # w # ws)) @ CHR 0x7D # r
      = CHR 0x22 # esc k @ CHR 0x22 # CHR '':'' # stringify v @ CHR '','' # ?rest"
    by (simp add: member_text_pair quote_def)
  have "p_value m (stringify v @ CHR '','' # ?rest) = Some (v, CHR '','' # ?rest)"
    using Cons.prems m by (intro parsesD) (auto simp: member_text_pair)
  moreover have "AList.update k v acc = acc @ [kv]" using Cons.prems by (simp add: update_fresh)
  moreover have "p_members m (acc @ [kv]) ?rest = Some (JObj ((acc @ [kv]) @ w # ws), r)"
    using Cons.prems m by (intro Cons.IH) (auto simp: member_text_pair)
  ultimately show ?case unfolding layout using m by (simp add: p_members.simps(2) read_string_esc)
qed

lemma parses_all: "wf_json v \<Longrightarrow> integral v \<Longrightarrow> parses v"
proof (induction v)
  case (JArr vs)
  show ?case unfolding parses_def
  proof (intro allI impI)
    fix n r assume n: "2 * length (stringify (JArr vs) @ r) \<le> n"
    then obtain m where m: "n = Suc m" by (cases n) auto
    show "p_value n (stringify (JArr vs) @ r) = Some (JArr vs, r)"
    proof (cases vs)
      case Nil
      with m show ?thesis by (simp add: p_value.simps(2) skip_ws_def)
    next
      case (Cons w ws)
      let ?t = "join_with '','' (map stringify (w # ws)) @ CHR '']'' # r"
      have "integral w" using JArr.prems Cons by simp
      then obtain c u where h: "stringify w = c # u" "\<not> json_ws c" "c \<noteq> CHR '']''" using stringify_head by blast
      have "after (CHR '']'') ?t = None" using h by (cases ws) auto
      moreover have "list_all parses (w # ws)" using JArr Cons by (auto simp: list_all_iff)
      then have "p_items m [] ?t = Some (JArr ([] @ w # ws), r)" using n m Cons by (intro parse_items) auto
      ultimately show ?thesis using m Cons by (simp add: p_value.simps(2) skip_ws_def)
    qed
  qed
next
  case (JObj kvs)
  show ?case unfolding parses_def
  proof (intro allI impI)
    fix n r assume n: "2 * length (stringify (JObj kvs) @ r) \<le> n"
    then obtain m where m: "n = Suc m" by (cases n) auto
    have layout: "stringify (JObj kvs) @ r = CHR 0x7B # join_with '','' (map member_text kvs) @ CHR 0x7D # r"
      unfolding stringify.simps member_text_eq by simp
    show "p_value n (stringify (JObj kvs) @ r) = Some (JObj kvs, r)"
    proof (cases kvs)
      case Nil
      with m show ?thesis by (simp add: p_value.simps(2) skip_ws_def)
    next
      case (Cons w ws)
      let ?t = "join_with '','' (map member_text (w # ws)) @ CHR 0x7D # r"
      have "parses (snd kv)" if "kv \<in> set kvs" for kv
        using JObj.IH [of kv "snd kv"] JObj.prems that by (cases kv) (auto simp: list_all_iff)
      then have items: "list_all (\<lambda>kv. parses (snd kv)) (w # ws)" using Cons by (simp add: list_all_iff)
      have close: "after (CHR 0x7D) ?t = None" by (cases ws) (auto simp: member_text_def quote_def)
      have "2 * length ?t < m" using n m Cons unfolding layout by simp
      moreover have "distinct (map fst ([] @ w # ws))" using JObj.prems Cons by simp
      ultimately have "p_members m [] ?t = Some (JObj ([] @ w # ws), r)" using items by (intro parse_members)
      with close show ?thesis unfolding layout using m Cons by (simp add: p_value.simps(2) skip_ws_def)
    qed
  qed
qed (auto intro: parses_const parses_JNum parses_JStr)

text \<open>\<open>JSON.parse(JSON.stringify(v))\<close> is \<open>v\<close>.\<close>

lemma parse_stringify: "wf_json v \<Longrightarrow> integral v \<Longrightarrow> json_parse (stringify v) = Some v"
  using parsesD [OF parses_all, of v "[]"] by (simp add: json_parse_def skip_ws_def)

end
