(* ===== verification/Sessions.thy ===== *)
theory Sessions
  imports Request JsonParse
begin

text \<open>
  The session store of src/control-plane/memory-store.ts, saved with optimistic concurrency, and the
  execution-step store at the end of src/control-plane/steps.ts. The theorem shows that a save made
  from a stale revision is refused for good.
\<close>

subsection \<open>Session records\<close>

record session =
  ss_request :: "request_snapshot option"
  ss_key :: string
  ss_tenantId :: string
  ss_agentId :: string
  ss_sessionId :: string
  ss_threadId :: "string option"
  ss_summary :: "string option"
  ss_history :: "json list"
  ss_appliedWorkIds :: "string list"
  ss_revision :: int
  ss_compactionEpoch :: int
  ss_promptContext :: "json option"

definition is_str :: "json option \<Rightarrow> bool" where
  "is_str v = (str_of v \<noteq> None)"

definition isModelItem :: "json \<Rightarrow> bool" where
  "isModelItem v = (case v of
      JObj a \<Rightarrow>
        (case map_of a ''role'' of
           Some (JStr role) \<Rightarrow> role \<in> set [''user'', ''assistant'', ''system''] \<and> is_str (map_of a ''content'')
         | _ \<Rightarrow>
             if map_of a ''type'' = Some (JStr ''function_call'')
             then is_str (map_of a ''callId'') \<and> is_str (map_of a ''name'') \<and> is_str (map_of a ''arguments'')
             else if map_of a ''type'' = Some (JStr ''function_call_output'')
             then is_str (map_of a ''callId'') \<and> is_str (map_of a ''output'')
             else False)
    | _ \<Rightarrow> False)"

subsection \<open>The session store\<close>

record session_store =
  se_sessions :: "(string, session) jsmap"
  se_requests :: "(string, request_snapshot) jsmap"

definition empty_sessions :: session_store where
  "empty_sessions = \<lparr>se_sessions = [], se_requests = []\<rparr>"

text \<open>An empty \<open>workId\<close> counts as absent.\<close>

definition get_session :: "string \<Rightarrow> string option \<Rightarrow> session_store \<Rightarrow> session option" where
  "get_session key workId s = (case map_of (se_sessions s) key of
      None \<Rightarrow> None
    | Some stored \<Rightarrow> Some (stored\<lparr>ss_request := (case workId of
          Some w \<Rightarrow> if w = [] then ss_request stored else map_of (se_requests s) w
        | None \<Rightarrow> ss_request stored)\<rparr>))"

definition stored_revision :: "string \<Rightarrow> session_store \<Rightarrow> int" where
  "stored_revision key s = (case map_of (se_sessions s) key of None \<Rightarrow> 0 | Some r \<Rightarrow> ss_revision r)"

datatype save_result = Saved int | Conflict

definition save_session :: "session \<Rightarrow> session_store \<Rightarrow> save_result \<times> session_store" where
  "save_session r s =
     (let current = stored_revision (ss_key r) s in
      if ss_revision r \<noteq> current then (Conflict, s)
      else let next_r = r\<lparr>ss_revision := current + 1\<rparr> in
        (Saved (current + 1),
         s\<lparr>se_sessions := AList.update (ss_key r) next_r (se_sessions s),
           se_requests := (case ss_request r of None \<Rightarrow> se_requests s
             | Some q \<Rightarrow> AList.update (rq_workId q) q (se_requests s))\<rparr>))"

inductive sstep :: "session_store \<Rightarrow> session_store \<Rightarrow> bool" where
  "sstep s (snd (save_session r s))"

lemma save_revision: "stored_revision k (snd (save_session r s)) =
    (if k = ss_key r \<and> ss_revision r = stored_revision k s then stored_revision k s + 1 else stored_revision k s)"
  by (simp add: save_session_def Let_def stored_revision_def)

lemma sstep_revision: "sstep\<^sup>*\<^sup>* s s' \<Longrightarrow> stored_revision k s \<le> stored_revision k s'"
  by (induction rule: rtranclp_induct) (auto elim!: sstep.cases simp: save_revision)

lemma save_outcome: "fst (save_session r s) = Saved n \<longleftrightarrow> n = ss_revision r + 1 \<and> ss_revision r = stored_revision (ss_key r) s"
  by (auto simp: save_session_def Let_def)

definition sample_session :: session where
  "sample_session = \<lparr>ss_request = None, ss_key = ''k'', ss_tenantId = ''t'', ss_agentId = ''a'', ss_sessionId = ''s1'',
     ss_threadId = None, ss_summary = None, ss_history = [], ss_appliedWorkIds = [], ss_revision = 0,
     ss_compactionEpoch = 0, ss_promptContext = None\<rparr>"

text \<open>C18: session saves never lose an update. A successful save stores the record under the next
  revision and returns it; from then on every save that was prepared from that revision or an
  older one is refused, in every later state, and leaves the stored record as it is.\<close>

theorem stale_save_refused:
  assumes "save_session r s = (Saved n, s1)" and "sstep\<^sup>*\<^sup>* s1 s2"
    and "ss_key q = ss_key r" and "ss_revision q \<le> ss_revision r"
  shows "n = ss_revision r + 1 \<and> stored_revision (ss_key r) s = ss_revision r
    \<and> map_of (se_sessions s1) (ss_key r) = Some (r\<lparr>ss_revision := n\<rparr>)
    \<and> save_session q s2 = (Conflict, s2)"
proof -
  have ok: "n = ss_revision r + 1" "stored_revision (ss_key r) s = ss_revision r"
    using save_outcome [of r s n] assms(1) by auto
  have s1: "s1 = snd (save_session r s)" using assms(1) by simp
  have "stored_revision (ss_key r) s1 = n" using ok by (simp add: s1 save_revision)
  then have "n \<le> stored_revision (ss_key r) s2" using sstep_revision [OF assms(2)] by metis
  then have "save_session q s2 = (Conflict, s2)" using assms(3,4) ok by (simp add: save_session_def)
  moreover have "map_of (se_sessions s1) (ss_key r) = Some (r\<lparr>ss_revision := n\<rparr>)"
    using ok by (simp add: s1 save_session_def Let_def)
  ultimately show ?thesis using ok by blast
qed

lemma stale_save_witness: "fst (save_session (sample_session\<lparr>ss_summary := Some ''late''\<rparr>)
    (snd (save_session sample_session empty_sessions))) = Conflict"
proof -
  have "save_session sample_session empty_sessions = (Saved 1, snd (save_session sample_session empty_sessions))"
    by code_simp
  from stale_save_refused [OF this rtranclp.rtrancl_refl, of "sample_session\<lparr>ss_summary := Some ''late''\<rparr>"]
  show ?thesis by simp
qed

subsection \<open>Execution steps\<close>

record execution_step =
  xs_id :: string
  xs_requestVersion :: int
  xs_kind :: string
  xs_input :: jobj
  xs_output :: "string option"
  xs_artifacts :: "artifact list"
  xs_workspace :: "json option"

type_synonym step_store = "(string, execution_step) jsmap"

definition step_key :: "string \<Rightarrow> string \<Rightarrow> string" where
  "step_key workId i = stringify (JArr [JStr workId, JStr i])"

definition step_eq :: "execution_step \<Rightarrow> execution_step \<Rightarrow> bool" where
  "step_eq a b = (xs_id a = xs_id b \<and> xs_requestVersion a = xs_requestVersion b \<and> xs_kind a = xs_kind b
     \<and> obj_eq (xs_input a) (xs_input b) \<and> xs_output a = xs_output b \<and> xs_artifacts a = xs_artifacts b
     \<and> opt_eq deep_eq (xs_workspace a) (xs_workspace b))"

definition step_changed :: "execution_step \<Rightarrow> execution_step \<Rightarrow> bool" where
  "step_changed prior step = (\<not> obj_eq (xs_input prior) (xs_input step) \<or> xs_kind prior \<noteq> xs_kind step
     \<or> xs_requestVersion prior \<noteq> xs_requestVersion step
     \<or> xs_output prior \<noteq> None \<and> \<not> step_eq prior step)"

definition save_step :: "string \<Rightarrow> execution_step \<Rightarrow> (step_store, unit) prog" where
  "save_step workId step = (\<lambda>m.
     let key = step_key workId (xs_id step) in
     case map_of m key of
       Some prior \<Rightarrow> if step_changed prior step then (Inl (JsError ''step identity changed''), m)
         else (Inr (), AList.update key step m)
     | None \<Rightarrow> (Inr (), AList.update key step m))"

definition get_step :: "string \<Rightarrow> string \<Rightarrow> int \<Rightarrow> step_store \<Rightarrow> execution_step option" where
  "get_step workId i version m = (case map_of m (step_key workId i) of
      None \<Rightarrow> None | Some step \<Rightarrow> if xs_requestVersion step = version then Some step else None)"

definition step_owner :: "string \<Rightarrow> json option" where
  "step_owner key = (case json_parse key of Some (JArr (v # _)) \<Rightarrow> Some v | _ \<Rightarrow> None)"

definition list_steps :: "string \<Rightarrow> int option \<Rightarrow> step_store \<Rightarrow> execution_step list" where
  "list_steps workId version m =
     map snd (filter (\<lambda>(key, step). step_owner key = Some (JStr workId)
         \<and> (case version of None \<Rightarrow> True | Some v \<Rightarrow> xs_requestVersion step = v)) m)"

lemma step_owner_key [simp]: "step_owner (step_key workId i) = Some (JStr workId)"
  using parse_stringify [of "JArr [JStr workId, JStr i]"] by (simp add: step_owner_def step_key_def)

end
