(* ===== verification/Outcome.thy ===== *)
theory Outcome
  imports Sessions Tools
begin

text \<open>
  How a final answer is checked: the strict self-assessment the answering model must return
  (src/outcome/assessment.ts), the completion rules (src/outcome/completion.ts), the response
  envelope with its located citations (src/outcome/envelope.ts) and the candidate hash
  (src/outcome/verification.ts).
\<close>

subsection \<open>Self-assessment\<close>

datatype check_status = CheckMet | CheckUnmet | CheckUnknown
datatype assess_status = AssessSatisfied | AssessPartial | AssessBlocked | AssessDelegated

fun check_status_name :: "check_status \<Rightarrow> string" where
  "check_status_name CheckMet = ''met''"
| "check_status_name CheckUnmet = ''unmet''"
| "check_status_name CheckUnknown = ''unknown''"

fun assess_status_name :: "assess_status \<Rightarrow> string" where
  "assess_status_name AssessSatisfied = ''satisfied''"
| "assess_status_name AssessPartial = ''partial''"
| "assess_status_name AssessBlocked = ''blocked''"
| "assess_status_name AssessDelegated = ''delegated''"

record goal_check =
  gc_requirement :: string
  gc_status :: check_status
  gc_basis :: string

record assessment =
  sa_status :: assess_status
  sa_checks :: "goal_check list"
  sa_gaps :: "string list"
  sa_taskRef :: "string option"

definition check_status_of :: "json option \<Rightarrow> check_status option" where
  "check_status_of v = (case str_of v of None \<Rightarrow> None
     | Some s \<Rightarrow> List.find (\<lambda>c. check_status_name c = s) [CheckMet, CheckUnmet, CheckUnknown])"

definition assess_status_of :: "json option \<Rightarrow> assess_status option" where
  "assess_status_of v = (case str_of v of None \<Rightarrow> None
     | Some s \<Rightarrow> List.find (\<lambda>c. assess_status_name c = s)
         [AssessSatisfied, AssessPartial, AssessBlocked, AssessDelegated])"

text \<open>\<open>Object.keys(v).sort().join(',')\<close>\<close>

definition key_line :: "string list \<Rightarrow> string" where
  "key_line ks = join_with '','' (sort ks)"

text \<open>The human texts a requirement may be copied from.\<close>

definition request_texts :: "request_snapshot \<Rightarrow> string list" where
  "request_texts r = rq_originalText r # map rv_text (opt_list (rq_inheritedRevisions r)) @ map rv_text (rq_revisions r)"

definition parse_check :: "request_snapshot \<Rightarrow> json \<Rightarrow> os_error + goal_check" where
  "parse_check r v = (case v of
      JObj c \<Rightarrow>
        (case (str_of (map_of c ''requirement''), check_status_of (map_of c ''status''), str_of (map_of c ''basis'')) of
           (Some req, Some st, Some basis) \<Rightarrow>
             if key_line (map fst c) \<noteq> ''basis,requirement,status'' \<or> blank req \<or> js_len req > 4000
               \<or> blank basis \<or> js_len basis > 4000
             then Inl (JsError ''final checks must refer to the original request or revisions'')
             else if \<not> list_ex (\<lambda>t. js_includes t req) (request_texts r)
             then Inl (JsError (''Each requirement must be copied verbatim from originalText or a revision, without paraphrasing or translating. Non-matching requirement: ''
                @ quote (take 240 req)))
             else Inr \<lparr>gc_requirement = req, gc_status = st, gc_basis = basis\<rparr>
         | _ \<Rightarrow> Inl (JsError ''final checks must refer to the original request or revisions''))
    | _ \<Rightarrow> Inl (JsError ''final checks must refer to the original request or revisions''))"

fun parse_checks :: "request_snapshot \<Rightarrow> json list \<Rightarrow> os_error + goal_check list" where
  "parse_checks r [] = Inr []"
| "parse_checks r (v # vs) = bindR (parse_check r v) (\<lambda>c. bindR (parse_checks r vs) (\<lambda>cs. Inr (c # cs)))"

definition latest_revision :: "request_snapshot \<Rightarrow> revision option" where
  "latest_revision r = (case rev (rq_revisions r) of v # _ \<Rightarrow> Some v
     | [] \<Rightarrow> (case rev (opt_list (rq_inheritedRevisions r)) of v # _ \<Rightarrow> Some v | [] \<Rightarrow> None))"

text \<open>A \<open>taskRef\<close> that is missing, \<open>null\<close> or empty counts as none.\<close>

definition no_task_ref :: "json option \<Rightarrow> bool" where
  "no_task_ref v = (v = None \<or> v = Some JNull \<or> v = Some (JStr []))"

definition task_ref_ok :: "assess_status \<Rightarrow> json option \<Rightarrow> bool" where
  "task_ref_ok st v = (if st = AssessDelegated
     then (case v of Some (JStr t) \<Rightarrow> \<not> blank t \<and> js_len t \<le> 240 | _ \<Rightarrow> False)
     else no_task_ref v)"

text \<open>\<open>parseFinalCandidate\<close> after \<open>JSON.parse\<close>.\<close>

definition final_value :: "json \<Rightarrow> request_snapshot \<Rightarrow> os_error + (string \<times> assessment)" where
  "final_value v r = (case v of
      JObj o' \<Rightarrow>
        if key_line (filter (\<lambda>k. k \<noteq> ''taskRef'') (map fst o')) \<noteq> ''body,checks,gaps,status''
        then Inl (JsError ''final JSON requires exactly body, status, checks and gaps; taskRef is only for delegation. Execute Python through the actual ipython tool, not a JSON description of a tool call.'')
        else (case map_of o' ''body'' of
          Some (JStr body) \<Rightarrow>
            if blank body \<or> js_len body > 100000
            then Inl (JsError ''final body must be a non-empty string, including when the answer is a number'')
            else (case assess_status_of (map_of o' ''status'') of
              None \<Rightarrow> Inl (JsError ''final status must be satisfied, partial, blocked or delegated'')
            | Some st \<Rightarrow>
                if \<not> task_ref_ok st (map_of o' ''taskRef'')
                then Inl (JsError (if st = AssessDelegated then ''delegation requires a taskRef'' else ''taskRef is only for delegation''))
                else (case map_of o' ''gaps'' of
                  Some (JArr gs) \<Rightarrow>
                    if js_len gs > 64 \<or> \<not> list_all (short_text 2000) gs
                    then Inl (JsError ''gaps must be an array of up to 64 remaining-work strings'')
                    else (case map_of o' ''checks'' of
                      Some (JArr cs) \<Rightarrow>
                        if cs = [] \<or> js_len cs > 64
                        then Inl (JsError ''checks must contain 1 to 64 requirement/status/basis objects'')
                        else bindR (parse_checks r cs) (\<lambda>checks.
                          if (case latest_revision r of None \<Rightarrow> False
                              | Some latest \<Rightarrow> \<not> list_ex (\<lambda>c. js_includes (rv_text latest) (gc_requirement c)) checks)
                          then Inl (JsError ''final self-check must cover the latest user revision'')
                          else if st = AssessSatisfied \<and> (gs \<noteq> [] \<or> list_ex (\<lambda>c. gc_status c \<noteq> CheckMet) checks)
                          then Inl (JsError ''a satisfied self-check cannot contain unresolved requirements'')
                          else if st \<noteq> AssessSatisfied \<and> gs = []
                          then Inl (JsError ''partial or blocked candidates must explain the remaining gap'')
                          else Inr (js_trim body, \<lparr>sa_status = st, sa_checks = checks, sa_gaps = strings_of gs,
                            sa_taskRef = (if st = AssessDelegated then str_of (map_of o' ''taskRef'') else None)\<rparr>))
                    | _ \<Rightarrow> Inl (JsError ''checks must contain 1 to 64 requirement/status/basis objects''))
                | _ \<Rightarrow> Inl (JsError ''gaps must be an array of up to 64 remaining-work strings'')))
        | _ \<Rightarrow> Inl (JsError ''final body must be a non-empty string, including when the answer is a number''))
    | _ \<Rightarrow> Inl (JsError ''final response must be a JSON object''))"

definition parseFinalCandidate :: "string \<Rightarrow> request_snapshot \<Rightarrow> os_error + (string \<times> assessment)" where
  "parseFinalCandidate raw r = (case json_parse raw of
      None \<Rightarrow> Inl (JsError ''invalid JSON'')
    | Some v \<Rightarrow> final_value v r)"

text \<open>\<open>{ body, ...assessment }\<close>\<close>

definition check_json :: "goal_check \<Rightarrow> json" where
  "check_json c = JObj [(''requirement'', JStr (gc_requirement c)), (''status'', JStr (check_status_name (gc_status c))),
     (''basis'', JStr (gc_basis c))]"

definition assessment_fields :: "assessment \<Rightarrow> jobj" where
  "assessment_fields a = [(''status'', JStr (assess_status_name (sa_status a))),
     (''checks'', JArr (map check_json (sa_checks a))), (''gaps'', JArr (map JStr (sa_gaps a)))]
     @ opt_prop ''taskRef'' (map_option JStr (sa_taskRef a))"

definition candidate_json :: "string \<Rightarrow> assessment \<Rightarrow> json" where
  "candidate_json body a = JObj ((''body'', JStr body) # assessment_fields a)"

subsection \<open>Completion\<close>

definition validateCompletion :: "string \<Rightarrow> assessment option \<Rightarrow> request_snapshot \<Rightarrow> goal_outcome \<Rightarrow> string list
    \<Rightarrow> os_error + unit" where
  "validateCompletion body assessment r outcome gaps =
     bindR (case assessment of None \<Rightarrow> Inr ()
         | Some a \<Rightarrow> bindR (parseFinalCandidate (stringify (candidate_json body a)) r) (\<lambda>_. Inr ()))
       (\<lambda>_. if go_status outcome = Satisfied
             \<and> ((case assessment of None \<Rightarrow> False | Some a \<Rightarrow> sa_status a \<noteq> AssessSatisfied) \<or> gaps \<noteq> [])
         then Inl (JsError (''successful completion requires no unresolved verification: '' @ join_with ''; '' gaps))
         else (case go_status outcome of
             Delegated t \<Rightarrow> (case assessment of
                 Some a \<Rightarrow> if sa_status a \<noteq> AssessDelegated \<or> sa_taskRef a \<noteq> Some t
                   then Inl (JsError ''delegation requires a matching assessed task reference'') else Inr ()
               | None \<Rightarrow> Inl (JsError ''delegation requires a matching assessed task reference''))
           | _ \<Rightarrow> Inr ()))"

definition businessActionDeliveryGap :: "request_snapshot \<Rightarrow> bool \<Rightarrow> bool \<Rightarrow> string option" where
  "businessActionDeliveryGap r hasReceipt hasArtifact =
     (if (rq_deliveryMode r = Some (JStr ''action'')
          \<or> rq_deliveryMode r = None \<and> rq_mode r = Some (JStr ''execute'')
            \<and> (case rq_obligations r of None \<Rightarrow> True | Some os \<Rightarrow> os = []) \<and> \<not> hasArtifact) \<and> \<not> hasReceipt
      then Some ''Requested business action has no durable successful receipt for the current request version''
      else None)"

subsection \<open>Which candidates need an independent review\<close>

text \<open>
  The two text patterns of \<open>requiresReview\<close>, restricted like every string here to code units below 256:
  the alternatives written in Chinese characters never match such a text.
\<close>

definition word_char :: "char \<Rightarrow> bool" where
  "word_char c = (is_digit c \<or> is_lower c \<or> is_upper c \<or> c = CHR ''_'')"

text \<open>\<open>/\b(?:w1|w2|...)\b/i\<close>; \<open>prev\<close> tells whether the character before is a word character.\<close>

fun has_word :: "string list \<Rightarrow> bool \<Rightarrow> string \<Rightarrow> bool" where
  "has_word ws prev [] = False"
| "has_word ws prev (c # cs) =
     (\<not> prev \<and> list_ex (\<lambda>w. starts_with (map to_lower (c # cs)) w
         \<and> (case drop (length w) (c # cs) of [] \<Rightarrow> True | d # _ \<Rightarrow> \<not> word_char d)) ws
      \<or> has_word ws (word_char c) cs)"

definition includes_ci :: "string \<Rightarrow> string \<Rightarrow> bool" where
  "includes_ci s p = js_includes (map to_lower s) p"

fun split_clauses :: "string \<Rightarrow> string list" where
  "split_clauses [] = [[]]"
| "split_clauses (c # cs) = (if c = CHR '';'' \<or> c = CHR 0x0A then [] # split_clauses cs
     else (case split_clauses cs of [] \<Rightarrow> [[c]] | w # ws \<Rightarrow> (c # w) # ws))"

definition effect_words :: "string list" where
  "effect_words = [''create'', ''save'', ''write'', ''export'', ''attach'', ''send'', ''notify'', ''publish'', ''submit'',
     ''upload'', ''delete'', ''update'', ''modify'', ''deploy'', ''book'', ''purchase'', ''pay'', ''post'']"

definition asks_effect :: "string \<Rightarrow> bool" where
  "asks_effect s = list_ex (\<lambda>clause. \<not> (includes_ci clause ''do not'' \<or> includes_ci clause [CHR ''d'', CHR ''o'', CHR ''n'', CHR 0x27, CHR ''t'']
       \<or> includes_ci clause ''never'') \<and> has_word effect_words False clause) (split_clauses s)"

text \<open>\<open>/\n\s*(?:[-*]|\d+[.)])\s/\<close> after a line feed.\<close>

definition bullet_after :: "string \<Rightarrow> bool" where
  "bullet_after s = (let u = dropWhile js_space s in
     (case u of [] \<Rightarrow> False
      | c # r \<Rightarrow>
          (if c = CHR ''-'' \<or> c = CHR ''*'' then (case r of d # _ \<Rightarrow> js_space d | [] \<Rightarrow> False)
           else is_digit c \<and> (case dropWhile is_digit u of
               p # d # _ \<Rightarrow> (p = CHR ''.'' \<or> p = CHR '')'') \<and> js_space d | _ \<Rightarrow> False))))"

fun has_bullet :: "string \<Rightarrow> bool" where
  "has_bullet [] = False"
| "has_bullet (c # cs) = (c = CHR 0x0A \<and> bullet_after cs \<or> has_bullet cs)"

definition requiresReview :: "request_snapshot \<Rightarrow> execution_step list \<Rightarrow> tool list \<Rightarrow> artifact list \<Rightarrow> bool" where
  "requiresReview r steps tools artifacts =
     (let actions = filter (\<lambda>s. \<not> starts_with (xs_kind s) ''runtime.'' \<and> \<not> starts_with (xs_kind s) ''task__''
            \<and> xs_kind s \<noteq> ''discover'') steps
      in rq_contract r \<noteq> None \<or> opt_list (rq_obligations r) \<noteq> [] \<or> rq_mode r = Some (JStr ''execute'')
        \<or> (case rq_delegatedAssignment r of None \<Rightarrow> False | Some t \<Rightarrow> t \<noteq> []) \<or> artifacts \<noteq> [] \<or> length actions > 1
        \<or> list_ex (\<lambda>s. xs_kind s = ''ipython''
            \<or> (case List.find (\<lambda>t. tl_name t = xs_kind s) tools of None \<Rightarrow> True | Some t \<Rightarrow> tl_effect t \<noteq> ReadEffect)) actions
        \<or> rq_deliveryMode r = Some (JStr ''action'')
        \<or> (rq_deliveryMode r \<noteq> Some (JStr ''text'') \<and> asks_effect (rq_originalText r))
        \<or> rq_revisions r \<noteq> [] \<or> has_bullet (rq_originalText r)
        \<or> has_word [''and'', ''multi-step'', ''step by step''] False (rq_originalText r))"

end
