(* ===== verification/Envelope.thy ===== *)
theory Envelope
  imports Outcome
begin

text \<open>
  The response envelope of src/outcome/envelope.ts: artifact inventories, the citations located in the
  body, the excerpts they freeze; and the hash of a candidate (src/outcome/verification.ts).
\<close>

subsection \<open>Artifacts\<close>

definition path_char :: "char \<Rightarrow> bool" where
  "path_char c = (let n = of_char c :: int in n > 31 \<and> n \<noteq> 127 \<and> c \<noteq> CHR 0x5C \<and> c \<noteq> CHR '':'')"

definition safe_parts :: "string \<Rightarrow> bool" where
  "safe_parts p = list_all (\<lambda>part. part \<noteq> [] \<and> part \<noteq> ''.'' \<and> part \<noteq> ''..'') (split_on (CHR ''/'') p)"

definition valid_artifact :: "artifact \<Rightarrow> bool" where
  "valid_artifact a = (af_path a \<noteq> [] \<and> js_len (af_path a) \<le> 4096 \<and> list_all path_char (af_path a)
     \<and> safe_parts (af_path a) \<and> safe_int (af_size a) \<and> af_size a \<ge> 0
     \<and> (case af_source a of None \<Rightarrow> True | Some (ref, version) \<Rightarrow>
          ref \<noteq> [] \<and> js_len ref \<le> 2000 \<and> version \<noteq> [] \<and> js_len version \<le> 2000)
     \<and> is_sha256 (map to_lower (af_sha256 a)))"

text \<open>\<open>[...new Map(artifacts.map(a => [a.path, a])).values()]\<close>: the last entry of a path, at the first one's place.\<close>

definition by_path :: "artifact list \<Rightarrow> (string, artifact) jsmap" where
  "by_path artifacts = foldl (\<lambda>m a. AList.update (af_path a) a m) [] artifacts"

definition snapshotArtifacts :: "artifact list \<Rightarrow> os_error + artifact list" where
  "snapshotArtifacts artifacts =
     (if js_len artifacts > 512 \<or> \<not> list_all valid_artifact artifacts
      then Inl (JsError ''invalid response artifacts'') else Inr (jvalues (by_path artifacts)))"

subsection \<open>Citations\<close>

text \<open>
  \<open>/\[([^\]\n]+)\]\(#cite-(S[1-9]\d*(?:,S[1-9]\d*)*)\)/\<close> at the start of a string: the text, the
  markers and what follows.
\<close>

definition cite_open :: string where
  "cite_open = ''](#cite-''"

definition cite_tail :: "string \<Rightarrow> (string \<times> string) option" where
  "cite_tail v = (let m = takeWhile (\<lambda>c. c \<noteq> CHR '')'') v in
     if list_all valid_marker (split_on (CHR '','') m)
     then (case dropWhile (\<lambda>c. c \<noteq> CHR '')'') v of [] \<Rightarrow> None | _ # rest \<Rightarrow> Some (m, rest)) else None)"

definition cite_body :: "string \<Rightarrow> (string \<times> string \<times> string) option" where
  "cite_body r = (let t = takeWhile (\<lambda>c. c \<noteq> CHR '']'' \<and> c \<noteq> CHR 0x0A) r;
        u = dropWhile (\<lambda>c. c \<noteq> CHR '']'' \<and> c \<noteq> CHR 0x0A) r in
     if t = [] \<or> \<not> starts_with u cite_open then None
     else map_option (\<lambda>(m, rest). (t, m, rest)) (cite_tail (drop (length cite_open) u)))"

definition match_cite :: "string \<Rightarrow> (string \<times> string \<times> string) option" where
  "match_cite s = (case s of [] \<Rightarrow> None | c # r \<Rightarrow> if c = CHR ''['' then cite_body r else None)"

lemma cite_tail_text: "cite_tail v = Some (m, rest) \<Longrightarrow>
    v = m @ CHR '')'' # rest \<and> list_all valid_marker (split_on (CHR '','') m)"
proof -
  assume a: "cite_tail v = Some (m, rest)"
  let ?P = "\<lambda>c. c \<noteq> CHR '')''"
  obtain d where d: "dropWhile ?P v = d # rest"
    and m: "m = takeWhile ?P v" "list_all valid_marker (split_on (CHR '','') m)"
    using a by (auto simp: cite_tail_def Let_def split: if_splits list.splits)
  have "d = CHR '')''" using hd_dropWhile [of ?P v] d by auto
  then show ?thesis using takeWhile_dropWhile_id [of ?P v] d m by simp
qed

lemma cite_body_text:
  assumes "cite_body r = Some (t, m, rest)"
  shows "r = t @ cite_open @ m @ CHR '')'' # rest \<and> t \<noteq> [] \<and> list_all valid_marker (split_on (CHR '','') m)"
proof -
  let ?P = "\<lambda>c. c \<noteq> CHR '']'' \<and> c \<noteq> CHR 0x0A"
  have t: "t = takeWhile ?P r" "t \<noteq> []" and u: "starts_with (dropWhile ?P r) cite_open"
    and tail: "cite_tail (drop (length cite_open) (dropWhile ?P r)) = Some (m, rest)"
    using assms by (auto simp: cite_body_def Let_def split: if_splits)
  obtain v where v: "dropWhile ?P r = cite_open @ v" using u by (auto simp: starts_with_iff)
  then have "cite_tail v = Some (m, rest)" using tail by simp
  from cite_tail_text [OF this] show ?thesis
    using takeWhile_dropWhile_id [of ?P r] t v by simp
qed

lemma match_cite_text: "match_cite s = Some (t, m, rest) \<Longrightarrow>
    s = CHR ''['' # t @ cite_open @ m @ CHR '')'' # rest \<and> t \<noteq> [] \<and> list_all valid_marker (split_on (CHR '','') m)"
  by (auto simp: match_cite_def split: list.splits if_splits dest: cite_body_text)

lemma match_cite_shorter: "match_cite s = Some (t, m, rest) \<Longrightarrow> length rest < length s"
  by (drule match_cite_text) auto

text \<open>\<open>body.matchAll(pattern)\<close> with positions, and \<open>body.replace(pattern, '')\<close>.\<close>

function scan_cites :: "int \<Rightarrow> string \<Rightarrow> (int \<times> int \<times> string \<times> string) list" where
  "scan_cites pos s = (case s of [] \<Rightarrow> []
    | c # r \<Rightarrow> (case match_cite s of
        Some (t, m, rest) \<Rightarrow> let stop = pos + (js_len s - js_len rest) in (pos, stop, t, m) # scan_cites stop rest
      | None \<Rightarrow> scan_cites (pos + 1) r))"
  by auto
termination by (relation "measure (\<lambda>(pos, s). length s)") (auto dest: match_cite_shorter)

function strip_cites :: "string \<Rightarrow> string" where
  "strip_cites s = (case s of [] \<Rightarrow> []
    | c # r \<Rightarrow> (case match_cite s of
        Some (t, m, rest) \<Rightarrow> strip_cites rest
      | None \<Rightarrow> c # strip_cites r))"
  by auto
termination by (relation "measure length") (auto dest: match_cite_shorter)

declare scan_cites.simps [simp del] strip_cites.simps [simp del]

text \<open>\<open>[...new Set(xs)]\<close> keeps the first occurrence of each element.\<close>

fun js_set :: "'a list \<Rightarrow> 'a list" where
  "js_set [] = []"
| "js_set (x # xs) = x # filter (\<lambda>y. y \<noteq> x) (js_set xs)"

lemma set_js_set [simp]: "set (js_set xs) = set xs"
  by (induction xs) auto

lemma distinct_js_set [simp]: "distinct (js_set xs)"
  by (induction xs) auto

record citation =
  ct_start :: int
  ct_end :: int
  ct_text :: string
  ct_markers :: "string list"
  ct_sources :: "citation_source list"

fun locate_citations :: "evidence_item list \<Rightarrow> (int \<times> int \<times> string \<times> string) list \<Rightarrow> os_error + citation list" where
  "locate_citations evidence [] = Inr []"
| "locate_citations evidence ((start, stop, t, m) # ms) =
     (let markers = js_set (split_on (CHR '','') m) in
      bindR (citationSources markers evidence) (\<lambda>sources.
      bindR (locate_citations evidence ms) (\<lambda>cs.
        Inr (\<lparr>ct_start = start, ct_end = stop, ct_text = t, ct_markers = markers, ct_sources = sources\<rparr> # cs))))"

subsection \<open>The envelope\<close>

record envelope =
  en_presentations :: "json option"
  en_body :: string
  en_requestVersion :: int
  en_evidenceSnapshotId :: string
  en_citations :: "citation list"
  en_citationEvidence :: "evidence_item list option"
  en_artifacts :: "artifact list"
  en_goalOutcome :: goal_outcome
  en_taskContract :: "task_contract option"
  en_resourceChecks :: "resource_check list option"
  en_assessment :: "assessment option"

definition check_contract :: "(string \<Rightarrow> string) \<Rightarrow> int \<Rightarrow> task_contract option \<Rightarrow> os_error + unit" where
  "check_contract hash version c = (case c of None \<Rightarrow> Inr ()
    | Some tc \<Rightarrow>
        if tc_requestVersion tc \<noteq> version \<or> \<not> is_sha256 (tc_originalInputSha256 tc)
        then Inl (JsError ''invalid response task contract'')
        else bindR (createTaskContract hash [] (tc_requestVersion tc) (contract_draft tc)) (\<lambda>_. Inr ()))"

definition createResponseEnvelope :: "(string \<Rightarrow> string) \<Rightarrow> string \<Rightarrow> goal_outcome \<Rightarrow> evidence_snapshot \<Rightarrow> artifact list
    \<Rightarrow> task_contract option \<Rightarrow> resource_check list option \<Rightarrow> assessment option \<Rightarrow> os_error + envelope" where
  "createResponseEnvelope hash body outcome evidence artifacts contract checks assessment =
     (if blank body \<or> \<not> isGoalOutcome (goal_json outcome) then Inl (JsError ''invalid response envelope'')
      else bindR (snapshotArtifacts artifacts) (\<lambda>checked.
        bindR (check_contract hash (go_requestVersion outcome) contract) (\<lambda>_.
        bindR (locate_citations (es_items evidence) (scan_cites 0 body)) (\<lambda>citations.
        if js_includes (strip_cites body) ''#cite-'' then Inl (JsError ''malformed citation marker'')
        else bindR (snapshotCitationEvidence (filter (\<lambda>e. list_ex (\<lambda>c. el_marker e \<in> set (ct_markers c)) citations)
                 (es_items evidence))) (\<lambda>frozen.
          Inr \<lparr>en_presentations = None, en_body = body, en_requestVersion = go_requestVersion outcome,
            en_evidenceSnapshotId = es_id evidence, en_citations = citations, en_citationEvidence = Some frozen,
            en_artifacts = checked, en_goalOutcome = outcome, en_taskContract = contract,
            en_resourceChecks = (case checks of None \<Rightarrow> None | Some [] \<Rightarrow> None | Some cs \<Rightarrow> Some cs),
            en_assessment = assessment\<rparr>)))))"

subsection \<open>Candidates\<close>

record candidate_answer =
  ca_body :: string
  ca_requestVersion :: int
  ca_artifacts :: "artifact list"

datatype verdict = VerdictPassed | VerdictFailed | VerdictInconclusive

record verification_record =
  vr_checker :: string
  vr_status :: verdict
  vr_evidence :: jobj

record candidate_verification =
  cv_candidateHash :: string
  cv_requestVersion :: int
  cv_records :: "verification_record list"

definition artifact_json :: "artifact \<Rightarrow> json" where
  "artifact_json a = JObj ([(''path'', JStr (af_path a)), (''size'', JNum (af_size a)), (''mime'', JStr (af_mime a)),
     (''sha256'', JStr (af_sha256 a))]
     @ (case af_source a of None \<Rightarrow> [] | Some (ref, version) \<Rightarrow>
         [(''source'', JObj [(''ref'', JStr ref), (''version'', JStr version)])]))"

definition candidateHash :: "(string \<Rightarrow> string) \<Rightarrow> candidate_answer \<Rightarrow> os_error + string" where
  "candidateHash hash c = bindR (snapshotArtifacts (ca_artifacts c)) (\<lambda>artifacts.
     Inr (hash (stringify (JObj [(''body'', JStr (ca_body c)), (''artifacts'', JArr (map artifact_json artifacts))]))))"

end
