(* ===== verification/ContextProps.thy ===== *)
theory ContextProps
  imports Request
begin

text \<open>
  Correctness of the request context: evidence snapshots give each marker one source, promoted reads
  only extend the evidence, attachments are read without gap or overlap, and a task contract
  survives being sent back as a draft.
\<close>

subsection \<open>Markers\<close>

lemma marker_of_inj: "marker_of m = marker_of n \<Longrightarrow> m = n"
  by (auto simp: marker_of_def dest: show_nat_inj)

lemma next_number_ge: "n \<le> next_number d n items"
proof (induction d arbitrary: n)
  case (Suc d)
  from Suc [of "Suc n"] show ?case by simp
qed simp

lemma next_number_stop:
  "next_number d n items < n + d \<Longrightarrow> \<not> list_ex (\<lambda>e. el_marker e = marker_of (next_number d n items)) items"
  by (induction d arbitrary: n) auto

text \<open>If the search used all its fuel, the numbers it passed are all taken, by different items.\<close>

lemma next_number_taken:
  "n \<le> k \<Longrightarrow> k < next_number d n items \<Longrightarrow> list_ex (\<lambda>e. el_marker e = marker_of k) items"
proof (induction d arbitrary: n)
  case (Suc d)
  from Suc.prems have taken: "list_ex (\<lambda>e. el_marker e = marker_of n) items"
    by (auto split: if_splits)
  show ?case
  proof (cases "k = n")
    case True
    with taken show ?thesis by simp
  next
    case False
    with taken Suc.prems Suc.IH [of "Suc n"] show ?thesis by simp
  qed
qed simp

lemma taken_bound:
  assumes "\<And>k. n \<le> k \<Longrightarrow> k < m \<Longrightarrow> list_ex (\<lambda>e. el_marker e = marker_of k) items" and "n \<le> m"
  shows "m \<le> n + length items"
proof -
  have "marker_of ` {n..<m} \<subseteq> set (map el_marker items)"
    using assms(1) by (auto simp: list_ex_iff) (metis image_eqI)
  then have "card (marker_of ` {n..<m}) \<le> length items"
    by (metis List.finite_set card_length card_mono le_trans length_map)
  moreover have "card (marker_of ` {n..<m}) = m - n"
    by (subst card_image) (auto intro: inj_onI dest: marker_of_inj)
  ultimately show ?thesis using assms(2) by linarith
qed

lemma fresh_marker_fresh: "fresh_marker items \<notin> set (map el_marker items)"
proof -
  let ?n = "next_number (length items) 1 items"
  have "\<not> list_ex (\<lambda>e. el_marker e = marker_of ?n) items"
  proof (cases "?n < 1 + length items")
    case True
    then show ?thesis by (rule next_number_stop)
  next
    case False
    show ?thesis
    proof
      assume taken: "list_ex (\<lambda>e. el_marker e = marker_of ?n) items"
      have "list_ex (\<lambda>e. el_marker e = marker_of k) items" if "1 \<le> k" "k < Suc ?n" for k
        using that taken next_number_taken [of 1 k "length items" items] by (cases "k = ?n") auto
      then have "Suc ?n \<le> 1 + length items"
        using taken_bound [of 1 "Suc ?n" items] next_number_ge [of 1 "length items" items] by auto
      with False show False by simp
    qed
  qed
  then show ?thesis by (auto simp: fresh_marker_def list_ex_iff)
qed

subsection \<open>Evidence snapshots\<close>

lemma source_key_inj: "source_key a = source_key b \<Longrightarrow>
    el_sourceId a = el_sourceId b \<and> el_sourceVersion a = el_sourceVersion b \<and> el_title a = el_title b"
  by (auto simp: source_key_def dest!: quote_append_inj quote_inj)

lemma chunk_key_inj: "chunk_key a = chunk_key b \<Longrightarrow> el_marker a = el_marker b \<and> el_chunkId a = el_chunkId b"
  by (auto simp: chunk_key_def dest!: quote_append_inj quote_inj)

lemma check_evidence_Cons:
  assumes "check_evidence sources chunks (e # es) = Inr ()"
  shows "jhas sources (el_marker e) \<longrightarrow> map_of sources (el_marker e) = Some (source_key e)"
    and "chunk_key e \<notin> set chunks"
    and "check_evidence (AList.update (el_marker e) (source_key e) sources) (chunk_key e # chunks) es = Inr ()"
  using assms by (auto split: if_splits)

lemma check_marker:
  "check_evidence sources chunks es = Inr () \<Longrightarrow> e \<in> set es \<Longrightarrow> map_of sources (el_marker e) = Some k \<Longrightarrow>
   source_key e = k"
proof (induction es arbitrary: sources chunks)
  case (Cons x xs)
  note c = check_evidence_Cons [OF Cons.prems(1)]
  have head: "source_key x = k" if "el_marker x = el_marker e"
    using c(1) Cons.prems(3) that by (simp add: jhas_def)
  show ?case
  proof (cases "e = x")
    case True
    then show ?thesis using head by simp
  next
    case False
    then have e: "e \<in> set xs" using Cons.prems(2) by simp
    show ?thesis
    proof (cases "el_marker x = el_marker e")
      case True
      then show ?thesis using Cons.IH [OF c(3) e] head by simp
    next
      case False
      then show ?thesis using Cons.IH [OF c(3) e] Cons.prems(3) by simp
    qed
  qed
qed simp

lemma check_chunk: "check_evidence sources chunks es = Inr () \<Longrightarrow> e \<in> set es \<Longrightarrow> chunk_key e \<notin> set chunks"
proof (induction es arbitrary: sources chunks)
  case (Cons x xs)
  note c = check_evidence_Cons [OF Cons.prems(1)]
  show ?case using c(2) Cons.IH [OF c(3)] Cons.prems(2) by auto
qed simp

lemma check_pair:
  "check_evidence sources chunks es = Inr () \<Longrightarrow> a \<in> set es \<Longrightarrow> b \<in> set es \<Longrightarrow> el_marker a = el_marker b \<Longrightarrow>
   source_key a = source_key b"
proof (induction es arbitrary: sources chunks)
  case (Cons x xs)
  note c = check_evidence_Cons [OF Cons.prems(1)]
  have head: "source_key y = source_key x" if "y \<in> set xs" "el_marker y = el_marker x" for y
    using check_marker [OF c(3) that(1)] that(2) by simp
  show ?case using Cons.prems head Cons.IH [OF c(3)] by (metis set_ConsD)
qed simp

lemma check_distinct: "check_evidence sources chunks es = Inr () \<Longrightarrow> distinct (map chunk_key es)"
proof (induction es arbitrary: sources chunks)
  case (Cons x xs)
  note c = check_evidence_Cons [OF Cons.prems]
  have "chunk_key x \<notin> chunk_key ` set xs" using check_chunk [OF c(3)] by fastforce
  with Cons.IH [OF c(3)] show ?case by simp
qed simp

text \<open>An accepted evidence snapshot is citable without ambiguity: it holds at most 200 items, all
  items with the same marker come from the same version of the same source, and no chunk appears
  twice under a marker.\<close>

theorem snapshot_markers_unambiguous:
  assumes "snapshotEvidence i items = Inr snap"
  shows "es_items snap = items \<and> length items \<le> 200 \<and>
    (\<forall>a \<in> set items. \<forall>b \<in> set items. el_marker a = el_marker b \<longrightarrow>
       el_sourceId a = el_sourceId b \<and> el_sourceVersion a = el_sourceVersion b \<and> el_title a = el_title b) \<and>
    distinct (map (\<lambda>e. (el_marker e, el_chunkId e)) items)"
proof -
  have chk: "check_evidence [] [] items = Inr ()" and snap: "es_items snap = items" "length items \<le> 200"
    using assms by (cases "check_evidence [] [] items"; auto simp: snapshotEvidence_def split: if_splits)+
  have "el_sourceId a = el_sourceId b \<and> el_sourceVersion a = el_sourceVersion b \<and> el_title a = el_title b"
    if "a \<in> set items" "b \<in> set items" "el_marker a = el_marker b" for a b
    by (rule source_key_inj) (rule check_pair [OF chk that])
  moreover have "distinct (map (\<lambda>e. (el_marker e, el_chunkId e)) items)"
  proof -
    have d: "distinct (map chunk_key items)" by (rule check_distinct [OF chk])
    have "chunk_key = (\<lambda>(m, c). stringify (JArr [JStr m, JStr c])) \<circ> (\<lambda>e. (el_marker e, el_chunkId e))"
      by (simp add: fun_eq_iff chunk_key_def)
    then have "distinct (map (\<lambda>(m, c). stringify (JArr [JStr m, JStr c])) (map (\<lambda>e. (el_marker e, el_chunkId e)) items))"
      using d by (simp add: map_map)
    then show ?thesis by (rule distinct_map [THEN iffD1, THEN conjunct1])
  qed
  ultimately show ?thesis using snap by blast
qed

definition sample_item :: evidence_item where
  "sample_item = \<lparr>el_marker = ''S1'', el_actionKey = None, el_sourceId = ''doc'', el_sourceVersion = ''1'',
     el_chunkId = ''c1'', el_title = ''Doc'', el_excerpt = ''text'', el_url = None, el_truncated = None\<rparr>"

lemma snapshot_markers_witness:
  "snapshotEvidence ''e'' [sample_item, sample_item\<lparr>el_chunkId := ''c2''\<rparr>]
     = Inr \<lparr>es_id = ''e'', es_items = [sample_item, sample_item\<lparr>el_chunkId := ''c2''\<rparr>]\<rparr>
   \<and> distinct (map (\<lambda>e. (el_marker e, el_chunkId e)) [sample_item, sample_item\<lparr>el_chunkId := ''c2''\<rparr>])"
proof -
  have s: "snapshotEvidence ''e'' [sample_item, sample_item\<lparr>el_chunkId := ''c2''\<rparr>]
     = Inr \<lparr>es_id = ''e'', es_items = [sample_item, sample_item\<lparr>el_chunkId := ''c2''\<rparr>]\<rparr>" by code_simp
  have "distinct (map (\<lambda>e. (el_marker e, el_chunkId e)) [sample_item, sample_item\<lparr>el_chunkId := ''c2''\<rparr>])"
    using snapshot_markers_unambiguous [OF s] by (elim conjE)
  then show ?thesis by (rule conjI [OF s])
qed

subsection \<open>Evidence only grows\<close>

text \<open>The items one read may add after \<open>items\<close>: each under a marker new at its place, carrying the key.\<close>

inductive extends :: "string \<Rightarrow> evidence_item list \<Rightarrow> evidence_item list \<Rightarrow> bool" for key where
  same: "extends key items items"
| more: "extends key items items' \<Longrightarrow> el_actionKey e = Some key \<Longrightarrow> el_marker e \<notin> set (map el_marker items') \<Longrightarrow>
    extends key items (items' @ [e])"

lemma extends_trans: "extends key a b \<Longrightarrow> extends key b c \<Longrightarrow> extends key a c"
  by (rotate_tac 1) (induction rule: extends.induct; auto intro: extends.intros)

lemma extends_prefix: "extends key items items' \<Longrightarrow>
    \<exists>new. items' = items @ new \<and> list_all (\<lambda>e. el_actionKey e = Some key) new
      \<and> distinct (map el_marker new) \<and> set (map el_marker new) \<inter> set (map el_marker items) = {}"
proof (induction rule: extends.induct)
  case (more items items' e)
  then obtain new where "items' = items @ new" "list_all (\<lambda>e. el_actionKey e = Some key) new"
    "distinct (map el_marker new)" "set (map el_marker new) \<inter> set (map el_marker items) = {}" by blast
  with more show ?case by (intro exI [of _ "new @ [e]"]) auto
qed simp

lemma promote_extends: "extends key items (promote_sources key items ss)"
proof (induction key items ss rule: promote_sources.induct)
  case (2 key items s ss)
  have "extends key items (items @ [promoted key items s])"
    by (rule extends.more [OF extends.same]) (auto simp: promoted_def fresh_marker_fresh simp del: set_map)
  with 2 show ?case by (auto intro: extends_trans extends.same)
qed (simp add: extends.same)

lemma snapshot_items: "snapshotEvidence i items = Inr snap \<Longrightarrow> es_items snap = items"
  by (cases "check_evidence [] [] items") (auto simp: snapshotEvidence_def split: if_splits)

lemma research_extends:
  assumes "appendResearchEvidence hash snap key r = Inr snap'"
  shows "extends key (es_items snap) (es_items snap')"
proof -
  have new: "extends key (es_items snap) (es_items snap @ [e])"
    if "el_actionKey e = Some key" "el_marker e = fresh_marker (es_items snap)" for e
    using that fresh_marker_fresh [of "es_items snap"] by (intro extends.more extends.same) (simp_all del: set_map)
  show ?thesis
    using assms new unfolding appendResearchEvidence_def
    by (auto simp: Let_def split: if_splits option.splits prod.splits dest!: snapshot_items intro: extends.same)
qed

lemma read_extends:
  assumes "appendReadEvidence hash snap key r action = Inr snap'"
  shows "extends key (es_items snap) (es_items snap')"
proof -
  obtain snap1 where s1: "(if action = ''research.read'' then appendResearchEvidence hash snap key r else Inr snap) = Inr snap1"
    using assms by (cases "if action = ''research.read'' then appendResearchEvidence hash snap key r else Inr snap")
      (auto simp: appendReadEvidence_def)
  then have e1: "extends key (es_items snap) (es_items snap1)"
    by (auto intro: research_extends extends.same split: if_splits)
  have "es_items snap' = es_items snap1 \<or> (\<exists>ss. es_items snap' = promote_sources key (es_items snap1) ss)"
    using assms s1 unfolding appendReadEvidence_def
    by (auto simp: Let_def simp del: promote_sources.simps split: if_splits option.splits list.splits
        dest!: snapshot_items)
  then show ?thesis
  proof (elim disjE exE)
    assume "es_items snap' = es_items snap1"
    with e1 show ?thesis by simp
  next
    fix ss
    assume "es_items snap' = promote_sources key (es_items snap1) ss"
    with extends_trans [OF e1 promote_extends] show ?thesis by simp
  qed
qed

text \<open>Recorded reads only extend the evidence. Promoting a recorded result keeps every earlier
  item unchanged and in place; each added item names the action it came from and gets a marker that
  no other item has.\<close>

theorem read_evidence_grows:
  assumes "appendReadEvidence hash snap key r action = Inr snap'"
  shows "\<exists>new. es_items snap' = es_items snap @ new \<and> list_all (\<lambda>e. el_actionKey e = Some key) new
    \<and> distinct (map el_marker new) \<and> set (map el_marker new) \<inter> set (map el_marker (es_items snap)) = {}"
  by (rule extends_prefix) (rule read_extends [OF assms])

definition sample_read :: action_result where
  "sample_read = (empty_result True)\<lparr>hr_evidence := Some [\<lparr>se_sourceId = ''doc2'', se_sourceVersion = ''1'',
     se_chunkId = ''c'', se_title = ''T'', se_excerpt = ''x'', se_url = None, se_truncated = None\<rparr>]\<rparr>"

lemma read_evidence_grows_witness:
  "\<exists>snap new. appendReadEvidence id \<lparr>es_id = ''e'', es_items = [sample_item]\<rparr> ''k'' sample_read ''doc.read'' = Inr snap
    \<and> es_items snap = sample_item # new \<and> length new = 1 \<and> list_all (\<lambda>e. el_actionKey e = Some ''k'') new"
proof -
  let ?r = "appendReadEvidence id \<lparr>es_id = ''e'', es_items = [sample_item]\<rparr> ''k'' sample_read ''doc.read''"
  have "(case ?r of Inl _ \<Rightarrow> False | Inr snap \<Rightarrow> length (es_items snap) = 2)" by code_simp
  then obtain snap where s: "?r = Inr snap" "length (es_items snap) = 2" by (auto split: sum.splits)
  from read_evidence_grows [OF s(1)] obtain new where "es_items snap = sample_item # new"
    "list_all (\<lambda>e. el_actionKey e = Some ''k'') new" by auto
  with s show ?thesis by auto
qed

subsection \<open>Attachments\<close>

text \<open>An attachment is read without gap or overlap. A successful read returns the characters of
  one attachment of exactly the requested id and version from the requested offset on, at most the
  requested limit of at most 16000; the next offset is where the slice ends, and a slice is marked
  truncated exactly when text remains, in which case the next offset is larger than the offset.\<close>

theorem attachment_slices:
  assumes "readRequestAttachment r args = Inr sl"
  shows "\<exists>a body. a \<in> set (all_attachments r) \<and> json_prop a ''id'' = map_of args ''id''
    \<and> json_prop a ''sourceVersion'' = map_of args ''sourceVersion'' \<and> json_prop a ''text'' = Some (JStr body)
    \<and> map_of args ''offset'' = Some (JNum (sl_offset sl))
    \<and> take (nat (sl_offset sl)) body @ sl_text sl = take (nat (sl_nextOffset sl)) body
    \<and> js_len (sl_text sl) = sl_nextOffset sl - sl_offset sl \<and> js_len (sl_text sl) \<le> 16000
    \<and> (sl_cut sl \<longleftrightarrow> sl_nextOffset sl < js_len body) \<and> (sl_cut sl \<longrightarrow> sl_offset sl < sl_nextOffset sl)"
proof -
  let ?P = "\<lambda>a. json_prop a ''id'' = map_of args ''id'' \<and> json_prop a ''sourceVersion'' = map_of args ''sourceVersion''"
  obtain a others where m: "filter ?P (all_attachments r) = a # others"
    using assms by (auto simp: readRequestAttachment_def split: list.splits)
  then have "a \<in> set (filter ?P (all_attachments r))" by simp
  then have a: "a \<in> set (all_attachments r)" "?P a" by auto
  obtain body where body: "json_prop a ''text'' = Some (JStr body)"
    using assms m by (auto simp: readRequestAttachment_def str_of_Some_iff split: if_splits option.splits)
  obtain off lim where args: "json_int (map_of args ''offset'') = Some off" "json_int (map_of args ''limit'') = Some lim"
    using assms m body by (auto simp: readRequestAttachment_def str_of_def split: if_splits option.splits)
  have range: "0 \<le> off" "off \<le> js_len body" "1 \<le> lim" "lim \<le> 16000"
    and sl: "sl_offset sl = off" "sl_text sl = take (nat lim) (drop (nat off) body)"
      "sl_nextOffset sl = min (off + lim) (js_len body)" "sl_cut sl \<longleftrightarrow> off + lim < js_len body"
    using assms m body args by (auto simp: readRequestAttachment_def str_of_def split: if_splits)
  have "map_of args ''offset'' = Some (JNum off)"
    using args(1) by (auto simp: json_int_def split: option.splits json.splits if_splits)
  moreover have "take (nat off) body @ sl_text sl = take (nat (sl_nextOffset sl)) body"
  proof -
    have "take (nat off) body @ take (nat lim) (drop (nat off) body) = take (nat off + nat lim) body"
      by (simp add: take_add)
    also have "\<dots> = take (nat (min (off + lim) (js_len body))) body"
      using range by (simp add: min_def nat_add_distrib)
    finally show ?thesis using sl by simp
  qed
  moreover have "js_len (sl_text sl) = sl_nextOffset sl - sl_offset sl"
  proof -
    obtain o' l' where [simp]: "off = int o'" "lim = int l'"
      using range by (metis nonneg_int_cases order.trans zero_le_one)
    have "js_len (take (nat lim) (drop (nat off) body)) = min (js_len body - off) lim"
      using range by (auto simp: min_def of_nat_diff)
    also have "\<dots> = min (off + lim) (js_len body) - off" by (simp add: min_def)
    finally show ?thesis unfolding sl .
  qed
  ultimately show ?thesis using a body sl range
    by (intro exI [of _ a] exI [of _ body]) (auto simp: min_def)
qed

definition sample_request :: request_snapshot where
  "sample_request = \<lparr>rq_workId = ''x'', rq_tenantId = ''t'', rq_sessionId = ''s1'', rq_authorId = ''p'',
     rq_sourceRef = ''m'', rq_originalText = ''do it'', rq_revisions = [], rq_codeExecution = None,
     rq_deliveryMode = None, rq_mode = None, rq_obligations = None, rq_inheritedRevisions = None,
     rq_attachments = [JObj [(''id'', JStr ''f''), (''sourceVersion'', JStr ''1''), (''name'', JStr ''n''),
       (''mimeType'', JStr ''text/plain''), (''size'', JNum 5), (''text'', JStr ''hello'')]],
     rq_evidence = Some \<lparr>es_id = ''e'', es_items = []\<rparr>, rq_contract = None, rq_resourceChecks = None,
     rq_parentWorkId = None, rq_rootWorkId = None, rq_parentRequestVersion = None, rq_instructionAuthor = None,
     rq_delegatedAssignment = None, rq_conversation = None\<rparr>"

lemma attachment_slices_witness:
  "\<exists>sl. readRequestAttachment sample_request [(''id'', JStr ''f''), (''sourceVersion'', JStr ''1''),
      (''offset'', JNum 1), (''limit'', JNum 3)] = Inr sl \<and> js_len (sl_text sl) = sl_nextOffset sl - sl_offset sl \<and> sl_text sl = ''ell''"
proof -
  let ?r = "readRequestAttachment sample_request [(''id'', JStr ''f''), (''sourceVersion'', JStr ''1''),
      (''offset'', JNum 1), (''limit'', JNum 3)]"
  have "(case ?r of Inl _ \<Rightarrow> False | Inr sl \<Rightarrow> sl_text sl = ''ell'')" by code_simp
  then obtain sl where "?r = Inr sl" "sl_text sl = ''ell''" by (auto split: sum.splits)
  with attachment_slices [OF this(1)] show ?thesis by auto
qed

subsection \<open>Task contracts\<close>

lemma strings_of_map [simp]: "strings_of (map JStr ss) = ss"
  by (induction ss) (auto simp: strings_of_def)

definition text_ok :: "string \<Rightarrow> bool" where
  "text_ok s = (\<not> blank s \<and> js_len s \<le> 2000)"

lemma short_text_JStr [simp]: "short_text 2000 (JStr s) = text_ok s"
  by (simp add: short_text_def text_ok_def)

lemma contract_field_values:
  assumes "contract_field d f = Inr xs" shows "js_len xs \<le> 64 \<and> list_all text_ok xs"
proof -
  obtain vs where vs: "map_of d f = Some (JArr vs)" "js_len vs \<le> 64" "list_all (short_text 2000) vs" "xs = strings_of vs"
    using assms by (auto simp: contract_field_def split: option.splits json.splits if_splits)
  have "text_ok (case v of JStr s \<Rightarrow> s | _ \<Rightarrow> [])" if "v \<in> set vs" for v
    using vs(3) that by (cases v) (auto simp: list_all_iff short_text_def text_ok_def)
  with vs show ?thesis by (auto simp: strings_of_def list_all_iff)
qed

lemma contract_field_back: "map_of d f = Some (JArr (map JStr xs)) \<Longrightarrow> js_len xs \<le> 64 \<Longrightarrow> list_all text_ok xs \<Longrightarrow>
    contract_field d f = Inr xs"
  by (simp add: contract_field_def list_all_length)

text \<open>A task contract is a fixed point of its own validation. Sending the lists of an accepted
  contract back as a draft for the same original input and request version yields the same
  contract; it has at least one deliverable and one acceptance condition.\<close>

theorem contract_roundtrip:
  assumes "createTaskContract hash original version draft = Inr c"
  shows "createTaskContract hash original version (contract_draft c) = Inr c
    \<and> tc_deliverables c \<noteq> [] \<and> tc_acceptance c \<noteq> [] \<and> tc_requestVersion c = version
    \<and> tc_originalInputSha256 c = hash original"
proof -
  obtain d where d: "draft = JObj d" and v: "safe_int version" "version \<ge> 1"
    using assms by (cases draft) (auto simp: createTaskContract_def split: if_splits)
  obtain a b e f where fields: "contract_field d ''deliverables'' = Inr a" "contract_field d ''constraints'' = Inr b"
    "contract_field d ''actions'' = Inr e" "contract_field d ''acceptance'' = Inr f" and ne: "a \<noteq> []" "f \<noteq> []"
    and c: "c = \<lparr>tc_requestVersion = version, tc_originalInputSha256 = hash original,
                tc_deliverables = a, tc_constraints = b, tc_actions = e, tc_acceptance = f\<rparr>"
    using assms d v by (auto simp: createTaskContract_def bindR_Inr split: if_splits)
  note ok = contract_field_values [OF fields(1)] contract_field_values [OF fields(2)]
    contract_field_values [OF fields(3)] contract_field_values [OF fields(4)]
  define e0 where "e0 = [(''deliverables'', JArr (map JStr a)), (''constraints'', JArr (map JStr b)),
     (''actions'', JArr (map JStr e)), (''acceptance'', JArr (map JStr f))]"
  have draft: "contract_draft c = JObj e0" by (simp add: c contract_draft_def e0_def)
  have "contract_field e0 ''deliverables'' = Inr a" "contract_field e0 ''constraints'' = Inr b"
    "contract_field e0 ''actions'' = Inr e" "contract_field e0 ''acceptance'' = Inr f"
    using ok by (auto intro!: contract_field_back simp: e0_def)
  moreover have "list_all (\<lambda>(k, _). k \<in> set contract_fields) e0" by (simp add: e0_def contract_fields_def)
  ultimately have "createTaskContract hash original version (contract_draft c) = Inr c"
    using v ne c unfolding draft by (simp add: createTaskContract_def)
  with c ne show ?thesis by simp
qed

lemma contract_roundtrip_witness:
  "\<exists>c. createTaskContract id ''q'' 2 (JObj [(''deliverables'', JArr [JStr ''d'']), (''constraints'', JArr []),
      (''actions'', JArr []), (''acceptance'', JArr [JStr ''a''])]) = Inr c
     \<and> createTaskContract id ''q'' 2 (contract_draft c) = Inr c"
proof -
  let ?r = "createTaskContract id ''q'' 2 (JObj [(''deliverables'', JArr [JStr ''d'']), (''constraints'', JArr []),
      (''actions'', JArr []), (''acceptance'', JArr [JStr ''a''])])"
  have "(case ?r of Inl _ \<Rightarrow> False | Inr _ \<Rightarrow> True)" by code_simp
  then obtain c where "?r = Inr c" by (auto split: sum.splits)
  with contract_roundtrip [OF this] show ?thesis by blast
qed

subsection \<open>Delegation\<close>

definition inherited_from :: "request_snapshot \<Rightarrow> request_snapshot \<Rightarrow> bool" where
  "inherited_from parent r = (rq_originalText r = rq_originalText parent \<and> rq_authorId r = rq_authorId parent
     \<and> rq_evidence r = rq_evidence parent \<and> rq_attachments r = rq_attachments parent
     \<and> opt_list (rq_inheritedRevisions r) @ rq_revisions r = opt_list (rq_inheritedRevisions parent) @ rq_revisions parent)"

definition no_wider :: "request_snapshot \<Rightarrow> request_snapshot \<Rightarrow> bool" where
  "no_wider parent r =
     ((rq_codeExecution parent = Some (JStr ''disabled'') \<longrightarrow> rq_codeExecution r = Some (JStr ''disabled''))
      \<and> (rq_mode parent = Some (JStr ''chat'') \<longrightarrow> rq_mode r = Some (JStr ''chat''))
      \<and> (rq_mode parent = Some (JStr ''read'') \<longrightarrow> rq_mode r \<noteq> Some (JStr ''execute'')))"

lemma delegated_no_wider: "no_wider parent (delegated_request work m parent mode obligations)"
  by (simp add: no_wider_def delegated_request_def Let_def inherited_code_def inherited_mode_def truthy_json_def)

lemma delegated_inherited: "inherited_from parent (delegated_request work m parent mode obligations)"
  by (simp add: inherited_from_def delegated_request_def Let_def)

lemma bindR_cases: "bindR x f = Inr y \<Longrightarrow> (\<And>v. x = Inr v \<Longrightarrow> f v = Inr y \<Longrightarrow> P) \<Longrightarrow> P"
  by (cases x) auto

lemma snapshot_delegated:
  assumes "snapshotRequest work (Some parent) messages evidence = Inr r"
  shows "valid_delegation work parent \<and> (\<exists>m mode obligations. m \<in> set messages \<and> r = delegated_request work m parent mode obligations)"
proof -
  obtain m where m: "filter (\<lambda>m. cm_ref m = wi_triggerRef work) messages = [m]"
    using assms by (auto simp: snapshotRequest_def split: list.splits)
  then have "m \<in> set (filter (\<lambda>m. cm_ref m = wi_triggerRef work) messages)" by simp
  then have "m \<in> set messages" by simp
  moreover have "valid_delegation work parent \<and> (\<exists>mode obligations. r = delegated_request work m parent mode obligations)"
    using assms m by (simp add: snapshotRequest_def Let_def split: if_splits) (elim bindR_cases; simp split: if_splits; blast)
  ultimately show ?thesis by blast
qed

text \<open>Delegation never widens a request. A captured delegated request keeps the parent's original
  text, author, evidence and attachments, and the ordered revisions of the whole line; code
  execution the parent disabled stays disabled, a chat parent stays chat, a read parent never
  becomes execute; its own checklist and resource checks start empty at request version 1.\<close>

theorem delegation_narrows:
  assumes "snapshotRequest work (Some parent) messages evidence = Inr r"
  shows "inherited_from parent r \<and> no_wider parent r \<and> rq_workId r = wi_id work
    \<and> request_version r = 1 \<and> rq_contract r = None \<and> rq_resourceChecks r = None
    \<and> rq_parentWorkId r = Some (rq_workId parent) \<and> rq_parentRequestVersion r = Some (request_version parent)
    \<and> wi_principalId work = Some (rq_authorId parent)"
proof -
  obtain m mode obligations where r: "r = delegated_request work m parent mode obligations"
    and ok: "valid_delegation work parent" using snapshot_delegated [OF assms] by blast
  have "wi_principalId work = Some (rq_authorId parent)" using ok by (simp add: valid_delegation_def Let_def)
  then show ?thesis using delegated_inherited delegated_no_wider
    by (simp add: r) (simp add: delegated_request_def Let_def request_version_def)
qed

definition sample_child :: work_item where
  "sample_child = \<lparr>wi_id = ''c'', wi_fence = 1, wi_homeEpoch = 1, wi_tenantId = ''t'', wi_agentId = ''a'',
     wi_sessionId = ''s2'', wi_threadId = None, wi_kind = ''k'', wi_lane = Collaboration, wi_triggerRef = ''m2'',
     wi_principalId = Some ''p'', wi_createdAt = 0, wi_availableAt = 0, wi_attempts = 1, wi_preemptions = 0,
     wi_meta = Some [(''delegation'', JObj [(''parentWorkId'', JStr ''x''), (''assignment'', JStr ''part''),
       (''instructionAuthorId'', JStr ''a''), (''parentRequestVersion'', JNum 1)])]\<rparr>"

lemma delegation_narrows_witness:
  "\<exists>r. snapshotRequest sample_child (Some (sample_request\<lparr>rq_mode := Some (JStr ''read'')\<rparr>))
      [\<lparr>cm_ref = ''m2'', cm_authorId = ''a'', cm_body = ''part''\<rparr>] [] = Inr r \<and> rq_mode r \<noteq> Some (JStr ''execute'')"
proof -
  let ?p = "sample_request\<lparr>rq_mode := Some (JStr ''read'')\<rparr>"
  let ?r = "snapshotRequest sample_child (Some ?p) [\<lparr>cm_ref = ''m2'', cm_authorId = ''a'', cm_body = ''part''\<rparr>] []"
  have "(case ?r of Inl _ \<Rightarrow> False | Inr _ \<Rightarrow> True)" by code_simp
  then obtain r where "?r = Inr r" by (auto split: sum.splits)
  with delegation_narrows [OF this] show ?thesis by (simp add: no_wider_def)
qed

end
