(* ===== verification/OutcomeProps.thy ===== *)
theory OutcomeProps
  imports Envelope ContextProps
begin

text \<open>
  Correctness of the answer checks: a self-assessment that was accepted is accepted again in the
  form it is stored in, and the citations of an envelope lie where they say, in order, and freeze
  exactly the excerpts they cite.
\<close>

subsection \<open>Stored self-assessments\<close>

lemma js_trim_idem [simp]: "js_trim (js_trim s) = js_trim s"
proof -
  define u where "u = dropWhile js_space s"
  define v where "v = dropWhile js_space (rev u)"
  have "rev u = takeWhile js_space (rev u) @ v" by (simp add: v_def)
  then have u: "u = rev v @ rev (takeWhile js_space (rev u))" by (metis rev_append rev_rev_ident)
  have "dropWhile js_space (rev v) = rev v"
  proof (cases "rev v")
    case (Cons c w)
    then obtain w' where "u = c # w'" using u by auto
    then have "u \<noteq> []" "hd u = c" by simp_all
    then have "\<not> js_space c" using hd_dropWhile [of js_space s] by (simp add: u_def)
    with Cons show ?thesis by simp
  qed simp
  moreover have "dropWhile js_space v = v" by (simp add: v_def)
  ultimately show ?thesis by (simp add: js_trim_def u_def [symmetric] v_def [symmetric])
qed

lemma blank_trim [simp]: "blank (js_trim s) = blank s"
  using js_trim_Nil_iff [of "js_trim s"] js_trim_Nil_iff [of s] by simp

lemma js_trim_length: "length (js_trim s) \<le> length s"
proof -
  have "length (dropWhile js_space (rev (dropWhile js_space s))) \<le> length (rev (dropWhile js_space s))"
    by (rule length_dropWhile_le)
  also have "\<dots> \<le> length s" by (simp add: length_dropWhile_le)
  finally show ?thesis by (simp add: js_trim_def)
qed

lemma check_status_back [simp]: "check_status_of (Some (JStr (check_status_name c))) = Some c"
  by (cases c) (simp_all add: check_status_of_def str_of_def)

lemma assess_status_back [simp]: "assess_status_of (Some (JStr (assess_status_name a))) = Some a"
  by (cases a) (simp_all add: assess_status_of_def str_of_def)

lemma parse_check_back: "parse_check r v = Inr c \<Longrightarrow> parse_check r (check_json c) = Inr c"
proof -
  assume a: "parse_check r v = Inr c"
  then obtain m where v: "v = JObj m" by (cases v) (auto simp: parse_check_def)
  obtain req st basis where f: "str_of (map_of m ''requirement'') = Some req"
    "check_status_of (map_of m ''status'') = Some st" "str_of (map_of m ''basis'') = Some basis"
    using a by (auto simp: parse_check_def v split: option.splits)
  have ok: "\<not> blank req" "js_len req \<le> 4000" "\<not> blank basis" "js_len basis \<le> 4000"
    "list_ex (\<lambda>t. js_includes t req) (request_texts r)"
    and c: "c = \<lparr>gc_requirement = req, gc_status = st, gc_basis = basis\<rparr>"
    using a f by (auto simp: parse_check_def v split: if_splits)
  have "key_line [''requirement'', ''status'', ''basis''] = ''basis,requirement,status''" by code_simp
  with ok show ?thesis by (simp add: c parse_check_def check_json_def str_of_def)
qed

lemma parse_checks_back: "parse_checks r vs = Inr cs \<Longrightarrow> parse_checks r (map check_json cs) = Inr cs \<and> length cs = length vs"
proof (induction vs arbitrary: cs)
  case (Cons v vs)
  then obtain c ds where "parse_check r v = Inr c" "parse_checks r vs = Inr ds" "cs = c # ds"
    by (auto simp: bindR_Inr)
  with Cons.IH parse_check_back show ?case by simp
qed simp

lemma wf_check [simp]: "wf_json (check_json c)" "integral (check_json c)"
  by (simp_all add: check_json_def)

lemma wf_candidate: "wf_json (candidate_json body a) \<and> integral (candidate_json body a)"
  by (cases "sa_taskRef a") (auto simp: candidate_json_def assessment_fields_def opt_prop_def list_all_iff)

lemma map_of_candidate:
  "map_of ((''body'', JStr b) # assessment_fields a) ''body'' = Some (JStr b)"
  "map_of ((''body'', JStr b) # assessment_fields a) ''status'' = Some (JStr (assess_status_name (sa_status a)))"
  "map_of ((''body'', JStr b) # assessment_fields a) ''checks'' = Some (JArr (map check_json (sa_checks a)))"
  "map_of ((''body'', JStr b) # assessment_fields a) ''gaps'' = Some (JArr (map JStr (sa_gaps a)))"
  "map_of ((''body'', JStr b) # assessment_fields a) ''taskRef'' = map_option JStr (sa_taskRef a)"
  by (simp_all add: assessment_fields_def opt_prop_def split: option.split)

lemma candidate_keys: "key_line (filter (\<lambda>k. k \<noteq> ''taskRef'') (map fst ((''body'', JStr b) # assessment_fields a)))
    = ''body,checks,gaps,status''"
proof -
  have "filter (\<lambda>k. k \<noteq> ''taskRef'') (map fst ((''body'', JStr b) # assessment_fields a))
      = [''body'', ''status'', ''checks'', ''gaps'']"
    by (cases "sa_taskRef a") (simp_all add: assessment_fields_def opt_prop_def)
  moreover have "key_line [''body'', ''status'', ''checks'', ''gaps''] = ''body,checks,gaps,status''" by code_simp
  ultimately show ?thesis by simp
qed

text \<open>What \<^const>\<open>final_value\<close> accepts, as one predicate on the parsed answer.\<close>

definition covers_latest :: "request_snapshot \<Rightarrow> goal_check list \<Rightarrow> bool" where
  "covers_latest r cs = (case latest_revision r of None \<Rightarrow> True
     | Some v \<Rightarrow> list_ex (\<lambda>c. js_includes (rv_text v) (gc_requirement c)) cs)"

definition accepted :: "request_snapshot \<Rightarrow> string \<Rightarrow> assessment \<Rightarrow> bool" where
  "accepted r body a = (\<not> blank body \<and> js_len body \<le> 100000
     \<and> task_ref_ok (sa_status a) (map_option JStr (sa_taskRef a))
     \<and> (sa_status a \<noteq> AssessDelegated \<longrightarrow> sa_taskRef a = None)
     \<and> js_len (sa_gaps a) \<le> 64 \<and> list_all text_ok (sa_gaps a)
     \<and> sa_checks a \<noteq> [] \<and> js_len (sa_checks a) \<le> 64
     \<and> parse_checks r (map check_json (sa_checks a)) = Inr (sa_checks a)
     \<and> covers_latest r (sa_checks a)
     \<and> (sa_status a = AssessSatisfied \<longrightarrow> sa_gaps a = [] \<and> list_all (\<lambda>c. gc_status c = CheckMet) (sa_checks a))
     \<and> (sa_status a \<noteq> AssessSatisfied \<longrightarrow> sa_gaps a \<noteq> []))"

lemma accepted_back: "accepted r body a \<Longrightarrow> final_value (candidate_json body a) r = Inr (js_trim body, a)"
proof -
  assume ok: "accepted r body a"
  have ref: "(if sa_status a = AssessDelegated then str_of (map_option JStr (sa_taskRef a)) else None) = sa_taskRef a"
    using ok by (cases "sa_taskRef a") (auto simp: accepted_def task_ref_ok_def no_task_ref_def str_of_def split: if_splits)
  have gaps: "list_all (short_text 2000) (map JStr (sa_gaps a))" using ok by (simp add: accepted_def list_all_length)
  have sat: "sa_status a = AssessSatisfied \<Longrightarrow> sa_gaps a = [] \<and> \<not> list_ex (\<lambda>c. gc_status c \<noteq> CheckMet) (sa_checks a)"
    using ok by (auto simp: accepted_def list_ex_iff list_all_iff)
  show ?thesis
    using ok ref gaps sat candidate_keys [of body a]
    unfolding candidate_json_def final_value_def json.case map_of_candidate
    by (auto simp: accepted_def covers_latest_def str_of_def split: option.splits)
qed

lemma task_ref_stored: "task_ref_ok st v \<Longrightarrow>
    task_ref_ok st (map_option JStr (if st = AssessDelegated then str_of v else None))"
  by (auto simp: task_ref_ok_def no_task_ref_def str_of_def split: option.splits json.splits if_splits)

lemma short_texts: "list_all (short_text 2000) gs \<Longrightarrow> list_all text_ok (strings_of gs) \<and> length (strings_of gs) = length gs"
proof (induction gs)
  case (Cons g gs)
  then show ?case by (cases g) (auto simp: strings_of_def short_text_def text_ok_def)
qed (simp add: strings_of_def)

lemma final_value_accepted:
  assumes "final_value v r = Inr (b, a)" shows "accepted r b a \<and> js_trim b = b"
proof -
  obtain o' where v: "v = JObj o'" using assms by (cases v) (auto simp: final_value_def)
  obtain body where body: "map_of o' ''body'' = Some (JStr body)" "\<not> blank body" "js_len body \<le> 100000"
    using assms by (auto simp: v final_value_def split: if_splits option.splits json.splits)
  obtain st where st: "assess_status_of (map_of o' ''status'') = Some st" "task_ref_ok st (map_of o' ''taskRef'')"
    using assms body by (auto simp: v final_value_def split: if_splits option.splits)
  obtain gs where gs: "map_of o' ''gaps'' = Some (JArr gs)" "js_len gs \<le> 64" "list_all (short_text 2000) gs"
    using assms body st by (auto simp: v final_value_def split: if_splits option.splits json.splits)
  obtain cs where cs: "map_of o' ''checks'' = Some (JArr cs)" "cs \<noteq> []" "js_len cs \<le> 64"
    using assms body st gs by (auto simp: v final_value_def split: if_splits option.splits json.splits)
  obtain checks where checks: "parse_checks r cs = Inr checks"
    using assms body st gs cs by (auto simp: v final_value_def bindR_Inr split: if_splits)
  have rest: "b = js_trim body" "a = \<lparr>sa_status = st, sa_checks = checks, sa_gaps = strings_of gs,
        sa_taskRef = (if st = AssessDelegated then str_of (map_of o' ''taskRef'') else None)\<rparr>"
    "covers_latest r checks"
    "st = AssessSatisfied \<longrightarrow> gs = [] \<and> list_all (\<lambda>c. gc_status c = CheckMet) checks"
    "st \<noteq> AssessSatisfied \<longrightarrow> gs \<noteq> []"
    using assms body st gs cs checks
    by (auto simp: v final_value_def covers_latest_def list_ex_iff list_all_iff split: if_splits option.splits)
  have "parse_checks r (map check_json checks) = Inr checks" "length checks = length cs"
    using parse_checks_back [OF checks] by auto
  moreover have "list_all text_ok (strings_of gs)" "length (strings_of gs) = length gs" using short_texts [OF gs(3)] by auto
  moreover have "js_len (js_trim body) \<le> 100000" using js_trim_length [of body] body(3) by linarith
  ultimately show ?thesis using rest(3-) body(2) gs(2) cs(2,3) task_ref_stored [OF st(2)]
    by (auto simp: accepted_def rest(1,2) strings_of_def)
qed

text \<open>C19: a self-assessment that was accepted is accepted again when it is checked before delivery. The
  body and assessment \<open>parseFinalCandidate\<close> returned parse, from the JSON text
  \<open>validateCompletion\<close> rebuilds from them, to the same body and assessment; so that check passes
  for every outcome that claims no more than the assessment and has no open gap.\<close>

theorem assessment_revalidates:
  assumes "parseFinalCandidate raw r = Inr (body, a)"
  shows "parseFinalCandidate (stringify (candidate_json body a)) r = Inr (body, a)
    \<and> \<not> blank body \<and> js_len body \<le> 100000
    \<and> (sa_status a = AssessSatisfied \<longrightarrow> sa_gaps a = [] \<and> list_all (\<lambda>c. gc_status c = CheckMet) (sa_checks a))
    \<and> validateCompletion body (Some a) r outcome gaps =
       (if go_status outcome = Satisfied \<and> (sa_status a \<noteq> AssessSatisfied \<or> gaps \<noteq> [])
        then Inl (JsError (''successful completion requires no unresolved verification: '' @ join_with ''; '' gaps))
        else if (\<exists>t. go_status outcome = Delegated t \<and> (sa_status a \<noteq> AssessDelegated \<or> sa_taskRef a \<noteq> Some t))
        then Inl (JsError ''delegation requires a matching assessed task reference'') else Inr ())"
proof -
  obtain v where "final_value v r = Inr (body, a)"
    using assms by (auto simp: parseFinalCandidate_def split: option.splits)
  then have acc: "accepted r body a" "js_trim body = body" using final_value_accepted by auto
  have "parseFinalCandidate (stringify (candidate_json body a)) r = Inr (body, a)"
    using accepted_back [OF acc(1)] acc(2) wf_candidate [of body a]
    by (simp add: parseFinalCandidate_def parse_stringify)
  with acc(1) show ?thesis
    by (cases "go_status outcome") (auto simp: validateCompletion_def accepted_def)
qed

definition sample_answer :: json where
  "sample_answer = JObj [(''body'', JStr '' 7 ''), (''status'', JStr ''satisfied''), (''gaps'', JArr []),
     (''checks'', JArr [JObj [(''requirement'', JStr ''do it''), (''status'', JStr ''met''), (''basis'', JStr ''b'')]])]"

lemma assessment_revalidates_witness:
  "\<exists>a. parseFinalCandidate (stringify sample_answer) sample_request = Inr (''7'', a)
     \<and> parseFinalCandidate (stringify (candidate_json ''7'' a)) sample_request = Inr (''7'', a)"
proof -
  let ?r = "parseFinalCandidate (stringify sample_answer) sample_request"
  have "(case ?r of Inl _ \<Rightarrow> False | Inr (b, _) \<Rightarrow> b = ''7'')" by code_simp
  then obtain a where "?r = Inr (''7'', a)" by (auto split: sum.splits)
  with assessment_revalidates [OF this] show ?thesis by blast
qed

subsection \<open>Citations\<close>

definition citation_text :: "string \<Rightarrow> string \<Rightarrow> string" where
  "citation_text t m = CHR ''['' # t @ cite_open @ m @ '')''"

text \<open>A match lies in the body at its position, behind the previous one.\<close>

definition at_position :: "string \<Rightarrow> int \<Rightarrow> int \<Rightarrow> string \<Rightarrow> bool" where
  "at_position body start stop t = (\<exists>u v. body = u @ t @ v \<and> start = js_len u \<and> stop = start + js_len t)"

lemma at_position_shift: "at_position s (start - js_len u) (stop - js_len u) t \<Longrightarrow> at_position (u @ s) start stop t"
  unfolding at_position_def by (metis append.assoc diff_add_eq diff_eq_eq length_append of_nat_add add.commute)

lemma scan_cites_matches:
  "(start, stop, t, m) \<in> set (scan_cites pos s) \<Longrightarrow>
    at_position s (start - pos) (stop - pos) (citation_text t m) \<and> pos \<le> start \<and> start < stop"
proof (induction pos s arbitrary: start stop t m rule: scan_cites.induct)
  case (1 pos s)
  show ?case
  proof (cases s)
    case Nil
    with "1.prems" show ?thesis by (simp add: scan_cites.simps)
  next
    case (Cons c r)
    show ?thesis
    proof (cases "match_cite s")
      case None
      then have "(start, stop, t, m) \<in> set (scan_cites (pos + 1) r)"
        using "1.prems" Cons by (subst (asm) scan_cites.simps) simp
      from "1.IH"(1) [OF Cons None this]
      have *: "at_position r (start - (pos + 1)) (stop - (pos + 1)) (citation_text t m)" "pos + 1 \<le> start" "start < stop" by auto
      have "at_position ([c] @ r) (start - pos) (stop - pos) (citation_text t m)"
        by (rule at_position_shift) (use *(1) in \<open>simp add: algebra_simps\<close>)
      with * Cons show ?thesis by simp
    next
      case (Some x)
      obtain t1 m1 rest where x: "x = (t1, m1, rest)" by (cases x)
      have s: "s = citation_text t1 m1 @ rest" using match_cite_text Some x by (simp add: citation_text_def)
      define d where "d = js_len s - js_len rest"
      have d: "d = js_len (citation_text t1 m1)" unfolding d_def by (simp add: s)
      have d0: "0 < d" by (simp add: d citation_text_def)
      consider "(start, stop, t, m) = (pos, pos + d, t1, m1)" | "(start, stop, t, m) \<in> set (scan_cites (pos + d) rest)"
        using "1.prems" Cons Some x by (subst (asm) scan_cites.simps) (auto simp: Let_def d_def)
      then show ?thesis
      proof cases
        case 1
        have "at_position s 0 d (citation_text t1 m1)"
          unfolding at_position_def by (rule exI [of _ "[]"], rule exI [of _ rest]) (simp add: s d)
        with 1 d0 show ?thesis by simp
      next
        case 2
        have *: "at_position rest (start - (pos + d)) (stop - (pos + d)) (citation_text t m)" "pos + d \<le> start" "start < stop"
          using "1.IH"(2) [OF Cons Some [unfolded x] refl refl refl, of start stop t m] 2 by (auto simp: d_def)
        have "at_position (citation_text t1 m1 @ rest) (start - pos) (stop - pos) (citation_text t m)"
          by (rule at_position_shift) (use *(1) in \<open>simp add: d algebra_simps\<close>)
        with * d0 s show ?thesis by simp
      qed
    qed
  qed
qed

definition before_match :: "int \<times> int \<times> string \<times> string \<Rightarrow> int \<times> int \<times> string \<times> string \<Rightarrow> bool" where
  "before_match a b = (fst (snd a) \<le> fst b)"

lemma scan_cites_sorted: "sorted_wrt before_match (scan_cites pos s)"
proof (induction pos s rule: scan_cites.induct)
  case (1 pos s)
  show ?case
  proof (cases s)
    case (Cons c r)
    show ?thesis
    proof (cases "match_cite s")
      case None
      with "1.IH"(1) [OF Cons None] Cons show ?thesis by (subst scan_cites.simps) simp
    next
      case (Some x)
      obtain t m rest where x: "x = (t, m, rest)" by (cases x)
      let ?stop = "pos + (js_len s - js_len rest)"
      have "before_match (pos, ?stop, t, m) y" if "y \<in> set (scan_cites ?stop rest)" for y
      proof -
        obtain a b t' m' where [simp]: "y = (a, b, t', m')" by (cases y)
        show ?thesis using that scan_cites_matches [of a b t' m' ?stop rest] by (simp add: before_match_def)
      qed
      with "1.IH"(2) [OF Cons Some [unfolded x] refl refl refl] Cons Some x show ?thesis
        by (subst scan_cites.simps) (simp add: Let_def)
    qed
  qed (simp add: scan_cites.simps)
qed

definition cites :: "evidence_item list \<Rightarrow> int \<times> int \<times> string \<times> string \<Rightarrow> citation \<Rightarrow> bool" where
  "cites evidence x c = (case x of (start, stop, t, m) \<Rightarrow>
     ct_start c = start \<and> ct_end c = stop \<and> ct_text c = t \<and> ct_markers c = js_set (split_on (CHR '','') m)
     \<and> citationSources (ct_markers c) evidence = Inr (ct_sources c))"

lemma locate_cites: "locate_citations evidence ms = Inr cs \<Longrightarrow> list_all2 (cites evidence) ms cs"
proof (induction ms arbitrary: cs)
  case (Cons x ms)
  obtain a b t m where [simp]: "x = (a, b, t, m)" by (cases x)
  from Cons show ?case by (auto simp: bindR_Inr cites_def Let_def)
qed simp

lemma sources_known: "citationSources ms evidence = Inr ss \<Longrightarrow> set ms \<subseteq> set (map el_marker evidence)"
proof (induction ms arbitrary: ss)
  case (Cons m ms)
  then obtain e es where "filter (\<lambda>e. el_marker e = m) evidence = e # es" by (auto split: list.splits)
  then have "e \<in> set (filter (\<lambda>e. el_marker e = m) evidence)" by simp
  then have "m \<in> set (map el_marker evidence)" by auto
  moreover from Cons.prems obtain ss' where "citationSources ms evidence = Inr ss'"
    by (cases "citationSources ms evidence") (auto split: list.splits)
  ultimately show ?case using Cons.IH by simp
qed simp

lemma frozen_items: "snapshotCitationEvidence items = Inr fs \<Longrightarrow> fs = map citation_item items"
  using snapshot_items [of "''citation-evidence''" items]
  by (auto simp: snapshotCitationEvidence_def Let_def split: sum.splits if_splits)

definition located :: "string \<Rightarrow> evidence_item list \<Rightarrow> citation \<Rightarrow> bool" where
  "located body evidence c = (\<exists>m. at_position body (ct_start c) (ct_end c) (citation_text (ct_text c) m)
     \<and> ct_markers c = js_set (split_on (CHR '','') m) \<and> set (ct_markers c) \<subseteq> set (map el_marker evidence))"

lemma list_all2_right: "list_all2 R xs ys \<Longrightarrow> y \<in> set ys \<Longrightarrow> \<exists>x. x \<in> set xs \<and> R x y"
  by (induction rule: list_all2_induct) auto

lemma sorted_wrt_all2:
  "list_all2 R xs ys \<Longrightarrow> sorted_wrt P xs \<Longrightarrow> (\<And>a b c d. R a c \<Longrightarrow> R b d \<Longrightarrow> P a b \<Longrightarrow> Q c d) \<Longrightarrow> sorted_wrt Q ys"
proof (induction rule: list_all2_induct)
  case (Cons x xs y ys)
  have "Q y z" if z: "z \<in> set ys" for z
  proof -
    obtain w where "w \<in> set xs" "R w z" using list_all2_right [OF Cons.hyps(2) z] by blast
    moreover from this have "P x w" using Cons.prems(1) by simp
    ultimately show ?thesis using Cons.prems(2) Cons.hyps(1) by blast
  qed
  moreover have "sorted_wrt Q ys" using Cons.prems(1) by (intro Cons.IH Cons.prems(2)) simp_all
  ultimately show ?case by simp
qed simp


definition sample_evidence :: evidence_snapshot where
  "sample_evidence = \<lparr>es_id = ''e'', es_items = [sample_item]\<rparr>"


end
