(* ===== verification/Workspace.thy ===== *)
theory Workspace
  imports Envelope
begin

text \<open>
  The sandbox file checkpoints of src/protocol/workspace.ts: limits, portable paths and the checked
  entry list of a checkpoint. The theorem shows what an accepted list is: a tree of distinct
  portable paths in order, within the limits, that validates to itself.
\<close>

datatype workspace_entry =
    Directory (we_path: string)
  | File (we_path: string) (we_size: int) (we_sha256: string) (we_objectKey: string)

record workspace_limits =
  wl_maxEntries :: int
  wl_maxBytes :: int
  wl_maxFileBytes :: int
  wl_timeoutMs :: int

definition DEFAULT_WORKSPACE_LIMITS :: workspace_limits where
  "DEFAULT_WORKSPACE_LIMITS = \<lparr>wl_maxEntries = 4096, wl_maxBytes = 128 * 1024 * 1024,
     wl_maxFileBytes = 32 * 1024 * 1024, wl_timeoutMs = 60000\<rparr>"

text \<open>The options, spread over the defaults: a property that is given replaces the default.\<close>

definition limit_or :: "int \<Rightarrow> int option \<Rightarrow> int" where
  "limit_or d x = (case x of None \<Rightarrow> d | Some v \<Rightarrow> v)"

definition workspaceLimits :: "int option \<Rightarrow> int option \<Rightarrow> int option \<Rightarrow> int option \<Rightarrow> os_error + workspace_limits" where
  "workspaceLimits entries bytes fileBytes timeout =
     (let l = \<lparr>wl_maxEntries = limit_or (wl_maxEntries DEFAULT_WORKSPACE_LIMITS) entries,
        wl_maxBytes = limit_or (wl_maxBytes DEFAULT_WORKSPACE_LIMITS) bytes,
        wl_maxFileBytes = limit_or (wl_maxFileBytes DEFAULT_WORKSPACE_LIMITS) fileBytes,
        wl_timeoutMs = limit_or (wl_timeoutMs DEFAULT_WORKSPACE_LIMITS) timeout\<rparr> in
      if list_ex (\<lambda>v. \<not> safe_int v \<or> v < 1) [wl_maxEntries l, wl_maxBytes l, wl_maxFileBytes l, wl_timeoutMs l]
      then Inl (JsError ''invalid workspace limit'')
      else if wl_maxEntries l > 4096 \<or> wl_maxFileBytes l > 64 * 1024 * 1024 \<or> wl_maxBytes l > 1024 * 1024 * 1024
        \<or> wl_maxFileBytes l > wl_maxBytes l \<or> wl_timeoutMs l > 300000
      then Inl (JsError ''workspace limits exceed the transport budget'')
      else Inr l)"

subsection \<open>Paths\<close>

text \<open>\<open>toLowerCase\<close> on code units below 256\<close>

definition js_lower :: "char \<Rightarrow> char" where
  "js_lower c = (let n = of_char c :: nat in
     if is_upper c \<or> 192 \<le> n \<and> n \<le> 222 \<and> n \<noteq> 215 then char_of (n + 32) else c)"

abbreviation lower_case :: "string \<Rightarrow> string" where
  "lower_case s \<equiv> map js_lower s"

text \<open>\<open>/^(con|prn|aux|nul|com[1-9]|lpt[1-9])(?:\.|$)/i\<close>: names a file system may reserve.\<close>

definition reserved_part :: "string \<Rightarrow> bool" where
  "reserved_part part = (let s = map to_lower part; stem = takeWhile (\<lambda>c. c \<noteq> CHR ''.'') s in
     stem \<in> set [''con'', ''prn'', ''aux'', ''nul'']
     \<or> (length stem = 4 \<and> take 3 stem \<in> set [''com'', ''lpt''] \<and> is_digit (stem ! 3) \<and> stem ! 3 \<noteq> CHR ''0''))"

definition portable_part :: "string \<Rightarrow> bool" where
  "portable_part p = (p \<noteq> [] \<and> p \<noteq> ''.'' \<and> p \<noteq> ''..'' \<and> last p \<noteq> CHR ''.'' \<and> last p \<noteq> CHR '' '' \<and> \<not> reserved_part p)"

definition portable_path :: "string \<Rightarrow> bool" where
  "portable_path p = (p \<noteq> [] \<and> js_len p \<le> 1024 \<and> list_all path_char p \<and> list_all portable_part (split_on (CHR ''/'') p))"

definition workspacePath :: "json option \<Rightarrow> os_error + string" where
  "workspacePath v = (case v of
      Some (JStr p) \<Rightarrow> if portable_path p then Inr p else Inl (JsError ''invalid workspace path'')
    | _ \<Rightarrow> Inl (JsError ''invalid workspace path''))"

subsection \<open>Entries\<close>

text \<open>\<open>/^workspaces\/[a-f0-9]{64}\/[a-f0-9]{64}-\d+\/[a-f0-9-]{36}\/[a-f0-9]{64}$/\<close>\<close>

definition is_object_key :: "string \<Rightarrow> bool" where
  "is_object_key k = (case split_on (CHR ''/'') k of
      [root, scope, attempt, upload, sha] \<Rightarrow>
        root = ''workspaces'' \<and> is_sha256 scope
        \<and> is_sha256 (take 64 attempt) \<and> take 1 (drop 64 attempt) = ''-''
        \<and> drop 65 attempt \<noteq> [] \<and> list_all is_digit (drop 65 attempt)
        \<and> js_len upload = 36 \<and> list_all (\<lambda>c. is_hex_lower c \<or> c = CHR ''-'') upload \<and> is_sha256 sha
    | _ \<Rightarrow> False)"

text \<open>\<open>typeof v === 'object'\<close> and not null; arrays are objects without the properties read here.\<close>

definition is_object :: "json \<Rightarrow> bool" where
  "is_object v = (case v of JObj a \<Rightarrow> True | JArr a \<Rightarrow> True | _ \<Rightarrow> False)"

text \<open>One entry, after those whose lower-case paths are \<open>seen\<close> and whose files hold \<open>used\<close> bytes.\<close>

definition check_entry :: "workspace_limits \<Rightarrow> string list \<Rightarrow> int \<Rightarrow> json \<Rightarrow> os_error + workspace_entry" where
  "check_entry l seen used v =
     (if \<not> is_object v then Inl (JsError ''invalid workspace entry'')
      else bindR (workspacePath (json_prop v ''path'')) (\<lambda>p.
        if lower_case p \<in> set seen then Inl (JsError ''duplicate workspace path'')
        else if json_prop v ''kind'' = Some (JStr ''directory'') then Inr (Directory p)
        else (case (json_prop v ''kind'', json_int (json_prop v ''size''), str_of (json_prop v ''sha256''), str_of (json_prop v ''objectKey'')) of
            (Some (JStr kind), Some n, Some sha, Some key) \<Rightarrow>
              if kind \<noteq> ''file'' \<or> n < 0 \<or> n > wl_maxFileBytes l \<or> \<not> is_sha256 sha \<or> \<not> is_object_key key
              then Inl (JsError ''invalid workspace file'')
              else if used + n > wl_maxBytes l then Inl (JsError ''workspace byte limit exceeded'')
              else Inr (File p n sha key)
          | _ \<Rightarrow> Inl (JsError ''invalid workspace file''))))"

fun entry_bytes :: "workspace_entry \<Rightarrow> int" where
  "entry_bytes (Directory p) = 0"
| "entry_bytes (File p n sha key) = n"

fun check_entries :: "workspace_limits \<Rightarrow> string list \<Rightarrow> int \<Rightarrow> json list \<Rightarrow> os_error + workspace_entry list" where
  "check_entries l seen used [] = Inr []"
| "check_entries l seen used (v # vs) =
     bindR (check_entry l seen used v) (\<lambda>e.
     bindR (check_entries l (lower_case (we_path e) # seen) (used + entry_bytes e) vs) (\<lambda>es. Inr (e # es)))"

text \<open>The directories a path lies in.\<close>

definition parent_paths :: "string \<Rightarrow> string list" where
  "parent_paths p = (let parts = split_on (CHR ''/'') p in map (\<lambda>n. join_with ''/'' (take n parts)) [1..<length parts])"

definition has_directory :: "workspace_entry list \<Rightarrow> string \<Rightarrow> bool" where
  "has_directory es p = list_ex (\<lambda>e. case e of Directory q \<Rightarrow> lower_case q = lower_case p | _ \<Rightarrow> False) es"

definition checkedWorkspaceEntries :: "workspace_limits \<Rightarrow> json \<Rightarrow> os_error + workspace_entry list" where
  "checkedWorkspaceEntries l v = (case v of
      JArr vs \<Rightarrow>
        if js_len vs > wl_maxEntries l then Inl (JsError ''workspace entry limit exceeded'')
        else bindR (check_entries l [] 0 vs) (\<lambda>es.
          if list_all (\<lambda>e. list_all (has_directory es) (parent_paths (we_path e))) es
          then Inr (sort_key we_path es)
          else Inl (JsError ''workspace parent directory is missing''))
    | _ \<Rightarrow> Inl (JsError ''workspace entry limit exceeded''))"

fun entry_json :: "workspace_entry \<Rightarrow> json" where
  "entry_json (Directory p) = JObj [(''kind'', JStr ''directory''), (''path'', JStr p)]"
| "entry_json (File p n sha key) = JObj [(''kind'', JStr ''file''), (''path'', JStr p), (''size'', JNum n),
     (''sha256'', JStr sha), (''objectKey'', JStr key)]"


subsection \<open>Accepted checkpoints\<close>

definition valid_entry :: "workspace_limits \<Rightarrow> workspace_entry \<Rightarrow> bool" where
  "valid_entry l e = (portable_path (we_path e) \<and> (case e of Directory p \<Rightarrow> True
     | File p n sha key \<Rightarrow> safe_int n \<and> 0 \<le> n \<and> n \<le> wl_maxFileBytes l \<and> is_sha256 sha \<and> is_object_key key))"

definition parents_listed :: "workspace_entry list \<Rightarrow> bool" where
  "parents_listed es = list_all (\<lambda>e. list_all (has_directory es) (parent_paths (we_path e))) es"

lemma json_int_Some: "json_int v = Some n \<longleftrightarrow> v = Some (JNum n) \<and> safe_int n"
  by (auto simp: json_int_def split: option.splits json.splits if_splits)

lemma workspacePath_Inr: "workspacePath v = Inr p \<longleftrightarrow> v = Some (JStr p) \<and> portable_path p"
  by (auto simp: workspacePath_def split: option.splits json.splits if_splits)

lemma check_entry_Inr:
  assumes "check_entry l seen used v = Inr e"
  shows "valid_entry l e \<and> lower_case (we_path e) \<notin> set seen \<and> 0 \<le> entry_bytes e
    \<and> (used \<le> wl_maxBytes l \<longrightarrow> used + entry_bytes e \<le> wl_maxBytes l)"
  using assms
  by (auto simp: check_entry_def valid_entry_def bindR_Inr workspacePath_Inr json_int_Some
      split: if_splits option.splits json.splits)

lemma check_entries_Inr:
  "check_entries l seen used vs = Inr es \<Longrightarrow>
     list_all (valid_entry l) es \<and> length es = length vs \<and> distinct (map (\<lambda>e. lower_case (we_path e)) es)
     \<and> set (map (\<lambda>e. lower_case (we_path e)) es) \<inter> set seen = {}
     \<and> (used \<le> wl_maxBytes l \<longrightarrow> used + sum_list (map entry_bytes es) \<le> wl_maxBytes l)"
proof (induction l seen used vs arbitrary: es rule: check_entries.induct)
  case (2 l seen used v vs)
  then obtain e es' where e: "check_entry l seen used v = Inr e" and es: "es = e # es'"
    and r: "check_entries l (lower_case (we_path e) # seen) (used + entry_bytes e) vs = Inr es'"
    by (auto simp: bindR_Inr)
  note ih = "2.IH" [OF r] and he = check_entry_Inr [OF e]
  from ih he show ?case unfolding es by (auto simp: add.assoc)
qed simp

lemma check_entry_json:
  "valid_entry l e \<Longrightarrow> lower_case (we_path e) \<notin> set seen \<Longrightarrow> used + entry_bytes e \<le> wl_maxBytes l
    \<Longrightarrow> check_entry l seen used (entry_json e) = Inr e"
  by (cases e) (auto simp: check_entry_def valid_entry_def is_object_def json_prop_def bindR_Inr workspacePath_def
      json_int_def bindR_def str_of_def)

lemma entry_bytes_nonneg: "valid_entry l e \<Longrightarrow> 0 \<le> entry_bytes e"
  by (cases e) (auto simp: valid_entry_def)

lemma check_entries_json:
  "list_all (valid_entry l) es \<Longrightarrow> distinct (map (\<lambda>e. lower_case (we_path e)) es)
    \<Longrightarrow> set (map (\<lambda>e. lower_case (we_path e)) es) \<inter> set seen = {}
    \<Longrightarrow> used + sum_list (map entry_bytes es) \<le> wl_maxBytes l
    \<Longrightarrow> check_entries l seen used (map entry_json es) = Inr es"
proof (induction es arbitrary: seen used)
  case (Cons e es)
  have nn: "0 \<le> sum_list (map entry_bytes es)"
    using Cons.prems(1) by (intro sum_list_nonneg) (auto simp: list_all_iff intro: entry_bytes_nonneg)
  have e: "check_entry l seen used (entry_json e) = Inr e"
    using Cons.prems nn by (intro check_entry_json) auto
  have "check_entries l (lower_case (we_path e) # seen) (used + entry_bytes e) (map entry_json es) = Inr es"
    using Cons.prems by (intro Cons.IH) auto
  with e show ?case by (simp add: bindR_def)
qed simp

lemma has_directory_set: "set es = set fs \<Longrightarrow> has_directory es = has_directory fs"
  by (rule ext) (simp add: has_directory_def list_ex_iff)

lemma parents_listed_set: "set es = set fs \<Longrightarrow> parents_listed es = parents_listed fs"
  using has_directory_set [of es fs] by (simp add: parents_listed_def list_all_iff)

lemma sort_key_facts:
  fixes es :: "'a list"
  assumes d: "distinct (map f es)"
  shows "distinct (map f (sort_key g es))" and "sum_list (map (b :: 'a \<Rightarrow> int) (sort_key g es)) = sum_list (map b es)"
proof -
  have e: "distinct es" using d by (simp add: distinct_map)
  show "distinct (map f (sort_key g es))" using d by (simp add: distinct_map)
  show "sum_list (map b (sort_key g es)) = sum_list (map b es)"
    using e by (simp add: sum_list_distinct_conv_sum_set)
qed

lemma workspaceLimits_Inr:
  "workspaceLimits a b c t = Inr l \<Longrightarrow> 1 \<le> wl_maxBytes l \<and> wl_maxFileBytes l \<le> wl_maxBytes l \<and> wl_maxEntries l \<le> 4096"
  by (auto simp: workspaceLimits_def Let_def split: if_splits)

text \<open>C21: an accepted workspace checkpoint is a portable file tree. Its entries come in path order, their
  paths are portable and distinct even on a case-insensitive volume, every directory a path lies in
  is listed, files keep the byte limits; and the list the check returns is accepted again
  unchanged, so a stored checkpoint reads back as it was stored.\<close>

theorem workspace_tree:
  assumes "workspaceLimits a b c t = Inr l" and "checkedWorkspaceEntries l v = Inr es"
  shows "sorted (map we_path es) \<and> distinct (map (\<lambda>e. lower_case (we_path e)) es) \<and> list_all (valid_entry l) es
    \<and> parents_listed es \<and> sum_list (map entry_bytes es) \<le> wl_maxBytes l \<and> js_len es \<le> 4096
    \<and> checkedWorkspaceEntries l (JArr (map entry_json es)) = Inr es"
proof -
  obtain vs fs where v: "v = JArr vs" "js_len vs \<le> wl_maxEntries l" "check_entries l [] 0 vs = Inr fs"
    and par: "parents_listed fs" and es: "es = sort_key we_path fs"
    using assms(2) by (auto simp: checkedWorkspaceEntries_def bindR_Inr parents_listed_def split: json.splits if_splits)
  note lim = workspaceLimits_Inr [OF assms(1)]
  have f: "list_all (valid_entry l) fs" "length fs = length vs" "distinct (map (\<lambda>e. lower_case (we_path e)) fs)"
      "sum_list (map entry_bytes fs) \<le> wl_maxBytes l"
    using check_entries_Inr [OF v(3)] lim by auto
  have set: "set es = set fs" by (simp add: es)
  have srt: "sorted (map we_path es)" by (simp add: es)
  have dist: "distinct (map (\<lambda>e. lower_case (we_path e)) es)" unfolding es by (rule sort_key_facts(1) [OF f(3)])
  have sum: "sum_list (map entry_bytes es) \<le> wl_maxBytes l" using f(4) by (simp add: es sort_key_facts(2) [OF f(3)])
  have val: "list_all (valid_entry l) es" using f(1) by (simp add: list_all_iff set)
  have pe: "parents_listed es" using par parents_listed_set [OF set] by simp
  have len: "js_len es \<le> wl_maxEntries l" using v(2) f(2) by (simp add: es)
  have "check_entries l [] 0 (map entry_json es) = Inr es"
    using val dist sum by (intro check_entries_json) auto
  then have "checkedWorkspaceEntries l (JArr (map entry_json es)) = Inr es"
    using len pe srt by (simp add: checkedWorkspaceEntries_def bindR_def parents_listed_def sort_key_id_if_sorted)
  with srt dist val pe sum len lim show ?thesis by simp
qed

definition sample_entries :: json where
  "sample_entries = JArr [JObj [(''path'', JStr ''src/a b.txt''), (''kind'', JStr ''directory'')],
     JObj [(''path'', JStr ''src''), (''kind'', JStr ''directory'')]]"

lemma workspace_tree_witness:
  "workspaceLimits None None None None = Inr DEFAULT_WORKSPACE_LIMITS
   \<and> checkedWorkspaceEntries DEFAULT_WORKSPACE_LIMITS sample_entries = Inr [Directory ''src'', Directory ''src/a b.txt'']
   \<and> checkedWorkspaceEntries DEFAULT_WORKSPACE_LIMITS
       (JArr (map entry_json [Directory ''src'', Directory ''src/a b.txt''])) = Inr [Directory ''src'', Directory ''src/a b.txt'']"
proof -
  have l: "workspaceLimits None None None None = Inr DEFAULT_WORKSPACE_LIMITS" by code_simp
  have c: "checkedWorkspaceEntries DEFAULT_WORKSPACE_LIMITS sample_entries = Inr [Directory ''src'', Directory ''src/a b.txt'']"
    by code_simp
  show ?thesis using l c workspace_tree [OF l c] by blast
qed

end
