(* ===== verification/ActionLedger.thy ===== *)
theory ActionLedger
  imports Protocol
begin

text \<open>
  \<open>MemoryActionLedger\<close> of src/control-plane/memory-store.ts: durable intents, receipts and
  authoritative resolutions of host actions. \<open>reserve\<close> decides who may execute an action;
  \<open>record\<close> keeps the first final receipt; \<open>recordResolution\<close> appends a settlement that overrides it.
\<close>

subsection \<open>State\<close>

record action_intent =
  ai_toolContractHash :: "string option"
  ai_workId :: string
  ai_tenantId :: string
  ai_principalId :: "string option"
  ai_agentId :: string
  ai_sessionId :: string
  ai_threadId :: "string option"
  ai_requestVersion :: "int option"
  ai_action :: host_action

record action_resolution =
  rs_id :: string
  rs_actionKey :: string
  rs_result :: action_result
  rs_evidence :: jobj
  rs_resolvedBy :: string

record ledger =
  lg_results :: "(string, action_result) jsmap"
  lg_intents :: "(string, string) jsmap"
  lg_details :: "(string, action_intent) jsmap"
  lg_resolutions :: "(string, action_resolution list) jsmap"
  lg_resolutionIds :: "(string, action_resolution) jsmap"

definition empty_ledger :: ledger where
  "empty_ledger = \<lparr>lg_results = [], lg_intents = [], lg_details = [], lg_resolutions = [],
     lg_resolutionIds = []\<rparr>"

subsection \<open>Reading\<close>

text \<open>\<open>this.resolutions.get(key)?.at(-1)?.result ?? this.results.get(key)\<close>\<close>

definition effectiveResult :: "ledger \<Rightarrow> string \<Rightarrow> action_result option" where
  "effectiveResult l key = (case map_of (lg_resolutions l) key of
      Some (r # rs) \<Rightarrow> Some (rs_result (last (r # rs)))
    | _ \<Rightarrow> map_of (lg_results l) key)"

definition findIntent :: "string \<Rightarrow> ledger \<Rightarrow> action_intent option" where
  "findIntent key l = map_of (lg_details l) key"

definition find_result :: "string \<Rightarrow> ledger \<Rightarrow> action_result option" where
  "find_result key l = effectiveResult l key"

definition ledger_artifacts :: "string \<Rightarrow> ledger \<Rightarrow> artifact list" where
  "ledger_artifacts workId l = concat (map (\<lambda>(key, intent).
      case effectiveResult l key of
        Some r \<Rightarrow> if hr_ok r then (case hr_artifacts r of None \<Rightarrow> [] | Some fs \<Rightarrow> fs) else []
      | None \<Rightarrow> [])
     (filter (\<lambda>(key, intent). ai_workId intent = workId) (lg_details l)))"

datatype wait_for = WaitApproval string | WaitQuestion string

definition is_unknown :: "action_result \<Rightarrow> bool" where
  "is_unknown r = (hr_state r = Some Unknown)"

text \<open>\<open>result.approval\<close> is present only with status PENDING, so its presence is its id.\<close>

definition wait_receipt :: "wait_for \<Rightarrow> action_intent \<Rightarrow> action_result \<Rightarrow> bool" where
  "wait_receipt wt intent r = (case wt of
      WaitApproval a \<Rightarrow> hr_approval r = Some a
    | WaitQuestion q \<Rightarrow> ha_action (ai_action intent) = ''task.ask'' \<and> hr_ok r
        \<and> (case hr_directive r of None \<Rightarrow> False
           | Some d \<Rightarrow> dv_type d = Defer \<and> dv_reason d = Some ''user''
               \<and> prop_of (dv_data d) ''question'' = Some (JStr q)))"

definition hasWait :: "string \<Rightarrow> int \<Rightarrow> wait_for \<Rightarrow> ledger \<Rightarrow> bool" where
  "hasWait workId version wt l = list_ex (\<lambda>(key, intent).
      ai_workId intent = workId \<and> ai_requestVersion intent = Some version
      \<and> (case effectiveResult l key of None \<Rightarrow> False
         | Some r \<Rightarrow> \<not> is_unknown r \<and> wait_receipt wt intent r)) (lg_details l)"

definition hasSuccessfulAction :: "string \<Rightarrow> int \<Rightarrow> string list \<Rightarrow> ledger \<Rightarrow> bool" where
  "hasSuccessfulAction workId version actions l = list_ex (\<lambda>(key, intent).
      ai_workId intent = workId \<and> ai_requestVersion intent = Some version
      \<and> ha_action (ai_action intent) \<in> set actions
      \<and> (case effectiveResult l key of None \<Rightarrow> False
         | Some r \<Rightarrow> hr_ok r \<and> \<not> is_unknown r \<and> hr_approval r = None)) (lg_details l)"

datatype pending_state = PendingUnknown | PendingApproval

record pending_action =
  pa_key :: string
  pa_action :: string
  pa_state :: pending_state

definition pending_state_of :: "action_result option \<Rightarrow> pending_state option" where
  "pending_state_of r = (case r of
      None \<Rightarrow> Some PendingUnknown
    | Some x \<Rightarrow> if hr_approval x \<noteq> None then Some PendingApproval
        else if is_unknown x then Some PendingUnknown else None)"

text \<open>The list stops at 65 entries.\<close>

definition unsettled :: "string \<Rightarrow> ledger \<Rightarrow> pending_action list" where
  "unsettled workId l = take 65 (concat (map (\<lambda>(key, intent).
      if ai_workId intent \<noteq> workId \<or> starts_with (ha_action (ai_action intent)) ''task.'' then []
      else (case pending_state_of (effectiveResult l key) of
          None \<Rightarrow> []
        | Some st \<Rightarrow> [\<lparr>pa_key = key, pa_action = ha_action (ai_action intent), pa_state = st\<rparr>]))
     (lg_details l)))"

definition listCell :: "string \<Rightarrow> string \<Rightarrow> int option \<Rightarrow> ledger \<Rightarrow> (action_intent \<times> action_result option) list" where
  "listCell workId cellId version l =
     map (\<lambda>(key, intent). (intent, effectiveResult l key))
       (js_sort (\<lambda>(_, a) (_, b). ha_callIndex (ai_action a) - ha_callIndex (ai_action b))
         (filter (\<lambda>(_, intent). ai_workId intent = workId
             \<and> ha_cellId (ai_action intent) = cellId \<and> ai_requestVersion intent = version)
           (lg_details l)))"

subsection \<open>Writing\<close>

datatype reservation = Started | Existing

definition reserve :: "string \<Rightarrow> string \<Rightarrow> action_intent \<Rightarrow> (ledger, reservation) prog" where
  "reserve key fingerprint intent = (\<lambda>l.
     if ha_key (ai_action intent) \<noteq> key
     then (Inl (JsError ''action intent is required and must match its key''), l)
     else (case map_of (lg_intents l) key of
         Some existing \<Rightarrow>
           if existing \<noteq> fingerprint
           then (Inl (JsError ''action identity reused with different parameters or authorization''), l)
           else (Inr Existing, l)
       | None \<Rightarrow> (Inr Started, l\<lparr>lg_intents := AList.update key fingerprint (lg_intents l),
             lg_details := AList.update key intent (lg_details l)\<rparr>)))"

definition record_result :: "string \<Rightarrow> action_result \<Rightarrow> (ledger, action_result) prog" where
  "record_result key result = (\<lambda>l.
     if \<not> jhas (lg_intents l) key
     then (Inl (JsError ''action intent is required before recording a receipt''), l)
     else (case map_of (lg_results l) key of
         Some existing \<Rightarrow>
           if hr_approval existing = None then (Inr existing, l)
           else (Inr result, l\<lparr>lg_results := AList.update key result (lg_results l)\<rparr>)
       | None \<Rightarrow> (Inr result, l\<lparr>lg_results := AList.update key result (lg_results l)\<rparr>)))"

datatype resolved = Recorded | AlreadyRecorded

definition resolution_eq :: "action_resolution \<Rightarrow> action_resolution \<Rightarrow> bool" where
  "resolution_eq a b = (rs_id a = rs_id b \<and> rs_actionKey a = rs_actionKey b
     \<and> result_eq (rs_result a) (rs_result b) \<and> obj_eq (rs_evidence a) (rs_evidence b)
     \<and> rs_resolvedBy a = rs_resolvedBy b)"

definition recordResolution :: "action_resolution \<Rightarrow> (ledger, resolved) prog" where
  "recordResolution res = (\<lambda>l.
     if \<not> jhas (lg_intents l) (rs_actionKey res)
     then (Inl (JsError ''action intent is required before reconciliation''), l)
     else (case map_of (lg_resolutionIds l) (rs_id res) of
         Some prior \<Rightarrow>
           if \<not> resolution_eq prior res
           then (Inl (JsError ''resolution identity reused with different evidence''), l)
           else (Inr AlreadyRecorded, l)
       | None \<Rightarrow> (Inr Recorded, l\<lparr>lg_resolutionIds := AList.update (rs_id res) res (lg_resolutionIds l),
             lg_resolutions := AList.update (rs_actionKey res)
               ((case map_of (lg_resolutions l) (rs_actionKey res) of None \<Rightarrow> [] | Some rs \<Rightarrow> rs) @ [res])
               (lg_resolutions l)\<rparr>)))"

end
