(* ===== verification/Stores.thy ===== *)
theory Stores
  imports Protocol
begin

text \<open>
  The run-event store and the model-budget store of src/control-plane/memory-store.ts: events are
  deduplicated on \<open>(runId, seq)\<close> and listed in sequence order; budgets reserve resources for a model
  call before it is made and settle them once afterwards.
\<close>

subsection \<open>Run events\<close>

record stored_event =
  re_event :: run_event
  re_tenant :: string
  re_agent :: string
  re_recordedAt :: int

type_synonym event_store = "(string, (int, stored_event) jsmap) jsmap"

definition run_events :: "string \<Rightarrow> event_store \<Rightarrow> (int, stored_event) jsmap" where
  "run_events runId es = (case map_of es runId of None \<Rightarrow> [] | Some run \<Rightarrow> run)"

text \<open>A run's map is created when its first event arrives.\<close>

definition touch_run :: "string \<Rightarrow> event_store \<Rightarrow> event_store" where
  "touch_run runId es = (if jhas es runId then es else AList.update runId [] es)"

definition append_event :: "stored_event \<Rightarrow> event_store \<Rightarrow> bool \<times> event_store" where
  "append_event e es =
     (let runId = ev_runId (re_event e);
          es1 = touch_run runId es;
          run = run_events runId es1
      in if jhas run (ev_seq (re_event e)) then (False, es1)
         else (True, AList.update runId (AList.update (ev_seq (re_event e)) e run) es1))"

definition listRange :: "string \<Rightarrow> int \<Rightarrow> int \<Rightarrow> string list option \<Rightarrow> event_store \<Rightarrow> stored_event list" where
  "listRange runId from_excl to_incl kinds es = (case map_of es runId of
      None \<Rightarrow> []
    | Some run \<Rightarrow> js_sort (\<lambda>a b. ev_seq (re_event a) - ev_seq (re_event b))
        (filter (\<lambda>e. ev_seq (re_event e) > from_excl \<and> ev_seq (re_event e) \<le> to_incl
            \<and> (case kinds of None \<Rightarrow> True | Some ks \<Rightarrow> ev_kind (re_event e) \<in> set ks))
          (jvalues run)))"

interpretation seq_order: js_comparator "\<lambda>a b. ev_seq (re_event a) - ev_seq (re_event b)" "\<lambda>e. ev_seq (re_event e)"
  by unfold_locales auto

text \<open>Runs and events are stored under their own keys.\<close>

definition run_ok :: "string \<Rightarrow> (int, stored_event) jsmap \<Rightarrow> bool" where
  "run_ok r run = (keys_distinct run \<and> list_all (\<lambda>(q, e). ev_runId (re_event e) = r \<and> ev_seq (re_event e) = q) run)"

definition events_ok :: "event_store \<Rightarrow> bool" where
  "events_ok es = (keys_distinct es \<and> (\<forall>r run. map_of es r = Some run \<longrightarrow> run_ok r run))"

lemma list_all_jset: "list_all P m \<Longrightarrow> P (k, v) \<Longrightarrow> list_all P (AList.update k v m)"
  by (induction m) auto

lemma run_ok_update: "run_ok (ev_runId (re_event e)) run \<Longrightarrow>
    run_ok (ev_runId (re_event e)) (AList.update (ev_seq (re_event e)) e run)"
  by (simp add: run_ok_def list_all_jset)

lemma run_ok_events: "events_ok es \<Longrightarrow> run_ok r (run_events r es)"
  by (auto simp: events_ok_def run_events_def run_ok_def split: option.split)

lemma run_ok_value: "run_ok r run \<Longrightarrow> map_of run q = Some e \<Longrightarrow> ev_runId (re_event e) = r \<and> ev_seq (re_event e) = q"
  by (auto simp: run_ok_def list_all_iff dest!: map_of_SomeD)

inductive estep :: "event_store \<Rightarrow> event_store \<Rightarrow> bool" where
  "estep es (snd (append_event e es))"

lemma run_events_touch [simp]: "run_events r (touch_run k es) = run_events r es"
  by (auto simp: run_events_def jhas_def touch_run_def split: option.split)

lemma append_event_run: "run_events r (snd (append_event e es)) =
    (if r = ev_runId (re_event e) \<and> map_of (run_events r es) (ev_seq (re_event e)) = None
     then AList.update (ev_seq (re_event e)) e (run_events r es) else run_events r es)"
proof (cases "map_of (run_events (ev_runId (re_event e)) es) (ev_seq (re_event e))")
  case None
  have "run_events r (AList.update k run (touch_run k es)) = (if r = k then run else run_events r es)" for k run
    using run_events_touch [of r k es] by (simp add: run_events_def)
  with None show ?thesis by (simp add: append_event_def Let_def jhas_def)
next
  case (Some x)
  then show ?thesis by (auto simp: append_event_def Let_def jhas_def)
qed

lemma events_ok_append:
  assumes "events_ok es" shows "events_ok (snd (append_event e es))"
proof -
  let ?r = "ev_runId (re_event e)"
  let ?run = "AList.update (ev_seq (re_event e)) e (run_events ?r es)"
  have ok: "events_ok (touch_run ?r es)" using assms by (auto simp: events_ok_def touch_run_def run_ok_def)
  have "run_ok ?r ?run" by (rule run_ok_update [OF run_ok_events [OF assms]])
  then have "events_ok (AList.update ?r ?run (touch_run ?r es))" using ok by (auto simp: events_ok_def)
  with ok show ?thesis by (simp add: append_event_def Let_def)
qed

interpretation event_run: transition_system "\<lambda>es. es = []" estep events_ok
proof
  show "events_ok s" if "s = []" for s using that by (simp add: events_ok_def)
  show "events_ok s'" if "events_ok s" "estep s s'" for s s'
    using that(2,1) by cases (simp add: events_ok_append)
qed

definition event_at :: "string \<Rightarrow> int \<Rightarrow> event_store \<Rightarrow> stored_event option" where
  "event_at r q es = map_of (run_events r es) q"

lemma event_at_append: "event_at r q (snd (append_event e es)) =
    (if r = ev_runId (re_event e) \<and> q = ev_seq (re_event e) \<and> event_at r q es = None then Some e
     else event_at r q es)"
  by (auto simp: event_at_def append_event_run)

lemma append_event_fresh: "fst (append_event e es) = (event_at (ev_runId (re_event e)) (ev_seq (re_event e)) es = None)"
  by (simp add: append_event_def Let_def event_at_def jhas_def)

lemma esteps_keep: "estep\<^sup>*\<^sup>* es es' \<Longrightarrow> event_at r q es = Some e \<Longrightarrow> event_at r q es' = Some e"
  by (induction rule: rtranclp_induct) (auto elim!: estep.cases simp: event_at_append)

definition sample_event :: stored_event where
  "sample_event = \<lparr>re_event = \<lparr>ev_runId = ''w'', ev_seq = 7, ev_kind = ''k'', ev_stage = StDelta,
     ev_visibility = UserVisible, ev_data = []\<rparr>, re_tenant = ''t'', re_agent = ''a'', re_recordedAt = 0\<rparr>"

text \<open>The first event recorded at a run's sequence number is the one that stays. Appending an
  event is reported as new exactly when its run has no event at its number; then it is stored
  there, and no later append replaces it or is reported as new at that number.\<close>

theorem events_first_wins:
  assumes "append_event e es = (True, es1)" and "estep\<^sup>*\<^sup>* es1 es2"
    and "ev_runId (re_event e') = ev_runId (re_event e)" and "ev_seq (re_event e') = ev_seq (re_event e)"
  shows "event_at (ev_runId (re_event e)) (ev_seq (re_event e)) es = None
    \<and> event_at (ev_runId (re_event e)) (ev_seq (re_event e)) es2 = Some e
    \<and> fst (append_event e' es2) = False
    \<and> event_at (ev_runId (re_event e)) (ev_seq (re_event e)) (snd (append_event e' es2)) = Some e"
proof -
  have free: "event_at (ev_runId (re_event e)) (ev_seq (re_event e)) es = None"
    using append_event_fresh [of e es] assms(1) by simp
  then have "event_at (ev_runId (re_event e)) (ev_seq (re_event e)) es1 = Some e"
    using event_at_append [of _ _ e es] assms(1) by simp
  then have "event_at (ev_runId (re_event e)) (ev_seq (re_event e)) es2 = Some e"
    using esteps_keep [OF assms(2)] by blast
  with free show ?thesis using assms(3,4) by (simp add: append_event_fresh event_at_append)
qed

lemma events_first_wins_witness:
  "event_at ''w'' 7 (snd (append_event (sample_event\<lparr>re_agent := ''b''\<rparr>) (snd (append_event sample_event [])))) = Some sample_event"
proof -
  have "append_event sample_event [] = (True, snd (append_event sample_event []))" by code_simp
  from events_first_wins [OF this rtranclp.rtrancl_refl, of "sample_event\<lparr>re_agent := ''b''\<rparr>"]
  show ?thesis by (simp add: sample_event_def)
qed

lemma list_range_props:
  assumes "estep\<^sup>*\<^sup>* [] es"
  shows "sorted_wrt (\<lambda>a b. ev_seq (re_event a) < ev_seq (re_event b)) (listRange r lo hi kinds es)
    \<and> set (listRange r lo hi kinds es) = {e. \<exists>q. event_at r q es = Some e \<and> lo < q \<and> q \<le> hi
        \<and> (case kinds of None \<Rightarrow> True | Some ks \<Rightarrow> ev_kind (re_event e) \<in> set ks)}"
proof -
  have "events_ok es" using event_run.reachable_inv [OF _ assms] by simp
  then have ok: "run_ok r (run_events r es)" by (rule run_ok_events)
  let ?p = "\<lambda>e. ev_seq (re_event e) > lo \<and> ev_seq (re_event e) \<le> hi
            \<and> (case kinds of None \<Rightarrow> True | Some ks \<Rightarrow> ev_kind (re_event e) \<in> set ks)"
  let ?xs = "filter ?p (jvalues (run_events r es))" and ?seq = "\<lambda>e. ev_seq (re_event e)"
  have lr: "listRange r lo hi kinds es = js_sort (\<lambda>a b. ?seq a - ?seq b) ?xs"
    by (simp add: listRange_def run_events_def split: option.split)
  have seqs: "map ?seq (jvalues (run_events r es)) = map fst (run_events r es)"
    using ok by (auto simp: run_ok_def list_all_iff)
  then have "distinct (map ?seq (jvalues (run_events r es)))" using ok unfolding run_ok_def by (simp only:)
  then have "distinct (map ?seq ?xs)" by (rule distinct_map_filter)
  then have d: "distinct (map ?seq (js_sort (\<lambda>a b. ?seq a - ?seq b) ?xs))"
    by (simp add: seq_order.js_sort_is_sort_key distinct_map)
  have "sorted_wrt (<) (map ?seq (js_sort (\<lambda>a b. ?seq a - ?seq b) ?xs))"
    using d seq_order.js_sort_sorted strict_sorted_iff by blast
  then have order: "sorted_wrt (\<lambda>a b. ?seq a < ?seq b) (listRange r lo hi kinds es)"
    by (simp add: lr sorted_wrt_map)
  have mem: "e \<in> set (jvalues (run_events r es)) \<longleftrightarrow> event_at r (?seq e) es = Some e" for e
  proof -
    have "keys_distinct (run_events r es)" using ok by (simp add: run_ok_def)
    then have "e \<in> set (jvalues (run_events r es)) \<longleftrightarrow> (\<exists>k. event_at r k es = Some e)"
      unfolding event_at_def by (rule jvalues_iff)
    moreover have "k = ?seq e" if "event_at r k es = Some e" for k
      using run_ok_value [OF ok, of k e] that by (simp add: event_at_def)
    ultimately show ?thesis by blast
  qed
  have "set (listRange r lo hi kinds es) = {e \<in> set (jvalues (run_events r es)). ?p e}"
    unfolding lr set_js_sort set_filter ..
  then have members: "set (listRange r lo hi kinds es) = {e. event_at r (?seq e) es = Some e \<and> ?p e}"
    unfolding mem .
  have ex: "(\<exists>q. event_at r q es = Some e \<and> lo < q \<and> q \<le> hi
        \<and> (case kinds of None \<Rightarrow> True | Some ks \<Rightarrow> ev_kind (re_event e) \<in> set ks)) \<longleftrightarrow>
      event_at r (?seq e) es = Some e \<and> ?p e" for e
  proof -
    have "q = ?seq e" if "event_at r q es = Some e" for q
      using run_ok_value [OF ok] that by (simp add: event_at_def)
    then show ?thesis by blast
  qed
  show ?thesis using order unfolding members ex by blast
qed

text \<open>A range query returns, in strictly increasing sequence order, exactly the run's events
  whose number lies above the exclusive lower and up to the inclusive upper bound and whose kind
  is among the requested ones.\<close>

theorem list_range_exact:
  assumes "estep\<^sup>*\<^sup>* [] es"
  shows "sorted_wrt (\<lambda>a b. ev_seq (re_event a) < ev_seq (re_event b)) (listRange r lo hi kinds es)
    \<and> set (listRange r lo hi kinds es) = {e. \<exists>q. event_at r q es = Some e \<and> lo < q \<and> q \<le> hi
        \<and> (case kinds of None \<Rightarrow> True | Some ks \<Rightarrow> ev_kind (re_event e) \<in> set ks)}"
  by (rule list_range_props [OF assms])

lemma list_range_exact_witness: "set (listRange ''w'' 0 100 None (snd (append_event sample_event []))) = {sample_event}"
proof -
  have "estep\<^sup>*\<^sup>* [] (snd (append_event sample_event []))" by (rule r_into_rtranclp) (rule estep.intros)
  from list_range_exact [OF this, of "''w''" 0 100 None]
  have "set (listRange ''w'' 0 100 None (snd (append_event sample_event []))) =
      {e. \<exists>q. event_at ''w'' q (snd (append_event sample_event [])) = Some e \<and> 0 < q \<and> q \<le> 100}" by simp
  then show ?thesis by (auto simp: event_at_append) (auto simp: event_at_def run_events_def sample_event_def)
qed

subsection \<open>Model budgets\<close>

record budget_limits =
  bl_pricing :: "jobj option"
  bl_maxExecutionMs :: "int option"
  bl_reservedTokens :: "int option"
  bl_reservedInputTokens :: "int option"
  bl_reservedOutputTokens :: "int option"
  bl_reservedCostMicros :: "int option"
  bl_maxModelCalls :: int
  bl_maxTokens :: int
  bl_maxCostMicros :: int
  bl_deadlineAt :: int

record budget =
  bg_limits :: budget_limits
  bg_calls :: "(string, int \<times> int) jsmap"
  bg_recorded :: "string list"
  bg_tokens :: int
  bg_cost :: int

record budget_reservation =
  br_allowed :: bool
  br_remainingCalls :: int
  br_remainingTokens :: int
  br_remainingCostMicros :: int
  br_deadlineAt :: int

type_synonym budget_store = "(string, budget) jsmap"

definition opt0 :: "int option \<Rightarrow> int" where
  "opt0 x = (case x of None \<Rightarrow> 0 | Some i \<Rightarrow> i)"

definition open_budget :: "budget_limits \<Rightarrow> budget" where
  "open_budget limits = \<lparr>bg_limits = limits, bg_calls = [], bg_recorded = [], bg_tokens = 0, bg_cost = 0\<rparr>"

text \<open>The limits of a root are those of its first reservation; a later call brings only its reservation.\<close>

definition budget_allows :: "int \<Rightarrow> string \<Rightarrow> budget_limits \<Rightarrow> budget \<Rightarrow> bool" where
  "budget_allows now callId limits b = (jhas (bg_calls b) callId
     \<or> now < bl_deadlineAt (bg_limits b) \<and> int (length (bg_calls b)) < bl_maxModelCalls (bg_limits b)
       \<and> bg_tokens b + opt0 (bl_reservedTokens limits) \<le> bl_maxTokens (bg_limits b)
       \<and> bg_cost b + opt0 (bl_reservedCostMicros limits) \<le> bl_maxCostMicros (bg_limits b))"

definition charge :: "string \<Rightarrow> budget_limits \<Rightarrow> budget \<Rightarrow> budget" where
  "charge callId limits b = b\<lparr>
     bg_calls := AList.update callId (opt0 (bl_reservedTokens limits), opt0 (bl_reservedCostMicros limits)) (bg_calls b),
     bg_tokens := bg_tokens b + opt0 (bl_reservedTokens limits),
     bg_cost := bg_cost b + opt0 (bl_reservedCostMicros limits)\<rparr>"

definition reservation_of :: "bool \<Rightarrow> budget \<Rightarrow> budget_reservation" where
  "reservation_of allowed b = \<lparr>br_allowed = allowed,
     br_remainingCalls = max 0 (bl_maxModelCalls (bg_limits b) - int (length (bg_calls b))),
     br_remainingTokens = max 0 (bl_maxTokens (bg_limits b) - bg_tokens b),
     br_remainingCostMicros = max 0 (bl_maxCostMicros (bg_limits b) - bg_cost b),
     br_deadlineAt = bl_deadlineAt (bg_limits b)\<rparr>"

definition reserve_budget :: "int \<Rightarrow> string \<Rightarrow> string \<Rightarrow> budget_limits \<Rightarrow> budget_store
    \<Rightarrow> budget_reservation \<times> budget_store" where
  "reserve_budget now root callId limits bs =
     (let b = (case map_of bs root of None \<Rightarrow> open_budget limits | Some b \<Rightarrow> b);
          allowed = budget_allows now callId limits b;
          b' = (if allowed \<and> \<not> jhas (bg_calls b) callId then charge callId limits b else b)
      in (reservation_of allowed b', AList.update root b' bs))"

definition settle_call :: "string \<Rightarrow> int \<Rightarrow> int \<Rightarrow> int \<Rightarrow> int \<times> int \<Rightarrow> budget \<Rightarrow> budget" where
  "settle_call callId inputTokens outputTokens costMicros reserved b = b\<lparr>
     bg_recorded := bg_recorded b @ [callId],
     bg_tokens := bg_tokens b + (inputTokens + outputTokens - fst reserved),
     bg_cost := bg_cost b + (costMicros - snd reserved)\<rparr>"

definition record_usage :: "string \<Rightarrow> string \<Rightarrow> int \<Rightarrow> int \<Rightarrow> int \<Rightarrow> (budget_store, unit) prog" where
  "record_usage root callId inputTokens outputTokens costMicros = (\<lambda>bs.
     case map_of bs root of
       None \<Rightarrow> (Inl (JsError ''model call budget reservation is missing''), bs)
     | Some b \<Rightarrow> (case map_of (bg_calls b) callId of
           None \<Rightarrow> (Inl (JsError ''model call budget reservation is missing''), bs)
         | Some reserved \<Rightarrow>
             if callId \<in> set (bg_recorded b) then (Inr (), bs)
             else (Inr (), AList.update root (settle_call callId inputTokens outputTokens costMicros reserved b) bs)))"

subsection \<open>What a budget bounds\<close>

text \<open>
  One call on the budget store. A usage report is within its reservation when its call was reserved
  under the root for at least the reported tokens and cost.
\<close>

definition within_reservation :: "string \<Rightarrow> string \<Rightarrow> int \<Rightarrow> int \<Rightarrow> int \<Rightarrow> budget_store \<Rightarrow> bool" where
  "within_reservation root callId inp out cost bs = (case map_of bs root of None \<Rightarrow> True
     | Some b \<Rightarrow> (case map_of (bg_calls b) callId of None \<Rightarrow> True
         | Some (t, c) \<Rightarrow> inp + out \<le> t \<and> cost \<le> c))"

inductive bstep :: "budget_store \<Rightarrow> budget_store \<Rightarrow> bool" where
  b_reserve: "bstep bs (snd (reserve_budget now root callId limits bs))"
| b_record: "within_reservation root callId inp out cost bs \<Longrightarrow>
    bstep bs (snd (record_usage root callId inp out cost bs))"

text \<open>A budget is fresh until its first charge; afterwards it is within its root's limits.\<close>

definition budget_within :: "budget \<Rightarrow> bool" where
  "budget_within b = (bg_calls b = [] \<and> bg_recorded b = [] \<and> bg_tokens b = 0 \<and> bg_cost b = 0
     \<or> int (length (bg_calls b)) \<le> bl_maxModelCalls (bg_limits b)
       \<and> bg_tokens b \<le> bl_maxTokens (bg_limits b) \<and> bg_cost b \<le> bl_maxCostMicros (bg_limits b))"

definition budgets_ok :: "budget_store \<Rightarrow> bool" where
  "budgets_ok bs = (\<forall>root b. map_of bs root = Some b \<longrightarrow> budget_within b)"

lemma budgets_ok_set: "budgets_ok bs \<Longrightarrow> budget_within b \<Longrightarrow> budgets_ok (AList.update root b bs)"
  by (simp add: budgets_ok_def)

lemma charge_within: "budget_allows now callId limits b \<Longrightarrow> \<not> jhas (bg_calls b) callId \<Longrightarrow>
    budget_within (charge callId limits b)"
  by (auto simp: budget_within_def budget_allows_def charge_def length_jset jhas_def map_of_eq_None_iff)

lemma settle_within:
  assumes "budget_within b" and "map_of (bg_calls b) callId = Some reserved"
    and "inp + out \<le> fst reserved" and "cost \<le> snd reserved"
  shows "budget_within (settle_call callId inp out cost reserved b)"
  using assms by (auto simp: budget_within_def settle_call_def)

lemma reserve_budget_ok: "budgets_ok bs \<Longrightarrow> budgets_ok (snd (reserve_budget now root callId limits bs))"
proof -
  assume ok: "budgets_ok bs"
  define b where "b = (case map_of bs root of None \<Rightarrow> open_budget limits | Some b \<Rightarrow> b)"
  have "budget_within b" using ok
    by (auto simp: b_def budgets_ok_def budget_within_def open_budget_def split: option.split)
  then have "budget_within (if budget_allows now callId limits b \<and> \<not> jhas (bg_calls b) callId
      then charge callId limits b else b)" using charge_within [of now callId limits b] by simp
  with ok show ?thesis unfolding reserve_budget_def Let_def b_def [symmetric] by (simp add: budgets_ok_set)
qed

lemma record_usage_ok:
  "budgets_ok bs \<Longrightarrow> within_reservation root callId inp out cost bs \<Longrightarrow>
   budgets_ok (snd (record_usage root callId inp out cost bs))"
  by (auto simp: record_usage_def within_reservation_def budgets_ok_def split: option.split
      intro!: settle_within split: if_splits)

interpretation budget_run: transition_system "\<lambda>bs. bs = []" bstep budgets_ok
proof
  show "budgets_ok s" if "s = []" for s using that by (simp add: budgets_ok_def)
  show "budgets_ok s'" if "budgets_ok s" "bstep s s'" for s s'
    using that(2,1) by cases (auto intro: reserve_budget_ok record_usage_ok)
qed

text \<open>A root work item never spends more than its budget. As long as every reported usage stays
  within the reservation of its call, each root that has reserved at least one call has at most the
  allowed number of calls, and its tokens and cost (reservations of open calls plus settled usage)
  are within the limits of its first reservation, whatever the order and repetition of the calls.\<close>

theorem budget_never_exceeded:
  assumes "bstep\<^sup>*\<^sup>* [] bs" and "map_of bs root = Some b" and "bg_calls b \<noteq> []"
  shows "int (length (bg_calls b)) \<le> bl_maxModelCalls (bg_limits b)
    \<and> bg_tokens b \<le> bl_maxTokens (bg_limits b) \<and> bg_cost b \<le> bl_maxCostMicros (bg_limits b)"
  using budget_run.reachable_inv [OF _ assms(1)] assms(2,3) by (auto simp: budgets_ok_def budget_within_def)

definition sample_limits :: budget_limits where
  "sample_limits = \<lparr>bl_pricing = None, bl_maxExecutionMs = None, bl_reservedTokens = Some 60,
     bl_reservedInputTokens = None, bl_reservedOutputTokens = None, bl_reservedCostMicros = None,
     bl_maxModelCalls = 5, bl_maxTokens = 100, bl_maxCostMicros = 10, bl_deadlineAt = 1000\<rparr>"

lemma budget_never_exceeded_witness:
  "\<exists>b. map_of (snd (reserve_budget 0 ''r'' ''c1'' sample_limits [])) ''r'' = Some b \<and> bg_tokens b = 60
     \<and> int (length (bg_calls b)) \<le> 5 \<and> br_allowed (fst (reserve_budget 0 ''r'' ''c2'' sample_limits
        (snd (reserve_budget 0 ''r'' ''c1'' sample_limits [])))) = False"
proof -
  let ?bs = "snd (reserve_budget 0 ''r'' ''c1'' sample_limits [])"
  have run: "bstep\<^sup>*\<^sup>* [] ?bs" by (rule r_into_rtranclp) (rule b_reserve)
  have "(case map_of ?bs ''r'' of None \<Rightarrow> False | Some b \<Rightarrow> bg_calls b \<noteq> [] \<and> bg_tokens b = 60 \<and> bl_maxModelCalls (bg_limits b) = 5)"
    and no: "br_allowed (fst (reserve_budget 0 ''r'' ''c2'' sample_limits ?bs)) = False" by code_simp+
  then obtain b where b: "map_of ?bs ''r'' = Some b" "bg_calls b \<noteq> []" "bg_tokens b = 60"
    "bl_maxModelCalls (bg_limits b) = 5"
    by (auto split: option.splits)
  from budget_never_exceeded [OF run b(1,2)] b no show ?thesis by auto
qed

text \<open>Reserving the same call again is free, and its usage is charged once. A repeated
  reservation of a call is allowed and changes nothing, even past the deadline; after a recorded
  usage a second report for the call changes nothing.\<close>

theorem budget_retries_free:
  assumes "reserve_budget now root callId limits bs = (res, bs1)" and "br_allowed res"
  shows "br_allowed (fst (reserve_budget now' root callId limits' bs1))
    \<and> snd (reserve_budget now' root callId limits' bs1) = bs1
    \<and> fst (record_usage root callId i out cost bs1) = Inr ()
    \<and> record_usage root callId i' out' cost' (snd (record_usage root callId i out cost bs1))
        = (Inr (), snd (record_usage root callId i out cost bs1))"
proof -
  define b0 where "b0 = (case map_of bs root of None \<Rightarrow> open_budget limits | Some b \<Rightarrow> b)"
  define b where "b = (if budget_allows now callId limits b0 \<and> \<not> jhas (bg_calls b0) callId
      then charge callId limits b0 else b0)"
  have bs1: "bs1 = AList.update root b bs" and "br_allowed res = budget_allows now callId limits b0"
    using assms(1) unfolding reserve_budget_def Let_def b0_def [symmetric] b_def [symmetric]
    by (auto simp: reservation_of_def)
  then have has: "jhas (bg_calls b) callId" using assms(2) by (auto simp: b_def charge_def)
  then obtain r where r: "map_of (bg_calls b) callId = Some r" by (auto simp: jhas_def)
  have m: "map_of bs1 root = Some b" using bs1 by simp
  have again: "br_allowed (fst (reserve_budget now' root callId limits' bs1))"
    "snd (reserve_budget now' root callId limits' bs1) = bs1"
    using m has by (simp_all add: reserve_budget_def Let_def reservation_of_def budget_allows_def jset_triv)
  have rec: "record_usage root callId i' out' cost' bs2 = (Inr (), bs2)"
    if "map_of bs2 root = Some b2" "map_of (bg_calls b2) callId = Some r" "callId \<in> set (bg_recorded b2)" for bs2 b2
    using that by (simp add: record_usage_def)
  have "record_usage root callId i' out' cost' (snd (record_usage root callId i out cost bs1))
        = (Inr (), snd (record_usage root callId i out cost bs1))"
  proof (cases "callId \<in> set (bg_recorded b)")
    case True
    then have "snd (record_usage root callId i out cost bs1) = bs1" using m r by (simp add: record_usage_def)
    with rec [OF m r True] show ?thesis by simp
  next
    case False
    then have "snd (record_usage root callId i out cost bs1) = AList.update root (settle_call callId i out cost r b) bs1"
      using m r by (simp add: record_usage_def)
    moreover have "map_of (bg_calls (settle_call callId i out cost r b)) callId = Some r" using r by (simp add: settle_call_def)
    ultimately show ?thesis using rec by (simp add: settle_call_def)
  qed
  with again m r show ?thesis by (simp add: record_usage_def)
qed

lemma budget_retries_free_witness:
  "br_allowed (fst (reserve_budget 5000 ''r'' ''c1'' sample_limits (snd (reserve_budget 0 ''r'' ''c1'' sample_limits []))))"
proof -
  have a: "br_allowed (fst (reserve_budget 0 ''r'' ''c1'' sample_limits []))" by code_simp
  obtain res bs1 where r: "reserve_budget 0 ''r'' ''c1'' sample_limits [] = (res, bs1)" by fastforce
  with a budget_retries_free [OF r] show ?thesis by simp
qed

end
