(* ===== verification/Plane.thy ===== *)
theory Plane
  imports Workspace WorkStore ActionLedger Stores
begin

text \<open>
  The state and ports of the control plane (\<open>ControlPlaneDeps\<close> of src/control-plane/service.ts) and the
  lease, session and lifecycle operations of \<open>ControlPlaneService\<close>. The state holds the in-memory
  stores and a log of the calls made to the ports; the ports themselves are parameters. Metrics
  and the logger change nothing the service reads and are left out; instants are numbers of
  milliseconds.
\<close>

subsection \<open>Messages and ports\<close>

record message =
  ms_envelope :: "envelope option"
  ms_runId :: string
  ms_agentId :: string
  ms_sessionId :: string
  ms_threadId :: "string option"
  ms_body :: string

record lease_proof =
  lp_id :: string
  lp_fence :: int
  lp_token :: string

record model_policy =
  mp_maxModelCalls :: int
  mp_maxTokens :: int
  mp_maxCostMicros :: int
  mp_wallClockMs :: int
  mp_inputCost :: int
  mp_outputCost :: int

text \<open>The workspace store a host may configure, as the service uses it.\<close>

record workspace_port =
  wp_limits :: workspace_limits
  wp_load :: "work_item \<Rightarrow> os_error + int \<times> workspace_entry list"
  wp_stage :: "work_item \<Rightarrow> string \<Rightarrow> string \<Rightarrow> os_error + workspace_entry"
  wp_read :: "work_item \<Rightarrow> workspace_entry \<Rightarrow> os_error + string"
  wp_validate :: "work_item \<Rightarrow> json \<Rightarrow> os_error + json"

record memory_port =
  mr_prepare :: "work_item \<Rightarrow> host_action \<Rightarrow> os_error + json option"
  mr_record :: "work_item \<Rightarrow> host_action \<Rightarrow> string \<Rightarrow> json \<Rightarrow> os_error + unit"

datatype response_profile = FastProfile | DeepProfile

text \<open>What a context provider returns: the fields the service reads and the rest as one value.\<close>

record provided_context =
  pc_grants :: "capability_grant list option"
  pc_capabilities :: "string list"
  pc_promptContext :: "jobj option"
  pc_rest :: jobj

text \<open>
  What the code calls but does not own. \<open>dp_hash\<close> is SHA-256 in hexadecimal; an absent optional port is
  \<open>None\<close>, or the function that does what the code does without it.
\<close>

record deps =
  dp_hash :: "string \<Rightarrow> string"
  dp_tools :: "tool list option"
  dp_resolve :: "work_item \<Rightarrow> capability_grant list"
  dp_authorizeWork :: "work_item \<Rightarrow> os_error + unit"
  dp_authorizeRequest :: "work_item \<Rightarrow> request_snapshot \<Rightarrow> os_error + unit"
  dp_prepare :: "work_item \<Rightarrow> host_action \<Rightarrow> int \<Rightarrow> os_error + unit"
  dp_execute :: "work_item \<Rightarrow> host_action \<Rightarrow> int \<Rightarrow> os_error + action_result"
  dp_reconcile :: "work_item \<Rightarrow> host_action \<Rightarrow> int option \<Rightarrow> os_error + action_result option"
  dp_readResource :: "(work_item \<Rightarrow> host_action \<Rightarrow> int \<Rightarrow> os_error + json) option"
  dp_getMessage :: "work_item \<Rightarrow> message option"
  dp_deliver :: "work_item \<Rightarrow> message \<Rightarrow> os_error + unit"
  dp_verify :: "(work_item \<Rightarrow> candidate_answer \<Rightarrow> os_error + candidate_verification) option"
  dp_modelBudget :: "model_policy option"
  dp_stage :: "(work_item \<Rightarrow> artifact \<Rightarrow> string \<Rightarrow> os_error + unit) option"
  dp_stream :: "(work_item \<Rightarrow> artifact \<Rightarrow> string list \<Rightarrow> os_error + unit) option"
  dp_workspace :: "workspace_port option"
  dp_memory :: "memory_port option"
  dp_autoResponses :: bool
  dp_contextSnapshot :: "(work_item \<Rightarrow> os_error + session option \<times> execution_step list \<times> int) option"
  dp_loadContext :: "work_item \<Rightarrow> response_profile \<Rightarrow> os_error + provided_context"

datatype port_call =
    Executed string host_action
  | Reconciled string host_action
  | Delivered string message
  | EventSent string run_event
  | Staged string artifact string

record plane =
  pl_work :: work_store
  pl_sessions :: session_store
  pl_events :: event_store
  pl_ledger :: ledger
  pl_budgets :: budget_store
  pl_steps :: step_store
  pl_calls :: "port_call list"

definition new_plane :: plane where
  "new_plane = \<lparr>pl_work = new_work_store None None, pl_sessions = empty_sessions, pl_events = [],
     pl_ledger = empty_ledger, pl_budgets = [], pl_steps = [], pl_calls = []\<rparr>"

definition log_call :: "port_call \<Rightarrow> (plane, unit) prog" where
  "log_call c = update (\<lambda>s. s\<lparr>pl_calls := pl_calls s @ [c]\<rparr>)"

text \<open>Operations of one store, run on the plane.\<close>

definition on_work :: "(work_store \<Rightarrow> 'a \<times> work_store) \<Rightarrow> (plane, 'a) prog" where
  "on_work f = (\<lambda>s. case f (pl_work s) of (x, w) \<Rightarrow> (Inr x, s\<lparr>pl_work := w\<rparr>))"

definition work_prog :: "(work_store, 'a) prog \<Rightarrow> (plane, 'a) prog" where
  "work_prog f = (\<lambda>s. case f (pl_work s) of (x, w) \<Rightarrow> (x, s\<lparr>pl_work := w\<rparr>))"

definition ledger_prog :: "(ledger, 'a) prog \<Rightarrow> (plane, 'a) prog" where
  "ledger_prog f = (\<lambda>s. case f (pl_ledger s) of (x, l) \<Rightarrow> (x, s\<lparr>pl_ledger := l\<rparr>))"

abbreviation step_then :: "('s, 'a) prog \<Rightarrow> ('s, 'b) prog \<Rightarrow> ('s, 'b) prog" where
  "step_then m n \<equiv> andThen m (\<lambda>_. n)"

definition fail :: "int \<Rightarrow> string \<Rightarrow> os_error" where
  "fail status text = ControlPlaneError status text None"

definition fail_code :: "int \<Rightarrow> string \<Rightarrow> string \<Rightarrow> os_error" where
  "fail_code status text code = ControlPlaneError status text (Some code)"

fun error_message :: "os_error \<Rightarrow> string" where
  "error_message (JsError m) = m"
| "error_message (ControlPlaneError st m c) = m"
| "error_message (NoEffectError m c) = m"

text \<open>\<open>typeof work.meta?.['text'] === 'string'\<close>: the work captured a human request.\<close>

definition captured :: "work_item \<Rightarrow> bool" where
  "captured w = (str_of (prop_of (wi_meta w) ''text'') \<noteq> None)"

definition catalog :: "deps \<Rightarrow> tool list" where
  "catalog d = (case dp_tools d of None \<Rightarrow> TASK_TOOLS | Some ts \<Rightarrow> ts)"

definition find_tool :: "deps \<Rightarrow> string \<Rightarrow> tool option" where
  "find_tool d action = List.find (\<lambda>t. tl_action t = action) (catalog d)"

subsection \<open>Leases\<close>

definition requireLease :: "deps \<Rightarrow> int \<Rightarrow> lease_proof \<Rightarrow> bool \<Rightarrow> (plane, work_item) prog" where
  "requireLease d now proof rejectCancelled = (\<lambda>s.
     if lp_id proof = [] \<or> \<not> safe_int (lp_fence proof) \<or> lp_token proof = []
     then (Inl (fail 400 ''work lease proof required''), s)
     else (case getLeased now (lp_id proof) (lp_fence proof) (dp_hash d (lp_token proof)) (pl_work s) of
         None \<Rightarrow> (Inl (fail_code 409 ''work lease lost or expired'' ''lease_lost''), s)
       | Some (work, cancelRequested) \<Rightarrow>
           if rejectCancelled \<and> cancelRequested
           then (Inl (fail 409 ''work is cancelled; no further actions are permitted''), s)
           else (Inr work, s)))"

definition heartbeatS :: "deps \<Rightarrow> int \<Rightarrow> lease_proof \<Rightarrow> (plane, heartbeat_row option) prog" where
  "heartbeatS d now proof = on_work (heartbeat now (lp_id proof) (lp_fence proof) (dp_hash d (lp_token proof)))"

definition yieldWorkS :: "deps \<Rightarrow> int \<Rightarrow> lease_proof \<Rightarrow> (plane, unit) prog" where
  "yieldWorkS d now proof =
     andThen (on_work (yieldWork now (lp_id proof) (lp_fence proof) (dp_hash d (lp_token proof)))) (\<lambda>ok.
     if ok then ret ()
     else step_then (requireLease d now proof False)
       (throw (fail_code 409 ''work is no longer yieldable'' ''work_state_conflict'')))"

subsection \<open>Sessions\<close>

definition session_matches :: "work_item \<Rightarrow> session \<Rightarrow> bool" where
  "session_matches w r = (ss_tenantId r = wi_tenantId w \<and> ss_agentId r = wi_agentId w
     \<and> ss_sessionId r = wi_sessionId w \<and> ss_threadId r = wi_threadId w)"

definition getSession :: "deps \<Rightarrow> int \<Rightarrow> lease_proof \<Rightarrow> string \<Rightarrow> (plane, session option) prog" where
  "getSession d now proof key =
     andThen (requireLease d now proof False) (\<lambda>work.
     step_then (liftR (dp_authorizeWork d work))
     (step_then (guardE (key = work_session_key work) (fail 403 ''session is outside this work lease''))
     (andThen (asks (\<lambda>s. get_session key (Some (wi_id work)) (pl_sessions s))) (\<lambda>found.
       case found of
         None \<Rightarrow> ret None
       | Some r \<Rightarrow>
           step_then (guardE (session_matches work r) (fail 409 ''stored session identity mismatch''))
           (step_then (case ss_request r of None \<Rightarrow> ret () | Some q \<Rightarrow> liftR (dp_authorizeRequest d work q))
           (ret (Some r)))))))"

text \<open>The request of the lease's own session.\<close>

definition current_request :: "deps \<Rightarrow> int \<Rightarrow> lease_proof \<Rightarrow> work_item \<Rightarrow> (plane, request_snapshot option) prog" where
  "current_request d now proof work =
     andThen (getSession d now proof (work_session_key work)) (\<lambda>r.
       ret (case r of None \<Rightarrow> None | Some x \<Rightarrow> ss_request x))"

end
