(* ===== verification/Lifecycle.thy ===== *)
theory Lifecycle
  imports Plane
begin

text \<open>
  The lifecycle operations of \<open>ControlPlaneService\<close> (src/control-plane/service.ts): enqueueing and
  claiming with their input checks, waiting and completing, steering, execution steps and run
  events.
\<close>

subsection \<open>Input patterns\<close>

definition alnum :: "char \<Rightarrow> bool" where
  "alnum c = (is_digit c \<or> is_lower c \<or> is_upper c)"

text \<open>\<open>/^[A-Za-z0-9][A-Za-z0-9._:-]{0,127}$/\<close>, \<open>/^[A-Za-z0-9_-]{16,128}$/\<close>, \<open>/^[a-z][a-z0-9_]{0,63}$/\<close>,
  \<open>/^[A-Za-z0-9._:-]{1,160}$/\<close>\<close>

definition is_worker_id :: "string \<Rightarrow> bool" where
  "is_worker_id s = (case s of [] \<Rightarrow> False
     | c # r \<Rightarrow> alnum c \<and> js_len r \<le> 127 \<and> list_all (\<lambda>c. alnum c \<or> c \<in> set ''._:-'') r)"

definition is_request_id :: "string \<Rightarrow> bool" where
  "is_request_id s = (16 \<le> js_len s \<and> js_len s \<le> 128 \<and> list_all (\<lambda>c. alnum c \<or> c \<in> set ''_-'') s)"

definition is_kind :: "string \<Rightarrow> bool" where
  "is_kind s = (case s of [] \<Rightarrow> False
     | c # r \<Rightarrow> is_lower c \<and> js_len r \<le> 63 \<and> list_all (\<lambda>c. is_lower c \<or> is_digit c \<or> c = CHR ''_'') r)"

definition is_resolution_id :: "string \<Rightarrow> bool" where
  "is_resolution_id s = (1 \<le> js_len s \<and> js_len s \<le> 160 \<and> list_all (\<lambda>c. alnum c \<or> c \<in> set ''._:-'') s)"

subsection \<open>Enqueueing and claiming\<close>

definition enqueueS :: "int \<Rightarrow> string \<Rightarrow> enqueue_input \<Rightarrow> (plane, string \<times> bool) prog" where
  "enqueueS now uuid input =
     (case List.find (\<lambda>(field, v). blank v)
         [(''tenantId'', eq_tenantId input), (''agentId'', eq_agentId input), (''sessionId'', eq_sessionId input),
          (''kind'', eq_kind input), (''lane'', lane_name (eq_lane input)), (''triggerRef'', eq_triggerRef input)] of
        Some (field, _) \<Rightarrow> throw (fail 400 (''enqueue requires a non-empty '' @ field))
      | None \<Rightarrow> work_prog (enqueue now uuid input))"

definition claimS :: "deps \<Rightarrow> int \<Rightarrow> string \<Rightarrow> claim_request \<Rightarrow> (plane, (work_item \<times> string) option) prog" where
  "claimS d now token q =
     step_then (guardE (is_worker_id (cq_workerId q)) (fail 400 ''workerId must be 1-128 safe identifier characters''))
     (step_then (guardE (case cq_requestId q of None \<Rightarrow> True | Some i \<Rightarrow> is_request_id i)
         (fail 400 ''requestId must be a 16-128 character identifier''))
     (step_then (guardE (case cq_kinds q of None \<Rightarrow> True
           | Some ks \<Rightarrow> ks \<noteq> [] \<and> length ks \<le> 64 \<and> list_all is_kind ks) (fail 400 ''invalid worker task types''))
     (step_then (guardE (case cq_lanes q of None \<Rightarrow> True | Some ls \<Rightarrow> ls \<noteq> [] \<and> length ls \<le> 4)
         (fail 400 ''invalid worker lanes''))
     (work_prog (claim (dp_hash d) now token q)))))"

definition addSteerS :: "int \<Rightarrow> string \<Rightarrow> string \<Rightarrow> string \<Rightarrow> (plane, bool) prog" where
  "addSteerS now uuid i s =
     step_then (guardE (\<not> blank s \<and> js_len s \<le> 8000)
         (fail 400 ''steer text must be a non-empty string of at most 8000 characters''))
     (on_work (addSteer now uuid i s))"

definition requestCancelS :: "int \<Rightarrow> string \<Rightarrow> (plane, bool) prog" where
  "requestCancelS now i = on_work (requestCancel now i)"

definition requestPreemptS :: "int \<Rightarrow> string \<Rightarrow> (plane, bool) prog" where
  "requestPreemptS now i = on_work (requestPreempt now i)"

subsection \<open>Waiting and completing\<close>

definition validateWait :: "work_item \<Rightarrow> goal_outcome \<Rightarrow> (plane, unit) prog" where
  "validateWait work g = (\<lambda>s. case go_status g of
      Delegated t \<Rightarrow> guardE (hasChild work t (go_requestVersion g) (pl_work s)) (fail 409 ''wait requires a child of this request'') s
    | AwaitingApproval a \<Rightarrow> guardE (hasWait (wi_id work) (go_requestVersion g) (WaitApproval a) (pl_ledger s))
        (fail 409 ''approval wait requires its current durable pending receipt'') s
    | AwaitingInput \<Rightarrow> guardE (case go_question g of None \<Rightarrow> False
          | Some q \<Rightarrow> q \<noteq> [] \<and> hasWait (wi_id work) (go_requestVersion g) (WaitQuestion q) (pl_ledger s))
        (fail 409 ''input wait requires its current durable question receipt'') s
    | _ \<Rightarrow> (Inr (), s))"

text \<open>A satisfied outcome needs the committed response that carries it.\<close>

definition checkCommitted :: "deps \<Rightarrow> work_item \<Rightarrow> request_snapshot option \<Rightarrow> goal_outcome \<Rightarrow> (plane, unit) prog" where
  "checkCommitted d work request g =
     (case dp_getMessage d work of
        None \<Rightarrow> throw (fail 409 ''goal outcome requires the committed assessed response'')
      | Some m \<Rightarrow> (case ms_envelope m of
            None \<Rightarrow> throw (JsError ''committed message has no envelope'')
          | Some e \<Rightarrow>
              if en_goalOutcome e \<noteq> g then throw (fail 409 ''goal outcome requires the committed assessed response'')
              else (case request of None \<Rightarrow> ret ()
                | Some r \<Rightarrow> liftR (validateCompletion (ms_body m) (en_assessment e) r g []))))"

definition expected_version :: "work_item \<Rightarrow> request_snapshot option \<Rightarrow> int" where
  "expected_version work request = (case request of None \<Rightarrow> 1
     | Some r \<Rightarrow> if rq_workId r = wi_id work then request_version r else 1)"

definition checkOutcome :: "deps \<Rightarrow> int \<Rightarrow> lease_proof \<Rightarrow> work_item \<Rightarrow> goal_outcome \<Rightarrow> (plane, unit) prog" where
  "checkOutcome d now proof work g =
     andThen (current_request d now proof work) (\<lambda>request.
     step_then (guardE (go_requestVersion g = expected_version work request) (fail 409 ''goal outcome request version mismatch''))
     (step_then (validateWait work g)
     (if go_status g = Satisfied then checkCommitted d work request g else ret ())))"

definition completeS :: "deps \<Rightarrow> int \<Rightarrow> lease_proof \<Rightarrow> completion \<Rightarrow> (plane, unit) prog" where
  "completeS d now proof c =
     (let g = cp_goalOutcome c in
      step_then (guardE (\<not> isWaitingOutcome g) (fail 400 ''waiting requires waitWork''))
      (step_then (guardE (case g of None \<Rightarrow> True | Some o' \<Rightarrow> isGoalOutcome (goal_json o')) (fail 400 ''invalid goal outcome''))
      (step_then (guardE (case g of None \<Rightarrow> True | Some o' \<Rightarrow> go_verification o' \<noteq> Passed)
          (fail 409 ''goal verification requires authoritative acceptance evidence''))
      (andThen (requireLease d now proof False) (\<lambda>work.
       step_then (guardE (\<not> (cp_status c = CompCompleted \<and> captured work \<and> g = None))
           (fail 400 ''goal outcome is required for a captured request''))
       (step_then (case g of None \<Rightarrow> ret () | Some o' \<Rightarrow> checkOutcome d now proof work o')
       (andThen (work_prog (complete now (lp_id proof) (lp_fence proof) (dp_hash d (lp_token proof)) c)) (\<lambda>ok.
        if ok then ret ()
        else step_then (requireLease d now proof False)
          (throw (fail_code 409 ''work cannot complete in its current state'' ''work_state_conflict''))))))))))"

definition waitWorkS :: "deps \<Rightarrow> int \<Rightarrow> lease_proof \<Rightarrow> goal_outcome \<Rightarrow> (plane, unit) prog" where
  "waitWorkS d now proof g =
     step_then (guardE (isGoalOutcome (goal_json g) \<and> isWaitingOutcome (Some g) \<and> go_verification g = NotRun)
         (fail 400 ''invalid waiting outcome''))
     (andThen (requireLease d now proof True) (\<lambda>work.
      andThen (current_request d now proof work) (\<lambda>request.
      step_then (guardE (case request of None \<Rightarrow> False
            | Some r \<Rightarrow> rq_workId r = wi_id work \<and> request_version r = go_requestVersion g)
          (fail 409 ''wait request version mismatch''))
      (step_then (validateWait work g)
      (andThen (on_work (wait now (lp_id proof) (lp_fence proof) (dp_hash d (lp_token proof)) g)) (\<lambda>ok.
       guardE ok (fail_code 409 ''work cannot wait in its current state'' ''work_state_conflict'')))))))"

end
