(* ===== verification/Records.thy ===== *)
theory Records
  imports Lifecycle
begin

text \<open>
  What a leased attempt records through \<open>ControlPlaneService\<close> (src/control-plane/service.ts): execution
  steps, run events inside the attempt's sequence range, model budget reservations and usage, and
  the operator's resolutions of uncertain actions.
\<close>

subsection \<open>Execution steps\<close>

definition is_int_in :: "int \<Rightarrow> int \<Rightarrow> json option \<Rightarrow> bool" where
  "is_int_in lo hi v = int_between lo (Some hi) v"

text \<open>The progress checkpoint a \<open>runtime.checkpoint\<close> step carries.\<close>

definition valid_checkpoint :: "jobj \<Rightarrow> bool" where
  "valid_checkpoint st = (is_str (map_of st ''last'') \<and> is_int_in 0 6 (map_of st ''count'')
     \<and> (case map_of st ''protocolRepairs'' of None \<Rightarrow> True | Some v \<Rightarrow> is_int_in 0 3 (Some v))
     \<and> (case map_of st ''observations'' of
          Some (JArr vs) \<Rightarrow> js_len vs \<le> 2048
            \<and> list_all (\<lambda>v. case v of JStr s \<Rightarrow> is_sha256 s | _ \<Rightarrow> False) vs
        | _ \<Rightarrow> False))"

definition valid_step :: "execution_step \<Rightarrow> bool" where
  "valid_step x = (xs_id x \<noteq> [] \<and> js_len (xs_id x) \<le> 512 \<and> safe_int (xs_requestVersion x) \<and> xs_requestVersion x \<ge> 1
     \<and> js_len (stringify (JObj (xs_input x))) \<le> 1000000
     \<and> (case xs_output x of None \<Rightarrow> True | Some t \<Rightarrow> js_len t \<le> 1000000))"

text \<open>The workspace port validates a checkpoint and returns what is stored.\<close>

definition checked_workspace :: "deps \<Rightarrow> work_item \<Rightarrow> execution_step \<Rightarrow> os_error + execution_step" where
  "checked_workspace d work x = (case xs_workspace x of
      None \<Rightarrow>
        if dp_workspace d \<noteq> None \<and> xs_kind x = ''ipython'' \<and> xs_output x \<noteq> None
        then Inl (fail 409 ''completed Python steps require a workspace checkpoint'') else Inr x
    | Some w \<Rightarrow> (case dp_workspace d of
          None \<Rightarrow> Inl (fail 400 ''unexpected workspace checkpoint'')
        | Some port \<Rightarrow>
            if xs_kind x \<noteq> ''ipython'' \<or> xs_output x = None then Inl (fail 400 ''unexpected workspace checkpoint'')
            else bindR (wp_validate port work w) (\<lambda>v. Inr (x\<lparr>xs_workspace := Some v\<rparr>))))"

definition saveStepS :: "deps \<Rightarrow> int \<Rightarrow> lease_proof \<Rightarrow> execution_step \<Rightarrow> (plane, unit) prog" where
  "saveStepS d now proof x =
     andThen (requireLease d now proof True) (\<lambda>work.
     step_then (guardE (valid_step x) (fail 400 ''invalid execution step''))
     (step_then (liftR (snapshotArtifacts (xs_artifacts x)))
     (andThen (liftR (checked_workspace d work x)) (\<lambda>y.
      step_then (guardE (xs_kind y \<noteq> ''runtime.checkpoint'' \<or> valid_checkpoint (xs_input y)) (fail 400 ''invalid progress checkpoint''))
      (\<lambda>s. case save_step (wi_id work) y (pl_steps s) of (r, m) \<Rightarrow> (r, s\<lparr>pl_steps := m\<rparr>))))))"

subsection \<open>Run events\<close>

text \<open>\<open>snapshotArtifacts\<close> on the untyped array an event carries.\<close>

definition artifact_of_json :: "json \<Rightarrow> artifact option" where
  "artifact_of_json v = (case v of
      JObj a \<Rightarrow>
        (case (str_of (map_of a ''path''), json_int (map_of a ''size''), str_of (map_of a ''mime''), str_of (map_of a ''sha256'')) of
           (Some p, Some n, Some m, Some h) \<Rightarrow>
             (case map_of a ''source'' of
                None \<Rightarrow> Some \<lparr>af_path = p, af_size = n, af_mime = m, af_sha256 = h, af_source = None\<rparr>
              | Some src \<Rightarrow> (case (str_of (json_prop src ''ref''), str_of (json_prop src ''version'')) of
                  (Some ref, Some ver) \<Rightarrow> Some \<lparr>af_path = p, af_size = n, af_mime = m, af_sha256 = h, af_source = Some (ref, ver)\<rparr>
                | _ \<Rightarrow> None))
         | _ \<Rightarrow> None)
    | _ \<Rightarrow> None)"

definition event_artifacts_ok :: "json option \<Rightarrow> bool" where
  "event_artifacts_ok v = (case v of
      Some (JArr vs) \<Rightarrow> js_len vs \<le> 512
        \<and> list_all (\<lambda>x. case artifact_of_json x of None \<Rightarrow> False | Some a \<Rightarrow> valid_artifact a) vs
    | _ \<Rightarrow> False)"

definition range_start :: "work_item \<Rightarrow> int" where
  "range_start work = max 0 (wi_fence work - 1) * RUN_SEQUENCE_SPAN"

definition range_end :: "work_item \<Rightarrow> int" where
  "range_end work = wi_fence work * RUN_SEQUENCE_SPAN"

definition valid_event :: "work_item \<Rightarrow> run_event \<Rightarrow> bool" where
  "valid_event work e = (ev_runId e = wi_id work \<and> safe_int (ev_seq e) \<and> ev_kind e \<noteq> [] \<and> js_len (ev_kind e) \<le> 160)"

definition range_error :: "work_item \<Rightarrow> run_event \<Rightarrow> os_error" where
  "range_error work e = fail 400 (''event seq '' @ show_int (ev_seq e) @ '' is outside this attempt'' @ [CHR 0x27]
     @ ''s range ('' @ show_int (range_start work) @ '', '' @ show_int (range_end work) @ '']'')"

definition recordEventS :: "deps \<Rightarrow> int \<Rightarrow> lease_proof \<Rightarrow> run_event \<Rightarrow> (plane, unit) prog" where
  "recordEventS d now proof e =
     andThen (requireLease d now proof False) (\<lambda>work.
     step_then (guardE (valid_event work e) (fail 400 ''invalid run event envelope''))
     (step_then (guardE (range_start work < ev_seq e \<and> ev_seq e \<le> range_end work)
         (range_error work e))
     (step_then (guardE (ev_kind e \<noteq> ''ipython.completed'' \<or> event_artifacts_ok (map_of (ev_data e) ''artifacts''))
         (fail 400 ''invalid kernel artifact event''))
     (andThen (\<lambda>s. case append_event \<lparr>re_event = e, re_tenant = wi_tenantId work, re_agent = wi_agentId work, re_recordedAt = now\<rparr>
            (pl_events s) of (fresh, es) \<Rightarrow> (Inr fresh, s\<lparr>pl_events := es\<rparr>)) (\<lambda>fresh.
      if fresh then log_call (EventSent (wi_id work) e)
      else step_then (requireLease d now proof False) (ret ()))))))"

subsection \<open>Model budgets\<close>

definition root_of :: "work_item \<Rightarrow> string" where
  "root_of work = (case str_of (prop_of (wi_meta work) ''rootWorkId'') of None \<Rightarrow> wi_id work | Some r \<Rightarrow> r)"

definition positive_int :: "int \<Rightarrow> bool" where
  "positive_int n = (safe_int n \<and> n \<ge> 1)"

definition natural_int :: "int \<Rightarrow> bool" where
  "natural_int n = (safe_int n \<and> n \<ge> 0)"

text \<open>\<open>Math.ceil((input * a + output * b) / 1_000_000)\<close>\<close>

definition token_cost :: "model_policy \<Rightarrow> int \<Rightarrow> int \<Rightarrow> int" where
  "token_cost p input output = - ((- (input * mp_inputCost p + output * mp_outputCost p)) div 1000000)"

definition modelPricing :: "(string \<Rightarrow> string) \<Rightarrow> model_policy \<Rightarrow> jobj" where
  "modelPricing hash p = [(''version'', JStr (hash (stringify (JArr [JNum (mp_inputCost p), JNum (mp_outputCost p)])))),
     (''currency'', JStr ''USD''), (''inputMicrosPerMillion'', JNum (mp_inputCost p)),
     (''outputMicrosPerMillion'', JNum (mp_outputCost p))]"

text \<open>The configured policy caps every limit and prices the reserved tokens itself.\<close>

definition cap_limits :: "deps \<Rightarrow> budget_limits \<Rightarrow> os_error + budget_limits" where
  "cap_limits d l = (case dp_modelBudget d of None \<Rightarrow> Inr l
    | Some p \<Rightarrow> (case (bl_reservedInputTokens l, bl_reservedOutputTokens l) of
        (Some i, Some out) \<Rightarrow>
          if natural_int i \<and> natural_int out \<and> bl_reservedTokens l = Some (i + out)
          then Inr (l\<lparr>bl_maxModelCalls := min (bl_maxModelCalls l) (mp_maxModelCalls p),
            bl_pricing := Some (modelPricing (dp_hash d) p),
            bl_maxTokens := min (bl_maxTokens l) (mp_maxTokens p),
            bl_maxCostMicros := min (bl_maxCostMicros l) (mp_maxCostMicros p),
            bl_maxExecutionMs := Some (min (case bl_maxExecutionMs l of None \<Rightarrow> mp_wallClockMs p | Some m \<Rightarrow> m) (mp_wallClockMs p)),
            bl_reservedCostMicros := Some (token_cost p i out)\<rparr>)
          else Inl (fail 400 ''reservation requires input and output token bounds'')
      | _ \<Rightarrow> Inl (fail 400 ''reservation requires input and output token bounds'')))"

definition reserveModelCallS :: "deps \<Rightarrow> int \<Rightarrow> lease_proof \<Rightarrow> string \<Rightarrow> budget_limits \<Rightarrow> (plane, budget_reservation) prog" where
  "reserveModelCallS d now proof callId l =
     andThen (requireLease d now proof True) (\<lambda>work.
     step_then (liftR (dp_authorizeWork d work))
     (andThen (asks (\<lambda>s. ownsBudgetRoot work (root_of work) (pl_work s))) (\<lambda>owns.
      step_then (guardE owns (fail 409 ''model budget root is outside this work lineage''))
      (step_then (guardE (callId \<noteq> [] \<and> js_len callId \<le> 256 \<and> positive_int (bl_maxModelCalls l)
           \<and> positive_int (bl_maxTokens l) \<and> positive_int (bl_maxCostMicros l)) (fail 400 ''invalid model budget reservation''))
      (step_then (guardE (natural_int (opt0 (bl_reservedTokens l)) \<and> natural_int (opt0 (bl_reservedCostMicros l)))
           (fail 400 ''invalid reserved model resources''))
      (step_then (guardE (case bl_maxExecutionMs l of None \<Rightarrow> True | Some m \<Rightarrow> positive_int m) (fail 400 ''invalid execution budget''))
      (andThen (liftR (cap_limits d l)) (\<lambda>limits s.
        case reserve_budget now (root_of work) callId limits (pl_budgets s) of (r, bs) \<Rightarrow> (Inr r, s\<lparr>pl_budgets := bs\<rparr>)))))))))"

record call_observation =
  co_callId :: string
  co_workId :: string
  co_tenantId :: string
  co_agentId :: string
  co_sessionId :: string
  co_principalId :: "string option"
  co_threadId :: "string option"
  co_latencyMs :: int

definition valid_observation :: "work_item \<Rightarrow> string \<Rightarrow> call_observation \<Rightarrow> bool" where
  "valid_observation work callId o' = (co_callId o' = callId \<and> co_workId o' = wi_id work \<and> co_tenantId o' = wi_tenantId work
     \<and> co_agentId o' = wi_agentId work \<and> co_sessionId o' = wi_sessionId work \<and> co_principalId o' = wi_principalId work
     \<and> co_threadId o' = wi_threadId work \<and> co_latencyMs o' \<ge> 0)"

text \<open>A proof that was issued once identifies the attempt whose usage is recorded, even when its lease is over.\<close>

definition issued_or_leased :: "deps \<Rightarrow> int \<Rightarrow> lease_proof \<Rightarrow> (plane, work_item) prog" where
  "issued_or_leased d now proof = (\<lambda>s.
     case getAttempt (lp_id proof) (lp_fence proof) (dp_hash d (lp_token proof)) (pl_work s) of
       Some work \<Rightarrow> (Inr work, s) | None \<Rightarrow> requireLease d now proof False s)"

definition recordModelUsageS :: "deps \<Rightarrow> int \<Rightarrow> lease_proof \<Rightarrow> string \<Rightarrow> int \<Rightarrow> int \<Rightarrow> int \<Rightarrow> call_observation option
    \<Rightarrow> (plane, unit) prog" where
  "recordModelUsageS d now proof callId input output cost obs =
     andThen (issued_or_leased d now proof) (\<lambda>work.
     andThen (asks (\<lambda>s. ownsBudgetRoot work (root_of work) (pl_work s))) (\<lambda>owns.
     step_then (guardE owns (fail 409 ''model budget root is outside this work lineage''))
     (step_then (guardE (callId \<noteq> [] \<and> js_len callId \<le> 256 \<and> natural_int input \<and> natural_int output \<and> natural_int cost)
         (fail 400 ''invalid model usage''))
     (step_then (guardE (case obs of None \<Rightarrow> True | Some o' \<Rightarrow> valid_observation work callId o')
         (fail 400 ''invalid model observation identity''))
     (\<lambda>s. case record_usage (root_of work) callId input output
           (case dp_modelBudget d of None \<Rightarrow> cost | Some p \<Rightarrow> token_cost p input output) (pl_budgets s) of
         (r, bs) \<Rightarrow> (r, s\<lparr>pl_budgets := bs\<rparr>))))))"

subsection \<open>Operator resolutions\<close>

record action_scope =
  sc_tenantId :: string
  sc_agentId :: string
  sc_sessionId :: string
  sc_principalId :: string
  sc_threadId :: "string option"

definition in_scope :: "action_intent \<Rightarrow> action_scope \<Rightarrow> bool" where
  "in_scope i sc = (\<not> blank (sc_principalId sc) \<and> ai_tenantId i = sc_tenantId sc \<and> ai_agentId i = sc_agentId sc
     \<and> ai_sessionId i = sc_sessionId sc \<and> ai_principalId i = Some (sc_principalId sc) \<and> ai_threadId i = sc_threadId sc)"

definition resolveActionS :: "action_resolution \<Rightarrow> action_scope \<Rightarrow> (plane, resolved) prog" where
  "resolveActionS r sc =
     step_then (guardE (is_resolution_id (rs_id r) \<and> rs_actionKey r \<noteq> [] \<and> \<not> blank (rs_resolvedBy r)
         \<and> hr_state (rs_result r) \<noteq> Some Unknown \<and> js_len (stringify (JObj (rs_evidence r))) \<le> 65536)
         (fail 400 ''invalid action reconciliation resolution''))
     (andThen (asks (\<lambda>s. findIntent (rs_actionKey r) (pl_ledger s))) (\<lambda>intent. case intent of
        None \<Rightarrow> throw (fail 404 ''action intent not found'')
      | Some i \<Rightarrow> if \<not> in_scope i sc then throw (fail 404 ''action intent not found'')
          else ledger_prog (recordResolution r)))"

end
