(* ===== verification/Actions.thy ===== *)
theory Actions
  imports Records
begin

text \<open>
  \<open>executeAction\<close> of \<open>ControlPlaneService\<close> (src/control-plane/service.ts) in the phases its awaited store
  calls separate: the checks that end in a reservation request, the reservation, the decision what
  an existing receipt or intent allows, the execution and the recording of its result. The whole
  handler is their composition; the interleavings of several calls run the phases one by one.
\<close>

subsection \<open>Refusals\<close>

definition failed_result :: "exec_state option \<Rightarrow> string option \<Rightarrow> string \<Rightarrow> action_result" where
  "failed_result st code msg = (empty_result False)\<lparr>hr_state := st, hr_code := code, hr_error := Some msg\<rparr>"

definition has_approval :: "action_result option \<Rightarrow> bool" where
  "has_approval r = (case r of None \<Rightarrow> False | Some x \<Rightarrow> hr_approval x \<noteq> None)"

text \<open>Refusing an action that waits for approval settles it as one without effect.\<close>

definition reject_action :: "host_action \<Rightarrow> string \<Rightarrow> string \<Rightarrow> (plane, action_result) prog" where
  "reject_action a code msg = (\<lambda>s.
     let prior = find_result (ha_key a) (pl_ledger s) in
     if has_approval prior
     then ledger_prog (record_result (ha_key a) (failed_result (Some NoEffect) (Some code) msg)) s
     else (Inr (failed_result (Some Rejected) (Some code) msg), s))"

subsection \<open>Authorization\<close>

definition valid_action :: "work_item \<Rightarrow> host_action \<Rightarrow> bool" where
  "valid_action work a = (ha_key a \<noteq> [] \<and> ha_runId a = wi_id work \<and> ha_cellId a \<noteq> []
     \<and> safe_int (ha_callIndex a) \<and> ha_callIndex a \<ge> 0
     \<and> ha_key a = actionKeyOf (ha_runId a) (ha_cellId a) (ha_callIndex a))"

text \<open>\<open><namespace>.<method>\<close>, both non-empty\<close>

definition action_parts :: "string \<Rightarrow> (string \<times> string) option" where
  "action_parts action = (case split_on (CHR ''.'') action of
      [n, m] \<Rightarrow> if n = [] \<or> m = [] then None else Some (n, m) | _ \<Rightarrow> None)"

definition task_methods :: "string list" where
  "task_methods = map (\<lambda>t. case method_of (tl_action t) of Some m \<Rightarrow> m | None \<Rightarrow> []) TASK_TOOLS"

definition task_grant :: capability_grant where
  "task_grant = \<lparr>cg_name = ''task'', cg_methods = Some task_methods\<rparr>"

definition grant_for :: "capability_grant list \<Rightarrow> work_item \<Rightarrow> string \<Rightarrow> capability_grant option" where
  "grant_for grants work ns =
     (if ns = ''task'' \<and> captured work
      then (case List.find (\<lambda>g. cg_name g = ''task'') grants of Some g \<Rightarrow> Some g | None \<Rightarrow> Some task_grant)
      else List.find (\<lambda>g. cg_name g = ns) grants)"

definition allows :: "capability_grant option \<Rightarrow> string \<Rightarrow> bool" where
  "allows g m = (case g of None \<Rightarrow> False | Some x \<Rightarrow> (case cg_methods x of None \<Rightarrow> True | Some ms \<Rightarrow> m \<in> set ms))"

text \<open>The action a receipt or resource check names must itself be granted.\<close>

definition target_granted :: "capability_grant list \<Rightarrow> host_action \<Rightarrow> bool" where
  "target_granted grants a = (case str_of (map_of (ha_args a) ''action'') of
      None \<Rightarrow> False
    | Some target \<Rightarrow> (case split_on (CHR ''.'') target of
        [n, m] \<Rightarrow> m \<noteq> [] \<and> n \<noteq> ''task'' \<and> allows (List.find (\<lambda>g. cg_name g = n) grants) m
      | _ \<Rightarrow> False))"

record action_ctx =
  ac_work :: work_item
  ac_action :: host_action
  ac_grants :: "capability_grant list"
  ac_tool :: "tool option"
  ac_version :: int
  ac_contract :: "string option"

definition ns_task :: "host_action \<Rightarrow> bool" where
  "ns_task a = (namespace_of (ha_action a) = ''task'')"

definition same_scope :: "work_item \<Rightarrow> action_intent \<Rightarrow> bool" where
  "same_scope work i = (ai_tenantId i = wi_tenantId work \<and> ai_principalId i = wi_principalId work
     \<and> ai_agentId i = wi_agentId work \<and> ai_sessionId i = wi_sessionId work \<and> ai_threadId i = wi_threadId work)"

definition same_intent :: "work_item \<Rightarrow> int \<Rightarrow> host_action \<Rightarrow> action_intent \<Rightarrow> bool" where
  "same_intent work version a i = (ai_workId i = wi_id work \<and> ai_requestVersion i = Some version
     \<and> same_scope work i \<and> action_eq (ai_action i) a)"

subsection \<open>Phase 1: checks\<close>

type_synonym checked = "action_result + action_ctx"

definition answer :: "action_result \<Rightarrow> (plane, checked) prog" where
  "answer r = ret (Inl r)"

definition reject_with :: "host_action \<Rightarrow> string \<Rightarrow> string \<Rightarrow> (plane, checked) prog" where
  "reject_with a code msg = andThen (reject_action a code msg) answer"

text \<open>The request version the action runs for; \<open>Inl\<close> is the answer to a stale snapshot.\<close>

definition action_version :: "deps \<Rightarrow> int \<Rightarrow> lease_proof \<Rightarrow> work_item \<Rightarrow> (plane, action_result + int) prog" where
  "action_version d now proof work =
     andThen (heartbeatS d now proof) (\<lambda>hb. case hb of
        None \<Rightarrow> throw (fail_code 409 ''work lease lost before action'' ''lease_lost'')
      | Some row \<Rightarrow>
          if hb_cancelRequested row
          then throw (fail_code 409 ''work is cancelled; no further actions are permitted'' ''work_cancelled'')
          else if \<not> captured work then ret (Inr (js_len (hb_steer row) + 1))
          else andThen (current_request d now proof work) (\<lambda>request. case request of
              None \<Rightarrow> ret (Inl (failed_result None None ''request snapshot is stale or missing; process the latest user revisions before acting''))
            | Some r \<Rightarrow>
                if rq_workId r = wi_id work \<and> revisions_eq (rq_revisions r) (map revision_of (hb_steer row))
                then ret (Inr (request_version r))
                else ret (Inl (failed_result None None ''request snapshot is stale or missing; process the latest user revisions before acting''))))"

definition mode_permits :: "work_item \<Rightarrow> tool option \<Rightarrow> os_error + bool" where
  "mode_permits work t = (case t of Some x \<Rightarrow> permitsTool (wi_meta work) x
     | None \<Rightarrow> bindR (executionMode (wi_meta work)) (\<lambda>m. Inr (m = JStr ''execute'')))"

text \<open>Arguments: the tool's own names, then the parser of a task tool or the executor's preparation.\<close>

definition check_args :: "deps \<Rightarrow> action_ctx \<Rightarrow> (plane, checked) prog" where
  "check_args d c =
     (let a = ac_action c in
      if (case ac_tool c of None \<Rightarrow> False | Some t \<Rightarrow> list_ex (\<lambda>(k, _). \<not> jhas (tl_properties t) k) (ha_args a))
      then answer (failed_result (Some Rejected) (Some ''invalid_arguments'') ''unknown tool argument'')
      else if ns_task a then (case parseTaskArgs (dp_hash d) (ha_action a) (ha_args a) of
          Inl e \<Rightarrow> reject_with a ''invalid_arguments'' (error_message e) | Inr _ \<Rightarrow> ret (Inr c))
      else (case dp_prepare d (ac_work c) a (ac_version c) of
          Inl (NoEffectError m code) \<Rightarrow> reject_with a code m
        | Inl e \<Rightarrow> reject_with a ''invalid_arguments'' (error_message e)
        | Inr _ \<Rightarrow> ret (Inr c)))"

text \<open>An intent made under another tool contract is only answered, never run.\<close>

definition check_contract_change :: "action_ctx \<Rightarrow> action_intent option \<Rightarrow> (plane, checked) prog" where
  "check_contract_change c existing = (\<lambda>s. case existing of
      None \<Rightarrow> (Inr (Inr c), s)
    | Some i \<Rightarrow>
        if ai_toolContractHash i = ac_contract c then (Inr (Inr c), s)
        else (case find_result (ha_key (ac_action c)) (pl_ledger s) of
            Some prior \<Rightarrow>
              if hr_approval prior \<noteq> None
              then reject_with (ac_action c) ''tool_contract_changed'' ''Tool semantics changed; create a new preview and approval'' s
              else if \<not> is_unknown prior then (Inr (Inl prior), s)
              else (Inr (Inl (failed_result (Some Unknown) (Some ''tool_contract_changed'')
                  ''Tool semantics changed; settle the existing intent before continuing'')), s)
          | None \<Rightarrow> (Inr (Inl (failed_result (Some Unknown) (Some ''tool_contract_changed'')
                  ''Tool semantics changed; settle the existing intent before continuing'')), s)))"

text \<open>A write waits until every other action of the work item is settled.\<close>

definition check_unsettled :: "action_ctx \<Rightarrow> (plane, checked) prog" where
  "check_unsettled c = (\<lambda>s.
     if (case ac_tool c of None \<Rightarrow> True | Some t \<Rightarrow> tl_effect t \<noteq> ReadEffect) \<and> \<not> ns_task (ac_action c)
       \<and> list_ex (\<lambda>p. pa_key p \<noteq> ha_key (ac_action c)) (unsettled (wi_id (ac_work c)) (pl_ledger s))
     then (Inr (Inl (failed_result (Some Unknown) None
        ''Prior actions require approval or reconciliation before starting another write'')), s)
     else (Inr (Inr c), s))"

definition check_then :: "(plane, checked) prog \<Rightarrow> (action_ctx \<Rightarrow> (plane, checked) prog) \<Rightarrow> (plane, checked) prog" where
  "check_then m f = andThen m (\<lambda>x. case x of Inl r \<Rightarrow> answer r | Inr c \<Rightarrow> f c)"

text \<open>From the current request version on.\<close>

definition check_intent :: "deps \<Rightarrow> work_item \<Rightarrow> host_action \<Rightarrow> capability_grant list \<Rightarrow> int \<Rightarrow> (plane, checked) prog" where
  "check_intent d work a grants version =
     andThen (asks (\<lambda>s. findIntent (ha_key a) (pl_ledger s))) (\<lambda>existing.
      let t = find_tool d (ha_action a);
          c = \<lparr>ac_work = work, ac_action = a, ac_grants = grants, ac_tool = t, ac_version = version,
               ac_contract = map_option (toolContractHash (dp_hash d)) t\<rparr> in
      step_then (guardE (case existing of None \<Rightarrow> True | Some i \<Rightarrow> same_intent work version a i)
          (fail 409 ''action identity mismatch; reconcile before replay''))
      (andThen (if ha_action a = ''task.inspect'' then ret True else liftR (mode_permits work t)) (\<lambda>ok.
       if \<not> ok then andThen (liftR (executionMode (wi_meta work))) (\<lambda>m.
          reject_with a ''mode_forbidden'' (''execution mode '' @ js_String m @ '' does not permit '' @ ha_action a))
       else check_then (check_args d c) (\<lambda>c. check_then (check_contract_change c existing) check_unsettled))))"

definition check_action :: "deps \<Rightarrow> int \<Rightarrow> lease_proof \<Rightarrow> host_action \<Rightarrow> (plane, checked) prog" where
  "check_action d now proof a =
     andThen (requireLease d now proof True) (\<lambda>work.
     step_then (guardE (valid_action work a) (fail 400 ''invalid host action envelope''))
     (case action_parts (ha_action a) of
        None \<Rightarrow> throw (fail 400 ''host action must be <namespace>.<method>'')
      | Some (ns, m) \<Rightarrow>
          let grants = dp_resolve d work in
          if \<not> allows (grant_for grants work ns) m
          then reject_with a ''forbidden'' (''capability denied: '' @ ha_action a @ '' is not granted to this work item'')
          else if (ha_action a = ''task.check_receipt'' \<or> ha_action a = ''task.check_resource'') \<and> \<not> target_granted grants a
          then answer (failed_result None None ''capability denied: receipt action is not granted to this work item'')
          else andThen (action_version d now proof work) (\<lambda>v. case v of
              Inl r \<Rightarrow> answer r
            | Inr version \<Rightarrow> check_intent d work a grants version)))"

end
