(* ===== verification/Execute.thy ===== *)
theory Execute
  imports Actions
begin

text \<open>
  The later phases of \<open>executeAction\<close> (src/control-plane/service.ts): reserving the action in the ledger,
  deciding what may happen, reconciling uncertain effects, running the action and recording its
  result; then the whole handler, \<open>reconcilePending\<close> and the recovery of interrupted cells and steps.
\<close>

subsection \<open>Phase 2: reservation\<close>

definition actionFingerprint :: "(string \<Rightarrow> string) \<Rightarrow> work_item \<Rightarrow> host_action \<Rightarrow> string" where
  "actionFingerprint hash work a = hash (canonicalJson (JObj
     [(''tenantId'', JStr (wi_tenantId work)), (''principalId'', opt_json (wi_principalId work)),
      (''agentId'', JStr (wi_agentId work)), (''sessionId'', JStr (wi_sessionId work)),
      (''action'', JStr (ha_action a)), (''args'', JObj (ha_args a))]))"

definition intent_of :: "action_ctx \<Rightarrow> action_intent" where
  "intent_of c = \<lparr>ai_toolContractHash = ac_contract c, ai_workId = wi_id (ac_work c),
     ai_tenantId = wi_tenantId (ac_work c), ai_principalId = wi_principalId (ac_work c),
     ai_agentId = wi_agentId (ac_work c), ai_sessionId = wi_sessionId (ac_work c),
     ai_threadId = wi_threadId (ac_work c), ai_requestVersion = Some (ac_version c), ai_action = ac_action c\<rparr>"

definition reserve_action :: "deps \<Rightarrow> action_ctx \<Rightarrow> (plane, reservation) prog" where
  "reserve_action d c = ledger_prog (reserve (ha_key (ac_action c))
     (actionFingerprint (dp_hash d) (ac_work c) (ac_action c)) (intent_of c))"

subsection \<open>Reconciliation\<close>

definition state_json :: "exec_state \<Rightarrow> json" where
  "state_json st = JStr (case st of Rejected \<Rightarrow> ''rejected'' | NoEffect \<Rightarrow> ''no_effect'' | SucceededState \<Rightarrow> ''succeeded''
     | AwaitingApprovalState \<Rightarrow> ''awaiting_approval'' | Unknown \<Rightarrow> ''unknown'')"

text \<open>A result as it is serialised for the identity of its resolution, its properties in the order of the
  interface.\<close>

definition source_json :: "source_excerpt \<Rightarrow> json" where
  "source_json e = JObj ([(''sourceId'', JStr (se_sourceId e)), (''sourceVersion'', JStr (se_sourceVersion e)),
     (''chunkId'', JStr (se_chunkId e)), (''title'', JStr (se_title e)), (''excerpt'', JStr (se_excerpt e))]
     @ opt_prop ''url'' (map_option JStr (se_url e)) @ opt_prop ''truncated'' (map_option JBool (se_truncated e)))"

definition observation_json :: "observation \<Rightarrow> json" where
  "observation_json o' = JObj [(''resourceType'', JStr (ob_resourceType o')), (''resourceId'', JStr (ob_resourceId o')),
     (''version'', JStr (ob_version o')), (''completeness'', JStr (completeness (ob_full o')))]"

definition directive_json :: "directive \<Rightarrow> json" where
  "directive_json dv = JObj ([(''type'', JStr (case dv_type dv of Defer \<Rightarrow> ''defer'' | TaskContractDirective \<Rightarrow> ''task_contract''))]
     @ opt_prop ''reason'' (map_option JStr (dv_reason dv)) @ opt_prop ''data'' (map_option JObj (dv_data dv)))"

definition result_json :: "action_result \<Rightarrow> json" where
  "result_json r = JObj ([(''ok'', JBool (hr_ok r))]
     @ opt_prop ''executionState'' (map_option state_json (hr_state r)) @ opt_prop ''code'' (map_option JStr (hr_code r))
     @ opt_prop ''value'' (hr_value r)
     @ opt_prop ''artifacts'' (map_option (\<lambda>xs. JArr (map artifact_json xs)) (hr_artifacts r))
     @ opt_prop ''error'' (map_option JStr (hr_error r))
     @ opt_prop ''approval'' (map_option (\<lambda>i. JObj [(''id'', JStr i), (''status'', JStr ''PENDING'')]) (hr_approval r))
     @ opt_prop ''directive'' (map_option directive_json (hr_directive r))
     @ opt_prop ''evidence'' (map_option (\<lambda>xs. JArr (map source_json xs)) (hr_evidence r))
     @ opt_prop ''observations'' (map_option (\<lambda>xs. JArr (map observation_json xs)) (hr_observations r)))"

definition settles :: "action_result \<Rightarrow> bool" where
  "settles r = (hr_approval r = None \<and> \<not> is_unknown r \<and> (hr_ok r \<or> hr_state r = Some NoEffect))"

definition native_resolution :: "deps \<Rightarrow> host_action \<Rightarrow> action_result \<Rightarrow> action_resolution" where
  "native_resolution d a r = \<lparr>rs_id = ''native:'' @ dp_hash d (stringify (JArr [JStr (ha_key a), result_json r])),
     rs_actionKey = ha_key a, rs_result = r,
     rs_evidence = [(''source'', JStr ''native_reconciliation''), (''action'', JStr (ha_action a))],
     rs_resolvedBy = ''native:'' @ ha_action a\<rparr>"

text \<open>\<open>Some r\<close> when the native readback settled the action; an error of the port counts as no answer.\<close>

definition reconcileNative :: "deps \<Rightarrow> work_item \<Rightarrow> host_action \<Rightarrow> int option \<Rightarrow> (plane, action_result option) prog" where
  "reconcileNative d work a version =
     step_then (log_call (Reconciled (wi_id work) a))
     (case dp_reconcile d work a version of
        Inr (Some r) \<Rightarrow>
          if \<not> settles r then ret None
          else let r' = r\<lparr>hr_state := Some (if hr_ok r then SucceededState else NoEffect)\<rparr> in
            step_then (ledger_prog (recordResolution (native_resolution d a r'))) (ret (Some r'))
      | _ \<Rightarrow> ret None)"

definition reconcile_or :: "deps \<Rightarrow> action_ctx \<Rightarrow> action_result \<Rightarrow> (plane, action_result) prog" where
  "reconcile_or d c r = andThen (reconcileNative d (ac_work c) (ac_action c) (Some (ac_version c)))
     (\<lambda>x. ret (case x of None \<Rightarrow> r | Some y \<Rightarrow> y))"

fun reconcile_each :: "(plane, unit) prog list \<Rightarrow> (plane, unit) prog" where
  "reconcile_each [] = ret ()"
| "reconcile_each (p # ps) = step_then p (reconcile_each ps)"

definition reconcile_pending_one :: "deps \<Rightarrow> work_item \<Rightarrow> pending_action \<Rightarrow> (plane, unit) prog" where
  "reconcile_pending_one d work p =
     (if pa_state p \<noteq> PendingUnknown then ret ()
      else andThen (asks (\<lambda>s. findIntent (pa_key p) (pl_ledger s))) (\<lambda>intent. case intent of
          None \<Rightarrow> ret ()
        | Some i \<Rightarrow> if ai_workId i \<noteq> wi_id work then ret ()
            else step_then (reconcileNative d work (ai_action i) (ai_requestVersion i)) (ret ())))"

definition reconcilePending :: "deps \<Rightarrow> int \<Rightarrow> lease_proof \<Rightarrow> (plane, unit) prog" where
  "reconcilePending d now proof =
     andThen (requireLease d now proof True) (\<lambda>work.
     andThen (asks (\<lambda>s. unsettled (wi_id work) (pl_ledger s))) (\<lambda>pending.
     step_then (guardE (length pending \<le> 64) (fail 409 ''action reconciliation exceeds 64 pending effects''))
     (reconcile_each (map (reconcile_pending_one d work) pending))))"

subsection \<open>Phase 3: decision\<close>

definition uncertain :: "tool option \<Rightarrow> bool" where
  "uncertain t = (case t of None \<Rightarrow> True | Some x \<Rightarrow> tl_effect x = UncertainEffect)"

text \<open>\<open>Some r\<close>: the call answers \<open>r\<close>; \<open>None\<close>: it may run.\<close>

definition decide_action :: "deps \<Rightarrow> action_ctx \<Rightarrow> reservation \<Rightarrow> (plane, action_result option) prog" where
  "decide_action d c res =
     andThen (asks (\<lambda>s. find_result (ha_key (ac_action c)) (pl_ledger s))) (\<lambda>replayed.
      if (case replayed of None \<Rightarrow> False | Some r \<Rightarrow> hr_approval r = None)
      then (case replayed of
          Some r \<Rightarrow> if is_unknown r then andThen (reconcile_or d c r) (\<lambda>x. ret (Some x)) else ret (Some r)
        | None \<Rightarrow> ret None)
      else if res = Existing \<and> uncertain (ac_tool c)
      then andThen (reconcile_or d c (failed_result (Some Unknown) None
             ''action intent exists without a receipt; reconcile before retrying'')) (\<lambda>x. ret (Some x))
      else ret None)"

subsection \<open>Phase 4: execution\<close>

definition value_result :: "json \<Rightarrow> action_result" where
  "value_result v = (empty_result True)\<lparr>hr_value := Some v\<rparr>"

definition pending_json :: "pending_action \<Rightarrow> json" where
  "pending_json p = JObj [(''actionKey'', JStr (pa_key p)), (''action'', JStr (pa_action p)),
     (''state'', JStr (case pa_state p of PendingUnknown \<Rightarrow> ''unknown'' | PendingApproval \<Rightarrow> ''awaiting_approval''))]"

text \<open>The catalog's actions that change something outside the runtime.\<close>

definition side_effects :: "deps \<Rightarrow> string list" where
  "side_effects d = map tl_action (filter (\<lambda>t. \<not> starts_with (tl_action t) ''task.'' \<and> \<not> starts_with (tl_action t) ''graph.''
     \<and> tl_effect t \<noteq> ReadEffect) (catalog d))"

definition inspect_one :: "deps \<Rightarrow> action_ctx \<Rightarrow> pending_action \<Rightarrow> (plane, unit) prog" where
  "inspect_one d c p = (\<lambda>s. case findIntent (pa_key p) (pl_ledger s) of
      None \<Rightarrow> (Inr (), s)
    | Some i \<Rightarrow>
        (case List.find (\<lambda>g. cg_name g = namespace_of (ha_action (ai_action i))) (ac_grants c) of
           None \<Rightarrow> (Inr (), s)
         | Some g \<Rightarrow>
             if \<not> has_approval (find_result (pa_key p) (pl_ledger s))
               \<and> covers g (cg_name g) (method_of (ha_action (ai_action i))) \<and> same_scope (ac_work c) i
             then step_then (reconcileNative d (ac_work c) (ai_action i) (ai_requestVersion i)) (ret ()) s
             else (Inr (), s)))"

definition run_inspect :: "deps \<Rightarrow> action_ctx \<Rightarrow> (plane, action_result) prog" where
  "run_inspect d c =
     andThen (asks (\<lambda>s. unsettled (wi_id (ac_work c)) (pl_ledger s))) (\<lambda>before.
     step_then (reconcile_each (map (inspect_one d c) (take 64 before)))
     (asks (\<lambda>s. let pending = unsettled (wi_id (ac_work c)) (pl_ledger s) in value_result (JObj
        [(''requestVersion'', JNum (ac_version c)), (''pending'', JArr (map pending_json (take 64 pending))),
         (''truncated'', JBool (length pending > 64)),
         (''completedBusinessAction'', JBool (hasSuccessfulAction (wi_id (ac_work c)) (ac_version c) (side_effects d) (pl_ledger s)))]))))"

definition own_request :: "deps \<Rightarrow> int \<Rightarrow> lease_proof \<Rightarrow> action_ctx \<Rightarrow> string \<Rightarrow> (plane, request_snapshot) prog" where
  "own_request d now proof c msg =
     andThen (current_request d now proof (ac_work c)) (\<lambda>r. case r of
        None \<Rightarrow> throw (JsError msg)
      | Some q \<Rightarrow> if rq_workId q = wi_id (ac_work c) then ret q else throw (JsError msg))"

definition slice_json :: "attachment_slice \<Rightarrow> json" where
  "slice_json sl = JObj (opt_prop ''id'' (sl_id sl) @ opt_prop ''sourceVersion'' (sl_sourceVersion sl)
     @ [(''offset'', JNum (sl_offset sl)), (''text'', JStr (sl_text sl)), (''textLength'', JNum (sl_textLength sl)),
        (''nextOffset'', JNum (sl_nextOffset sl)), (''truncated'', JBool (sl_cut sl))])"

text \<open>The excerpt an attachment read yields, titled with the attachment's name.\<close>

definition slice_evidence :: "request_snapshot \<Rightarrow> attachment_slice \<Rightarrow> source_excerpt list" where
  "slice_evidence r sl =
     (if blank (sl_text sl) then []
      else [\<lparr>se_sourceId = ''attachment:'' @ js_String_opt (sl_id sl), se_sourceVersion = js_String_opt (sl_sourceVersion sl),
        se_chunkId = js_String_opt (sl_id sl) @ '':'' @ show_int (sl_offset sl) @ '':'' @ show_int (sl_nextOffset sl),
        se_title = (case List.find (\<lambda>a. json_prop a ''id'' = sl_id sl \<and> json_prop a ''sourceVersion'' = sl_sourceVersion sl)
              (all_attachments r) of Some a \<Rightarrow> js_String_opt (json_prop a ''name'') | None \<Rightarrow> []),
        se_excerpt = sl_text sl, se_url = None, se_truncated = Some (sl_offset sl > 0 \<or> sl_cut sl)\<rparr>])"

definition run_read_attachment :: "deps \<Rightarrow> int \<Rightarrow> lease_proof \<Rightarrow> action_ctx \<Rightarrow> (plane, action_result) prog" where
  "run_read_attachment d now proof c =
     andThen (own_request d now proof c ''attachment read requires the current request snapshot'') (\<lambda>r.
     andThen (liftR (readRequestAttachment r (ha_args (ac_action c)))) (\<lambda>sl.
       ret ((value_result (slice_json sl))\<lparr>hr_evidence := Some (slice_evidence r sl)\<rparr>)))"

definition run_contract :: "deps \<Rightarrow> int \<Rightarrow> lease_proof \<Rightarrow> action_ctx \<Rightarrow> (plane, action_result) prog" where
  "run_contract d now proof c =
     andThen (own_request d now proof c ''task contract requires the current request snapshot'') (\<lambda>r.
     andThen (liftR (createTaskContract (dp_hash d) (rq_originalText r) (request_version r) (JObj (ha_args (ac_action c))))) (\<lambda>k.
       ret ((value_result (JObj [(''status'', JStr ''draft_validated''), (''requestVersion'', JNum (tc_requestVersion k))]))
          \<lparr>hr_directive := Some \<lparr>dv_type = TaskContractDirective, dv_reason = None, dv_data = Some (contract_json k)\<rparr>\<rparr>)))"

definition json_or_undef :: "json option \<Rightarrow> json" where
  "json_or_undef v = (case v of None \<Rightarrow> JNull | Some x \<Rightarrow> x)"

text \<open>A receipt counts as observed when the action succeeded with a value and without a directive.\<close>

definition observed_receipt :: "action_result option \<Rightarrow> json option" where
  "observed_receipt r = (case r of None \<Rightarrow> None
     | Some x \<Rightarrow> if hr_ok x \<and> \<not> is_unknown x \<and> hr_directive x = None then hr_value x else None)"

definition check_status_text :: "json option \<Rightarrow> json \<Rightarrow> string" where
  "check_status_text observed expected = (case observed of None \<Rightarrow> ''not_observed''
     | Some v \<Rightarrow> if deep_eq v expected then ''pass'' else ''fail'')"

definition run_check_receipt :: "action_ctx \<Rightarrow> (plane, action_result) prog" where
  "run_check_receipt c = (\<lambda>s.
     let args = ha_args (ac_action c); key = js_String_opt (map_of args ''idempotencyKey'');
         refused = (Inl (JsError ''receipt is unavailable for this request version and action''), s) in
     case findIntent key (pl_ledger s) of
       None \<Rightarrow> refused
     | Some i \<Rightarrow>
         if ai_workId i \<noteq> wi_id (ac_work c) \<or> \<not> same_scope (ac_work c) i \<or> ai_requestVersion i \<noteq> Some (ac_version c)
           \<or> Some (JStr (ha_action (ai_action i))) \<noteq> map_of args ''action'' then refused
         else let observed = observed_receipt (find_result key (pl_ledger s)) in
           (Inr (value_result (JObj ([(''scope'', JStr ''recorded_action_result''), (''requestVersion'', JNum (ac_version c)),
              (''idempotencyKey'', JStr key), (''action'', JStr (ha_action (ai_action i))),
              (''status'', JStr (check_status_text observed (json_or_undef (map_of args ''expected''))))]
             @ opt_prop ''observed'' observed
             @ [(''limitation'', JStr ''This checks a recorded action result, not current resource state or overall goal completion.'')]))), s))"

text \<open>The expected fields as they are now, when the resource is an object that has all of them.\<close>

definition observed_fields :: "jobj \<Rightarrow> json \<Rightarrow> jobj option" where
  "observed_fields wanted resource = (case resource of
      JObj r \<Rightarrow> if list_all (\<lambda>(k, _). jhas r k) wanted
        then Some (map (\<lambda>(k, _). (k, json_or_undef (map_of r k))) wanted) else None
    | _ \<Rightarrow> None)"

definition run_check_resource :: "deps \<Rightarrow> int \<Rightarrow> action_ctx \<Rightarrow> (plane, action_result) prog" where
  "run_check_resource d now c =
     (let a = ac_action c; args = ha_args a; readAction = js_String_opt (map_of args ''action'');
          input = (case map_of args ''args'' of Some (JObj m) \<Rightarrow> m | _ \<Rightarrow> []);
          wanted = (case map_of args ''expected'' of Some (JObj m) \<Rightarrow> m | _ \<Rightarrow> []) in
      case dp_readResource d of
        None \<Rightarrow> throw (JsError ''resource readback is unavailable'')
      | Some reader \<Rightarrow>
          andThen (liftR (reader (ac_work c) (a\<lparr>ha_action := readAction, ha_args := input\<rparr>) (ac_version c))) (\<lambda>resource.
          let observed = observed_fields wanted resource in
          step_then (guardE (case observed of None \<Rightarrow> True | Some m \<Rightarrow> js_len (stringify (JObj m)) \<le> 65536)
              (JsError ''observed resource fields exceed the 65536 character limit''))
          (ret (value_result (JObj ([(''scope'', JStr ''observed_resource_fields''), (''requestVersion'', JNum (ac_version c)),
              (''action'', JStr readAction), (''args'', JObj input), (''expected'', JObj wanted), (''observedAt'', JNum now),
              (''status'', JStr (case observed of None \<Rightarrow> ''not_observed''
                 | Some m \<Rightarrow> if list_all (\<lambda>(k, v). opt_eq deep_eq (map_of m k) (Some v)) wanted then ''pass'' else ''fail''))]
             @ opt_prop ''observed'' (map_option JObj observed)
             @ [(''limitation'', JStr ''Only these fields at observation time were checked. Replaying this receipt does not refresh it; absence does not prove deletion or overall goal completion.'')]))))))"

definition run_ask :: "action_ctx \<Rightarrow> action_result" where
  "run_ask c = (let q = opt_prop ''question'' (map_of (ha_args (ac_action c)) ''question'') in
     (value_result (JObj q))\<lparr>hr_directive := Some \<lparr>dv_type = Defer, dv_reason = Some ''user'', dv_data = Some q\<rparr>\<rparr>)"

definition run_external :: "deps \<Rightarrow> action_ctx \<Rightarrow> (plane, action_result) prog" where
  "run_external d c = step_then (log_call (Executed (wi_id (ac_work c)) (ac_action c)))
     (liftR (dp_execute d (ac_work c) (ac_action c) (ac_version c)))"

text \<open>A thrown error is an effect the caller must reconcile, unless the action cannot have had one.\<close>

definition caught_result :: "action_ctx \<Rightarrow> os_error \<Rightarrow> action_result" where
  "caught_result c e = failed_result
     (Some (if ns_task (ac_action c) \<or> (case ac_tool c of None \<Rightarrow> False | Some t \<Rightarrow> tl_effect t = ReadEffect)
              \<or> (case e of NoEffectError m code \<Rightarrow> True | _ \<Rightarrow> False) then NoEffect else Unknown))
     (case e of NoEffectError m code \<Rightarrow> Some code | _ \<Rightarrow> None) (error_message e)"

definition run_action :: "deps \<Rightarrow> int \<Rightarrow> lease_proof \<Rightarrow> action_ctx \<Rightarrow> (plane, action_result) prog" where
  "run_action d now proof c =
     (let name = ha_action (ac_action c) in
      catchE (if name = ''task.inspect'' then run_inspect d c
          else if name = ''task.read_attachment'' then run_read_attachment d now proof c
          else if name = ''task.contract'' then run_contract d now proof c
          else if name = ''task.check_receipt'' then run_check_receipt c
          else if name = ''task.check_resource'' then run_check_resource d now c
          else if name = ''task.ask'' then ret (run_ask c)
          else run_external d c)
        (\<lambda>e. ret (caught_result c e)))"

subsection \<open>Phase 5 and the whole handler\<close>

definition record_action :: "action_ctx \<Rightarrow> action_result \<Rightarrow> (plane, action_result) prog" where
  "record_action c r = ledger_prog (record_result (ha_key (ac_action c)) r)"

definition executeAction :: "deps \<Rightarrow> int \<Rightarrow> lease_proof \<Rightarrow> host_action \<Rightarrow> (plane, action_result) prog" where
  "executeAction d now proof a =
     andThen (check_action d now proof a) (\<lambda>x. case x of
        Inl r \<Rightarrow> ret r
      | Inr c \<Rightarrow>
          andThen (reserve_action d c) (\<lambda>res.
          andThen (decide_action d c res) (\<lambda>answered. case answered of
             Some r \<Rightarrow> ret r
           | None \<Rightarrow> andThen (run_action d now proof c) (record_action c))))"

subsection \<open>Recovery\<close>

record recovered_action =
  ra_action :: string
  ra_key :: string
  ra_result :: action_result

definition cell_consistent :: "work_item \<Rightarrow> int \<Rightarrow> action_intent \<Rightarrow> bool" where
  "cell_consistent work n i = (same_scope work i \<and> ha_callIndex (ai_action i) = n)"

definition safe_to_repeat :: "deps \<Rightarrow> action_intent \<Rightarrow> bool" where
  "safe_to_repeat d i = (case find_tool d (ha_action (ai_action i)) of None \<Rightarrow> False
     | Some t \<Rightarrow> tl_effect t \<in> {ReadEffect, TransactionEffect, IdempotentEffect})"

fun recover_each :: "deps \<Rightarrow> int \<Rightarrow> lease_proof \<Rightarrow> work_item \<Rightarrow> int \<Rightarrow> (action_intent \<times> action_result option) list
    \<Rightarrow> (plane, recovered_action list) prog" where
  "recover_each d now proof work n [] = ret []"
| "recover_each d now proof work n ((i, result) # rest) =
     step_then (guardE (cell_consistent work n i) (fail_code 409 ''cell action history is inconsistent'' ''reconciliation_conflict''))
     (andThen (case result of
          Some r \<Rightarrow> ret r
        | None \<Rightarrow> if safe_to_repeat d i then executeAction d now proof (ai_action i)
            else ret (failed_result (Some Unknown) None ''action intent has no receipt; reconciliation required'')) (\<lambda>r.
      andThen (recover_each d now proof work (n + 1) rest) (\<lambda>rs.
       ret (\<lparr>ra_action = ha_action (ai_action i), ra_key = ha_key (ai_action i), ra_result = r\<rparr> # rs))))"

definition steer_version :: "deps \<Rightarrow> int \<Rightarrow> lease_proof \<Rightarrow> (plane, int) prog" where
  "steer_version d now proof = andThen (heartbeatS d now proof)
     (\<lambda>hb. ret (case hb of None \<Rightarrow> 1 | Some row \<Rightarrow> js_len (hb_steer row) + 1))"

definition recovery_version :: "deps \<Rightarrow> int \<Rightarrow> lease_proof \<Rightarrow> work_item \<Rightarrow> (plane, int) prog" where
  "recovery_version d now proof work =
     andThen (if captured work then current_request d now proof work else ret None) (\<lambda>request.
       case request of
         Some r \<Rightarrow> if rq_workId r = wi_id work then ret (request_version r)
           else steer_version d now proof
       | None \<Rightarrow> steer_version d now proof)"

definition recoverCell :: "deps \<Rightarrow> int \<Rightarrow> lease_proof \<Rightarrow> string \<Rightarrow> (plane, recovered_action list option) prog" where
  "recoverCell d now proof cellId =
     andThen (requireLease d now proof True) (\<lambda>work.
     step_then (guardE (cellId \<noteq> [] \<and> js_len cellId \<le> 512) (fail 400 ''invalid cellId''))
     (andThen (recovery_version d now proof work) (\<lambda>version.
      andThen (asks (\<lambda>s. listCell (wi_id work) cellId (Some version) (pl_ledger s))) (\<lambda>records.
       if records = [] \<or> length records > 100 then ret None
       else andThen (recover_each d now proof work 0 records) (\<lambda>rs. ret (Some rs))))))"

definition recoverStep :: "deps \<Rightarrow> int \<Rightarrow> lease_proof \<Rightarrow> string \<Rightarrow> (plane, (string \<times> artifact list) option) prog" where
  "recoverStep d now proof cellId =
     andThen (requireLease d now proof True) (\<lambda>work.
     step_then (guardE (cellId \<noteq> [] \<and> js_len cellId \<le> 512) (fail 400 ''invalid cellId''))
     (andThen (current_request d now proof work) (\<lambda>request. case request of
        None \<Rightarrow> ret None
      | Some r \<Rightarrow>
          if rq_workId r \<noteq> wi_id work \<or> wi_fence work \<le> 1 then ret None
          else andThen (asks (\<lambda>s. get_step (wi_id work) cellId (request_version r) (pl_steps s))) (\<lambda>found. case found of
              None \<Rightarrow> ret None
            | Some x \<Rightarrow> (case xs_output x of None \<Rightarrow> ret None
                | Some out \<Rightarrow> andThen (liftR (snapshotArtifacts (xs_artifacts x))) (\<lambda>arts. ret (Some (out, arts))))))))"

end
