(* ===== verification/Base64.thy ===== *)
theory Base64
  imports Prelude
begin

text \<open>
  Base64 as Node's \<open>Buffer\<close> writes and reads it, on strings of code units below 256 (bytes). Decoding
  accepts exactly the encodings: the code compares the re-encoded bytes with the text it was given,
  so a text that is no encoding is refused there.
\<close>

definition b64_alphabet :: string where
  "b64_alphabet = ''ABCDEFGHIJKLMNOPQRSTUVWXYZabcdefghijklmnopqrstuvwxyz0123456789+/''"

definition b64_char :: "nat \<Rightarrow> char" where
  "b64_char n = b64_alphabet ! n"

fun index_in :: "string \<Rightarrow> char \<Rightarrow> nat \<Rightarrow> nat option" where
  "index_in [] c n = None"
| "index_in (x # xs) c n = (if x = c then Some n else index_in xs c (n + 1))"

definition b64_value :: "char \<Rightarrow> nat option" where
  "b64_value c = index_in b64_alphabet c 0"

definition byte :: "char \<Rightarrow> nat" where
  "byte c = of_char c"

definition pad :: char where
  "pad = CHR ''=''"

fun base64 :: "string \<Rightarrow> string" where
  "base64 [] = []"
| "base64 [a] = [b64_char (byte a div 4), b64_char (byte a mod 4 * 16), pad, pad]"
| "base64 [a, b] = [b64_char (byte a div 4), b64_char (byte a mod 4 * 16 + byte b div 16),
     b64_char (byte b mod 16 * 4), pad]"
| "base64 (a # b # c # r) = b64_char (byte a div 4) # b64_char (byte a mod 4 * 16 + byte b div 16)
     # b64_char (byte b mod 16 * 4 + byte c div 64) # b64_char (byte c mod 64) # base64 r"

text \<open>The bytes of four characters; the last two may be padding when they end the text.\<close>

definition group_bytes :: "char \<Rightarrow> char \<Rightarrow> char \<Rightarrow> char \<Rightarrow> bool \<Rightarrow> string option" where
  "group_bytes w x y z final = (case (b64_value w, b64_value x) of
      (Some a, Some b) \<Rightarrow>
        if y = pad then (if z = pad \<and> final \<and> b mod 16 = 0 then Some [char_of (a * 4 + b div 16)] else None)
        else (case b64_value y of None \<Rightarrow> None
          | Some c \<Rightarrow>
              if z = pad then (if final \<and> c mod 4 = 0 then Some [char_of (a * 4 + b div 16), char_of (b mod 16 * 16 + c div 4)] else None)
              else (case b64_value z of None \<Rightarrow> None
                | Some d \<Rightarrow> Some [char_of (a * 4 + b div 16), char_of (b mod 16 * 16 + c div 4), char_of (c mod 4 * 64 + d)]))
    | _ \<Rightarrow> None)"

fun unbase64 :: "string \<Rightarrow> string option" where
  "unbase64 [] = Some []"
| "unbase64 (w # x # y # z # r) = (case group_bytes w x y z (r = []) of None \<Rightarrow> None
     | Some bs \<Rightarrow> (case unbase64 r of None \<Rightarrow> None | Some t \<Rightarrow> Some (bs @ t)))"
| "unbase64 s = None"

subsection \<open>Decoding inverts encoding\<close>

lemma index_in_nth: "index_in xs c n = Some k \<Longrightarrow> n \<le> k \<and> k < n + length xs \<and> xs ! (k - n) = c"
proof (induction xs arbitrary: n)
  case (Cons x xs)
  show ?case
  proof (cases "x = c")
    case False
    then have "index_in xs c (n + 1) = Some k" using Cons.prems by simp
    from Cons.IH [OF this] show ?thesis by (auto simp: nth_Cons' Suc_diff_le)
  qed (use Cons.prems in auto)
qed simp

lemma b64_value_char: "b64_value c = Some k \<Longrightarrow> k < 64 \<and> b64_char k = c"
  using index_in_nth [of b64_alphabet c 0 k] by (simp add: b64_value_def b64_char_def b64_alphabet_def)

lemma b64_char_table: "list_all (\<lambda>n. b64_value (b64_char n) = Some n \<and> b64_char n \<noteq> pad) [0..<64]"
  by code_simp

lemma b64_char_value [simp]:
  assumes "n < 64"
  shows "b64_value (b64_char n) = Some n" and "b64_char n \<noteq> pad"
  using b64_char_table assms by (auto simp: list_all_iff)

lemma byte_lt [simp]: "byte c < 256"
  by (simp add: byte_def)

lemma byte_parts [simp]: "byte a div 4 < 64" "byte a mod 4 * 16 < 64" "byte b mod 16 * 4 < 64" "byte c mod 64 < 64"
    "byte a mod 4 * 16 + byte b div 16 < 64" "byte b mod 16 * 4 + byte c div 64 < 64"
proof -
  have "byte b div 16 < 16" "byte c div 64 < 4" using byte_lt [of b] byte_lt [of c] by (auto simp: div_less_iff_less_mult)
  then show "byte a mod 4 * 16 + byte b div 16 < 64" "byte b mod 16 * 4 + byte c div 64 < 64"
    using mod_less_divisor [of 4 "byte a"] mod_less_divisor [of 16 "byte b"] by linarith+
  show "byte a div 4 < 64" using byte_lt [of a] by (simp add: div_less_iff_less_mult)
  show "byte a mod 4 * 16 < 64" "byte b mod 16 * 4 < 64" "byte c mod 64 < 64"
    using mod_less_divisor [of 4 "byte a"] mod_less_divisor [of 16 "byte b"] by simp_all
qed

lemma byte_join [simp]:
  "char_of (byte a) = a" "byte b div 16 div 16 = 0" "byte b div 16 mod 16 = byte b div 16"
  "byte c div 64 div 4 = 0" "byte c div 64 mod 4 = byte c div 64"
proof -
  have "byte b div 16 < 16" "byte c div 64 < 4" using byte_lt [of b] byte_lt [of c] by (auto simp: div_less_iff_less_mult)
  then show "byte b div 16 div 16 = 0" "byte b div 16 mod 16 = byte b div 16" "byte c div 64 div 4 = 0"
    "byte c div 64 mod 4 = byte c div 64" by simp_all
qed (simp add: byte_def)

lemma base64_Nil_iff [simp]: "base64 s = [] \<longleftrightarrow> s = []"
  by (cases s rule: base64.cases) simp_all

lemma unbase64_base64: "unbase64 (base64 s) = Some s"
  by (induction s rule: base64.induct) (simp_all add: group_bytes_def)


lemma byte_char [simp]: "n < 256 \<Longrightarrow> byte (char_of n) = n"
  by (simp add: byte_def)

lemma join_lt [simp]:
  fixes a b c d :: nat
  assumes "a < 64" "b < 64"
  shows "a * 4 + b div 16 < 256" "b mod 16 * 16 + a div 4 < 256" "a mod 4 * 64 + b < 256"
proof -
  have "b div 16 < 4" "a div 4 < 16" using assms by (auto simp: div_less_iff_less_mult)
  then show "a * 4 + b div 16 < 256" "b mod 16 * 16 + a div 4 < 256" "a mod 4 * 64 + b < 256"
    using assms mod_less_divisor [of 16 b] mod_less_divisor [of 4 a] by linarith+
qed

lemma join_parts [simp]:
  fixes a b :: nat
  assumes "b < 64"
  shows "(a * 4 + b div 16) div 4 = a" "(a * 4 + b div 16) mod 4 = b div 16"
    "(a * 16 + b div 4) div 16 = a" "(a * 16 + b div 4) mod 16 = b div 4"
    "(a * 64 + b) div 64 = a" "(a * 64 + b) mod 64 = b"
proof -
  have "b div 16 < 4" "b div 4 < 16" using assms by (auto simp: div_less_iff_less_mult)
  then show "(a * 4 + b div 16) div 4 = a" "(a * 4 + b div 16) mod 4 = b div 16"
    "(a * 16 + b div 4) div 16 = a" "(a * 16 + b div 4) mod 16 = b div 4" using assms by simp_all
  show "(a * 64 + b) div 64 = a" "(a * 64 + b) mod 64 = b" using assms by simp_all
qed

lemma group_bytes_base64:
  assumes "group_bytes w x y z final = Some bs"
  shows "(final \<longrightarrow> base64 bs = [w, x, y, z]) \<and> (\<not> final \<longrightarrow> (\<forall>r. base64 (bs @ r) = w # x # y # z # base64 r))"
  using assms
  by (auto simp: group_bytes_def dest!: b64_value_char split: option.splits if_splits)

lemma base64_unbase64: "unbase64 s = Some bs \<Longrightarrow> base64 bs = s"
proof (induction s arbitrary: bs rule: unbase64.induct)
  case (2 w x y z r)
  then obtain g t where g: "group_bytes w x y z (r = []) = Some g" and t: "unbase64 r = Some t" and bs: "bs = g @ t"
    by (auto split: option.splits)
  have "base64 t = r" by (rule "2.IH" [OF g t])
  with group_bytes_base64 [OF g] t show ?case by (cases "r = []") (auto simp: bs)
qed auto

end
