(* ===== verification/Delivery.thy ===== *)
theory Delivery
  imports Execute Base64
begin

text \<open>
  What an attempt hands over through \<open>ControlPlaneService\<close> (src/control-plane/service.ts): workspace files,
  artifact uploads, the verification of a candidate answer, memory reviews and the final message.
\<close>

subsection \<open>Workspace files\<close>

definition loadWorkspace :: "deps \<Rightarrow> int \<Rightarrow> lease_proof
    \<Rightarrow> (plane, ((int \<times> workspace_entry list) \<times> workspace_limits) option) prog" where
  "loadWorkspace d now proof =
     andThen (requireLease d now proof True) (\<lambda>work. case dp_workspace d of
        None \<Rightarrow> ret None
      | Some port \<Rightarrow> andThen (liftR (wp_load port work)) (\<lambda>snap. ret (Some (snap, wp_limits port))))"

definition stageWorkspaceFile :: "deps \<Rightarrow> int \<Rightarrow> lease_proof \<Rightarrow> string \<Rightarrow> string \<Rightarrow> (plane, workspace_entry) prog" where
  "stageWorkspaceFile d now proof path bytes =
     andThen (requireLease d now proof True) (\<lambda>work. case dp_workspace d of
        None \<Rightarrow> throw (fail 501 ''workspace checkpoints are unavailable'')
      | Some port \<Rightarrow>
          step_then (liftR (workspacePath (Some (JStr path))))
          (andThen (liftR (wp_stage port work path bytes)) (\<lambda>entry.
           step_then (requireLease d now proof True) (ret entry))))"

definition readWorkspaceFile :: "deps \<Rightarrow> int \<Rightarrow> lease_proof \<Rightarrow> workspace_entry \<Rightarrow> (plane, string) prog" where
  "readWorkspaceFile d now proof entry =
     andThen (requireLease d now proof True) (\<lambda>work. case (dp_workspace d, entry) of
        (Some port, File p n sha key) \<Rightarrow>
          andThen (liftR (wp_read port work entry)) (\<lambda>bytes.
          step_then (requireLease d now proof True) (ret bytes))
      | _ \<Rightarrow> throw (fail 400 ''workspace file required''))"

subsection \<open>Artifact uploads\<close>

text \<open>\<open>snapshotArtifacts([artifact])[0]\<close>\<close>

definition checked_artifact :: "artifact \<Rightarrow> os_error + artifact" where
  "checked_artifact a = (if valid_artifact a then Inr a else Inl (fail 400 ''invalid artifact metadata''))"

definition upload_limit :: int where
  "upload_limit = 16 * 1024 * 1024"

datatype upload = Base64Upload string | BytesUpload string

definition upload_too_long :: "upload \<Rightarrow> bool" where
  "upload_too_long u = (case u of Base64Upload t \<Rightarrow> js_len t > 22369624 | BytesUpload bs \<Rightarrow> js_len bs > upload_limit)"

text \<open>A base64 text must be the encoding of its bytes.\<close>

definition upload_bytes :: "upload \<Rightarrow> string option" where
  "upload_bytes u = (case u of Base64Upload t \<Rightarrow> unbase64 t | BytesUpload bs \<Rightarrow> Some bs)"

definition content_matches :: "deps \<Rightarrow> artifact \<Rightarrow> string \<Rightarrow> bool" where
  "content_matches d a bytes = (js_len bytes = af_size a \<and> js_len bytes \<le> upload_limit
     \<and> dp_hash d bytes = map to_lower (af_sha256 a))"

definition artifact_mismatch :: os_error where
  "artifact_mismatch = fail_code 409 ''artifact content does not match its metadata'' ''artifact_mismatch''"

definition stageArtifact :: "deps \<Rightarrow> int \<Rightarrow> lease_proof \<Rightarrow> artifact \<Rightarrow> upload \<Rightarrow> (plane, unit) prog" where
  "stageArtifact d now proof a content =
     andThen (requireLease d now proof True) (\<lambda>work. case dp_stage d of
        None \<Rightarrow> throw (fail 501 ''artifact upload is unavailable'')
      | Some stage \<Rightarrow>
          andThen (liftR (checked_artifact a)) (\<lambda>checked.
          step_then (guardE (\<not> upload_too_long content) (fail 413 ''artifact upload exceeds 16 MiB''))
          (case upload_bytes content of
             None \<Rightarrow> throw artifact_mismatch
           | Some bytes \<Rightarrow>
               step_then (guardE (content_matches d checked bytes) artifact_mismatch)
               (step_then (log_call (Staged (wi_id work) checked bytes))
               (liftR (stage work checked bytes))))))"

text \<open>The chunks of a stream gathered for a stager without one; a chunk past the declared size is refused.\<close>

fun gather :: "int \<Rightarrow> string \<Rightarrow> string list \<Rightarrow> os_error + string" where
  "gather cap got [] = Inr got"
| "gather cap got (c # cs) = (if js_len got + js_len c > cap
     then Inl (fail 413 ''artifact content exceeds metadata'') else gather cap (got @ c) cs)"

definition stageArtifactStream :: "deps \<Rightarrow> int \<Rightarrow> lease_proof \<Rightarrow> artifact \<Rightarrow> string list \<Rightarrow> (plane, unit) prog" where
  "stageArtifactStream d now proof a chunks =
     andThen (requireLease d now proof True) (\<lambda>work.
     andThen (liftR (checked_artifact a)) (\<lambda>checked.
     step_then (guardE (af_size checked \<le> upload_limit) (fail 413 ''artifact upload exceeds 16 MiB''))
     (step_then (case dp_stream d of
          Some stream \<Rightarrow> liftR (stream work checked chunks)
        | None \<Rightarrow> andThen (liftR (gather (af_size checked) [] chunks)) (\<lambda>bytes.
            stageArtifact d now proof checked (BytesUpload bytes)))
     (step_then (requireLease d now proof True) (ret ())))))"

subsection \<open>Candidate verification\<close>

definition step_artifacts :: "string \<Rightarrow> plane \<Rightarrow> artifact list" where
  "step_artifacts workId s = concat (map xs_artifacts (list_steps workId None (pl_steps s)))"

definition all_recorded :: "artifact list \<Rightarrow> artifact list \<Rightarrow> bool" where
  "all_recorded artifacts facts = list_all (\<lambda>a. a \<in> set facts) artifacts"

definition verifyCandidate :: "deps \<Rightarrow> int \<Rightarrow> lease_proof \<Rightarrow> candidate_answer \<Rightarrow> (plane, candidate_verification) prog" where
  "verifyCandidate d now proof c =
     andThen (requireLease d now proof True) (\<lambda>work.
     step_then (guardE (js_len (ca_body c) \<le> 100000 \<and> safe_int (ca_requestVersion c) \<and> ca_requestVersion c \<ge> 1)
         (fail 400 ''invalid candidate''))
     (andThen (liftR (snapshotArtifacts (ca_artifacts c))) (\<lambda>artifacts.
      let candidate = c\<lparr>ca_artifacts := artifacts\<rparr> in
      andThen (current_request d now proof work) (\<lambda>request.
      step_then (guardE (case request of None \<Rightarrow> False
            | Some r \<Rightarrow> rq_workId r = wi_id work \<and> ca_requestVersion candidate = request_version r)
          (fail 409 ''candidate request version is stale''))
      (andThen (asks (\<lambda>s. step_artifacts (wi_id work) s @ ledger_artifacts (wi_id work) (pl_ledger s))) (\<lambda>recorded.
       andThen (liftR (snapshotArtifacts recorded)) (\<lambda>facts.
       step_then (guardE (all_recorded artifacts facts) (fail 409 ''candidate artifact has no execution record''))
       (case dp_verify d of
          None \<Rightarrow> andThen (liftR (candidateHash (dp_hash d) candidate)) (\<lambda>h.
            ret \<lparr>cv_candidateHash = h, cv_requestVersion = ca_requestVersion candidate,
              cv_records = [\<lparr>vr_checker = ''availability'', vr_status = VerdictInconclusive,
                vr_evidence = [(''reason'', JStr ''No authoritative checker is configured'')]\<rparr>]\<rparr>)
        | Some verify \<Rightarrow> liftR (verify work candidate)))))))))"

subsection \<open>Memory reviews\<close>

definition memoryReviewWork :: "deps \<Rightarrow> int \<Rightarrow> lease_proof \<Rightarrow> host_action \<Rightarrow> (plane, work_item \<times> memory_port) prog" where
  "memoryReviewWork d now proof a =
     andThen (requireLease d now proof True) (\<lambda>work.
     case (dp_memory d, List.find (\<lambda>t. tl_action t = ha_action a)
           (grantedTools (case dp_tools d of None \<Rightarrow> [] | Some ts \<Rightarrow> ts) (dp_resolve d work))) of
       (Some port, Some t) \<Rightarrow> andThen (liftR (permitsTool (wi_meta work) t)) (\<lambda>ok.
          step_then (guardE ok (fail 403 ''memory action is unavailable'')) (ret (work, port)))
     | _ \<Rightarrow> throw (fail 403 ''memory action is unavailable''))"

definition prepareMemoryReview :: "deps \<Rightarrow> int \<Rightarrow> lease_proof \<Rightarrow> host_action \<Rightarrow> (plane, json option) prog" where
  "prepareMemoryReview d now proof a =
     andThen (memoryReviewWork d now proof a) (\<lambda>(work, port).
     andThen (asks (\<lambda>s. (findIntent (ha_key a) (pl_ledger s), find_result (ha_key a) (pl_ledger s)))) (\<lambda>(intent, receipt).
       if (case intent of None \<Rightarrow> False | Some i \<Rightarrow> ai_workId i = wi_id work \<and> action_eq (ai_action i) a) \<and> receipt \<noteq> None
       then ret None else liftR (mr_prepare port work a)))"

definition recordMemoryReview :: "deps \<Rightarrow> int \<Rightarrow> lease_proof \<Rightarrow> host_action \<Rightarrow> string \<Rightarrow> json \<Rightarrow> (plane, unit) prog" where
  "recordMemoryReview d now proof a h review =
     andThen (memoryReviewWork d now proof a) (\<lambda>(work, port).
     step_then (guardE (is_sha256 h) (fail 400 ''invalid memory review hash''))
     (liftR (mr_record port work a h review)))"

end
