(* ===== verification/Commit.thy ===== *)
theory Commit
  imports Delivery
begin

text \<open>
  \<open>commitResult\<close> of \<open>ControlPlaneService\<close> (src/control-plane/service.ts): a final message is delivered only
  when the envelope it carries is the one the control plane computes itself from the stored request,
  evidence, steps and receipts, and only while the lease and the request version are current.
\<close>

subsection \<open>Deep equality of messages\<close>

definition check_eq :: "resource_check \<Rightarrow> resource_check \<Rightarrow> bool" where
  "check_eq a b = (rc_actionKey a = rc_actionKey b \<and> result_eq (rc_result a) (rc_result b))"

definition envelope_eq :: "envelope \<Rightarrow> envelope \<Rightarrow> bool" where
  "envelope_eq a b = (opt_eq deep_eq (en_presentations a) (en_presentations b) \<and> en_body a = en_body b
     \<and> en_requestVersion a = en_requestVersion b \<and> en_evidenceSnapshotId a = en_evidenceSnapshotId b
     \<and> en_citations a = en_citations b \<and> en_citationEvidence a = en_citationEvidence b
     \<and> en_artifacts a = en_artifacts b \<and> en_goalOutcome a = en_goalOutcome b \<and> en_taskContract a = en_taskContract b
     \<and> opt_eq (list_all2 check_eq) (en_resourceChecks a) (en_resourceChecks b)
     \<and> en_assessment a = en_assessment b)"

definition message_eq :: "message \<Rightarrow> message \<Rightarrow> bool" where
  "message_eq a b = (opt_eq envelope_eq (ms_envelope a) (ms_envelope b) \<and> ms_runId a = ms_runId b
     \<and> ms_agentId a = ms_agentId b \<and> ms_sessionId a = ms_sessionId b \<and> ms_threadId a = ms_threadId b
     \<and> ms_body a = ms_body b)"

subsection \<open>The expected envelope\<close>

text \<open>A retry of a message whose lease is already over is answered from the delivery record.\<close>

definition committed_before :: "deps \<Rightarrow> int \<Rightarrow> lease_proof \<Rightarrow> message \<Rightarrow> plane \<Rightarrow> bool" where
  "committed_before d now proof m s =
     (let h = dp_hash d (lp_token proof) in
      getLeased now (lp_id proof) (lp_fence proof) h (pl_work s) = None
      \<and> (case getAttempt (lp_id proof) (lp_fence proof) h (pl_work s) of
           None \<Rightarrow> False
         | Some issued \<Rightarrow> (case dp_getMessage d issued of None \<Rightarrow> False | Some prior \<Rightarrow> message_eq prior m)))"

definition addressed :: "work_item \<Rightarrow> message \<Rightarrow> bool" where
  "addressed work m = (ms_runId m = wi_id work \<and> ms_agentId m = wi_agentId work \<and> ms_sessionId m = wi_sessionId work
     \<and> ms_threadId m = wi_threadId work \<and> \<not> blank (ms_body m))"

text \<open>A recorded review of exactly this candidate that found nothing missing.\<close>

definition is_review :: "work_item \<Rightarrow> int \<Rightarrow> string \<Rightarrow> execution_step \<Rightarrow> bool" where
  "is_review work version h x = (xs_kind x = ''runtime.review'' \<and> xs_requestVersion x = version
     \<and> map_of (xs_input x) ''workId'' = Some (JStr (wi_id work)) \<and> map_of (xs_input x) ''candidateHash'' = Some (JStr h))"

definition review_passed :: "work_item \<Rightarrow> int \<Rightarrow> string \<Rightarrow> json \<Rightarrow> bool" where
  "review_passed work version h v = (truthy_json (json_prop v ''error'') = None
     \<and> json_prop v ''workId'' = Some (JStr (wi_id work)) \<and> json_prop v ''candidateHash'' = Some (JStr h)
     \<and> json_prop v ''requestVersion'' = Some (JNum version) \<and> json_prop v ''missing'' = Some (JArr []))"

definition reviewed :: "work_item \<Rightarrow> int \<Rightarrow> string \<Rightarrow> execution_step list \<Rightarrow> os_error + bool" where
  "reviewed work version h steps = (case List.find (is_review work version h) (rev steps) of
      None \<Rightarrow> Inr False
    | Some x \<Rightarrow> (case xs_output x of
          None \<Rightarrow> Inr False
        | Some out \<Rightarrow> if out = [] then Inr False
            else (case json_parse out of None \<Rightarrow> Inl (JsError ''invalid JSON'')
              | Some v \<Rightarrow> Inr (review_passed work version h v))))"

text \<open>The latest status of each checked resource for this request version.\<close>

definition check_key :: "json \<Rightarrow> string" where
  "check_key v = stringify (JArr [json_or_undef (json_prop v ''action''), json_or_undef (json_prop v ''args''),
     json_or_undef (json_prop v ''expected'')])"

fun latest_checks :: "int \<Rightarrow> resource_check list \<Rightarrow> (string, json option) jsmap \<Rightarrow> os_error + (string, json option) jsmap" where
  "latest_checks version [] m = Inr m"
| "latest_checks version (c # cs) m = (case hr_value (rc_result c) of
      None \<Rightarrow> Inl (JsError ''Cannot read properties of undefined'')
    | Some v \<Rightarrow> if v = JNull then Inl (JsError ''Cannot read properties of null'')
        else latest_checks version cs (if json_prop v ''requestVersion'' = Some (JNum version)
          then AList.update (check_key v) (json_prop v ''status'') m else m))"

definition all_pass :: "(string, json option) jsmap \<Rightarrow> bool" where
  "all_pass m = list_all (\<lambda>st. st = Some (JStr ''pass'')) (jvalues m)"

definition delivery_gaps :: "deps \<Rightarrow> work_item \<Rightarrow> request_snapshot \<Rightarrow> execution_step list \<Rightarrow> message \<Rightarrow> int \<Rightarrow> artifact list
    \<Rightarrow> plane \<Rightarrow> os_error + string list" where
  "delivery_gaps d work r steps m version artifacts s =
     (let gap = businessActionDeliveryGap r (hasSuccessfulAction (wi_id work) version (side_effects d) (pl_ledger s)) (artifacts \<noteq> []);
          gaps = (case gap of None \<Rightarrow> [] | Some g \<Rightarrow> [g]) in
      if requiresReview r steps (catalog d) artifacts \<or> work_children work (pl_work s) \<noteq> []
      then bindR (candidateHash (dp_hash d) \<lparr>ca_body = ms_body m, ca_requestVersion = version, ca_artifacts = artifacts\<rparr>) (\<lambda>h.
           bindR (reviewed work version h steps) (\<lambda>ok.
             Inr (if ok then gaps
               else gaps @ [''Complex candidate lacks an independent review for this request version and content''])))
      else Inr gaps)"

text \<open>What a satisfied outcome needs besides: no open action and no failed postcondition.\<close>

definition check_satisfied :: "work_item \<Rightarrow> request_snapshot \<Rightarrow> int \<Rightarrow> assessment option \<Rightarrow> plane \<Rightarrow> os_error + unit" where
  "check_satisfied work r version asm s =
     (if (case asm of None \<Rightarrow> False | Some a \<Rightarrow> sa_status a \<noteq> AssessSatisfied)
      then Inl (JsError ''conflicting self-assessment'')
      else if unsettled (wi_id work) (pl_ledger s) \<noteq> [] then Inl (JsError ''business actions remain unresolved'')
      else bindR (latest_checks version (opt_list (rq_resourceChecks r)) []) (\<lambda>m.
        if all_pass m then Inr () else Inl (JsError ''known resource postconditions remain unresolved'')))"

definition check_delegated :: "goal_outcome \<Rightarrow> assessment option \<Rightarrow> os_error + unit" where
  "check_delegated g asm = (case go_status g of
      Delegated t \<Rightarrow> (case asm of
          Some a \<Rightarrow> if sa_status a \<noteq> AssessDelegated \<or> sa_taskRef a \<noteq> Some t then Inl (JsError ''missing delegated self-assessment'')
            else Inr ()
        | None \<Rightarrow> Inl (JsError ''missing delegated self-assessment''))
    | _ \<Rightarrow> Inr ())"

definition expected_envelope :: "deps \<Rightarrow> work_item \<Rightarrow> request_snapshot \<Rightarrow> evidence_snapshot \<Rightarrow> execution_step list \<Rightarrow> artifact list
    \<Rightarrow> message \<Rightarrow> envelope \<Rightarrow> plane \<Rightarrow> os_error + envelope" where
  "expected_envelope d work r evidence steps artifacts m e s =
     (let g = en_goalOutcome e; version = en_requestVersion e; asm = en_assessment e in
      bindR (delivery_gaps d work r steps m version artifacts s) (\<lambda>gaps.
      bindR (validateCompletion (ms_body m) asm r g gaps) (\<lambda>_.
      bindR (check_delegated g asm) (\<lambda>_.
      bindR (if go_status g = Satisfied then check_satisfied work r version asm s else Inr ()) (\<lambda>_.
        createResponseEnvelope (dp_hash d) (ms_body m) g evidence artifacts (rq_contract r) (rq_resourceChecks r) asm)))))"

subsection \<open>Committing\<close>

text \<open>The lease and request version once more, then delivery.\<close>

definition deliver_current :: "deps \<Rightarrow> int \<Rightarrow> lease_proof \<Rightarrow> work_item \<Rightarrow> message \<Rightarrow> envelope \<Rightarrow> (plane, unit) prog" where
  "deliver_current d now proof work m e =
     andThen (heartbeatS d now proof) (\<lambda>hb. case hb of
        None \<Rightarrow> step_then (requireLease d now proof False)
          (throw (fail_code 409 ''work lease lost before delivery'' ''lease_lost''))
      | Some row \<Rightarrow>
          step_then (guardE (\<not> hb_cancelRequested row)
            (fail_code 409 ''work is cancelled; response cannot be delivered'' ''work_cancelled''))
          (step_then (guardE (en_requestVersion e = js_len (hb_steer row) + 1) (fail 409 ''response request version is stale''))
          (step_then (log_call (Delivered (wi_id work) m))
          (liftR (dp_deliver d work m)))))"

definition stale_response :: os_error where
  "stale_response = fail 409 ''response request version is stale''"

text \<open>The checks of the envelope against the stored records.\<close>

definition commit_records :: "deps \<Rightarrow> int \<Rightarrow> lease_proof \<Rightarrow> work_item \<Rightarrow> message \<Rightarrow> envelope \<Rightarrow> request_snapshot
    \<Rightarrow> evidence_snapshot \<Rightarrow> (plane, unit) prog" where
  "commit_records d now proof work m e r evidence =
     andThen (asks (\<lambda>s. list_steps (wi_id work) None (pl_steps s))) (\<lambda>steps.
     andThen (liftR (snapshotArtifacts (concat (map xs_artifacts steps)))) (\<lambda>recorded.
     andThen (liftR (snapshotArtifacts (en_artifacts e))) (\<lambda>artifacts.
     step_then (guardE (all_recorded artifacts recorded) (fail 409 ''response artifact has no durable execution record''))
     (step_then (guardE (en_requestVersion e = request_version r) stale_response)
     (andThen (steer_version d now proof) (\<lambda>current.
      step_then (guardE (en_requestVersion e = current) stale_response)
      (step_then (\<lambda>s. guardE (case go_status (en_goalOutcome e) of
            Delegated t \<Rightarrow> hasChild work t (en_requestVersion e) (pl_work s) | _ \<Rightarrow> True)
          (fail 409 ''delegated task is not pending for this request'') s)
      (step_then (validateWait work (en_goalOutcome e))
      (step_then (\<lambda>s. (case expected_envelope d work r evidence steps artifacts m e s of
            Inl _ \<Rightarrow> throw (fail 409 ''response does not match its evidence or artifact records'')
          | Inr expected \<Rightarrow> guardE (envelope_eq expected e) (fail 409 ''response envelope is inconsistent with its durable records'')) s)
      (deliver_current d now proof work m e))))))))))"

definition commitResult :: "deps \<Rightarrow> int \<Rightarrow> lease_proof \<Rightarrow> message \<Rightarrow> (plane, unit) prog" where
  "commitResult d now proof m =
     andThen (asks (committed_before d now proof m)) (\<lambda>done_before.
     if done_before then ret ()
     else andThen (requireLease d now proof True) (\<lambda>work.
       step_then (guardE (addressed work m) (fail 409 ''assistant message is missing its stream identity or body''))
       (case ms_envelope m of
          None \<Rightarrow> throw (fail 409 ''response envelope is required'')
        | Some e \<Rightarrow>
            step_then (guardE (go_verification (en_goalOutcome e) \<noteq> Passed)
              (fail 409 ''goal verification requires authoritative acceptance evidence''))
            (andThen (current_request d now proof work) (\<lambda>request. case request of
               None \<Rightarrow> throw (fail 409 ''response requires a saved request and evidence snapshot'')
             | Some r \<Rightarrow> (case rq_evidence r of
                 None \<Rightarrow> throw (fail 409 ''response requires a saved request and evidence snapshot'')
               | Some evidence \<Rightarrow>
                   step_then (guardE (rq_workId r = wi_id work) (fail 409 ''response request belongs to another work item''))
                   (commit_records d now proof work m e r evidence)))))))"

end
