(* ===== verification/SaveSession.thy ===== *)
theory SaveSession
  imports Commit
begin

text \<open>
  \<open>saveSession\<close> of \<open>ControlPlaneService\<close> (src/control-plane/service.ts): a worker may save the session of its
  lease only when the record agrees with the trusted work metadata, with the persisted steering and
  with the receipts in the ledger, and never rewrites what an earlier save recorded. As in
  \<open>snapshotRequest\<close>, the typed view of the parent request in \<open>meta.delegation\<close> is an argument.
\<close>

subsection \<open>Equality of requests and sessions\<close>

definition list_eq :: "json list \<Rightarrow> json list \<Rightarrow> bool" where
  "list_eq xs ys = deep_eq (JArr xs) (JArr ys)"

definition request_eq :: "request_snapshot \<Rightarrow> request_snapshot \<Rightarrow> bool" where
  "request_eq a b = (rq_workId a = rq_workId b \<and> rq_tenantId a = rq_tenantId b \<and> rq_sessionId a = rq_sessionId b
     \<and> rq_authorId a = rq_authorId b \<and> rq_sourceRef a = rq_sourceRef b \<and> rq_originalText a = rq_originalText b
     \<and> revisions_eq (rq_revisions a) (rq_revisions b)
     \<and> opt_eq deep_eq (rq_codeExecution a) (rq_codeExecution b) \<and> opt_eq deep_eq (rq_deliveryMode a) (rq_deliveryMode b)
     \<and> opt_eq deep_eq (rq_mode a) (rq_mode b) \<and> opt_eq list_eq (rq_obligations a) (rq_obligations b)
     \<and> opt_eq revisions_eq (rq_inheritedRevisions a) (rq_inheritedRevisions b)
     \<and> list_eq (rq_attachments a) (rq_attachments b) \<and> rq_evidence a = rq_evidence b \<and> rq_contract a = rq_contract b
     \<and> opt_eq (list_all2 check_eq) (rq_resourceChecks a) (rq_resourceChecks b)
     \<and> rq_parentWorkId a = rq_parentWorkId b \<and> rq_rootWorkId a = rq_rootWorkId b
     \<and> rq_parentRequestVersion a = rq_parentRequestVersion b \<and> rq_instructionAuthor a = rq_instructionAuthor b
     \<and> rq_delegatedAssignment a = rq_delegatedAssignment b \<and> opt_eq deep_eq (rq_conversation a) (rq_conversation b))"

definition session_eq :: "session \<Rightarrow> session \<Rightarrow> bool" where
  "session_eq a b = (opt_eq request_eq (ss_request a) (ss_request b) \<and> ss_key a = ss_key b
     \<and> ss_tenantId a = ss_tenantId b \<and> ss_agentId a = ss_agentId b \<and> ss_sessionId a = ss_sessionId b
     \<and> ss_threadId a = ss_threadId b \<and> ss_summary a = ss_summary b \<and> list_eq (ss_history a) (ss_history b)
     \<and> ss_appliedWorkIds a = ss_appliedWorkIds b \<and> ss_revision a = ss_revision b
     \<and> ss_compactionEpoch a = ss_compactionEpoch b \<and> opt_eq deep_eq (ss_promptContext a) (ss_promptContext b))"

text \<open>\<open>===\<close>: arrays and objects read from different values are never identical.\<close>

definition identical :: "json option \<Rightarrow> json option \<Rightarrow> bool" where
  "identical a b = (a = b \<and> (case a of Some (JArr vs) \<Rightarrow> False | Some (JObj m) \<Rightarrow> False | _ \<Rightarrow> True))"

text \<open>The first revisions are the persisted ones, in their order.\<close>

definition revisions_prefix :: "revision list \<Rightarrow> revision list \<Rightarrow> bool" where
  "revisions_prefix rs persisted = (length rs \<le> length persisted \<and> revisions_eq rs (take (length rs) persisted))"

definition checks_prefix :: "resource_check list \<Rightarrow> resource_check list \<Rightarrow> bool" where
  "checks_prefix old new = (length old \<le> length new \<and> list_all2 check_eq (take (length old) new) old)"

subsection \<open>Agreement with the trusted work\<close>

definition meta_text :: "work_item \<Rightarrow> string option" where
  "meta_text work = str_of (prop_of (wi_meta work) ''text'')"

definition request_identity :: "work_item \<Rightarrow> request_snapshot \<Rightarrow> bool" where
  "request_identity work r = (rq_workId r = wi_id work \<and> rq_tenantId r = wi_tenantId work \<and> rq_sessionId r = wi_sessionId work
     \<and> rq_conversation r = None \<and> rq_sourceRef r = wi_triggerRef work
     \<and> (case wi_principalId work of None \<Rightarrow> True | Some p \<Rightarrow> rq_authorId r = p)
     \<and> (case meta_text work of None \<Rightarrow> True
        | Some t \<Rightarrow> if truthy_json (prop_of (wi_meta work) ''delegation'') \<noteq> None
            then rq_delegatedAssignment r = Some t else rq_originalText r = t)
     \<and> rq_codeExecution r \<in> {None, Some (JStr ''enabled''), Some (JStr ''disabled'')}
     \<and> rq_deliveryMode r \<in> {None, Some (JStr ''auto''), Some (JStr ''text''), Some (JStr ''action'')})"

definition session_record_ok :: "work_item \<Rightarrow> session \<Rightarrow> bool" where
  "session_record_ok work q = (ss_key q = work_session_key work \<and> session_matches work q
     \<and> list_all isModelItem (ss_history q) \<and> natural_int (ss_revision q) \<and> natural_int (ss_compactionEpoch q)
     \<and> (captured work \<longrightarrow> ss_request q \<noteq> None)
     \<and> (case ss_request q of None \<Rightarrow> True | Some r \<Rightarrow> request_identity work r))"

definition check_saved_contract :: "deps \<Rightarrow> request_snapshot \<Rightarrow> os_error + unit" where
  "check_saved_contract d r = (case rq_contract r of None \<Rightarrow> Inr ()
     | Some c \<Rightarrow> (case createTaskContract (dp_hash d) (rq_originalText r) (request_version r) (contract_draft c) of
           Inr e \<Rightarrow> if c = e then Inr () else Inl (fail 400 ''invalid request task contract'')
         | Inl e \<Rightarrow> Inl (fail 400 ''invalid request task contract'')))"

definition check_inherited :: "request_snapshot option \<Rightarrow> request_snapshot \<Rightarrow> bool" where
  "check_inherited parent r = (case parent of
      Some p \<Rightarrow> rq_originalText r = rq_originalText p
        \<and> revisions_eq (opt_list (rq_inheritedRevisions r)) (opt_list (rq_inheritedRevisions p) @ rq_revisions p)
    | None \<Rightarrow> opt_list (rq_inheritedRevisions r) = [])"

text \<open>The code execution, delivery and mode the trusted metadata and the parent prescribe.\<close>

definition expected_code :: "work_item \<Rightarrow> request_snapshot option \<Rightarrow> json option" where
  "expected_code work parent =
     (let configured = prop_of (wi_meta work) ''codeExecution''; inherited = (case parent of None \<Rightarrow> None | Some p \<Rightarrow> rq_codeExecution p) in
      if inherited = Some (JStr ''disabled'') \<or> configured = Some (JStr ''disabled'') then Some (JStr ''disabled'')
      else if configured = Some (JStr ''enabled'') \<or> inherited = Some (JStr ''enabled'') then Some (JStr ''enabled'') else None)"

definition expected_mode :: "work_item \<Rightarrow> request_snapshot option \<Rightarrow> os_error + json option" where
  "expected_mode work parent =
     (let pm = (case parent of None \<Rightarrow> None | Some p \<Rightarrow> rq_mode p); own = prop_of (wi_meta work) ''mode'' in
      if pm = Some (JStr ''chat'') then Inr pm
      else if pm = Some (JStr ''read'') then bindR (executionMode (wi_meta work)) (\<lambda>m. Inr (if m = JStr ''execute'' then pm else own))
      else Inr own)"

definition check_policy :: "work_item \<Rightarrow> request_snapshot option \<Rightarrow> request_snapshot \<Rightarrow> os_error + unit" where
  "check_policy work parent r =
     (if \<not> check_inherited parent r then Inl (fail 400 ''inherited human requirements differ from the durable delegation'')
      else if \<not> identical (rq_codeExecution r) (expected_code work parent)
        \<or> \<not> identical (rq_deliveryMode r) (prop_of (wi_meta work) ''deliveryMode'')
      then Inl (fail 400 ''request execution or delivery policy differs from trusted work metadata'')
      else bindR (expected_mode work parent) (\<lambda>mode.
        if \<not> identical (rq_mode r) mode then Inl (fail 400 ''request mode differs from trusted work metadata'')
        else bindR (snapshotObligations (JArr (opt_list (rq_obligations r)))) (\<lambda>own.
          bindR (snapshotObligations (or_empty_array (prop_of (wi_meta work) ''obligations''))) (\<lambda>trusted.
            if list_eq own trusted then Inr ()
            else Inl (fail 400 ''delivery obligations differ from trusted work metadata'')))))"

fun revision_attachments :: "revision list \<Rightarrow> os_error + int" where
  "revision_attachments [] = Inr 0"
| "revision_attachments (v # vs) = bindR (snapshotAttachments (JArr (opt_list (rv_attachments v)))) (\<lambda>as.
     bindR (revision_attachments vs) (\<lambda>n. Inr (js_len as + n)))"

definition check_saved_attachments :: "work_item \<Rightarrow> request_snapshot \<Rightarrow> os_error + unit" where
  "check_saved_attachments work r =
     (case bindR (snapshotAttachments (JArr (rq_attachments r))) (\<lambda>own.
           bindR (snapshotAttachments (or_empty_array (prop_of (wi_meta work) ''attachments''))) (\<lambda>trusted.
           if \<not> list_eq own trusted then Inl (JsError ''attachment mismatch'')
           else bindR (revision_attachments (rq_revisions r)) (\<lambda>n.
             if js_len (rq_attachments r) + n > 20 then Inl (JsError ''request attachment limit reached'') else Inr ()))) of
        Inl e \<Rightarrow> Inl (fail 400 ''invalid request attachments or mismatch with the original input'')
      | Inr u \<Rightarrow> Inr ())"

definition check_saved_evidence :: "request_snapshot \<Rightarrow> os_error + unit" where
  "check_saved_evidence r = (case rq_evidence r of
      None \<Rightarrow> Inl (fail 400 ''invalid request evidence snapshot'')
    | Some e \<Rightarrow> (case snapshotEvidence (es_id e) (es_items e) of
          Inl x \<Rightarrow> Inl (fail 400 ''invalid request evidence snapshot'') | Inr x \<Rightarrow> Inr ()))"

definition check_request :: "deps \<Rightarrow> work_item \<Rightarrow> request_snapshot option \<Rightarrow> request_snapshot \<Rightarrow> os_error + unit" where
  "check_request d work parent r =
     bindR (check_saved_contract d r) (\<lambda>_.
     bindR (check_policy work parent r) (\<lambda>_.
     bindR (check_saved_attachments work r) (\<lambda>_. check_saved_evidence r)))"

subsection \<open>Agreement with the durable history\<close>

definition scoped_intent :: "work_item \<Rightarrow> int \<Rightarrow> action_intent \<Rightarrow> bool" where
  "scoped_intent work version i = (ai_workId i = wi_id work \<and> same_scope work i \<and> ai_requestVersion i = Some version)"

text \<open>Each new observation is the recorded result of a resource check of this request version.\<close>

fun grow_checks :: "work_item \<Rightarrow> int \<Rightarrow> ledger \<Rightarrow> resource_check list \<Rightarrow> resource_check list \<Rightarrow> os_error + resource_check list" where
  "grow_checks work version l known [] = Inr known"
| "grow_checks work version l known (c # cs) =
     (case findIntent (rc_actionKey c) l of
        None \<Rightarrow> Inl (fail 409 ''resource observation lacks a current scoped read intent'')
      | Some i \<Rightarrow>
          if \<not> scoped_intent work version i \<or> ha_action (ai_action i) \<noteq> ''task.check_resource''
          then Inl (fail 409 ''resource observation lacks a current scoped read intent'')
          else (case find_result (rc_actionKey c) l of
              None \<Rightarrow> Inl (fail 409 ''resource observation lacks a recorded result'')
            | Some r \<Rightarrow> (case appendResourceCheck known (rc_actionKey c) r version of
                  Inl e \<Rightarrow> Inl (fail 409 ''invalid resource observation'')
                | Inr known' \<Rightarrow> grow_checks work version l known' cs)))"

text \<open>The request an earlier save of this work item left, if any.\<close>

definition own_previous :: "work_item \<Rightarrow> request_snapshot option \<Rightarrow> request_snapshot option" where
  "own_previous work previous = (case previous of None \<Rightarrow> None
     | Some p \<Rightarrow> if rq_workId p = wi_id work then Some p else None)"

definition saved_checks :: "request_snapshot option \<Rightarrow> resource_check list" where
  "saved_checks r = (case r of None \<Rightarrow> [] | Some q \<Rightarrow> opt_list (rq_resourceChecks q))"

definition saved_version :: "request_snapshot option \<Rightarrow> int" where
  "saved_version r = (case r of None \<Rightarrow> 1 | Some q \<Rightarrow> request_version q)"

definition check_observations :: "work_item \<Rightarrow> ledger \<Rightarrow> request_snapshot option \<Rightarrow> request_snapshot option \<Rightarrow> os_error + unit" where
  "check_observations work l own next_request =
     (let old = saved_checks own; new = saved_checks next_request in
      if js_len new > 64 \<or> \<not> checks_prefix old new then Inl (fail 409 ''resource observations cannot be rewritten'')
      else if length new \<le> length old then Inr ()
      else if own = None then Inl (fail 409 ''resource observations require a saved request'')
      else bindR (grow_checks work (saved_version next_request) l old (drop (length old) new)) (\<lambda>expected.
        if list_all2 check_eq expected new then Inr ()
        else Inl (fail 409 ''resource observations do not match recorded reads'')))"

text \<open>What an acquired request keeps for good.\<close>

definition keeps_request :: "request_snapshot \<Rightarrow> request_snapshot option \<Rightarrow> bool" where
  "keeps_request previous next_request = (case next_request of None \<Rightarrow> False
     | Some q \<Rightarrow> rq_originalText q = rq_originalText previous \<and> rq_authorId q = rq_authorId previous
         \<and> rq_sourceRef q = rq_sourceRef previous \<and> identical (rq_codeExecution q) (rq_codeExecution previous)
         \<and> identical (rq_deliveryMode q) (rq_deliveryMode previous) \<and> identical (rq_mode q) (rq_mode previous)
         \<and> list_eq (opt_list (rq_obligations q)) (opt_list (rq_obligations previous))
         \<and> revisions_prefix (rq_revisions previous) (rq_revisions q))"

definition reads_evidence :: "deps \<Rightarrow> action_intent \<Rightarrow> bool" where
  "reads_evidence d i = (ha_action (ai_action i) \<in> set [''research.read'', ''task.read_attachment'']
     \<or> (case dp_tools d of None \<Rightarrow> False
        | Some ts \<Rightarrow> list_ex (\<lambda>t. tl_action t = ha_action (ai_action i) \<and> tl_effect t = ReadEffect) ts))"

text \<open>Each new evidence item comes from a recorded authorized read of this request version.\<close>

fun grow_evidence :: "deps \<Rightarrow> work_item \<Rightarrow> int \<Rightarrow> ledger \<Rightarrow> evidence_snapshot \<Rightarrow> evidence_item list \<Rightarrow> os_error + evidence_snapshot" where
  "grow_evidence d work version l known [] = Inr known"
| "grow_evidence d work version l known (x # xs) =
     (case el_actionKey x of
        None \<Rightarrow> Inl (fail 409 ''evidence lacks a current authorized read intent'')
      | Some key \<Rightarrow> (case (if key = [] then None else findIntent key l) of
          None \<Rightarrow> Inl (fail 409 ''evidence lacks a current authorized read intent'')
        | Some i \<Rightarrow>
            if \<not> scoped_intent work version i \<or> \<not> reads_evidence d i
            then Inl (fail 409 ''evidence lacks a current authorized read intent'')
            else (case find_result key l of
                None \<Rightarrow> Inl (fail 409 ''evidence lacks a recorded research read'')
              | Some r \<Rightarrow> bindR (appendReadEvidence (dp_hash d) known key r (ha_action (ai_action i)))
                  (\<lambda>known'. grow_evidence d work version l known' xs))))"

definition check_growth :: "deps \<Rightarrow> work_item \<Rightarrow> ledger \<Rightarrow> request_snapshot option \<Rightarrow> request_snapshot option \<Rightarrow> os_error + unit" where
  "check_growth d work l own next_request =
     (let new = (case next_request of None \<Rightarrow> None | Some q \<Rightarrow> rq_evidence q) in
      case (case own of None \<Rightarrow> None | Some p \<Rightarrow> rq_evidence p) of
        None \<Rightarrow> if (case new of None \<Rightarrow> False | Some e \<Rightarrow> list_ex (\<lambda>x. el_actionKey x \<noteq> None) (es_items e))
          then Inl (fail 409 ''research evidence requires a saved initial snapshot'') else Inr ()
      | Some old \<Rightarrow>
          if new = Some old then Inr ()
          else (case new of
              None \<Rightarrow> Inl (fail 409 ''acquired evidence cannot be rewritten'')
            | Some e \<Rightarrow>
                if length (es_items e) \<le> length (es_items old)
                  \<or> take (length (es_items old)) (es_items e) \<noteq> es_items old
                then Inl (fail 409 ''acquired evidence cannot be rewritten'')
                else bindR (grow_evidence d work (saved_version next_request) l old (drop (length (es_items old)) (es_items e))) (\<lambda>expected.
                  if expected = e then Inr () else Inl (fail 409 ''evidence does not match recorded research reads''))))"

subsection \<open>Saving\<close>

definition check_steering :: "deps \<Rightarrow> int \<Rightarrow> lease_proof \<Rightarrow> request_snapshot \<Rightarrow> (plane, unit) prog" where
  "check_steering d now proof r =
     (if rq_revisions r = [] then ret ()
      else andThen (heartbeatS d now proof) (\<lambda>hb. case hb of
          None \<Rightarrow> throw (fail 409 ''work lease lost before saving revisions'')
        | Some row \<Rightarrow> guardE (revisions_prefix (rq_revisions r) (map revision_of (hb_steer row)))
            (fail 400 ''request revisions do not match persisted human steering'')))"

definition store_session :: "deps \<Rightarrow> int \<Rightarrow> lease_proof \<Rightarrow> work_item \<Rightarrow> session \<Rightarrow> (plane, int) prog" where
  "store_session d now proof work q =
     andThen (\<lambda>s. case save_session q (pl_sessions s) of (r, m) \<Rightarrow> (Inr r, s\<lparr>pl_sessions := m\<rparr>)) (\<lambda>saved. case saved of
        Saved n \<Rightarrow> ret n
      | Conflict \<Rightarrow>
          step_then (requireLease d now proof False)
          (andThen (asks (\<lambda>s. get_session (ss_key q) (Some (wi_id work)) (pl_sessions s))) (\<lambda>current. case current of
             Some c \<Rightarrow>
               if ss_revision c = ss_revision q + 1 \<and> session_eq c (q\<lparr>ss_revision := ss_revision c\<rparr>)
               then ret (ss_revision c)
               else throw (fail_code 409 ''session revision conflict'' ''session_conflict'')
           | None \<Rightarrow> throw (fail_code 409 ''session revision conflict'' ''session_conflict''))))"

definition saveSession :: "deps \<Rightarrow> request_snapshot option \<Rightarrow> int \<Rightarrow> lease_proof \<Rightarrow> session \<Rightarrow> (plane, int) prog" where
  "saveSession d parent now proof q =
     andThen (requireLease d now proof False) (\<lambda>work.
     step_then (liftR (dp_authorizeWork d work))
     (step_then (guardE (session_record_ok work q) (fail 400 ''invalid session record for this work lease''))
     (step_then (case ss_request q of None \<Rightarrow> ret () | Some r \<Rightarrow> liftR (check_request d work parent r))
     (step_then (case ss_request q of None \<Rightarrow> ret () | Some r \<Rightarrow> check_steering d now proof r)
     (andThen (asks (\<lambda>s. own_previous work (case get_session (work_session_key work) (Some (wi_id work)) (pl_sessions s) of
          None \<Rightarrow> None | Some c \<Rightarrow> ss_request c))) (\<lambda>own.
      step_then (\<lambda>s. (check_observations work (pl_ledger s) own (ss_request q), s))
      (step_then (guardE (case own of None \<Rightarrow> True | Some p \<Rightarrow> keeps_request p (ss_request q))
          (fail 409 ''acquired request and evidence snapshots cannot be rewritten''))
      (step_then (\<lambda>s. (check_growth d work (pl_ledger s) own (ss_request q), s))
      (store_session d now proof work q)))))))))"

end
