(* ===== verification/ContextLoad.thy ===== *)
theory ContextLoad
  imports SaveSession
begin

text \<open>
  \<open>loadContext\<close> of \<open>ControlPlaneService\<close> (src/control-plane/service.ts) with the response profile of
  src/runtime/response-policy.ts: the context of an attempt as the control plane hands it to the
  worker, its grants, tools, dependencies, execution steps and prior artifacts.
\<close>

definition responseProfile :: "bool \<Rightarrow> work_item \<Rightarrow> execution_step list \<Rightarrow> int \<Rightarrow> response_profile" where
  "responseProfile auto work steps version =
     (if auto \<and> wi_kind work = ''turn'' \<and> wi_lane work = Interactive
        \<and> truthy_json (prop_of (wi_meta work) ''delegation'') = None \<and> truthy_json (prop_of (wi_meta work) ''parentWorkId'') = None
        \<and> (case prop_of (wi_meta work) ''attachments'' of Some (JArr vs) \<Rightarrow> vs = [] | _ \<Rightarrow> True)
        \<and> \<not> list_ex (\<lambda>x. xs_requestVersion x = version \<and> xs_kind x \<notin> set [''runtime.binding'', ''runtime.checkpoint'']) steps
      then FastProfile else DeepProfile)"

text \<open>A request with attachments is always answered in depth.\<close>

definition context_profile :: "deps \<Rightarrow> work_item \<Rightarrow> session option \<Rightarrow> execution_step list \<Rightarrow> int \<Rightarrow> response_profile" where
  "context_profile d work sess steps version =
     (if (case sess of None \<Rightarrow> False | Some q \<Rightarrow> (case ss_request q of None \<Rightarrow> False
           | Some r \<Rightarrow> all_attachments r \<noteq> []))
      then DeepProfile else responseProfile (dp_autoResponses d) work steps version)"

definition context_snapshot :: "deps \<Rightarrow> work_item \<Rightarrow> plane \<Rightarrow> os_error + session option \<times> execution_step list \<times> int" where
  "context_snapshot d work s = (case dp_contextSnapshot d of
      Some snap \<Rightarrow> snap work
    | None \<Rightarrow> (let sess = get_session (work_session_key work) (Some (wi_id work)) (pl_sessions s) in
        Inr (sess, list_steps (wi_id work) None (pl_steps s),
          (case sess of None \<Rightarrow> 1 | Some q \<Rightarrow> (case ss_request q of None \<Rightarrow> 1 | Some r \<Rightarrow> request_version r)))))"

subsection \<open>Artifacts of earlier attempts\<close>

fun put_artifacts :: "(string, artifact) jsmap \<Rightarrow> artifact list \<Rightarrow> os_error + (string, artifact) jsmap" where
  "put_artifacts m [] = Inr m"
| "put_artifacts m (a # as) = (let m' = AList.update (af_path a) a m in
     if length m' > 512 then Inl (fail 409 ''prior artifact inventory exceeds the per-run limit'') else put_artifacts m' as)"

fun prior_of_steps :: "(string, artifact) jsmap \<Rightarrow> execution_step list \<Rightarrow> os_error + (string, artifact) jsmap" where
  "prior_of_steps m [] = Inr m"
| "prior_of_steps m (x # xs) = bindR (snapshotArtifacts (xs_artifacts x)) (\<lambda>as.
     bindR (put_artifacts m as) (\<lambda>m'. prior_of_steps m' xs))"

definition prior_artifacts :: "work_item \<Rightarrow> execution_step list \<Rightarrow> artifact list \<Rightarrow> os_error + artifact list" where
  "prior_artifacts work steps recorded =
     (if wi_fence work \<le> 1 then Inr []
      else bindR (prior_of_steps [] steps) (\<lambda>m.
        bindR (snapshotArtifacts recorded) (\<lambda>as.
          Inr (jvalues (foldl (\<lambda>m a. AList.update (af_path a) a m) m as)))))"

subsection \<open>The turn context\<close>

record turn_context =
  tx_work :: work_item
  tx_provided :: provided_context
  tx_fence :: int
  tx_requestVersion :: int
  tx_sessionRevision :: int
  tx_session :: "session option option"
  tx_steps :: "execution_step list"
  tx_checkpoint :: "jobj option"
  tx_grants :: "capability_grant list"
  tx_dependencies :: "(string \<times> work_status \<times> goal_outcome option) list"
  tx_tools :: "tool list"
  tx_priorArtifacts :: "artifact list"

text \<open>A captured request always carries the task namespace.\<close>

definition with_task_capability :: "work_item \<Rightarrow> provided_context \<Rightarrow> provided_context" where
  "with_task_capability work c = (if \<not> captured work then c
     else let caps = js_set (pc_capabilities c @ [''task'']) in
       c\<lparr>pc_capabilities := caps,
         pc_promptContext := map_option (\<lambda>p. AList.update ''capabilities'' (JArr (map JStr caps)) p) (pc_promptContext c)\<rparr>)"

definition with_task_grant :: "work_item \<Rightarrow> capability_grant list \<Rightarrow> capability_grant list" where
  "with_task_grant work grants =
     (if captured work \<and> \<not> list_ex (\<lambda>g. cg_name g = ''task'') grants then grants @ [task_grant] else grants)"

fun permitted_tools :: "work_item \<Rightarrow> tool list \<Rightarrow> os_error + tool list" where
  "permitted_tools work [] = Inr []"
| "permitted_tools work (t # ts) = bindR (permitsTool (wi_meta work) t) (\<lambda>ok.
     bindR (permitted_tools work ts) (\<lambda>r. Inr (if ok then t # r else r)))"

definition last_checkpoint :: "int \<Rightarrow> execution_step list \<Rightarrow> jobj option" where
  "last_checkpoint version steps = map_option xs_input
     (List.find (\<lambda>x. xs_kind x = ''runtime.checkpoint'' \<and> xs_requestVersion x = version) (rev steps))"

definition loadContext :: "deps \<Rightarrow> int \<Rightarrow> lease_proof \<Rightarrow> bool \<Rightarrow> (plane, turn_context) prog" where
  "loadContext d now proof includeSession =
     andThen (requireLease d now proof False) (\<lambda>work.
     step_then (liftR (dp_authorizeWork d work))
     (andThen (\<lambda>s. (context_snapshot d work s, s)) (\<lambda>(sess, steps, version).
      andThen (liftR (dp_loadContext d work (context_profile d work sess steps version))) (\<lambda>provided.
      andThen (asks (\<lambda>s. work_children work (pl_work s))) (\<lambda>dependencies.
      let grants = with_task_grant work (case pc_grants provided of None \<Rightarrow> dp_resolve d work | Some g \<Rightarrow> g) in
      step_then (case sess of None \<Rightarrow> ret () | Some q \<Rightarrow>
          (case ss_request q of None \<Rightarrow> ret () | Some r \<Rightarrow> liftR (dp_authorizeRequest d work r)))
      (andThen (\<lambda>s. (prior_artifacts work steps (ledger_artifacts (wi_id work) (pl_ledger s)), s)) (\<lambda>prior.
       step_then (requireLease d now proof False)
       (andThen (liftR (permitted_tools work (grantedTools (catalog d) grants))) (\<lambda>tools.
        ret \<lparr>tx_work = work, tx_provided = with_task_capability work provided, tx_fence = wi_fence work,
          tx_requestVersion = version, tx_sessionRevision = (case sess of None \<Rightarrow> 0 | Some q \<Rightarrow> ss_revision q),
          tx_session = (if includeSession then Some sess else None), tx_steps = steps,
          tx_checkpoint = last_checkpoint version steps, tx_grants = grants, tx_dependencies = dependencies,
          tx_tools = tools, tx_priorArtifacts = prior\<rparr>)))))))))"

end
