(* ===== verification/LedgerInv.thy ===== *)
theory LedgerInv
  imports ActionLedger
begin

text \<open>
  What the action ledger guarantees along every sequence of its operations: an action key is
  reserved once, its intent never changes, its first final receipt is the one every later caller
  sees, and only an explicit resolution overrides it.
\<close>

subsection \<open>Runs of the ledger\<close>

inductive lstep :: "ledger \<Rightarrow> ledger \<Rightarrow> bool" where
  l_reserve: "lstep l (snd (reserve key fp intent l))"
| l_record: "lstep l (snd (record_result key r l))"
| l_resolve: "lstep l (snd (recordResolution res l))"

inductive_cases lstepE: "lstep l l'"

text \<open>
  Fingerprints and intents have the same keys in the same order, an intent is stored under its own
  key, and receipts and resolutions belong to intents.
\<close>

definition ledger_ok :: "ledger \<Rightarrow> bool" where
  "ledger_ok l = (map fst (lg_intents l) = map fst (lg_details l) \<and> keys_distinct (lg_intents l)
     \<and> keys_distinct (lg_results l) \<and> keys_distinct (lg_resolutions l)
     \<and> (\<forall>k i. map_of (lg_details l) k = Some i \<longrightarrow> ha_key (ai_action i) = k)
     \<and> (\<forall>k r. map_of (lg_results l) k = Some r \<longrightarrow> jhas (lg_intents l) k)
     \<and> (\<forall>k rs. map_of (lg_resolutions l) k = Some rs \<longrightarrow> rs \<noteq> [] \<and> jhas (lg_intents l) k))"

lemma ledger_ok_empty: "ledger_ok empty_ledger"
  by (simp add: ledger_ok_def empty_ledger_def)

lemma reserve_cases:
  obtains (err) e where "reserve key fp intent l = (Inl e, l)"
  | (old) "reserve key fp intent l = (Inr Existing, l)" and "map_of (lg_intents l) key = Some fp"
  | (new) "reserve key fp intent l = (Inr Started, l\<lparr>lg_intents := AList.update key fp (lg_intents l),
        lg_details := AList.update key intent (lg_details l)\<rparr>)"
      and "map_of (lg_intents l) key = None" and "ha_key (ai_action intent) = key"
proof (cases "ha_key (ai_action intent) = key")
  case False
  then show thesis using err by (simp add: reserve_def)
next
  case True
  show thesis
  proof (cases "map_of (lg_intents l) key")
    case None
    with True show thesis using new by (simp add: reserve_def)
  next
    case (Some a)
    show thesis
    proof (cases "a = fp")
      case True
      with Some \<open>ha_key (ai_action intent) = key\<close> show thesis using old by (simp add: reserve_def)
    next
      case False
      with Some \<open>ha_key (ai_action intent) = key\<close> show thesis using err by (simp add: reserve_def)
    qed
  qed
qed

lemma record_cases:
  obtains (err) e where "record_result key r l = (Inl e, l)" and "\<not> jhas (lg_intents l) key"
  | (kept) old where "record_result key r l = (Inr old, l)" and "map_of (lg_results l) key = Some old"
      and "hr_approval old = None"
  | (written) "record_result key r l = (Inr r, l\<lparr>lg_results := AList.update key r (lg_results l)\<rparr>)"
      and "jhas (lg_intents l) key"
      and "case map_of (lg_results l) key of None \<Rightarrow> True | Some old \<Rightarrow> hr_approval old \<noteq> None"
proof (cases "jhas (lg_intents l) key")
  case False
  then show thesis using err by (simp add: record_result_def)
next
  case known: True
  show thesis
  proof (cases "\<exists>old. map_of (lg_results l) key = Some old \<and> hr_approval old = None")
    case True
    with known show thesis using kept by (auto simp: record_result_def)
  next
    case False
    then have free: "case map_of (lg_results l) key of None \<Rightarrow> True | Some old \<Rightarrow> hr_approval old \<noteq> None"
      by (auto split: option.splits)
    then have "record_result key r l = (Inr r, l\<lparr>lg_results := AList.update key r (lg_results l)\<rparr>)"
      using known by (auto simp: record_result_def split: option.splits)
    with known free show thesis using written by blast
  qed
qed

lemma resolution_cases:
  obtains (same) x where "recordResolution res l = (x, l)"
  | (new) "recordResolution res l = (Inr Recorded, l\<lparr>lg_resolutionIds := AList.update (rs_id res) res (lg_resolutionIds l),
        lg_resolutions := AList.update (rs_actionKey res)
          ((case map_of (lg_resolutions l) (rs_actionKey res) of None \<Rightarrow> [] | Some rs \<Rightarrow> rs) @ [res])
          (lg_resolutions l)\<rparr>)" and "jhas (lg_intents l) (rs_actionKey res)"
proof (cases "jhas (lg_intents l) (rs_actionKey res)")
  case False
  then show thesis using same by (simp add: recordResolution_def)
next
  case known: True
  show thesis
  proof (cases "map_of (lg_resolutionIds l) (rs_id res)")
    case None
    with known show thesis using new by (simp add: recordResolution_def)
  next
    case (Some prior)
    then have "\<exists>x. recordResolution res l = (x, l)" using known by (simp add: recordResolution_def)
    then show thesis using same by blast
  qed
qed

lemma reserve_ok: "ledger_ok l \<Longrightarrow> ledger_ok (snd (reserve key fp intent l))"
proof (cases rule: reserve_cases [of key fp intent l])
  case new
  assume ok: "ledger_ok l"
  have "fst ` set (lg_details l) = fst ` set (lg_intents l)"
    using ok by (metis ledger_ok_def list.set_map)
  then have "map fst (AList.update key fp (lg_intents l)) = map fst (AList.update key intent (lg_details l))"
    using ok by (simp add: jset_keys ledger_ok_def)
  with ok new show ?thesis by (auto simp: ledger_ok_def)
qed simp_all

lemma record_ok: "ledger_ok l \<Longrightarrow> ledger_ok (snd (record_result key r l))"
  by (cases rule: record_cases [of key r l]) (auto simp: ledger_ok_def)

lemma resolution_ok: "ledger_ok l \<Longrightarrow> ledger_ok (snd (recordResolution res l))"
  by (cases rule: resolution_cases [of res l]) (auto simp: ledger_ok_def)

interpretation ledger_run: transition_system "\<lambda>l. l = empty_ledger" lstep ledger_ok
proof
  show "ledger_ok s'" if "ledger_ok s" "lstep s s'" for s s'
    using that(2,1) by cases (auto intro: reserve_ok record_ok resolution_ok)
qed (simp add: ledger_ok_empty)

subsection \<open>What a step keeps\<close>

lemma lstep_intent: "lstep l l' \<Longrightarrow> map_of (lg_intents l) key = Some fp \<Longrightarrow> map_of (lg_intents l') key = Some fp"
proof (erule lstepE)
  fix key' fp' intent
  assume "l' = snd (reserve key' fp' intent l)" "map_of (lg_intents l) key = Some fp"
  then show "map_of (lg_intents l') key = Some fp" by (cases rule: reserve_cases [of key' fp' intent l]) auto
next
  fix key' r
  assume "l' = snd (record_result key' r l)" "map_of (lg_intents l) key = Some fp"
  then show "map_of (lg_intents l') key = Some fp" by (cases rule: record_cases [of key' r l]) auto
next
  fix res
  assume "l' = snd (recordResolution res l)" "map_of (lg_intents l) key = Some fp"
  then show "map_of (lg_intents l') key = Some fp" by (cases rule: resolution_cases [of res l]) auto
qed

lemma lsteps_intent: "lstep\<^sup>*\<^sup>* l l' \<Longrightarrow> map_of (lg_intents l) key = Some fp \<Longrightarrow> map_of (lg_intents l') key = Some fp"
  by (induction rule: rtranclp_induct) (auto intro: lstep_intent)

lemma details_known: "ledger_ok l \<Longrightarrow> map_of (lg_details l) key = Some i \<Longrightarrow> jhas (lg_intents l) key"
  unfolding jhas_keys by (metis jhas_def jhas_keys ledger_ok_def option.distinct(1))

lemma lstep_details:
  assumes "lstep l l'" and ok: "ledger_ok l" and i: "map_of (lg_details l) key = Some i"
  shows "map_of (lg_details l') key = Some i"
  using assms(1)
proof cases
  case (l_reserve key' fp intent)
  then show ?thesis using i details_known [OF ok i]
    by (cases rule: reserve_cases [of key' fp intent l]) (auto simp: jhas_def)
next
  case (l_record key' r)
  then show ?thesis using i by (cases rule: record_cases [of key' r l]) auto
next
  case (l_resolve res)
  then show ?thesis using i by (cases rule: resolution_cases [of res l]) auto
qed

text \<open>A receipt without approval is final.\<close>

lemma lstep_result:
  assumes "lstep l l'" and "map_of (lg_results l) key = Some r" and "hr_approval r = None"
  shows "map_of (lg_results l') key = Some r"
  using assms(1)
proof cases
  case (l_reserve key' fp intent)
  then show ?thesis using assms(2) by (cases rule: reserve_cases [of key' fp intent l]) auto
next
  case (l_record key' r')
  then show ?thesis using assms(2,3) by (cases rule: record_cases [of key' r' l]) auto
next
  case (l_resolve res)
  then show ?thesis using assms(2) by (cases rule: resolution_cases [of res l]) auto
qed

lemma lsteps_result:
  "lstep\<^sup>*\<^sup>* l l' \<Longrightarrow> map_of (lg_results l) key = Some r \<Longrightarrow> hr_approval r = None \<Longrightarrow>
   map_of (lg_results l') key = Some r"
  by (induction rule: rtranclp_induct) (auto intro: lstep_result)

subsection \<open>Guarantees\<close>

definition sample_intent :: action_intent where
  "sample_intent = \<lparr>ai_toolContractHash = None, ai_workId = ''w'', ai_tenantId = ''t'',
     ai_principalId = None, ai_agentId = ''a'', ai_sessionId = ''s'', ai_threadId = None,
     ai_requestVersion = Some 1, ai_action = \<lparr>ha_runId = ''w'', ha_cellId = ''c'', ha_callIndex = 0,
       ha_action = ''mail.send'', ha_args = [], ha_key = ''k''\<rparr>\<rparr>"

definition sample_ledger :: ledger where
  "sample_ledger = snd (reserve ''k'' ''f'' sample_intent empty_ledger)"

lemma sample_reserved: "reserve ''k'' ''f'' sample_intent empty_ledger = (Inr Started, sample_ledger)"
  by (simp add: sample_ledger_def reserve_def sample_intent_def empty_ledger_def)

text \<open>An action identity is reserved at most once. After one caller's reservation of a key has
  started, no later reservation of the key, by whichever caller and after whatever ledger
  operations, starts again.\<close>

theorem reserved_once:
  assumes "reserve key fp intent l = (Inr Started, l1)" and "lstep\<^sup>*\<^sup>* l1 l2"
  shows "fst (reserve key fp' intent' l2) \<noteq> Inr Started"
proof -
  have "map_of (lg_intents l1) key = Some fp"
    using assms(1) by (cases rule: reserve_cases [of key fp intent l]) auto
  then have known: "map_of (lg_intents l2) key = Some fp" using lsteps_intent assms(2) by blast
  show ?thesis
    using known by (cases rule: reserve_cases [of key fp' intent' l2]) auto
qed

lemma reserved_once_witness:
  "fst (reserve ''k'' ''f'' sample_intent (snd (record_result ''k'' (empty_result True) sample_ledger))) \<noteq> Inr Started"
  by (rule reserved_once [OF sample_reserved r_into_rtranclp]) (rule l_record)

text \<open>The first final receipt wins. Once a receipt without a pending approval is recorded for
  an action, every later attempt to record another one returns the first and changes nothing, and
  it is the result every reader finds until a resolution is recorded for the action.\<close>

theorem first_receipt_wins:
  assumes "record_result key r l = (Inr w, l1)" and "hr_approval w = None" and "ledger_ok l"
    and "lstep\<^sup>*\<^sup>* l1 l2"
  shows "record_result key r' l2 = (Inr w, l2)
    \<and> (map_of (lg_resolutions l2) key = None \<longrightarrow> find_result key l2 = Some w)"
proof -
  have w: "map_of (lg_results l1) key = Some w" and "jhas (lg_intents l1) key"
    using assms(1) assms(3)
    by (cases rule: record_cases [of key r l]; force simp: ledger_ok_def)+
  then have "map_of (lg_results l2) key = Some w" "jhas (lg_intents l2) key"
    using lsteps_result [OF assms(4) w assms(2)] lsteps_intent [OF assms(4)] by (auto simp: jhas_def)
  then show ?thesis using assms(2)
    by (simp add: record_result_def find_result_def effectiveResult_def)
qed

lemma sample_ledger_ok: "ledger_ok sample_ledger"
  using reserve_ok [OF ledger_ok_empty] by (simp add: sample_ledger_def)

lemma first_receipt_wins_witness:
  "record_result ''k'' (empty_result False) (snd (record_result ''k'' (empty_result True) sample_ledger))
     = (Inr (empty_result True), snd (record_result ''k'' (empty_result True) sample_ledger))"
proof -
  have "record_result ''k'' (empty_result True) sample_ledger
      = (Inr (empty_result True), snd (record_result ''k'' (empty_result True) sample_ledger))" by code_simp
  from first_receipt_wins [OF this _ sample_ledger_ok rtranclp.rtrancl_refl] show ?thesis
    by (simp add: empty_result_def)
qed

text \<open>Recording a resolution makes its result the effective one, whatever receipt or earlier
  resolution there was, without touching intents or receipts; a later receipt does not undo it.\<close>

theorem resolution_overrides:
  assumes "recordResolution res l = (Inr Recorded, l1)"
  shows "find_result (rs_actionKey res) l1 = Some (rs_result res)
    \<and> lg_results l1 = lg_results l \<and> lg_intents l1 = lg_intents l \<and> lg_details l1 = lg_details l
    \<and> find_result (rs_actionKey res) (snd (record_result (rs_actionKey res) r l1)) = Some (rs_result res)"
proof -
  let ?old = "case map_of (lg_resolutions l) (rs_actionKey res) of None \<Rightarrow> [] | Some rs \<Rightarrow> rs"
  have l1: "l1 = l\<lparr>lg_resolutionIds := AList.update (rs_id res) res (lg_resolutionIds l),
        lg_resolutions := AList.update (rs_actionKey res) (?old @ [res]) (lg_resolutions l)\<rparr>"
    using assms by (auto simp: recordResolution_def split: option.splits if_splits)
  have eff: "effectiveResult l' (rs_actionKey res) = Some (rs_result res)"
    if "map_of (lg_resolutions l') (rs_actionKey res) = Some (?old @ [res])" for l'
    using that by (cases ?old) (auto simp: effectiveResult_def)
  have "lg_resolutions (snd (record_result (rs_actionKey res) r l1)) = lg_resolutions l1"
    by (cases rule: record_cases [of "rs_actionKey res" r l1]) auto
  then show ?thesis using eff l1 by (simp add: find_result_def)
qed

definition sample_resolution :: action_resolution where
  "sample_resolution = \<lparr>rs_id = ''r1'', rs_actionKey = ''k'', rs_result = empty_result True,
     rs_evidence = [], rs_resolvedBy = ''ops''\<rparr>"

lemma resolution_overrides_witness:
  "find_result ''k'' (snd (recordResolution sample_resolution sample_ledger)) = Some (empty_result True)"
proof -
  have "recordResolution sample_resolution sample_ledger
      = (Inr Recorded, snd (recordResolution sample_resolution sample_ledger))" by code_simp
  from resolution_overrides [OF this] show ?thesis by (simp add: sample_resolution_def)
qed

end
