(* ===== verification/PlaneFrame.thy ===== *)
theory PlaneFrame
  imports ContextLoad WorkStoreSafety LedgerInv
begin

text \<open>
  How the service operations use the stores. A locale states what may happen to the state in one
  primitive step of a service operation (one operation of one store, a guarded event, a logged port
  call); inside it every operation of \<open>ControlPlaneService\<close> is shown to be made of such steps. Its
  interpretations give the refinement of the plane to its stores and the frame conditions the
  safety theorems need.
\<close>

named_theorems keeps_rules "programs made of allowed steps"

definition keeps :: "(plane \<Rightarrow> plane \<Rightarrow> bool) \<Rightarrow> (plane, 'a) prog \<Rightarrow> bool" where
  "keeps R f = (\<forall>s. R s (snd (f s)))"

lemma keeps_apply: "keeps R f \<Longrightarrow> f s = (x, s') \<Longrightarrow> R s s'"
  by (metis keeps_def snd_conv)

text \<open>Steps of the stores that have no relation of their own yet.\<close>

inductive xstep :: "step_store \<Rightarrow> step_store \<Rightarrow> bool" where
  "xstep m (snd (save_step workId x m))"

inductive budget_op :: "budget_store \<Rightarrow> budget_store \<Rightarrow> bool" where
  "budget_op bs (snd (reserve_budget now root callId l bs))"
| "budget_op bs (snd (record_usage root callId inp out cost bs))"

text \<open>An event a valid lease may append: its own run, inside the sequence range of its fence.\<close>

definition leased_event :: "int \<Rightarrow> work_store \<Rightarrow> run_event \<Rightarrow> bool" where
  "leased_event now w e = (\<exists>i f h work c. getLeased now i f h w = Some (work, c) \<and> ev_runId e = wi_id work
     \<and> range_start work < ev_seq e \<and> ev_seq e \<le> range_end work)"

definition is_executed :: "port_call \<Rightarrow> bool" where
  "is_executed c = (case c of Executed w a \<Rightarrow> True | _ \<Rightarrow> False)"

lemma is_executed_simps [simp]: "is_executed (Executed w a)" "\<not> is_executed (Reconciled w a)"
    "\<not> is_executed (Delivered w m)" "\<not> is_executed (EventSent w e)" "\<not> is_executed (Staged w f bs)"
  by (simp_all add: is_executed_def)

lemma requireLease_Inr: "requireLease d now proof b s = (Inr work, s') \<longleftrightarrow>
    lp_id proof \<noteq> [] \<and> safe_int (lp_fence proof) \<and> lp_token proof \<noteq> [] \<and> s' = s
    \<and> (\<exists>c. getLeased now (lp_id proof) (lp_fence proof) (dp_hash d (lp_token proof)) (pl_work s) = Some (work, c) \<and> (b \<longrightarrow> \<not> c))"
  by (auto simp: requireLease_def split: option.splits prod.splits if_splits)

lemma requireLease_state: "snd (requireLease d now proof b s) = s"
  by (auto simp: requireLease_def split: option.splits prod.splits)

subsection \<open>Frames\<close>

locale plane_rel =
  fixes R :: "plane \<Rightarrow> plane \<Rightarrow> bool"
  assumes R_refl [intro, simp]: "R s s" and R_trans: "R s t \<Longrightarrow> R t u \<Longrightarrow> R s u"
begin

lemma keeps_basic [keeps_rules]:
  "keeps R (ret x)" "keeps R (throw e)" "keeps R (asks g)" "keeps R (liftR r)" "keeps R (guardE b e)"
  "keeps R (\<lambda>s. (h s, s))"
  by (simp_all add: keeps_def guardE_def)

lemma keeps_andThen [keeps_rules]:
  assumes "keeps R f" and "\<And>x. keeps R (g x)"
  shows "keeps R (andThen f g)"
  unfolding keeps_def
proof
  fix s
  obtain r s1 where f: "f s = (r, s1)" by (cases "f s")
  have 1: "R s s1" by (rule keeps_apply [OF assms(1) f])
  show "R s (snd (andThen f g s))"
  proof (cases r)
    case (Inr x)
    have "R s1 (snd (g x s1))" using assms(2) by (simp add: keeps_def)
    then show ?thesis using 1 f Inr by (auto simp: andThen_def intro: R_trans)
  qed (use 1 f in \<open>simp add: andThen_def\<close>)
qed

lemma keeps_catchE [keeps_rules]:
  assumes "keeps R f" and "\<And>e. keeps R (h e)"
  shows "keeps R (catchE f h)"
  unfolding keeps_def
proof
  fix s
  obtain r s1 where f: "f s = (r, s1)" by (cases "f s")
  have 1: "R s s1" by (rule keeps_apply [OF assms(1) f])
  show "R s (snd (catchE f h s))"
  proof (cases r)
    case (Inl e)
    have "R s1 (snd (h e s1))" using assms(2) by (simp add: keeps_def)
    then show ?thesis using 1 f Inl by (auto simp: catchE_def intro: R_trans)
  qed (use 1 f in \<open>simp add: catchE_def\<close>)
qed

lemma keeps_if [keeps_rules]: "keeps R f \<Longrightarrow> keeps R g \<Longrightarrow> keeps R (if b then f else g)"
  by simp

lemma keeps_option [keeps_rules]: "keeps R f \<Longrightarrow> (\<And>x. keeps R (g x)) \<Longrightarrow> keeps R (case z of None \<Rightarrow> f | Some x \<Rightarrow> g x)"
  by (cases z) simp_all

lemma keeps_sum [keeps_rules]: "(\<And>x. keeps R (f x)) \<Longrightarrow> (\<And>x. keeps R (g x)) \<Longrightarrow> keeps R (case z of Inl x \<Rightarrow> f x | Inr x \<Rightarrow> g x)"
  by (cases z) simp_all

lemma keeps_prod [keeps_rules]: "(\<And>x y. keeps R (f x y)) \<Longrightarrow> keeps R (case z of (x, y) \<Rightarrow> f x y)"
  by (cases z) simp

lemma keeps_entry [keeps_rules]: "(\<And>p. keeps R (f p)) \<Longrightarrow> (\<And>p n sha key. keeps R (g p n sha key))
    \<Longrightarrow> keeps R (case z of Directory p \<Rightarrow> f p | File p n sha key \<Rightarrow> g p n sha key)"
  by (cases z) simp_all

lemma keeps_saved [keeps_rules]: "(\<And>n. keeps R (f n)) \<Longrightarrow> keeps R g \<Longrightarrow> keeps R (case z of Saved n \<Rightarrow> f n | Conflict \<Rightarrow> g)"
  by (cases z) simp_all

lemma keeps_let [keeps_rules]: "(\<And>x. keeps R (f x)) \<Longrightarrow> keeps R (let x = v in f x)"
  by simp

lemma keeps_guard_state [keeps_rules]: "keeps R (\<lambda>s. guardE (b s) e s)"
  by (simp add: keeps_def guardE_def)

lemma keeps_case_state [keeps_rules]:
  "keeps R (\<lambda>s. (case f s of Inl x \<Rightarrow> throw e | Inr y \<Rightarrow> guardE (b y) e') s)"
  by (simp add: keeps_def guardE_def split: sum.split)

end

text \<open>The steps the service makes, at one instant and with one token hash.\<close>

locale service_frame = plane_rel +
  fixes hash :: "string \<Rightarrow> string" and now :: int
  assumes st_work: "wstep hash (now, pl_work s) (now, w) \<Longrightarrow> R s (s\<lparr>pl_work := w\<rparr>)"
    and st_ledger: "lstep (pl_ledger s) l \<Longrightarrow> R s (s\<lparr>pl_ledger := l\<rparr>)"
    and st_session: "sstep (pl_sessions s) m \<Longrightarrow> R s (s\<lparr>pl_sessions := m\<rparr>)"
    and st_steps: "xstep (pl_steps s) x \<Longrightarrow> R s (s\<lparr>pl_steps := x\<rparr>)"
    and st_budget: "budget_op (pl_budgets s) b \<Longrightarrow> R s (s\<lparr>pl_budgets := b\<rparr>)"
    and st_event: "leased_event now (pl_work s) (re_event e) \<Longrightarrow> R s (s\<lparr>pl_events := snd (append_event e (pl_events s))\<rparr>)"
    and st_call: "\<not> is_executed c \<Longrightarrow> R s (s\<lparr>pl_calls := pl_calls s @ [c]\<rparr>)"
begin

lemma keeps_on_work: "(\<And>s. wstep hash (now, s) (now, snd (f s))) \<Longrightarrow> keeps R (on_work f)"
  by (auto simp: keeps_def on_work_def split: prod.splits intro!: st_work) (metis snd_conv)

lemma keeps_work_prog: "(\<And>s. wstep hash (now, s) (now, snd (f s))) \<Longrightarrow> keeps R (work_prog f)"
  by (auto simp: keeps_def work_prog_def split: prod.splits intro!: st_work) (metis snd_conv)

lemma keeps_ledger_prog: "(\<And>s. lstep s (snd (f s))) \<Longrightarrow> keeps R (ledger_prog f)"
  by (auto simp: keeps_def ledger_prog_def split: prod.splits intro!: st_ledger) (metis snd_conv)

lemma keeps_log [keeps_rules]: "\<not> is_executed c \<Longrightarrow> keeps R (log_call c)"
  by (simp add: keeps_def log_call_def st_call)

lemma keeps_record [keeps_rules]: "keeps R (ledger_prog (record_result k r))" "keeps R (ledger_prog (reserve k f i))"
    "keeps R (ledger_prog (recordResolution x))"
  by (intro keeps_ledger_prog lstep.intros)+

lemma keeps_work_ops [keeps_rules]:
  "keeps R (work_prog (enqueue now uuid input))" "keeps R (work_prog (claim hash now token q))"
  "keeps R (on_work (heartbeat now i f h))" "keeps R (on_work (yieldWork now i f h))"
  "keeps R (work_prog (complete now i f h c))" "keeps R (on_work (wait now i f h g))"
  "keeps R (on_work (requestCancel now i))" "keeps R (on_work (requestPreempt now i))"
  "keeps R (on_work (addSteer now uuid i t))"
  by (intro keeps_on_work keeps_work_prog wstep.intros order_refl)+


subsubsection \<open>Leases and lifecycle\<close>

lemma keeps_requireLease [keeps_rules]: "keeps R (requireLease d now proof b)"
  by (auto simp: keeps_def requireLease_def split: option.splits prod.splits)

lemma keeps_heartbeat [keeps_rules]: "dp_hash d = hash \<Longrightarrow> keeps R (heartbeatS d now proof)"
  unfolding heartbeatS_def by (intro keeps_rules)

lemma keeps_getSession [keeps_rules]: "keeps R (getSession d now proof key)"
  unfolding getSession_def by (intro keeps_rules)

lemma keeps_current_request [keeps_rules]: "keeps R (current_request d now proof work)"
  unfolding current_request_def by (intro keeps_rules)

lemma keeps_validateWait [keeps_rules]: "keeps R (validateWait work g)"
  by (auto simp: keeps_def validateWait_def guardE_def split: goal_status.splits)

lemma keeps_checkOutcome [keeps_rules]: "keeps R (checkOutcome d now proof work g)"
  unfolding checkOutcome_def checkCommitted_def by (intro keeps_rules)

lemma keeps_lifecycle [keeps_rules]:
  "keeps R (enqueueS now uuid input)" "dp_hash d = hash \<Longrightarrow> keeps R (claimS d now token q)"
  "keeps R (addSteerS now uuid i t)" "keeps R (requestCancelS now i)" "keeps R (requestPreemptS now i)"
  "dp_hash d = hash \<Longrightarrow> keeps R (yieldWorkS d now proof)"
  "dp_hash d = hash \<Longrightarrow> keeps R (completeS d now proof c)"
  "dp_hash d = hash \<Longrightarrow> keeps R (waitWorkS d now proof g)"
  unfolding enqueueS_def claimS_def addSteerS_def requestCancelS_def requestPreemptS_def yieldWorkS_def
    completeS_def waitWorkS_def
  by (intro keeps_rules | simp)+

subsubsection \<open>Records\<close>

lemma keeps_step_save [keeps_rules]:
  "keeps R (\<lambda>s. case save_step workId x (pl_steps s) of (r, m) \<Rightarrow> (r, s\<lparr>pl_steps := m\<rparr>))"
  by (auto simp: keeps_def split: prod.splits intro!: st_steps) (metis snd_conv xstep.intros)

lemma keeps_saveStep [keeps_rules]: "keeps R (saveStepS d now proof x)"
  unfolding saveStepS_def by (intro keeps_rules)

lemma keeps_budgets [keeps_rules]:
  "keeps R (\<lambda>s. case reserve_budget now root callId l (pl_budgets s) of (r, bs) \<Rightarrow> (Inr r, s\<lparr>pl_budgets := bs\<rparr>))"
  "keeps R (\<lambda>s. case record_usage root callId inp out cost (pl_budgets s) of (r', bs) \<Rightarrow> (r', s\<lparr>pl_budgets := bs\<rparr>))"
  by (auto simp: keeps_def split: prod.splits intro!: st_budget) (metis snd_conv budget_op.intros)+

lemma keeps_model_calls [keeps_rules]:
  "keeps R (reserveModelCallS d now proof callId l)"
  "keeps R (recordModelUsageS d now proof callId inp out cost obs)"
proof -
  have issued: "keeps R (issued_or_leased d now proof)"
    using keeps_requireLease by (auto simp: keeps_def issued_or_leased_def split: option.splits)
  show "keeps R (reserveModelCallS d now proof callId l)"
    unfolding reserveModelCallS_def by (intro keeps_rules)
  show "keeps R (recordModelUsageS d now proof callId inp out cost obs)"
    unfolding recordModelUsageS_def by (intro keeps_rules issued)
qed

lemma keeps_resolveAction [keeps_rules]: "keeps R (resolveActionS r sc)"
  unfolding resolveActionS_def by (intro keeps_rules)

subsubsection \<open>Run events\<close>

lemma keeps_append:
  assumes "leased_event now (pl_work s) e" and "re_event x = e"
  shows "R s (snd (case append_event x (pl_events s) of (fresh, es) \<Rightarrow> (Inr fresh, s\<lparr>pl_events := es\<rparr>)))"
  using st_event [of s x] assms by (simp add: split_beta)

lemma after_step: "R s (snd (f s)) \<Longrightarrow> (\<And>x. keeps R (g x)) \<Longrightarrow> R s (snd (andThen f g s))"
  by (auto simp: andThen_def keeps_def split: prod.splits sum.splits intro: R_trans)

lemma keeps_recordEvent [keeps_rules]: "keeps R (recordEventS d now proof e)"
  unfolding keeps_def
proof
  fix s
  obtain r s1 where lease: "requireLease d now proof False s = (r, s1)" by (cases "requireLease d now proof False s")
  have s1: "s1 = s" using requireLease_state lease by (metis snd_conv)
  show "R s (snd (recordEventS d now proof e s))"
  proof (cases r)
    case (Inl x)
    then show ?thesis using lease s1 by (simp add: recordEventS_def andThen_def)
  next
    case (Inr work)
    then obtain c where got: "getLeased now (lp_id proof) (lp_fence proof) (dp_hash d (lp_token proof)) (pl_work s) = Some (work, c)"
      using lease by (auto simp: requireLease_Inr)
    then have le: "valid_event work e \<Longrightarrow> range_start work < ev_seq e \<Longrightarrow> ev_seq e \<le> range_end work
        \<Longrightarrow> leased_event now (pl_work s) e"
      unfolding leased_event_def valid_event_def by blast
    have tail: "keeps R (if fresh then log_call (EventSent (wi_id work) e)
        else step_then (requireLease d now proof False) (ret ()))" for fresh
      by (intro keeps_rules) simp
    have run: "recordEventS d now proof e s =
        (if valid_event work e
         then if range_start work < ev_seq e \<and> ev_seq e \<le> range_end work
           then if ev_kind e \<noteq> ''ipython.completed'' \<or> event_artifacts_ok (map_of (ev_data e) ''artifacts'')
             then andThen (\<lambda>s. case append_event \<lparr>re_event = e, re_tenant = wi_tenantId work, re_agent = wi_agentId work,
                   re_recordedAt = now\<rparr> (pl_events s) of (fresh, es) \<Rightarrow> (Inr fresh, s\<lparr>pl_events := es\<rparr>))
               (\<lambda>fresh. if fresh then log_call (EventSent (wi_id work) e)
                 else step_then (requireLease d now proof False) (ret ())) s
             else (Inl (fail 400 ''invalid kernel artifact event''), s)
           else (Inl (range_error work e), s)
         else (Inl (fail 400 ''invalid run event envelope''), s))"
      using lease unfolding Inr s1 recordEventS_def by (simp add: andThen_def guardE_def)
    show ?thesis
    proof (cases "valid_event work e \<and> range_start work < ev_seq e \<and> ev_seq e \<le> range_end work")
      case True
      then have "leased_event now (pl_work s) e" using le by blast
      then show ?thesis unfolding run by (auto intro!: after_step tail keeps_append)
    qed (auto simp: run)
  qed
qed

subsubsection \<open>Actions\<close>

lemma keeps_reject [keeps_rules]: "keeps R (reject_action a code msg)" "keeps R (reject_with a code msg)"
proof -
  have "keeps R (ledger_prog (record_result (ha_key a) (failed_result (Some NoEffect) (Some code) msg)))"
    by (rule keeps_rules)
  then show r: "keeps R (reject_action a code msg)" by (simp add: keeps_def reject_action_def Let_def)
  show "keeps R (reject_with a code msg)" unfolding reject_with_def answer_def by (intro keeps_rules r)
qed

lemma keeps_answer [keeps_rules]: "keeps R (answer r)"
  unfolding answer_def by (intro keeps_rules)

lemma keeps_check_then [keeps_rules]: "keeps R m \<Longrightarrow> (\<And>c. keeps R (f c)) \<Longrightarrow> keeps R (check_then m f)"
  unfolding check_then_def by (intro keeps_rules)

lemma keeps_checks [keeps_rules]:
  "dp_hash d = hash \<Longrightarrow> keeps R (action_version d now proof work)"
  "keeps R (check_args d c)" "keeps R (check_contract_change c i)" "keeps R (check_unsettled c)"
proof -
  show "dp_hash d = hash \<Longrightarrow> keeps R (action_version d now proof work)"
    unfolding action_version_def by (intro keeps_rules)
  have e: "keeps R (case x of JsError m \<Rightarrow> f m | ControlPlaneError st m k \<Rightarrow> g st m k | NoEffectError m k \<Rightarrow> h m k)"
    if "\<And>m. keeps R (f m)" "\<And>st m k. keeps R (g st m k)" "\<And>m k. keeps R (h m k)" for x f g and h :: "_ \<Rightarrow> _ \<Rightarrow> (plane, checked) prog"
    using that by (cases x) simp_all
  show "keeps R (check_args d c)"
    unfolding check_args_def by (intro keeps_rules e)
  have "R s (snd (check_contract_change c i s))" for s
    using keeps_reject(2) [of "ac_action c" "''tool_contract_changed''" "''Tool semantics changed; create a new preview and approval''"]
    by (simp add: check_contract_change_def keeps_def split: option.split)
  then show "keeps R (check_contract_change c i)" by (simp add: keeps_def)
  show "keeps R (check_unsettled c)" by (simp add: keeps_def check_unsettled_def)
qed

lemma keeps_check_action [keeps_rules]: "dp_hash d = hash \<Longrightarrow> keeps R (check_action d now proof a)"
  unfolding check_action_def check_intent_def by (intro keeps_rules)

lemma keeps_reserve_action [keeps_rules]: "keeps R (reserve_action d c)"
  unfolding reserve_action_def by (intro keeps_rules)

lemma keeps_reconcile [keeps_rules]: "keeps R (reconcileNative d work a v)" "keeps R (reconcile_or d c r)"
proof -
  show n: "keeps R (reconcileNative d work a v)" for work a v
    unfolding reconcileNative_def by (intro keeps_rules) simp_all
  show "keeps R (reconcile_or d c r)" unfolding reconcile_or_def by (intro keeps_rules n)
qed

lemma keeps_reconcile_each [keeps_rules]: "(\<And>p. p \<in> set ps \<Longrightarrow> keeps R p) \<Longrightarrow> keeps R (reconcile_each ps)"
  by (induction ps) (auto intro!: keeps_rules)

lemma keeps_pending [keeps_rules]: "keeps R (reconcilePending d now proof)"
proof -
  have "keeps R (reconcile_pending_one d work p)" for work p
    unfolding reconcile_pending_one_def by (intro keeps_rules)
  then show ?thesis unfolding reconcilePending_def by (intro keeps_rules) auto
qed

lemma keeps_decide [keeps_rules]: "keeps R (decide_action d c res)"
  unfolding decide_action_def by (intro keeps_rules)

lemma keeps_record_action [keeps_rules]: "keeps R (record_action c r)"
  unfolding record_action_def by (intro keeps_rules)

lemma keeps_own_request [keeps_rules]: "keeps R (own_request d now proof c m)"
  unfolding own_request_def by (intro keeps_rules)

lemma keeps_runs [keeps_rules]:
  "keeps R (run_inspect d c)" "keeps R (run_read_attachment d now proof c)" "keeps R (run_contract d now proof c)"
  "keeps R (run_check_receipt c)" "keeps R (run_check_resource d now c)"
proof -
  have "keeps R (inspect_one d c p)" for p
    using keeps_reconcile(1) by (auto simp: keeps_def inspect_one_def andThen_def split: option.splits prod.splits sum.splits) (metis snd_conv)+
  then show "keeps R (run_inspect d c)" unfolding run_inspect_def by (intro keeps_rules) auto
  show "keeps R (run_read_attachment d now proof c)" unfolding run_read_attachment_def by (intro keeps_rules)
  show "keeps R (run_contract d now proof c)" unfolding run_contract_def by (intro keeps_rules)
  show "keeps R (run_check_receipt c)" by (auto simp: keeps_def run_check_receipt_def Let_def split: option.splits)
  show "keeps R (run_check_resource d now c)" unfolding run_check_resource_def by (intro keeps_rules)
qed

lemma keeps_recovery [keeps_rules]:
  "dp_hash d = hash \<Longrightarrow> keeps R (recovery_version d now proof work)" "keeps R (recoverStep d now proof cellId)"
proof -
  show "dp_hash d = hash \<Longrightarrow> keeps R (recovery_version d now proof work)"
    unfolding recovery_version_def steer_version_def by (intro keeps_rules)
  show "keeps R (recoverStep d now proof cellId)"
    unfolding recoverStep_def by (intro keeps_rules)
qed

subsubsection \<open>Delivery, sessions and context\<close>

lemma keeps_files [keeps_rules]:
  "keeps R (loadWorkspace d now proof)" "keeps R (stageWorkspaceFile d now proof path bytes)"
  "keeps R (readWorkspaceFile d now proof entry)"
proof -
  show "keeps R (loadWorkspace d now proof)" unfolding loadWorkspace_def by (intro keeps_rules)
  show "keeps R (stageWorkspaceFile d now proof path bytes)" unfolding stageWorkspaceFile_def by (intro keeps_rules)
  show "keeps R (readWorkspaceFile d now proof entry)" unfolding readWorkspaceFile_def by (intro keeps_rules)
qed

lemma keeps_staging [keeps_rules]:
  "keeps R (stageArtifact d now proof a u)" "keeps R (stageArtifactStream d now proof a chunks)"
proof -
  show s: "keeps R (stageArtifact d now proof a u)" for a u unfolding stageArtifact_def by (intro keeps_rules) simp
  show "keeps R (stageArtifactStream d now proof a chunks)" unfolding stageArtifactStream_def by (intro keeps_rules s)
qed

lemma keeps_verify [keeps_rules]: "keeps R (verifyCandidate d now proof c)"
  unfolding verifyCandidate_def Let_def by (intro keeps_rules)

lemma keeps_memory [keeps_rules]:
  "keeps R (prepareMemoryReview d now proof a)" "keeps R (recordMemoryReview d now proof a h review)"
proof -
  have w: "keeps R (memoryReviewWork d now proof a)" unfolding memoryReviewWork_def by (intro keeps_rules)
  show "keeps R (prepareMemoryReview d now proof a)" unfolding prepareMemoryReview_def by (intro keeps_rules w)
  show "keeps R (recordMemoryReview d now proof a h review)" unfolding recordMemoryReview_def by (intro keeps_rules w)
qed

lemma keeps_deliver [keeps_rules]: "dp_hash d = hash \<Longrightarrow> keeps R (deliver_current d now proof work m e)"
  unfolding deliver_current_def by (intro keeps_rules) simp_all

lemma keeps_steer_version [keeps_rules]: "dp_hash d = hash \<Longrightarrow> keeps R (steer_version d now proof)"
  unfolding steer_version_def by (intro keeps_rules)

lemma keeps_commit [keeps_rules]: "dp_hash d = hash \<Longrightarrow> keeps R (commitResult d now proof m)"
proof -
  assume h: "dp_hash d = hash"
  have "keeps R (commit_records d now proof work m e r evidence)" for work e r evidence
    unfolding commit_records_def by (intro keeps_rules h)
  then show "keeps R (commitResult d now proof m)" unfolding commitResult_def by (intro keeps_rules)
qed

lemma keeps_saveSession [keeps_rules]: "dp_hash d = hash \<Longrightarrow> keeps R (saveSession d parent now proof q)"
proof -
  assume h: "dp_hash d = hash"
  have "keeps R (\<lambda>s. case save_session q (pl_sessions s) of (r, m) \<Rightarrow> (Inr r, s\<lparr>pl_sessions := m\<rparr>))"
    by (auto simp: keeps_def split: prod.splits intro!: st_session) (metis snd_conv sstep.intros)
  then have st: "keeps R (store_session d now proof work q)" for work
    unfolding store_session_def by (intro keeps_rules)
  have "keeps R (check_steering d now proof r)" for r
    unfolding check_steering_def by (intro keeps_rules h)
  then show ?thesis unfolding saveSession_def by (intro keeps_rules st)
qed

lemma keeps_loadContext [keeps_rules]: "keeps R (loadContext d now proof b)"
  unfolding loadContext_def Let_def by (intro keeps_rules)

end

text \<open>With calls of the action executor.\<close>

locale exec_frame = service_frame +
  assumes st_exec: "R s (s\<lparr>pl_calls := pl_calls s @ [Executed w a]\<rparr>)"
begin

lemma keeps_run_action [keeps_rules]: "keeps R (run_action d now proof c)"
proof -
  have "keeps R (run_external d c)"
    unfolding run_external_def log_call_def by (intro keeps_rules) (simp add: keeps_def st_exec)
  then show ?thesis unfolding run_action_def Let_def by (intro keeps_rules)
qed

lemma keeps_executeAction [keeps_rules]: "dp_hash d = hash \<Longrightarrow> keeps R (executeAction d now proof a)"
  unfolding executeAction_def by (intro keeps_rules)

lemma keeps_recoverCell [keeps_rules]: "dp_hash d = hash \<Longrightarrow> keeps R (recoverCell d now proof cellId)"
proof -
  assume h: "dp_hash d = hash"
  have "keeps R (recover_each d now proof work n xs)" for work n xs
  proof (induction xs arbitrary: n)
    case (Cons x xs)
    obtain i r where x: "x = (i, r)" by (cases x)
    show ?case unfolding x recover_each.simps by (intro keeps_rules h Cons.IH)
  qed (auto intro!: keeps_rules)
  then show ?thesis unfolding recoverCell_def by (intro keeps_rules h)
qed

end

end
