(* ===== verification/PlaneSteps.thy ===== *)
theory PlaneSteps
  imports PlaneFrame
begin

text \<open>
  The control plane as a transition system over its public operations, and its refinement to the
  transition systems of the stores: whatever the service does to a store it does through that
  store's own operations, so the theorems about the stores hold for the running control plane.
\<close>

abbreviation effect :: "(plane, 'a) prog \<Rightarrow> plane \<Rightarrow> plane" where
  "effect f \<equiv> (\<lambda>s. snd (f s))"

subsection \<open>Operations\<close>

text \<open>Every public operation of the service that does not run an action; its ports answer anything.\<close>

inductive service_op :: "(string \<Rightarrow> string) \<Rightarrow> int \<Rightarrow> (plane \<Rightarrow> plane) \<Rightarrow> bool"
  for hash :: "string \<Rightarrow> string" and now :: int where
  o_enqueue: "service_op hash now (effect (enqueueS now uuid input))"
| o_claim: "dp_hash d = hash \<Longrightarrow> service_op hash now (effect (claimS d now token q))"
| o_steer: "service_op hash now (effect (addSteerS now uuid i t))"
| o_cancel: "service_op hash now (effect (requestCancelS now i))"
| o_preempt: "service_op hash now (effect (requestPreemptS now i))"
| o_heartbeat: "dp_hash d = hash \<Longrightarrow> service_op hash now (effect (heartbeatS d now proof))"
| o_yield: "dp_hash d = hash \<Longrightarrow> service_op hash now (effect (yieldWorkS d now proof))"
| o_complete: "dp_hash d = hash \<Longrightarrow> service_op hash now (effect (completeS d now proof c))"
| o_wait: "dp_hash d = hash \<Longrightarrow> service_op hash now (effect (waitWorkS d now proof g))"
| o_step: "dp_hash d = hash \<Longrightarrow> service_op hash now (effect (saveStepS d now proof x))"
| o_event: "dp_hash d = hash \<Longrightarrow> service_op hash now (effect (recordEventS d now proof e))"
| o_reserve_call: "dp_hash d = hash \<Longrightarrow> service_op hash now (effect (reserveModelCallS d now proof callId l))"
| o_usage: "dp_hash d = hash \<Longrightarrow> service_op hash now (effect (recordModelUsageS d now proof callId inp out cost obs))"
| o_resolve: "service_op hash now (effect (resolveActionS r sc))"
| o_pending: "dp_hash d = hash \<Longrightarrow> service_op hash now (effect (reconcilePending d now proof))"
| o_recover_step: "dp_hash d = hash \<Longrightarrow> service_op hash now (effect (recoverStep d now proof cellId))"
| o_stage_file: "dp_hash d = hash \<Longrightarrow> service_op hash now (effect (stageWorkspaceFile d now proof path bytes))"
| o_stage: "dp_hash d = hash \<Longrightarrow> service_op hash now (effect (stageArtifact d now proof a u))"
| o_stream: "dp_hash d = hash \<Longrightarrow> service_op hash now (effect (stageArtifactStream d now proof a chunks))"
| o_verify: "dp_hash d = hash \<Longrightarrow> service_op hash now (effect (verifyCandidate d now proof ca))"
| o_review: "dp_hash d = hash \<Longrightarrow> service_op hash now (effect (recordMemoryReview d now proof ha h rv))"
| o_commit: "dp_hash d = hash \<Longrightarrow> service_op hash now (effect (commitResult d now proof m))"
| o_save: "dp_hash d = hash \<Longrightarrow> service_op hash now (effect (saveSession d parent now proof ss))"
| o_load: "dp_hash d = hash \<Longrightarrow> service_op hash now (effect (loadContext d now proof b))"

inductive plane_step :: "(string \<Rightarrow> string) \<Rightarrow> int \<times> plane \<Rightarrow> int \<times> plane \<Rightarrow> bool" for hash :: "string \<Rightarrow> string" where
  p_op: "t \<le> t' \<Longrightarrow> service_op hash t' f \<Longrightarrow> plane_step hash (t, s) (t', f s)"
| p_execute: "t \<le> t' \<Longrightarrow> dp_hash d = hash \<Longrightarrow> plane_step hash (t, s) (t', effect (executeAction d t' proof a) s)"
| p_recover: "t \<le> t' \<Longrightarrow> dp_hash d = hash \<Longrightarrow> plane_step hash (t, s) (t', effect (recoverCell d t' proof cellId) s)"

context service_frame
begin

lemma op_related: "service_op hash now f \<Longrightarrow> R s (f s)"
  by (induction rule: service_op.induct)
    (rule keeps_def [THEN iffD1, THEN spec], (rule keeps_rules | assumption)+)+

end

subsection \<open>Refinement\<close>

text \<open>Between two planes every store went through its own operations and calls were only appended.\<close>

definition plane_evolves :: "(string \<Rightarrow> string) \<Rightarrow> int \<Rightarrow> int \<Rightarrow> plane \<Rightarrow> plane \<Rightarrow> bool" where
  "plane_evolves hash t t' s s' = ((wstep hash)\<^sup>*\<^sup>* (t, pl_work s) (t', pl_work s')
     \<and> lstep\<^sup>*\<^sup>* (pl_ledger s) (pl_ledger s') \<and> sstep\<^sup>*\<^sup>* (pl_sessions s) (pl_sessions s')
     \<and> estep\<^sup>*\<^sup>* (pl_events s) (pl_events s') \<and> budget_op\<^sup>*\<^sup>* (pl_budgets s) (pl_budgets s')
     \<and> xstep\<^sup>*\<^sup>* (pl_steps s) (pl_steps s') \<and> (\<exists>cs. pl_calls s' = pl_calls s @ cs))"

lemma plane_evolves_refl: "plane_evolves hash t t s s"
  by (simp add: plane_evolves_def)

lemma plane_evolves_trans: "plane_evolves hash t u s r \<Longrightarrow> plane_evolves hash u v r q \<Longrightarrow> plane_evolves hash t v s q"
  unfolding plane_evolves_def by (auto intro: rtranclp_trans)

interpretation refinement: exec_frame "plane_evolves hash now now" hash now for hash now
  by unfold_locales
    (auto simp: plane_evolves_def intro: rtranclp_trans r_into_rtranclp estep.intros)

text \<open>Time passes without an operation: a heartbeat of an unknown lease changes nothing.\<close>

lemma work_tick: "t \<le> t' \<Longrightarrow> (wstep hash)\<^sup>*\<^sup>* (t, w) (t', w)"
proof -
  assume t: "t \<le> t'"
  obtain i where i: "i \<notin> set (map fst (ws_rows w))"
    using ex_new_if_finite [of "set (map fst (ws_rows w))"] infinite_UNIV_listI by blast
  have "snd (requestPreempt t' i w) = w"
    using i by (simp add: requestPreempt_def map_of_eq_None_iff [THEN iffD2] image_def split: option.split)
  then show ?thesis using w_preempt [OF t, of hash w i] by (metis r_into_rtranclp)
qed

lemma tick: "t \<le> t' \<Longrightarrow> plane_evolves hash t t' s s"
  by (simp add: plane_evolves_def work_tick)

lemma plane_step_evolves: "plane_step hash (t, s) (t', s') \<Longrightarrow> plane_evolves hash t t' s s'"
proof (erule plane_step.cases, goal_cases)
  case (1 u u' f p)
  then show ?case
    using plane_evolves_trans [OF tick refinement.op_related [of hash t' f s]] by simp
next
  case (2 u u' d p lp a)
  have "plane_evolves hash t' t' s (effect (executeAction d t' lp a) s)"
    using refinement.keeps_executeAction 2 by (auto simp: keeps_def)
  with 2 show ?case using plane_evolves_trans [OF tick] by simp
next
  case (3 u u' d p lp cellId)
  have "plane_evolves hash t' t' s (effect (recoverCell d t' lp cellId) s)"
    using refinement.keeps_recoverCell 3 by (auto simp: keeps_def)
  with 3 show ?case using plane_evolves_trans [OF tick] by simp
qed


lemma plane_steps_evolve: "(plane_step hash)\<^sup>*\<^sup>* c c' \<Longrightarrow> plane_evolves hash (fst c) (fst c') (snd c) (snd c')"
proof (induction rule: rtranclp_induct)
  case base
  show ?case by (rule plane_evolves_refl)
next
  case (step y z)
  then show ?case
    using plane_step_evolves [of hash "fst y" "snd y" "fst z" "snd z"] plane_evolves_trans by auto
qed

text \<open>A plane with one claimed request, for the examples.\<close>

definition sample_deps :: deps where
  "sample_deps = \<lparr>dp_hash = id, dp_tools = None, dp_resolve = (\<lambda>w. [\<lparr>cg_name = ''notes'', cg_methods = None\<rparr>]),
     dp_authorizeWork = (\<lambda>w. Inr ()), dp_authorizeRequest = (\<lambda>w r. Inr ()), dp_prepare = (\<lambda>w a v. Inr ()),
     dp_execute = (\<lambda>w a v. Inr (empty_result True)), dp_reconcile = (\<lambda>w a v. Inr None), dp_readResource = None,
     dp_getMessage = (\<lambda>w. None), dp_deliver = (\<lambda>w m. Inr ()), dp_verify = None, dp_modelBudget = None, dp_stage = None,
     dp_stream = None, dp_workspace = None, dp_memory = None, dp_autoResponses = False, dp_contextSnapshot = None,
     dp_loadContext = (\<lambda>w p. Inl (JsError ''no context''))\<rparr>"

definition sample_proof :: lease_proof where
  "sample_proof = \<lparr>lp_id = ''x'', lp_fence = 1, lp_token = ''tok''\<rparr>"

definition queued_plane :: plane where
  "queued_plane = effect (enqueueS 1 [] (sample_input ''x'' ''s1'')) new_plane"

definition leased_plane :: plane where
  "leased_plane = effect (claimS sample_deps 2 ''tok'' sample_claim) queued_plane"

lemma leased_plane_ops: "service_op id 1 (effect (enqueueS 1 [] (sample_input ''x'' ''s1'')))"
    "service_op id 2 (effect (claimS sample_deps 2 ''tok'' sample_claim))"
  by (rule o_enqueue, rule o_claim) (simp add: sample_deps_def)

lemma leased_plane_run: "(plane_step id)\<^sup>*\<^sup>* (0, new_plane) (2, leased_plane)"
proof -
  have "plane_step id (0, new_plane) (1, queued_plane)" "plane_step id (1, queued_plane) (2, leased_plane)"
    unfolding queued_plane_def leased_plane_def by (rule p_op leased_plane_ops | simp)+
  then show ?thesis by (meson rtranclp.rtrancl_into_rtrancl rtranclp.rtrancl_refl)
qed



end
