(* ===== verification/ExecOnce.thy ===== *)
theory ExecOnce
  imports PlaneSteps
begin

text \<open>
  Interleaved action calls. Between the awaited store calls of one \<open>executeAction\<close> any other
  operation may run, so a call is a token that moves through the phases of Actions and Execute
  while the plane goes on; it may also be lost at any point, as when its process dies. The theorem
  shows that whatever the interleaving an action whose effect cannot be repeated is started at most
  once.
\<close>

datatype in_flight =
    Checked lease_proof action_ctx
  | Reserved lease_proof action_ctx reservation
  | Cleared lease_proof action_ctx
  | Ran lease_proof action_ctx action_result

type_synonym pool = "int \<times> plane \<times> in_flight list"

definition after_check :: "lease_proof \<Rightarrow> os_error + checked \<Rightarrow> in_flight list" where
  "after_check lp r = (case r of Inr (Inr c) \<Rightarrow> [Checked lp c] | _ \<Rightarrow> [])"

definition after_reserve :: "lease_proof \<Rightarrow> action_ctx \<Rightarrow> os_error + reservation \<Rightarrow> in_flight list" where
  "after_reserve lp c r = (case r of Inr v \<Rightarrow> [Reserved lp c v] | Inl e \<Rightarrow> [])"

definition after_decide :: "lease_proof \<Rightarrow> action_ctx \<Rightarrow> os_error + action_result option \<Rightarrow> in_flight list" where
  "after_decide lp c r = (case r of Inr None \<Rightarrow> [Cleared lp c] | _ \<Rightarrow> [])"

definition after_run :: "lease_proof \<Rightarrow> action_ctx \<Rightarrow> os_error + action_result \<Rightarrow> in_flight list" where
  "after_run lp c r = (case r of Inr x \<Rightarrow> [Ran lp c x] | Inl e \<Rightarrow> [])"

text \<open>The token hash and the tool catalog are fixed; every other port may answer differently at every step.\<close>

definition configured :: "(string \<Rightarrow> string) \<Rightarrow> tool list option \<Rightarrow> deps \<Rightarrow> bool" where
  "configured hash tools d = (dp_hash d = hash \<and> dp_tools d = tools)"

inductive pool_step :: "(string \<Rightarrow> string) \<Rightarrow> tool list option \<Rightarrow> pool \<Rightarrow> pool \<Rightarrow> bool"
  for hash :: "string \<Rightarrow> string" and tools :: "tool list option" where
  x_op: "t \<le> t' \<Longrightarrow> service_op hash t' f \<Longrightarrow> pool_step hash tools (t, s, cs) (t', f s, cs)"
| x_check: "t \<le> t' \<Longrightarrow> configured hash tools d \<Longrightarrow> check_action d t' lp a s = (r, s')
    \<Longrightarrow> pool_step hash tools (t, s, cs) (t', s', cs @ after_check lp r)"
| x_reserve: "configured hash tools d \<Longrightarrow> reserve_action d c s = (r, s')
    \<Longrightarrow> pool_step hash tools (t, s, as @ Checked lp c # bs) (t, s', as @ after_reserve lp c r @ bs)"
| x_decide: "configured hash tools d \<Longrightarrow> decide_action d c v s = (r, s')
    \<Longrightarrow> pool_step hash tools (t, s, as @ Reserved lp c v # bs) (t, s', as @ after_decide lp c r @ bs)"
| x_run: "t \<le> t' \<Longrightarrow> configured hash tools d \<Longrightarrow> run_action d t' lp c s = (r, s')
    \<Longrightarrow> pool_step hash tools (t, s, as @ Cleared lp c # bs) (t', s', as @ after_run lp c r @ bs)"
| x_record: "record_action c x s = (r, s')
    \<Longrightarrow> pool_step hash tools (t, s, as @ Ran lp c x # bs) (t, s', as @ bs)"
| x_lost: "pool_step hash tools (t, s, as @ p # bs) (t, s, as @ bs)"

subsection \<open>Phases that execute nothing\<close>

definition executions :: "plane \<Rightarrow> port_call list" where
  "executions s = filter is_executed (pl_calls s)"

definition quiet :: "plane \<Rightarrow> plane \<Rightarrow> bool" where
  "quiet s s' = (executions s' = executions s \<and> lstep\<^sup>*\<^sup>* (pl_ledger s) (pl_ledger s'))"

lemma quiet_refl: "quiet s s"
  by (simp add: quiet_def)

lemma quiet_trans: "quiet s t \<Longrightarrow> quiet t u \<Longrightarrow> quiet s u"
  by (auto simp: quiet_def)

interpretation silent: service_frame quiet hash now for hash now
  by unfold_locales (auto simp: quiet_def executions_def)

definition catalog_tool :: "tool list option \<Rightarrow> string \<Rightarrow> tool option" where
  "catalog_tool tools action = List.find (\<lambda>t. tl_action t = action) (case tools of None \<Rightarrow> TASK_TOOLS | Some ts \<Rightarrow> ts)"

lemma find_tool_catalog: "configured hash tools d \<Longrightarrow> find_tool d action = catalog_tool tools action"
  by (simp add: configured_def find_tool_def catalog_tool_def catalog_def)

text \<open>Only the run phase executes, and only its own action, once.\<close>

lemma run_action_executions:
  assumes "run_action d now lp c s = (r, s')"
  shows "(executions s' = executions s \<or> executions s' = executions s @ [Executed (wi_id (ac_work c)) (ac_action c)]
      \<and> ha_action (ac_action c) \<noteq> ''task.inspect'')
    \<and> lstep\<^sup>*\<^sup>* (pl_ledger s) (pl_ledger s')"
proof -
  let ?h = "\<lambda>e. ret (caught_result c e)"
  let ?name = "ha_action (ac_action c)"
  define body where "body = (if ?name = ''task.inspect'' then run_inspect d c
      else if ?name = ''task.read_attachment'' then run_read_attachment d now lp c
      else if ?name = ''task.contract'' then run_contract d now lp c
      else if ?name = ''task.check_receipt'' then run_check_receipt c
      else if ?name = ''task.check_resource'' then run_check_resource d now c
      else if ?name = ''task.ask'' then ret (run_ask c) else run_external d c)"
  have run: "run_action d now lp c = catchE body ?h" by (simp add: run_action_def Let_def body_def)
  have "body = run_external d c \<and> ?name \<noteq> ''task.inspect'' \<or> keeps quiet body"
    unfolding body_def by (simp add: silent.keeps_runs silent.keeps_basic)
  with run consider (ext) "run_action d now lp c = catchE (run_external d c) ?h" "?name \<noteq> ''task.inspect''"
    | (other) f where "run_action d now lp c = catchE f ?h" "keeps quiet f" by blast
  then show ?thesis
  proof cases
    case ext
    have "executions s' = executions s @ [Executed (wi_id (ac_work c)) (ac_action c)] \<and> pl_ledger s' = pl_ledger s"
      using assms unfolding ext(1)
      by (auto simp: run_external_def log_call_def catchE_def executions_def split: sum.splits)
    then show ?thesis using ext(2) by simp
  next
    case other
    have "keeps quiet (catchE f ?h)" by (intro silent.keeps_catchE silent.keeps_basic other)
    from keeps_apply [OF this assms [unfolded other(1)]] have "quiet s s'" .
    then show ?thesis by (simp add: quiet_def)
  qed
qed


subsection \<open>What the checks establish\<close>

lemma reject_with_answer: "reject_with a code msg s = (Inr x, s') \<Longrightarrow> \<exists>r. x = Inl r"
  by (auto simp: reject_with_def answer_def andThen_def split: prod.splits sum.splits)

lemma answer_run: "answer r s = (Inr (Inl r), s)"
  by (simp add: answer_def)

lemma check_then_Inr:
  assumes "check_then m f s = (Inr (Inr c), s')"
  obtains c1 s1 where "m s = (Inr (Inr c1), s1)" and "f c1 s1 = (Inr (Inr c), s')"
  using assms by (auto simp: check_then_def andThen_def answer_run split: prod.splits sum.splits)

lemma check_args_keeps: "check_args d c s = (Inr (Inr c'), s') \<Longrightarrow> c' = c"
  by (auto simp: check_args_def Let_def answer_run dest: reject_with_answer
      split: if_splits sum.splits os_error.splits option.splits)

lemma check_contract_change_keeps: "check_contract_change c i s = (Inr (Inr c'), s') \<Longrightarrow> c' = c"
  by (auto simp: check_contract_change_def dest: reject_with_answer split: if_splits option.splits)

lemma check_unsettled_keeps: "check_unsettled c s = (Inr (Inr c'), s') \<Longrightarrow> c' = c"
  by (auto simp: check_unsettled_def split: if_splits)

text \<open>A call that may be reserved holds a lease nobody cancelled, for an action its grants and its mode allow.\<close>

definition authorized :: "deps \<Rightarrow> work_item \<Rightarrow> action_ctx \<Rightarrow> bool" where
  "authorized d work c = (ac_work c = work \<and> ac_grants c = dp_resolve d work
     \<and> ac_tool c = find_tool d (ha_action (ac_action c)) \<and> valid_action work (ac_action c)
     \<and> (\<exists>ns m. action_parts (ha_action (ac_action c)) = Some (ns, m) \<and> allows (grant_for (dp_resolve d work) work ns) m)
     \<and> (ha_action (ac_action c) = ''task.inspect'' \<or> mode_permits work (ac_tool c) = Inr True))"

lemma check_intent_Inr:
  assumes "check_intent d work a grants version s = (Inr (Inr c), s')"
  shows "ac_work c = work \<and> ac_action c = a \<and> ac_grants c = grants \<and> ac_tool c = find_tool d (ha_action a)
    \<and> (ha_action a = ''task.inspect'' \<or> mode_permits work (ac_tool c) = Inr True)"
proof -
  let ?t = "find_tool d (ha_action a)"
  let ?c = "\<lparr>ac_work = work, ac_action = a, ac_grants = grants, ac_tool = ?t, ac_version = version,
    ac_contract = map_option (toolContractHash (dp_hash d)) ?t\<rparr>"
  obtain ok s1 where ok: "(if ha_action a = ''task.inspect'' then ret True else liftR (mode_permits work ?t)) s = (Inr ok, s1)"
    and rest: "(if \<not> ok then andThen (liftR (executionMode (wi_meta work))) (\<lambda>m.
          reject_with a ''mode_forbidden'' (''execution mode '' @ js_String m @ '' does not permit '' @ ha_action a))
       else check_then (check_args d ?c) (\<lambda>c. check_then (check_contract_change c (findIntent (ha_key a) (pl_ledger s))) check_unsettled)) s1
      = (Inr (Inr c), s')"
    using assms unfolding check_intent_def Let_def by (auto simp: andThen_guardE elim!: andThen_InrE split: if_splits)
  have ok: "ok" "ha_action a = ''task.inspect'' \<or> mode_permits work ?t = Inr True"
  proof -
    show ok using rest by (auto elim!: andThen_InrE dest: reject_with_answer split: if_splits)
    then show "ha_action a = ''task.inspect'' \<or> mode_permits work ?t = Inr True" using ok by (auto split: if_splits)
  qed
  obtain c1 c2 s2 s3 where "check_args d ?c s1 = (Inr (Inr c1), s2)"
    "check_contract_change c1 (findIntent (ha_key a) (pl_ledger s)) s2 = (Inr (Inr c2), s3)" "check_unsettled c2 s3 = (Inr (Inr c), s')"
    using rest ok(1) by (auto elim!: check_then_Inr)
  then have "c = ?c" using check_args_keeps check_contract_change_keeps check_unsettled_keeps by metis
  with ok(2) show ?thesis by simp
qed

lemma check_action_Inr:
  assumes "check_action d now lp a s = (Inr (Inr c), s')"
  obtains work where "requireLease d now lp True s = (Inr work, s)" and "authorized d work c" and "ac_action c = a"
proof -
  obtain work s1 where lease: "requireLease d now lp True s = (Inr work, s1)"
    and r: "step_then (guardE (valid_action work a) (fail 400 ''invalid host action envelope''))
     (case action_parts (ha_action a) of
        None \<Rightarrow> throw (fail 400 ''host action must be <namespace>.<method>'')
      | Some (ns, m) \<Rightarrow>
          let grants = dp_resolve d work in
          if \<not> allows (grant_for grants work ns) m
          then reject_with a ''forbidden'' (''capability denied: '' @ ha_action a @ '' is not granted to this work item'')
          else if (ha_action a = ''task.check_receipt'' \<or> ha_action a = ''task.check_resource'') \<and> \<not> target_granted grants a
          then answer (failed_result None None ''capability denied: receipt action is not granted to this work item'')
          else andThen (action_version d now lp work) (\<lambda>v. case v of
              Inl r \<Rightarrow> answer r
            | Inr version \<Rightarrow> check_intent d work a grants version)) s1 = (Inr (Inr c), s')"
    using assms unfolding check_action_def by (rule andThen_InrE)
  have s1: "s1 = s" using lease by (simp add: requireLease_Inr)
  from r obtain ns m version s2 where v: "valid_action work a" and parts: "action_parts (ha_action a) = Some (ns, m)"
    and g: "allows (grant_for (dp_resolve d work) work ns) m"
    and i: "check_intent d work a (dp_resolve d work) version s2 = (Inr (Inr c), s')"
    by (auto simp: andThen_guardE Let_def answer_run split: if_splits option.splits sum.splits
        dest: reject_with_answer elim!: andThen_InrE)
  have "authorized d work c" "ac_action c = a"
    using check_intent_Inr [OF i] v parts g by (auto simp: authorized_def)
  then show thesis using that lease s1 by blast
qed


subsection \<open>The invariant\<close>

fun flight_ctx :: "in_flight \<Rightarrow> action_ctx" where
  "flight_ctx (Checked lp c) = c"
| "flight_ctx (Reserved lp c v) = c"
| "flight_ctx (Cleared lp c) = c"
| "flight_ctx (Ran lp c r) = c"

text \<open>A call that may still start the action of \<open>k\<close> although its effect cannot be repeated.\<close>

definition may_start :: "string \<Rightarrow> in_flight \<Rightarrow> bool" where
  "may_start k p = (ha_key (ac_action (flight_ctx p)) = k \<and> uncertain (ac_tool (flight_ctx p))
     \<and> (case p of Reserved lp c v \<Rightarrow> v = Started | Cleared lp c \<Rightarrow> True | _ \<Rightarrow> False))"

definition unrepeatable_run :: "tool list option \<Rightarrow> string \<Rightarrow> port_call \<Rightarrow> bool" where
  "unrepeatable_run tools k c = (case c of
      Executed w a \<Rightarrow> ha_key a = k \<and> uncertain (catalog_tool tools (ha_action a)) | _ \<Rightarrow> False)"

definition starts :: "tool list option \<Rightarrow> string \<Rightarrow> plane \<Rightarrow> in_flight list \<Rightarrow> nat" where
  "starts tools k s cs = length (filter (unrepeatable_run tools k) (executions s)) + length (filter (may_start k) cs)"

definition pool_inv :: "tool list option \<Rightarrow> pool \<Rightarrow> bool" where
  "pool_inv tools x = (case x of (t, s, cs) \<Rightarrow>
     (\<forall>p \<in> set cs. ac_tool (flight_ctx p) = catalog_tool tools (ha_action (ac_action (flight_ctx p))))
     \<and> (\<forall>k. starts tools k s cs \<le> (if map_of (lg_intents (pl_ledger s)) k = None then 0 else 1)))"

lemma starts_quiet: "quiet s s' \<Longrightarrow> starts tools k s' cs = starts tools k s cs"
  by (simp add: quiet_def starts_def)

lemma known_later: "lstep\<^sup>*\<^sup>* l l' \<Longrightarrow> map_of (lg_intents l') k = None \<Longrightarrow> map_of (lg_intents l) k = None"
  using lsteps_intent by (metis not_None_eq)

text \<open>A quiet step keeps the invariant when no call becomes able to start.\<close>

lemma pool_inv_quiet:
  assumes "pool_inv tools (t, s, cs)" and "quiet s s'"
    and "\<And>p. p \<in> set cs' \<Longrightarrow> ac_tool (flight_ctx p) = catalog_tool tools (ha_action (ac_action (flight_ctx p)))"
    and "\<And>k. length (filter (may_start k) cs') \<le> length (filter (may_start k) cs)"
  shows "pool_inv tools (t', s', cs')"
proof -
  have "starts tools k s' cs' \<le> (if map_of (lg_intents (pl_ledger s')) k = None then 0 else 1)" for k
  proof -
    have l: "lstep\<^sup>*\<^sup>* (pl_ledger s) (pl_ledger s')" using assms(2) by (simp add: quiet_def)
    have "starts tools k s' cs' \<le> starts tools k s cs" using assms(2,4) by (simp add: starts_def quiet_def)
    also have "\<dots> \<le> (if map_of (lg_intents (pl_ledger s)) k = None then 0 else 1)"
      using assms(1) by (simp add: pool_inv_def)
    also have "\<dots> \<le> (if map_of (lg_intents (pl_ledger s')) k = None then 0 else 1)"
      using known_later [OF l, of k] by simp
    finally show ?thesis .
  qed
  then show ?thesis using assms(3) by (simp add: pool_inv_def)
qed

lemma decide_existing:
  assumes "decide_action d c Existing s = (Inr None, s')"
  shows "\<not> uncertain (ac_tool c)"
  using assms by (auto simp: decide_action_def elim!: andThen_InrE split: if_splits option.splits)

lemma pool_inv_step:
  assumes "pool_step hash tools x y" and "pool_inv tools x"
  shows "pool_inv tools y"
  using assms
proof (induction rule: pool_step.induct)
  case (x_op t t' f s cs)
  have "quiet s (f s)" by (rule silent.op_related [OF x_op(2)])
  then show ?case using x_op(3) by (intro pool_inv_quiet [OF x_op(3)]) (auto simp: pool_inv_def)
next
  case (x_check t t' d lp a s r s' cs)
  have h: "dp_hash d = hash" using x_check(2) by (simp add: configured_def)
  have q: "quiet s s'" by (rule keeps_apply [OF silent.keeps_check_action [OF h] x_check(3)])
  have new: "p = Checked lp c \<Longrightarrow> r = Inr (Inr c) \<Longrightarrow>
      ac_tool (flight_ctx p) = catalog_tool tools (ha_action (ac_action (flight_ctx p)))" for p c
    using x_check(3) find_tool_catalog [OF x_check(2)] by (auto simp: authorized_def elim!: check_action_Inr)
  have "after_check lp r = [] \<or> (\<exists>c. after_check lp r = [Checked lp c] \<and> r = Inr (Inr c))"
    by (auto simp: after_check_def split: sum.splits)
  then show ?case
    using x_check(4) new by (intro pool_inv_quiet [OF x_check(4) q]) (auto simp: pool_inv_def may_start_def)
next
  case (x_reserve d c s r s' t as lp bs)
  obtain fp intent where res: "ledger_prog (reserve (ha_key (ac_action c)) fp intent) s = (r, s')"
    using x_reserve(2) by (auto simp: reserve_action_def)
  let ?k = "ha_key (ac_action c)"
  have tool: "ac_tool c = catalog_tool tools (ha_action (ac_action c))"
    using x_reserve(3) by (simp add: pool_inv_def)
  show ?case
  proof (cases rule: reserve_cases [of ?k fp intent "pl_ledger s"])
    case (err e)
    then have r: "s' = s" "after_reserve lp c r = []" using res by (auto simp: ledger_prog_def after_reserve_def)
    show ?thesis using x_reserve(3)
      by (intro pool_inv_quiet [OF x_reserve(3)]) (auto simp: r quiet_refl pool_inv_def)
  next
    case old
    then have r: "s' = s" "after_reserve lp c r = [Reserved lp c Existing]" using res by (auto simp: ledger_prog_def after_reserve_def)
    show ?thesis using x_reserve(3)
      by (intro pool_inv_quiet [OF x_reserve(3)]) (auto simp: r quiet_refl pool_inv_def may_start_def)
  next
    case new
    then have r: "after_reserve lp c r = [Reserved lp c Started]" "executions s' = executions s"
      and int: "lg_intents (pl_ledger s') = AList.update ?k fp (lg_intents (pl_ledger s))"
      using res by (auto simp: ledger_prog_def after_reserve_def executions_def)
    have "starts tools k s' (as @ [Reserved lp c Started] @ bs) \<le> (if map_of (lg_intents (pl_ledger s')) k = None then 0 else 1)" for k
    proof (cases "k = ?k")
      case True
      have "starts tools ?k s (as @ Checked lp c # bs) \<le> (if map_of (lg_intents (pl_ledger s)) ?k = None then 0 else 1)"
        using x_reserve(3) unfolding pool_inv_def prod.case by blast
      then have "starts tools ?k s (as @ Checked lp c # bs) = 0" using new(2) by simp
      then show ?thesis using True by (auto simp: starts_def r(2) int update_conv' may_start_def)
    next
      case False
      have "starts tools k s (as @ Checked lp c # bs) \<le> (if map_of (lg_intents (pl_ledger s)) k = None then 0 else 1)"
        using x_reserve(3) unfolding pool_inv_def prod.case by blast
      then show ?thesis using False by (auto simp: starts_def r(2) int update_conv' may_start_def)
    qed
    then show ?thesis using x_reserve(3) tool by (auto simp: pool_inv_def r(1))
  qed
next
  case (x_decide d c v s r s' t as lp bs)
  have q: "quiet s s'" by (rule keeps_apply [OF silent.keeps_decide x_decide(2)])
  have hot: "may_start k (Reserved lp c v)" if "may_start k (Cleared lp c)" "r = Inr None" for k
    using that decide_existing [of d c s s'] x_decide(2) by (cases v) (auto simp: may_start_def)
  show ?case using x_decide(3) hot
    by (intro pool_inv_quiet [OF x_decide(3) q]) (auto simp: pool_inv_def after_decide_def split: sum.splits option.splits if_splits)
next
  case (x_run t t' d lp c s r s' as bs)
  note run = run_action_executions [OF x_run(3)]
  have tool: "ac_tool c = catalog_tool tools (ha_action (ac_action c))"
    using x_run(4) by (simp add: pool_inv_def)
  have one: "length (filter (unrepeatable_run tools k) (executions s'))
      \<le> length (filter (unrepeatable_run tools k) (executions s)) + length (filter (may_start k) [Cleared lp c])" for k
    using run tool by (auto simp: unrepeatable_run_def may_start_def)
  have none: "filter (may_start k) (after_run lp c r) = []" for k
    by (auto simp: after_run_def may_start_def split: sum.splits)
  have "starts tools k s' (as @ after_run lp c r @ bs) \<le> (if map_of (lg_intents (pl_ledger s')) k = None then 0 else 1)" for k
  proof -
    have "starts tools k s' (as @ after_run lp c r @ bs) \<le> starts tools k s (as @ Cleared lp c # bs)"
      using one [of k] by (auto simp: starts_def none)
    also have "\<dots> \<le> (if map_of (lg_intents (pl_ledger s)) k = None then 0 else 1)"
      using x_run(4) by (simp add: pool_inv_def)
    also have "\<dots> \<le> (if map_of (lg_intents (pl_ledger s')) k = None then 0 else 1)"
      using known_later [of "pl_ledger s" "pl_ledger s'" k] run by simp
    finally show ?thesis .
  qed
  then show ?case using x_run(4) tool by (auto simp: pool_inv_def after_run_def split: sum.splits)
next
  case (x_record c x s r s' t as lp bs)
  have q: "quiet s s'" by (rule keeps_apply [OF silent.keeps_record_action x_record(1)])
  show ?case using x_record(2) by (intro pool_inv_quiet [OF x_record(2) q]) (auto simp: pool_inv_def)
next
  case (x_lost t s as p bs)
  then show ?case by (intro pool_inv_quiet [OF x_lost quiet_refl]) (auto simp: pool_inv_def)
qed

lemma pool_inv_init: "pool_inv tools (t, new_plane, [])"
  by (simp add: pool_inv_def starts_def executions_def new_plane_def)

interpretation in_flight_calls: transition_system "\<lambda>x. \<exists>t. x = (t, new_plane, [])" "pool_step hash tools" "pool_inv tools"
  for hash tools
proof (unfold_locales, goal_cases)
  case (1 x)
  then show ?case using pool_inv_init by blast
next
  case (2 x y)
  then show ?case using pool_inv_step by blast
qed

subsection \<open>At most once\<close>

text \<open>C1: an unrepeatable action is executed at most once. In any interleaving of action calls with one
  another and with every other operation of the service, in which calls may be repeated, retried
  and lost at any point and the ports answer anything, the executor is asked to run the action of a
  key whose tool is unknown or has an uncertain effect at most once; and only after the intent was
  reserved in the ledger.\<close>

theorem executed_at_most_once:
  assumes "(pool_step hash tools)\<^sup>*\<^sup>* (t, new_plane, []) (t', s, cs)"
  shows "length (filter (unrepeatable_run tools k) (pl_calls s)) \<le> 1
    \<and> (filter (unrepeatable_run tools k) (pl_calls s) \<noteq> [] \<longrightarrow> map_of (lg_intents (pl_ledger s)) k \<noteq> None)"
proof -
  have "pool_inv tools (t', s, cs)" using in_flight_calls.reachable_inv [OF _ assms] by blast
  then have "starts tools k s cs \<le> (if map_of (lg_intents (pl_ledger s)) k = None then 0 else 1)"
    by (simp add: pool_inv_def)
  moreover have "filter (unrepeatable_run tools k) (executions s) = filter (unrepeatable_run tools k) (pl_calls s)"
    unfolding executions_def filter_filter
    by (rule filter_cong) (auto simp: unrepeatable_run_def is_executed_def split: port_call.splits)
  ultimately have "length (filter (unrepeatable_run tools k) (pl_calls s))
      \<le> (if map_of (lg_intents (pl_ledger s)) k = None then 0 else 1)" by (simp add: starts_def)
  then show ?thesis by (auto split: if_splits)
qed

definition sample_call :: host_action where
  "sample_call = \<lparr>ha_runId = ''x'', ha_cellId = ''c'', ha_callIndex = 0, ha_action = ''notes.send'', ha_args = [],
     ha_key = actionKeyOf ''x'' ''c'' 0\<rparr>"

text \<open>Two calls of the same action, both checked before the first one runs to its end; the second one, whose
  reservation finds the intent, is only reconciled.\<close>

definition sample_work :: work_item where
  "sample_work = (case getLeased 2 ''x'' 1 ''tok'' (pl_work leased_plane) of Some (w, c) \<Rightarrow> w
     | None \<Rightarrow> toWorkItem (new_row 0 [] (sample_input [] [])) 0)"

definition checked_ctx :: action_ctx where
  "checked_ctx = \<lparr>ac_work = sample_work, ac_action = sample_call, ac_grants = [\<lparr>cg_name = ''notes'', cg_methods = None\<rparr>],
     ac_tool = None, ac_version = 1, ac_contract = None\<rparr>"

definition checked_plane :: plane where
  "checked_plane = effect (check_action sample_deps 2 sample_proof sample_call)
     (effect (check_action sample_deps 2 sample_proof sample_call) leased_plane)"

definition ran_plane :: plane where
  "ran_plane = effect (run_action sample_deps 2 sample_proof checked_ctx)
     (effect (decide_action sample_deps checked_ctx Started) (effect (reserve_action sample_deps checked_ctx) checked_plane))"

definition both_plane :: plane where
  "both_plane = effect (decide_action sample_deps checked_ctx Existing) (effect (reserve_action sample_deps checked_ctx) ran_plane)"


lemma sample_phases:
  "fst (check_action sample_deps 2 sample_proof sample_call leased_plane) = Inr (Inr checked_ctx)"
  "fst (check_action sample_deps 2 sample_proof sample_call
     (effect (check_action sample_deps 2 sample_proof sample_call) leased_plane)) = Inr (Inr checked_ctx)"
  "fst (reserve_action sample_deps checked_ctx checked_plane) = Inr Started"
  "fst (decide_action sample_deps checked_ctx Started (effect (reserve_action sample_deps checked_ctx) checked_plane)) = Inr None"
  "fst (run_action sample_deps 2 sample_proof checked_ctx (effect (decide_action sample_deps checked_ctx Started)
     (effect (reserve_action sample_deps checked_ctx) checked_plane))) = Inr (empty_result True)"
  "fst (reserve_action sample_deps checked_ctx ran_plane) = Inr Existing"
  "fst (decide_action sample_deps checked_ctx Existing (effect (reserve_action sample_deps checked_ctx) ran_plane))
     = Inr (Some (failed_result (Some Unknown) None ''action intent exists without a receipt; reconcile before retrying''))"
  by code_simp+

lemma sample_configured: "configured id None sample_deps"
  by (simp add: configured_def sample_deps_def)

lemma pool_runs:
  "t \<le> t' \<Longrightarrow> configured hash tools d \<Longrightarrow> fst (check_action d t' lp a s) = r
    \<Longrightarrow> pool_step hash tools (t, s, cs) (t', effect (check_action d t' lp a) s, cs @ after_check lp r)"
  "configured hash tools d \<Longrightarrow> fst (reserve_action d c s) = r'
    \<Longrightarrow> pool_step hash tools (t, s, as @ Checked lp c # bs) (t, effect (reserve_action d c) s, as @ after_reserve lp c r' @ bs)"
  "configured hash tools d \<Longrightarrow> fst (decide_action d c v s) = q
    \<Longrightarrow> pool_step hash tools (t, s, as @ Reserved lp c v # bs) (t, effect (decide_action d c v) s, as @ after_decide lp c q @ bs)"
  "t \<le> t' \<Longrightarrow> configured hash tools d \<Longrightarrow> fst (run_action d t' lp c s) = x
    \<Longrightarrow> pool_step hash tools (t, s, as @ Cleared lp c # bs) (t', effect (run_action d t' lp c) s, as @ after_run lp c x @ bs)"
  by (metis prod.collapse x_check, metis prod.collapse x_reserve, metis prod.collapse x_decide, metis prod.collapse x_run)

lemma both_run: "\<exists>cs. (pool_step id None)\<^sup>*\<^sup>* (0, new_plane, []) (2, both_plane, cs)"
proof -
  let ?p = "pool_step id None" and ?lp = sample_proof and ?c = checked_ctx
  define p1 where "p1 = effect (check_action sample_deps 2 ?lp sample_call) leased_plane"
  define p2 where "p2 = effect (reserve_action sample_deps ?c) checked_plane"
  define p3 where "p3 = effect (decide_action sample_deps ?c Started) p2"
  define p4 where "p4 = effect (reserve_action sample_deps ?c) ran_plane"
  have "?p (0, new_plane, []) (1, queued_plane, [])" "?p (1, queued_plane, []) (2, leased_plane, [])"
    unfolding queued_plane_def leased_plane_def by (rule x_op leased_plane_ops | simp)+
  moreover have "?p (2, leased_plane, []) (2, p1, [Checked ?lp ?c])"
    using pool_runs(1) [OF order_refl sample_configured sample_phases(1), of "[]"]
    by (simp add: p1_def after_check_def)
  moreover have "?p (2, p1, [Checked ?lp ?c]) (2, checked_plane, [Checked ?lp ?c, Checked ?lp ?c])"
    using pool_runs(1) [OF order_refl sample_configured sample_phases(2), of "[Checked ?lp ?c]"]
    by (simp add: p1_def checked_plane_def after_check_def)
  moreover have "?p (2, checked_plane, [Checked ?lp ?c, Checked ?lp ?c]) (2, p2, [Reserved ?lp ?c Started, Checked ?lp ?c])"
    using pool_runs(2) [OF sample_configured sample_phases(3), of 2 "[]" ?lp "[Checked ?lp ?c]"]
    by (simp add: p2_def after_reserve_def)
  moreover have "?p (2, p2, [Reserved ?lp ?c Started, Checked ?lp ?c]) (2, p3, [Cleared ?lp ?c, Checked ?lp ?c])"
    using pool_runs(3) [OF sample_configured sample_phases(4), of 2 "[]" ?lp "[Checked ?lp ?c]"]
    by (simp add: p2_def p3_def after_decide_def)
  moreover have "?p (2, p3, [Cleared ?lp ?c, Checked ?lp ?c]) (2, ran_plane, [Ran ?lp ?c (empty_result True), Checked ?lp ?c])"
    using pool_runs(4) [OF order_refl sample_configured sample_phases(5), of "[]" "[Checked ?lp ?c]"]
    by (simp add: p2_def p3_def ran_plane_def after_run_def)
  moreover have "?p (2, ran_plane, [Ran ?lp ?c (empty_result True), Checked ?lp ?c]) (2, p4, [Ran ?lp ?c (empty_result True), Reserved ?lp ?c Existing])"
    using pool_runs(2) [OF sample_configured sample_phases(6), of 2 "[Ran ?lp ?c (empty_result True)]" ?lp "[]"]
    by (simp add: p4_def after_reserve_def)
  moreover have "?p (2, p4, [Ran ?lp ?c (empty_result True), Reserved ?lp ?c Existing]) (2, both_plane, [Ran ?lp ?c (empty_result True)])"
    using pool_runs(3) [OF sample_configured sample_phases(7), of 2 "[Ran ?lp ?c (empty_result True)]" ?lp "[]"]
    by (simp add: p4_def both_plane_def after_decide_def)
  ultimately show ?thesis by (meson rtranclp.rtrancl_into_rtrancl rtranclp.rtrancl_refl)
qed

lemma executed_at_most_once_witness:
  "length (filter (unrepeatable_run None (ha_key sample_call)) (pl_calls both_plane)) = 1
   \<and> map_of (lg_intents (pl_ledger both_plane)) (ha_key sample_call) \<noteq> None"
proof -
  obtain cs where "(pool_step id None)\<^sup>*\<^sup>* (0, new_plane, []) (2, both_plane, cs)" using both_run by blast
  note once = executed_at_most_once [OF this, of "ha_key sample_call"]
  have "filter (unrepeatable_run None (ha_key sample_call)) (pl_calls both_plane) \<noteq> []" by code_simp
  with once show ?thesis by (cases "filter (unrepeatable_run None (ha_key sample_call)) (pl_calls both_plane)") auto
qed

end
