(* ===== verification/ExecAuth.thy ===== *)
theory ExecAuth
  imports ExecOnce
begin

text \<open>
  The security boundary of the control plane: what must hold when \<open>executeAction\<close> lets an action reach
  its executor.
\<close>

lemma recorded_intent:
  "reserve_action d c s = (Inr v, s') \<Longrightarrow> map_of (lg_intents (pl_ledger s')) (ha_key (ac_action c)) \<noteq> None"
  unfolding reserve_action_def ledger_prog_def
  by (rule reserve_cases [of "ha_key (ac_action c)" "actionFingerprint (dp_hash d) (ac_work c) (ac_action c)" "intent_of c" "pl_ledger s"])
    auto

lemma executeAction_trace:
  assumes "executeAction d now lp a s = (r, s')"
  shows "executions s' = executions s
    \<or> (\<exists>c work. requireLease d now lp True s = (Inr work, s) \<and> authorized d work c \<and> ac_action c = a
        \<and> executions s' = executions s @ [Executed (wi_id work) a] \<and> ha_action a \<noteq> ''task.inspect''
        \<and> map_of (lg_intents (pl_ledger s')) (ha_key a) \<noteq> None)"
proof -
  obtain x s1 where check: "check_action d now lp a s = (x, s1)" by (cases "check_action d now lp a s")
  have q1: "quiet s s1" by (rule keeps_apply [OF silent.keeps_check_action [OF refl] check])
  show ?thesis
  proof (cases "\<exists>c. x = Inr (Inr c)")
    case False
    then have "s' = s1" using assms check by (auto simp: executeAction_def andThen_def split: sum.splits)
    with q1 show ?thesis by (simp add: quiet_def)
  next
    case True
    then obtain c where x: "x = Inr (Inr c)" by blast
    obtain work where w: "requireLease d now lp True s = (Inr work, s)" "authorized d work c" "ac_action c = a"
      using check unfolding x by (rule check_action_Inr)
    obtain y s2 where res: "reserve_action d c s1 = (y, s2)" by (cases "reserve_action d c s1")
    have q2: "quiet s1 s2" by (rule keeps_apply [OF silent.keeps_reserve_action res])
    show ?thesis
    proof (cases y)
      case (Inl e)
      then have "s' = s2" using assms check res x by (simp add: executeAction_def andThen_def)
      with q1 q2 show ?thesis by (simp add: quiet_def)
    next
      case (Inr v)
      obtain z s3 where dec: "decide_action d c v s2 = (z, s3)" by (cases "decide_action d c v s2")
      have q3: "quiet s2 s3" by (rule keeps_apply [OF silent.keeps_decide dec])
      show ?thesis
      proof (cases "z = Inr None")
        case False
        then have "s' = s3" using assms check res x Inr dec
          by (auto simp: executeAction_def andThen_def split: sum.splits option.splits)
        with q1 q2 q3 show ?thesis by (simp add: quiet_def)
      next
        case True
        obtain u s4 where run: "run_action d now lp c s3 = (u, s4)" by (cases "run_action d now lp c s3")
        note ran = run_action_executions [OF run]
        have "snd (andThen (run_action d now lp c) (record_action c) s3) = s'"
          using assms check res x Inr dec True by (simp add: executeAction_def andThen_def)
        then have q5: "quiet s4 s'"
          using run silent.keeps_record_action by (auto simp: andThen_def keeps_def quiet_refl split: sum.splits)
        have "map_of (lg_intents (pl_ledger s2)) (ha_key a) \<noteq> None" using recorded_intent res Inr w(3) by blast
        moreover have "lstep\<^sup>*\<^sup>* (pl_ledger s2) (pl_ledger s')" using q3 ran q5 by (auto simp: quiet_def)
        ultimately have k: "map_of (lg_intents (pl_ledger s')) (ha_key a) \<noteq> None" using known_later by metis
        have "executions s3 = executions s" "executions s' = executions s4" using q1 q2 q3 q5 by (simp_all add: quiet_def)
        moreover have "ac_work c = work" using w(2) by (simp add: authorized_def)
        ultimately show ?thesis using ran w k by (metis (no_types, opaque_lifting))
      qed
    qed
  qed
qed

text \<open>C2: an action only reaches its executor when it is authorized. If one call of \<open>executeAction\<close> makes the
  executor run something, then it runs the requested action, for the work item of a valid lease whose
  cancellation was not requested; the action's key is the one its identity spells; the grants the
  resolver returns cover it (the kernel's own allowlist plays no part), the execution mode permits it; and its
  intent is in the ledger.\<close>

theorem executed_authorized:
  assumes "executeAction d now lp a s = (r, s')" and "pl_calls s' = pl_calls s @ cs" and "Executed w b \<in> set cs"
  shows "b = a \<and> (\<exists>work ns m. getLeased now (lp_id lp) (lp_fence lp) (dp_hash d (lp_token lp)) (pl_work s) = Some (work, False)
    \<and> w = wi_id work \<and> ha_runId a = wi_id work \<and> ha_key a = actionKeyOf (ha_runId a) (ha_cellId a) (ha_callIndex a)
    \<and> action_parts (ha_action a) = Some (ns, m) \<and> allows (grant_for (dp_resolve d work) work ns) m
    \<and> mode_permits work (find_tool d (ha_action a)) = Inr True)
    \<and> map_of (lg_intents (pl_ledger s')) (ha_key a) \<noteq> None"
proof -
  have ex: "executions s' = executions s @ filter is_executed cs" using assms(2) by (simp add: executions_def)
  have mem: "Executed w b \<in> set (filter is_executed cs)" using assms(3) by simp
  then have "filter is_executed cs \<noteq> []" by (metis empty_iff empty_set)
  then have "executions s' \<noteq> executions s" using ex by simp
  then obtain c work where l: "requireLease d now lp True s = (Inr work, s)" and au: "authorized d work c" "ac_action c = a"
    and run: "executions s' = executions s @ [Executed (wi_id work) a]" and ni: "ha_action a \<noteq> ''task.inspect''"
    and k: "map_of (lg_intents (pl_ledger s')) (ha_key a) \<noteq> None"
    using executeAction_trace [OF assms(1)] by blast
  have "filter is_executed cs = [Executed (wi_id work) a]" using ex run by simp
  then have wb: "w = wi_id work" "b = a" using mem by (simp_all only: list.set insert_iff empty_iff port_call.inject simp_thms)
  have lease: "getLeased now (lp_id lp) (lp_fence lp) (dp_hash d (lp_token lp)) (pl_work s) = Some (work, False)"
    using l by (auto simp: requireLease_Inr)
  have "valid_action work a" "mode_permits work (find_tool d (ha_action a)) = Inr True"
    "\<exists>ns m. action_parts (ha_action a) = Some (ns, m) \<and> allows (grant_for (dp_resolve d work) work ns) m"
    using au ni by (auto simp: authorized_def)
  with wb lease k show ?thesis by (auto simp: valid_action_def)
qed

definition executed_plane :: plane where
  "executed_plane = effect (executeAction sample_deps 2 sample_proof sample_call) leased_plane"

lemma executed_authorized_witness:
  "map_of (lg_intents (pl_ledger executed_plane)) (ha_key sample_call) \<noteq> None
   \<and> pl_calls executed_plane = [Executed ''x'' sample_call]"
proof -
  have r: "executeAction sample_deps 2 sample_proof sample_call leased_plane
      = (fst (executeAction sample_deps 2 sample_proof sample_call leased_plane), executed_plane)"
    by (simp add: executed_plane_def)
  have c: "pl_calls executed_plane = [Executed ''x'' sample_call]" "pl_calls leased_plane = []" by code_simp+
  have "pl_calls executed_plane = pl_calls leased_plane @ [Executed ''x'' sample_call]" by (simp add: c)
  from executed_authorized [OF r this, of "''x''" sample_call] c show ?thesis by simp
qed

end
