(* ===== verification/EventFence.thy ===== *)
theory EventFence
  imports PlaneSteps
begin

text \<open>
  The sequence ranges of run events. Every attempt of a work item has a range of its own, so once a
  newer attempt holds the item nothing an older one still sends can change its history.
\<close>

definition fence_reached :: "int \<Rightarrow> string \<Rightarrow> int \<Rightarrow> work_store \<Rightarrow> bool" where
  "fence_reached now r f w = (store_ok now w \<and> (\<exists>row. get_row w r = Some row \<and> f \<le> row_fence row))"

definition frozen :: "string \<Rightarrow> int \<Rightarrow> plane \<Rightarrow> plane \<Rightarrow> bool" where
  "frozen r now s s' = (\<forall>f. fence_reached now r f (pl_work s) \<longrightarrow> fence_reached now r f (pl_work s')
     \<and> (\<forall>q \<le> (f - 1) * RUN_SEQUENCE_SPAN. event_at r q (pl_events s') = event_at r q (pl_events s)))"

lemma fence_reached_steps:
  assumes "(wstep hash)\<^sup>*\<^sup>* (t, w) (t', w')" and "fence_reached t r f w"
  shows "fence_reached t' r f w'"
proof -
  have ok: "conf_ok (t, w)" using assms(2) by (simp add: fence_reached_def conf_ok_def)
  then have "conf_ok (t', w')" using assms(1) store_run.steps_inv by blast
  moreover obtain row where "get_row w r = Some row" "f \<le> row_fence row"
    using assms(2) by (auto simp: fence_reached_def)
  then have "\<exists>row'. get_row w' r = Some row' \<and> f \<le> row_fence row'"
    using run_row_inv [OF assms(1) ok, where P = "\<lambda>t row. f \<le> row_fence row" and i = r]
    by (force dest: row_evol_fence)
  ultimately show ?thesis by (simp add: fence_reached_def conf_ok_def)
qed

lemma leased_event_range:
  assumes "leased_event now w e" and "ev_runId e = r" and "fence_reached now r f w"
  shows "(f - 1) * RUN_SEQUENCE_SPAN < ev_seq e"
proof -
  obtain i g h work c where l: "getLeased now i g h w = Some (work, c)" "ev_runId e = wi_id work"
    and start: "range_start work < ev_seq e"
    using assms(1) by (auto simp: leased_event_def)
  then obtain row where row: "get_row w i = Some row" "work = toWorkItem row (home_epoch w row)"
    by (auto simp: getLeased_iff validLease_iff)
  obtain row' where row': "get_row w r = Some row'" "f \<le> row_fence row'" and ok: "rows_ok w"
    using assms(3) by (auto simp: fence_reached_def store_ok_def)
  have "row_id row = i" using ok row(1) by (simp add: rows_ok_def)
  then have "row' = row" using row row' l(2) assms(2) by (simp add: toWorkItem_def)
  then have "(f - 1) * RUN_SEQUENCE_SPAN \<le> range_start work"
    using row' row(2) unfolding range_start_def RUN_SEQUENCE_SPAN_def by (intro mult_right_mono) (auto simp: toWorkItem_def)
  with start show ?thesis by simp
qed

interpretation frozen_history: exec_frame "frozen r now" hash now for r now hash
proof (unfold_locales, goal_cases)
  case (2 s t u)
  then show ?case by (auto simp: frozen_def)
next
  case (3 s w)
  then show ?case using fence_reached_steps [OF r_into_rtranclp] by (auto simp: frozen_def)
next
  case (8 s e)
  then show ?case using leased_event_range [of now "pl_work s" "re_event e" r]
    by (fastforce simp: frozen_def event_at_append)
qed (auto simp: frozen_def)

lemma plane_step_frozen:
  assumes "plane_step hash (t, s) (t', s')" and "fence_reached t r f (pl_work s)" and "q \<le> (f - 1) * RUN_SEQUENCE_SPAN"
  shows "fence_reached t' r f (pl_work s') \<and> event_at r q (pl_events s') = event_at r q (pl_events s)"
proof -
  have le: "t \<le> t'" using assms(1) by (cases rule: plane_step.cases) simp_all
  then have now: "fence_reached t' r f (pl_work s)" using assms(2) store_ok_later by (auto simp: fence_reached_def)
  have "frozen r t' s s'"
    using assms(1)
  proof (cases rule: plane_step.cases)
    case (p_op f)
    then show ?thesis using frozen_history.op_related by simp
  next
    case (p_execute d lp a)
    then show ?thesis using frozen_history.keeps_executeAction [of d hash r t' lp a] by (simp add: keeps_def)
  next
    case (p_recover d lp cellId)
    then show ?thesis using frozen_history.keeps_recoverCell [of d hash r t' lp cellId] by (simp add: keeps_def)
  qed
  with now assms(3) show ?thesis by (auto simp: frozen_def)
qed

lemma plane_steps_frozen:
  assumes "(plane_step hash)\<^sup>*\<^sup>* (t, s) c" and "fence_reached t r f (pl_work s)" and "q \<le> (f - 1) * RUN_SEQUENCE_SPAN"
  shows "fence_reached (fst c) r f (pl_work (snd c)) \<and> event_at r q (pl_events (snd c)) = event_at r q (pl_events s)"
  using assms(1)
proof (induction rule: rtranclp_induct)
  case (step y z)
  then show ?case
    using plane_step_frozen [of hash "fst y" "snd y" "fst z" "snd z" r f q] assms(3) by simp
qed (use assms(2) in simp)

lemma reachable_events: "(plane_step hash)\<^sup>*\<^sup>* (t0, new_plane) (t, s) \<Longrightarrow> estep\<^sup>*\<^sup>* [] (pl_events s)"
  using plane_steps_evolve [of hash "(t0, new_plane)" "(t, s)"] by (simp add: plane_evolves_def new_plane_def)

lemma reachable_store: "(plane_step hash)\<^sup>*\<^sup>* (t0, new_plane) (t, s) \<Longrightarrow> store_ok t (pl_work s)"
  using plane_steps_evolve [of hash "(t0, new_plane)" "(t, s)"]
    store_run.reachable_inv [of "(t0, new_work_store None None)" hash "(t, pl_work s)"]
  by (auto simp: plane_evolves_def new_plane_def conf_init_def conf_ok_def)

text \<open>C9: the history of past attempts is frozen. Once a work item has reached a fence, the events of every
  earlier attempt of it are fixed: whatever operations follow, by whichever worker, a range query
  below the current attempt's range returns the same events for ever.\<close>

theorem past_events_frozen:
  assumes "(plane_step hash)\<^sup>*\<^sup>* (t0, new_plane) (t, s)" and "(plane_step hash)\<^sup>*\<^sup>* (t, s) (t', s')"
    and "get_row (pl_work s) r = Some row" and "hi \<le> (row_fence row - 1) * RUN_SEQUENCE_SPAN"
  shows "listRange r lo hi kinds (pl_events s') = listRange r lo hi kinds (pl_events s)"
proof -
  have reached: "fence_reached t r (row_fence row) (pl_work s)"
    using reachable_store [OF assms(1)] assms(3) by (simp add: fence_reached_def)
  have same: "event_at r q (pl_events s') = event_at r q (pl_events s)" if "q \<le> hi" for q
    using plane_steps_frozen [OF assms(2) reached, of q] that assms(4) by simp
  have run': "(plane_step hash)\<^sup>*\<^sup>* (t0, new_plane) (t', s')" using assms(1,2) by (rule rtranclp_trans)
  let ?seq = "\<lambda>e. ev_seq (re_event e)"
  note before = list_range_props [OF reachable_events [OF assms(1)], of r lo hi kinds]
    and after = list_range_props [OF reachable_events [OF run'], of r lo hi kinds]
  have sets: "set (listRange r lo hi kinds (pl_events s')) = set (listRange r lo hi kinds (pl_events s))"
  proof -
    have "(\<exists>q. event_at r q (pl_events s') = Some e \<and> lo < q \<and> q \<le> hi
          \<and> (case kinds of None \<Rightarrow> True | Some ks \<Rightarrow> ev_kind (re_event e) \<in> set ks))
        \<longleftrightarrow> (\<exists>q. event_at r q (pl_events s) = Some e \<and> lo < q \<and> q \<le> hi
          \<and> (case kinds of None \<Rightarrow> True | Some ks \<Rightarrow> ev_kind (re_event e) \<in> set ks))" for e
      using same by metis
    then show ?thesis using before after by simp
  qed
  have ord: "sorted (map ?seq xs) \<and> distinct (map ?seq xs)" if "sorted_wrt (\<lambda>a b. ?seq a < ?seq b) xs" for xs
    using that strict_sorted_iff [of "map ?seq xs"] by (simp add: sorted_wrt_map)
  note old = ord [OF conjunct1 [OF before]] and new = ord [OF conjunct1 [OF after]]
  have inj: "inj_on ?seq (set (listRange r lo hi kinds (pl_events s)))" using old by (simp only: distinct_map)
  show ?thesis
    by (rule map_sorted_distinct_set_unique [where f = ?seq]) (use sets inj old new in \<open>simp_all only: Un_absorb\<close>)
qed

definition sample_event :: "int \<Rightarrow> run_event" where
  "sample_event q = \<lparr>ev_runId = ''x'', ev_seq = q, ev_kind = ''log'', ev_stage = StDelta, ev_visibility = InternalOnly, ev_data = []\<rparr>"

text \<open>One event of the first attempt; then its lease runs out and a second attempt begins.\<close>

definition second_attempt :: plane where
  "second_attempt = effect (claimS sample_deps 1000000 ''new'' sample_claim)
     (effect (recordEventS sample_deps 3 sample_proof (sample_event 1)) leased_plane)"

definition late_event :: plane where
  "late_event = effect (recordEventS sample_deps 1000001 sample_proof (sample_event 2)) second_attempt"

lemma second_attempt_run: "(plane_step id)\<^sup>*\<^sup>* (0, new_plane) (1000000, second_attempt)"
proof -
  have h: "dp_hash sample_deps = id" by (simp add: sample_deps_def)
  have "plane_step id (2, leased_plane) (3, effect (recordEventS sample_deps 3 sample_proof (sample_event 1)) leased_plane)"
    by (rule p_op [OF _ o_event [OF h]]) simp
  moreover have "plane_step id (3, effect (recordEventS sample_deps 3 sample_proof (sample_event 1)) leased_plane) (1000000, second_attempt)"
    unfolding second_attempt_def by (rule p_op [OF _ o_claim [OF h]]) simp
  ultimately show ?thesis using leased_plane_run by (meson rtranclp.rtrancl_into_rtrancl)
qed

lemma past_events_frozen_witness:
  "listRange ''x'' 0 100000 None (pl_events late_event) = listRange ''x'' 0 100000 None (pl_events second_attempt)
   \<and> map (\<lambda>e. ev_seq (re_event e)) (listRange ''x'' 0 100000 None (pl_events second_attempt)) = [1]"
proof -
  have h: "dp_hash sample_deps = id" by (simp add: sample_deps_def)
  have "plane_step id (1000000, second_attempt) (1000001, late_event)"
    unfolding late_event_def by (rule p_op [OF _ o_event [OF h]]) simp
  then have step: "(plane_step id)\<^sup>*\<^sup>* (1000000, second_attempt) (1000001, late_event)" by (rule r_into_rtranclp)
  have "map_option row_fence (get_row (pl_work second_attempt) ''x'') = Some 2" by code_simp
  then obtain row where row: "get_row (pl_work second_attempt) ''x'' = Some row" "row_fence row = 2" by auto
  have hi: "100000 \<le> (row_fence row - 1) * RUN_SEQUENCE_SPAN" by (simp add: row(2) RUN_SEQUENCE_SPAN_def)
  have "map (\<lambda>e. ev_seq (re_event e)) (listRange ''x'' 0 100000 None (pl_events second_attempt)) = [1]" by code_simp
  with past_events_frozen [OF second_attempt_run step row(1) hi, of 0 None] show ?thesis by simp
qed

end
