(* ===== verification/CommitProps.thy ===== *)
theory CommitProps
  imports PlaneSteps
begin

text \<open>
  What a delivered final message is guaranteed to be: the theorem follows a successful
  \<open>commitResult\<close> to the call of the delivery port.
\<close>

lemma andThen_liftR: "andThen (liftR r) f s = (case r of Inl e \<Rightarrow> (Inl e, s) | Inr x \<Rightarrow> f x s)"
  by (simp add: andThen_def liftR_def split: sum.split)

lemma getSession_run:
  assumes "getSession d now lp key s = (x, s')"
  shows "s' = s \<and> (\<forall>q. x = Inr (Some q) \<longrightarrow> (\<exists>work c. getLeased now (lp_id lp) (lp_fence lp) (dp_hash d (lp_token lp)) (pl_work s)
     = Some (work, c) \<and> key = work_session_key work \<and> get_session key (Some (wi_id work)) (pl_sessions s) = Some q))"
proof -
  obtain y s1 where lease: "requireLease d now lp False s = (y, s1)" by (cases "requireLease d now lp False s")
  have s1: "s1 = s" using requireLease_state lease by (metis snd_conv)
  show ?thesis
  proof (cases y)
    case (Inl e)
    then show ?thesis using assms lease s1 by (auto simp: getSession_def andThen_def)
  next
    case (Inr work)
    then obtain c where l: "getLeased now (lp_id lp) (lp_fence lp) (dp_hash d (lp_token lp)) (pl_work s) = Some (work, c)"
      using lease by (auto simp: requireLease_Inr)
    show ?thesis using assms lease l unfolding Inr s1 getSession_def
      by (auto simp: andThen_run(2) andThen_liftR andThen_guardE split: sum.splits option.splits if_splits)
  qed
qed

lemma current_request_run:
  assumes "current_request d now lp work s = (x, s')"
  shows "s' = s \<and> (\<forall>r. x = Inr (Some r) \<longrightarrow> (\<exists>q w c. getLeased now (lp_id lp) (lp_fence lp) (dp_hash d (lp_token lp)) (pl_work s)
     = Some (w, c) \<and> get_session (work_session_key work) (Some (wi_id w)) (pl_sessions s) = Some q \<and> ss_request q = Some r))"
proof -
  obtain y s1 where g: "getSession d now lp (work_session_key work) s = (y, s1)" by (cases "getSession d now lp (work_session_key work) s")
  show ?thesis
    using assms getSession_run [OF g] g
    by (auto simp: current_request_def andThen_def split: sum.splits option.splits)
qed

lemma heartbeatS_run:
  assumes "heartbeatS d now lp s = (x, s')"
  shows "(\<exists>hb. x = Inr hb) \<and> pl_ledger s' = pl_ledger s \<and> pl_sessions s' = pl_sessions s \<and> pl_steps s' = pl_steps s
    \<and> pl_calls s' = pl_calls s \<and> pl_events s' = pl_events s \<and> pl_budgets s' = pl_budgets s
    \<and> fst (heartbeat now (lp_id lp) (lp_fence lp) (dp_hash d (lp_token lp)) (pl_work s)) = (case x of Inr hb \<Rightarrow> hb | Inl e \<Rightarrow> None)"
  using assms by (auto simp: heartbeatS_def on_work_def split: prod.splits)

lemma heartbeat_steer:
  assumes "getLeased now i f h w = Some (work, c)"
  shows "\<exists>row hb. get_row w i = Some row \<and> fst (heartbeat now i f h w) = Some hb \<and> hb_steer hb = row_steerInputs row"
  using assms by (auto simp: getLeased_iff validLease_iff heartbeat_def validLease_iff [THEN iffD2] Let_def heartbeat_view_def split: option.splits)

lemma by_path_set: "set (jvalues (by_path xs)) \<subseteq> set xs"
proof -
  have "set (jvalues (foldl (\<lambda>m a. AList.update (af_path a) a m) m xs)) \<subseteq> set (jvalues m) \<union> set xs" for m
  proof (induction xs arbitrary: m)
    case (Cons a xs)
    have "set (jvalues (AList.update (af_path a) a m)) \<subseteq> set (jvalues m) \<union> {a}"
      by (induction m) auto
    with Cons.IH [of "AList.update (af_path a) a m"] show ?case unfolding foldl.simps list.set by blast
  qed simp
  from this [of "[]"] show ?thesis by (simp add: by_path_def)
qed

lemma snapshotArtifacts_set: "snapshotArtifacts xs = Inr ys \<Longrightarrow> set ys \<subseteq> set xs"
  unfolding snapshotArtifacts_def by (split if_split_asm, simp, simp only: sum.inject, erule subst, rule by_path_set)

lemma createResponseEnvelope_artifacts:
  "createResponseEnvelope h body g ev xs k cs asm = Inr e \<Longrightarrow> snapshotArtifacts xs = Inr (en_artifacts e)"
  by (auto simp: createResponseEnvelope_def bindR_Inr split: if_splits)


lemma steer_version_run:
  assumes "steer_version d now lp s = (Inr v, s')" and "getLeased now (lp_id lp) (lp_fence lp) (dp_hash d (lp_token lp)) (pl_work s) = Some (work, c)"
  shows "pl_ledger s' = pl_ledger s \<and> pl_sessions s' = pl_sessions s \<and> pl_steps s' = pl_steps s \<and> pl_calls s' = pl_calls s
    \<and> (\<exists>row. get_row (pl_work s) (lp_id lp) = Some row \<and> v = js_len (row_steerInputs row) + 1)"
proof -
  obtain x where h: "heartbeatS d now lp s = (x, s')"
    using assms(1) by (auto simp: steer_version_def andThen_def split: prod.splits sum.splits)
  note hb = heartbeatS_run [OF h]
  obtain row hb' where row: "get_row (pl_work s) (lp_id lp) = Some row"
    "fst (heartbeat now (lp_id lp) (lp_fence lp) (dp_hash d (lp_token lp)) (pl_work s)) = Some hb'" "hb_steer hb' = row_steerInputs row"
    using heartbeat_steer [OF assms(2)] by blast
  then have "x = Inr (Some hb')" using hb by auto
  then have "v = js_len (row_steerInputs row) + 1" using assms(1) h row(3) by (simp add: steer_version_def andThen_def)
  with hb row(1) show ?thesis by blast
qed

lemma deliver_current_run:
  assumes "deliver_current d now lp work m e s = (Inr (), s')"
  shows "pl_calls s' = pl_calls s @ [Delivered (wi_id work) m] \<and> pl_ledger s' = pl_ledger s \<and> pl_sessions s' = pl_sessions s
    \<and> pl_steps s' = pl_steps s"
proof -
  obtain x s1 where h: "heartbeatS d now lp s = (x, s1)" by (cases "heartbeatS d now lp s")
  have r: "requireLease d now lp False s2 = (y, s3) \<Longrightarrow> andThen (\<lambda>s. (y, s3)) (\<lambda>_. throw z) s2 \<noteq> (Inr (), s')" for s2 s3 y z
    by (auto simp: andThen_def split: sum.splits)
  show ?thesis
    using assms heartbeatS_run [OF h] h
    by (auto simp: deliver_current_def andThen_def guardE_def log_call_def split: sum.splits option.splits prod.splits if_splits)
qed

lemma commit_records_run:
  assumes "commit_records d now lp work m e r evidence s = (Inr (), s')"
    and "getLeased now (lp_id lp) (lp_fence lp) (dp_hash d (lp_token lp)) (pl_work s) = Some (work, c)"
  obtains recorded artifacts row s1 expected where
    "snapshotArtifacts (step_artifacts (wi_id work) s) = Inr recorded" and "snapshotArtifacts (en_artifacts e) = Inr artifacts"
    and "all_recorded artifacts recorded" and "en_requestVersion e = request_version r"
    and "get_row (pl_work s) (lp_id lp) = Some row" and "en_requestVersion e = js_len (row_steerInputs row) + 1"
    and "pl_ledger s1 = pl_ledger s" and "expected_envelope d work r evidence (list_steps (wi_id work) None (pl_steps s)) artifacts m e s1 = Inr expected"
    and "envelope_eq expected e" and "pl_calls s' = pl_calls s @ [Delivered (wi_id work) m]"
    and "pl_ledger s' = pl_ledger s" and "pl_sessions s' = pl_sessions s" and "pl_steps s' = pl_steps s"
proof -
  let ?steps = "list_steps (wi_id work) None (pl_steps s)"
  define child where "child = (\<lambda>s :: plane. guardE (case go_status (en_goalOutcome e) of
            Delegated t \<Rightarrow> hasChild work t (en_requestVersion e) (pl_work s) | _ \<Rightarrow> True)
          (fail 409 ''delegated task is not pending for this request'') s)"
  from assms(1) obtain recorded artifacts v s1 sa sb sc sd expected where
    snap: "snapshotArtifacts (step_artifacts (wi_id work) s) = Inr recorded" "snapshotArtifacts (en_artifacts e) = Inr artifacts"
    "all_recorded artifacts recorded" "en_requestVersion e = request_version r"
    and sv: "steer_version d now lp s = (Inr v, s1)" and "guardE (en_requestVersion e = v) stale_response s1 = (Inr (), sa)"
    and "child sa = (Inr (), sb)" and "validateWait work (en_goalOutcome e) sb = (Inr (), sc)"
    and "expected_envelope d work r evidence ?steps artifacts m e sc = Inr expected"
    and "guardE (envelope_eq expected e) (fail 409 ''response envelope is inconsistent with its durable records'') sc = (Inr (), sd)"
    and del: "deliver_current d now lp work m e sd = (Inr (), s')"
    unfolding commit_records_def child_def [symmetric]
    by (auto simp: andThen_liftR andThen_guardE step_artifacts_def split: sum.splits if_splits elim!: andThen_InrE)
  moreover from this have "sa = s1" "en_requestVersion e = v" "sb = sa" "sd = sc" "envelope_eq expected e"
    by (simp_all add: guardE_Inr child_def)
  moreover have "sc = sb"
    using calculation(8) by (auto simp: validateWait_def guardE_def split: goal_status.splits if_splits)
  ultimately show thesis
    using that [OF snap] steer_version_run [OF sv assms(2)] deliver_current_run [OF del] by simp blast
qed


lemma commitResult_run:
  assumes "commitResult d now lp m s = (Inr (), s')" and "pl_calls s' \<noteq> pl_calls s"
  obtains work e r evidence q where "getLeased now (lp_id lp) (lp_fence lp) (dp_hash d (lp_token lp)) (pl_work s) = Some (work, False)"
    and "addressed work m" and "ms_envelope m = Some e" and "go_verification (en_goalOutcome e) \<noteq> Passed"
    and "get_session (work_session_key work) (Some (wi_id work)) (pl_sessions s) = Some q" and "ss_request q = Some r"
    and "rq_workId r = wi_id work" and "rq_evidence r = Some evidence"
    and "commit_records d now lp work m e r evidence s = (Inr (), s')"
proof -
  have "\<not> committed_before d now lp m s"
    using assms by (auto simp: commitResult_def)
  then obtain work e r evidence s1 sa s2 where lease: "requireLease d now lp True s = (Inr work, s1)"
    and ad: "guardE (addressed work m) (fail 409 ''assistant message is missing its stream identity or body'') s1 = (Inr (), sa)"
    and e: "ms_envelope m = Some e" "go_verification (en_goalOutcome e) \<noteq> Passed"
    and req: "current_request d now lp work sa = (Inr (Some r), s2)" and r: "rq_evidence r = Some evidence" "rq_workId r = wi_id work"
    and rec: "commit_records d now lp work m e r evidence s2 = (Inr (), s')"
    using assms(1) unfolding commitResult_def
    by (auto simp: andThen_guardE elim!: andThen_InrE split: if_splits option.splits)
  have s1: "sa = s" "addressed work m" and l: "getLeased now (lp_id lp) (lp_fence lp) (dp_hash d (lp_token lp)) (pl_work s) = Some (work, False)"
    using lease ad by (auto simp: requireLease_Inr guardE_Inr)
  note cr = current_request_run [OF req]
  then obtain q where "get_session (work_session_key work) (Some (wi_id work)) (pl_sessions s) = Some q" "ss_request q = Some r"
    using l s1 by auto
  with that [OF l s1(2) e] r rec cr s1 show thesis by auto
qed

text \<open>What a satisfied outcome rests on.\<close>

definition nothing_open :: "deps \<Rightarrow> work_item \<Rightarrow> request_snapshot \<Rightarrow> message \<Rightarrow> int \<Rightarrow> artifact list \<Rightarrow> plane \<Rightarrow> plane \<Rightarrow> bool" where
  "nothing_open d work r m version artifacts s t = (unsettled (wi_id work) (pl_ledger s) = []
     \<and> delivery_gaps d work r (list_steps (wi_id work) None (pl_steps s)) m version artifacts t = Inr []
     \<and> (\<exists>latest. latest_checks version (opt_list (rq_resourceChecks r)) [] = Inr latest \<and> all_pass latest))"

lemma expected_envelope_run:
  assumes "expected_envelope d work r evidence steps artifacts m e s = Inr expected"
  shows "createResponseEnvelope (dp_hash d) (ms_body m) (en_goalOutcome e) evidence artifacts (rq_contract r) (rq_resourceChecks r)
      (en_assessment e) = Inr expected
    \<and> (go_status (en_goalOutcome e) = Satisfied \<longrightarrow> unsettled (wi_id work) (pl_ledger s) = []
        \<and> delivery_gaps d work r steps m (en_requestVersion e) artifacts s = Inr []
        \<and> (\<exists>latest. latest_checks (en_requestVersion e) (opt_list (rq_resourceChecks r)) [] = Inr latest \<and> all_pass latest))"
proof -
  obtain gaps where g: "delivery_gaps d work r steps m (en_requestVersion e) artifacts s = Inr gaps"
    and v: "validateCompletion (ms_body m) (en_assessment e) r (en_goalOutcome e) gaps = Inr ()"
    and sat: "(if go_status (en_goalOutcome e) = Satisfied then check_satisfied work r (en_requestVersion e) (en_assessment e) s else Inr ()) = Inr ()"
    and env: "createResponseEnvelope (dp_hash d) (ms_body m) (en_goalOutcome e) evidence artifacts (rq_contract r) (rq_resourceChecks r)
      (en_assessment e) = Inr expected"
    using assms by (auto simp: expected_envelope_def Let_def bindR_Inr)
  have "gaps = []" if "go_status (en_goalOutcome e) = Satisfied"
    using v that by (auto simp: validateCompletion_def bindR_Inr split: if_splits)
  with g sat env show ?thesis by (auto simp: check_satisfied_def bindR_Inr split: if_splits)
qed



definition sample_request :: request_snapshot where
  "sample_request = \<lparr>rq_workId = ''x'', rq_tenantId = ''t'', rq_sessionId = ''s1'', rq_authorId = ''p'', rq_sourceRef = ''m'',
     rq_originalText = ''hello'', rq_revisions = [], rq_codeExecution = None, rq_deliveryMode = None, rq_mode = None,
     rq_obligations = None, rq_inheritedRevisions = None, rq_attachments = [],
     rq_evidence = Some \<lparr>es_id = ''x:evidence:1'', es_items = []\<rparr>, rq_contract = None, rq_resourceChecks = None,
     rq_parentWorkId = None, rq_rootWorkId = None, rq_parentRequestVersion = None, rq_instructionAuthor = None,
     rq_delegatedAssignment = None, rq_conversation = None\<rparr>"

definition answered_plane :: plane where
  "answered_plane = leased_plane\<lparr>pl_sessions := snd (save_session
     (sample_session\<lparr>ss_key := sessionKeyOf ''t'' ''a'' ''s1'' None, ss_request := Some sample_request\<rparr>) empty_sessions)\<rparr>"

definition sample_envelope :: envelope where
  "sample_envelope = \<lparr>en_presentations = None, en_body = ''hi'', en_requestVersion = 1, en_evidenceSnapshotId = ''x:evidence:1'',
     en_citations = [], en_citationEvidence = Some [], en_artifacts = [],
     en_goalOutcome = \<lparr>go_status = Satisfied, go_verification = NotRun, go_requestVersion = 1, go_gaps = None, go_question = None\<rparr>,
     en_taskContract = None, en_resourceChecks = None, en_assessment = None\<rparr>"

definition sample_message :: message where
  "sample_message = \<lparr>ms_envelope = Some sample_envelope, ms_runId = ''x'', ms_agentId = ''a'', ms_sessionId = ''s1'',
     ms_threadId = None, ms_body = ''hi''\<rparr>"

definition delivered_plane :: plane where
  "delivered_plane = effect (commitResult sample_deps 3 sample_proof sample_message) answered_plane"


end
