(* ===== verification/Access.thy ===== *)
theory Access
  imports Context Protocol
begin

text \<open>
  Who takes part in a conversation (collaboration/access.ts, collaboration/types.ts): identifiers,
  participants and their capabilities, the frozen audience of a message and the authorisation of a
  work item. The conversation tables are association lists keyed as their primary keys; every
  operation runs in the caller's transaction, so it is one step of the model. A policy is what the
  authenticated administration stored, so its fields have their declared types.
\<close>

subsection \<open>Identifiers\<close>

definition js_identifier :: "json option \<Rightarrow> os_error + string" where
  "js_identifier v = (case v of
      Some (JStr s) \<Rightarrow> if blank s \<or> js_len s > 1000 then Inl (JsError ''invalid collaboration identifier'') else Inr s
    | _ \<Rightarrow> Inl (JsError ''invalid collaboration identifier''))"

definition valid_identifier :: "string \<Rightarrow> os_error + string" where
  "valid_identifier s = js_identifier (Some (JStr s))"

text \<open>Arrays and objects are compared by identity.\<close>

definition is_reference :: "json \<Rightarrow> bool" where
  "is_reference v = (case v of JArr _ \<Rightarrow> True | JObj _ \<Rightarrow> True | _ \<Rightarrow> False)"

definition positiveVersion :: "json option \<Rightarrow> os_error + int" where
  "positiveVersion v = (case v of
      Some (JNum i) \<Rightarrow> if safe_int i \<and> 1 \<le> i then Inr i else Inl (JsError ''invalid collaboration version'')
    | _ \<Rightarrow> Inl (JsError ''invalid collaboration version''))"

lemma valid_identifier_Inr: "valid_identifier s = Inr t \<longleftrightarrow> t = s \<and> \<not> blank s \<and> js_len s \<le> 1000"
  by (auto simp: valid_identifier_def js_identifier_def)

subsection \<open>Policies and audiences\<close>

datatype capability = CanRead | CanExecute | CanSpeak | CanControl

datatype participant_kind = Human | Agent

record participant =
  pt_id :: string
  pt_kind :: participant_kind
  pt_capabilities :: "capability list"

datatype conversation_kind = Direct | Group

datatype conversation_owner = OwnerParticipant string | OwnerOrganization string

record conversation_policy =
  cp_version :: int
  cp_kind :: conversation_kind
  cp_owner :: conversation_owner
  cp_participants :: "participant list"
  cp_defaultAgentId :: "string option"

datatype visibility = ToConversation | ToParticipants | Internal

record audience =
  au_visibility :: visibility
  au_participantIds :: "string list"

datatype audience_input = ConversationAudience | ParticipantsAudience "string list"

fun capability_name :: "capability \<Rightarrow> string" where
  "capability_name CanRead = ''read''"
| "capability_name CanExecute = ''execute''"
| "capability_name CanSpeak = ''speak''"
| "capability_name CanControl = ''control''"

definition participant_of :: "conversation_policy \<Rightarrow> string \<Rightarrow> capability \<Rightarrow> participant_kind option
    \<Rightarrow> os_error + participant" where
  "participant_of p i c k =
     (let denied = Inl (NoEffectError (''conversation '' @ capability_name c @ '' capability is unavailable'') ''forbidden'')
      in case find (\<lambda>x. pt_id x = i \<and> (k = None \<or> k = Some (pt_kind x))) (cp_participants p) of
           None \<Rightarrow> denied
         | Some x \<Rightarrow> if c \<in> set (pt_capabilities x) then Inr x else denied)"

fun check_each :: "('a \<Rightarrow> os_error + 'b) \<Rightarrow> 'a list \<Rightarrow> os_error + unit" where
  "check_each f [] = Inr ()"
| "check_each f (x # xs) = bindR (f x) (\<lambda>_. check_each f xs)"

definition audienceOf :: "conversation_policy \<Rightarrow> audience_input \<Rightarrow> os_error + audience" where
  "audienceOf p input =
     (let ids = (case input of
            ConversationAudience \<Rightarrow> map pt_id (filter (\<lambda>x. CanRead \<in> set (pt_capabilities x)) (cp_participants p))
          | ParticipantsAudience xs \<Rightarrow> xs);
          v = (case input of ConversationAudience \<Rightarrow> ToConversation | ParticipantsAudience _ \<Rightarrow> ToParticipants)
      in if ids = [] \<or> js_len ids > 256 \<or> \<not> distinct ids
         then Inl (JsError ''invalid audience participants'')
         else bindR (check_each (\<lambda>i. bindR (valid_identifier i) (\<lambda>_. participant_of p i CanRead None)) ids) (\<lambda>_.
           Inr \<lparr>au_visibility = v, au_participantIds = sort ids\<rparr>))"

definition requireAudience :: "conversation_policy \<Rightarrow> audience \<Rightarrow> string list \<Rightarrow> os_error + unit" where
  "requireAudience p a ids = check_each (\<lambda>i. bindR (participant_of p i CanRead None) (\<lambda>_.
     if i \<in> set (au_participantIds a) then Inr ()
     else Inl (NoEffectError ''participant is outside the audience'' ''forbidden''))) ids"

definition containsAudience :: "audience \<Rightarrow> audience \<Rightarrow> bool" where
  "containsAudience resource output =
     list_all (\<lambda>i. i \<in> set (au_participantIds resource)) (au_participantIds output)"

lemma check_each_Inr: "check_each f xs = Inr u \<longleftrightarrow> (\<forall>x \<in> set xs. \<exists>y. f x = Inr y)"
  by (induction xs) (auto simp: bindR_def split: sum.splits)

lemma participant_of_Inr: "participant_of p i c k = Inr x \<Longrightarrow>
    x \<in> set (cp_participants p) \<and> pt_id x = i \<and> c \<in> set (pt_capabilities x)"
  by (auto simp: participant_of_def Let_def find_Some_iff split: option.splits if_splits)

subsection \<open>The conversation tables\<close>

record message_reference =
  mr_messageId :: string
  mr_version :: int

record work_conversation =
  wc_conversationId :: string
  wc_policyVersion :: int
  wc_source :: message_reference
  wc_audience :: audience
  wc_internal :: bool

record conversation_scope =
  sc_tenantId :: string
  sc_conversationId :: string
  sc_threadId :: "string option"

record reply_slot =
  rs_workId :: string
  rs_tenantId :: string
  rs_conversationId :: string
  rs_source :: message_reference
  rs_agentId :: string

record conversation_tables =
  ct_policies :: "(string \<times> string, conversation_policy) jsmap"
  ct_threads :: "(string \<times> string \<times> string) list"
  ct_slots :: "reply_slot list"

definition conversationPolicy :: "'a conversation_tables_scheme \<Rightarrow> conversation_scope \<Rightarrow> os_error + conversation_policy" where
  "conversationPolicy t sc =
     bindR (valid_identifier (sc_tenantId sc)) (\<lambda>_. bindR (valid_identifier (sc_conversationId sc)) (\<lambda>_.
     bindR (case sc_threadId sc of None \<Rightarrow> Inr [] | Some h \<Rightarrow> valid_identifier h) (\<lambda>_.
     case map_of (ct_policies t) (sc_tenantId sc, sc_conversationId sc) of
       None \<Rightarrow> Inl (NoEffectError ''conversation is unavailable'' ''forbidden'')
     | Some p \<Rightarrow> (case sc_threadId sc of
           None \<Rightarrow> Inr p
         | Some h \<Rightarrow> if (sc_tenantId sc, sc_conversationId sc, h) \<in> set (ct_threads t) then Inr p
             else Inl (NoEffectError ''thread is outside this conversation'' ''forbidden'')))))"

datatype work_operation = OpRead | OpExecute | OpSpeak

text \<open>The principal of a work item in a conversation is never missing: \<open>work.principalId!\<close>.\<close>

definition authorizeConversationWork :: "'a conversation_tables_scheme \<Rightarrow> work_item \<Rightarrow> work_conversation option
    \<Rightarrow> work_operation \<Rightarrow> os_error + conversation_policy option" where
  "authorizeConversationWork t w conv operation = (case conv of
      None \<Rightarrow> Inr None
    | Some sc \<Rightarrow>
       (let principal = (case wi_principalId w of None \<Rightarrow> [] | Some q \<Rightarrow> q);
            needed = (if operation = OpRead then CanRead else CanExecute)
        in bindR (conversationPolicy t \<lparr>sc_tenantId = wi_tenantId w, sc_conversationId = wc_conversationId sc,
                sc_threadId = wi_threadId w\<rparr>) (\<lambda>p.
           bindR (requireAudience p (wc_audience sc) [principal, wi_agentId w]) (\<lambda>_.
           bindR (participant_of p principal needed (Some Human)) (\<lambda>_.
           bindR (participant_of p (wi_agentId w) needed (Some Agent)) (\<lambda>_.
           bindR (check_each (\<lambda>i. participant_of p i CanRead None) (au_participantIds (wc_audience sc))) (\<lambda>_.
           if operation \<noteq> OpSpeak then Inr (Some p)
           else if wc_internal sc \<or> au_visibility (wc_audience sc) = Internal
           then Inl (JsError ''internal work cannot speak'')
           else bindR (participant_of p (wi_agentId w) CanSpeak (Some Agent)) (\<lambda>_.
             if list_ex (\<lambda>r. rs_workId r = wi_id w \<and> rs_tenantId r = wi_tenantId w
                  \<and> rs_conversationId r = wc_conversationId sc \<and> rs_source r = wc_source sc
                  \<and> rs_agentId r = wi_agentId w) (ct_slots t)
             then Inr (Some p) else Inl (JsError ''work has no reply slot'')))))))))"

end
