(* ===== verification/Graph.thy ===== *)
theory Graph
  imports Access
begin

text \<open>
  A delegated graph of agent work (\<open>graphNodes\<close> of collaboration/graphs.ts): validation of the
  nodes a model proposes and the depth-first search that puts every node after the nodes it depends
  on. The search recurses on the graph, which may be cyclic: it carries a depth bound, and
  \<open>graph_order\<close> shows that one level more than the number of nodes is always enough.
\<close>

subsection \<open>The nodes of the input\<close>

record graph_node =
  gn_id :: string
  gn_agentId :: string
  gn_text :: string
  gn_dependsOn :: "string list"

text \<open>\<open>new Set(xs).size\<close> counts equal primitives once and every object for itself.\<close>

fun set_distinct :: "json list \<Rightarrow> bool" where
  "set_distinct [] = True"
| "set_distinct (v # vs) = ((is_reference v \<or> v \<notin> set vs) \<and> set_distinct vs)"

fun identifiers :: "json list \<Rightarrow> os_error + string list" where
  "identifiers [] = Inr []"
| "identifiers (v # vs) = bindR (js_identifier (Some v)) (\<lambda>i. bindR (identifiers vs) (\<lambda>is. Inr (i # is)))"

definition node_fields :: "json \<Rightarrow> jobj option" where
  "node_fields v = (case v of
      JObj kvs \<Rightarrow> if list_all (\<lambda>k. k \<in> {''id'', ''agentId'', ''text'', ''dependsOn''}) (map fst kvs) then Some kvs else None
    | JArr [] \<Rightarrow> Some []
    | _ \<Rightarrow> None)"

definition dependencies_ok :: "json option \<Rightarrow> bool" where
  "dependencies_ok v = (case v of
      None \<Rightarrow> True
    | Some (JArr ds) \<Rightarrow> js_len ds \<le> 64 \<and> set_distinct ds
    | _ \<Rightarrow> False)"

definition graph_node_of :: "(string, graph_node) jsmap \<Rightarrow> json \<Rightarrow> os_error + graph_node" where
  "graph_node_of nodes v = (case node_fields v of
      None \<Rightarrow> Inl (JsError ''invalid graph node fields'')
    | Some kvs \<Rightarrow>
        bindR (js_identifier (map_of kvs ''id'')) (\<lambda>i.
        bindR (js_identifier (map_of kvs ''agentId'')) (\<lambda>a.
        case map_of kvs ''text'' of
          Some (JStr txt) \<Rightarrow>
            if jhas nodes i \<or> blank txt \<or> js_len txt > 100000 \<or> \<not> dependencies_ok (map_of kvs ''dependsOn'')
            then Inl (JsError ''invalid or duplicate graph node'')
            else bindR (identifiers (case map_of kvs ''dependsOn'' of Some (JArr ds) \<Rightarrow> ds | _ \<Rightarrow> [])) (\<lambda>ds.
              Inr \<lparr>gn_id = i, gn_agentId = a, gn_text = txt, gn_dependsOn = sort ds\<rparr>)
        | _ \<Rightarrow> Inl (JsError ''invalid or duplicate graph node''))))"

fun collect_nodes :: "(string, graph_node) jsmap \<Rightarrow> json list \<Rightarrow> os_error + (string, graph_node) jsmap" where
  "collect_nodes nodes [] = Inr nodes"
| "collect_nodes nodes (v # vs) = bindR (graph_node_of nodes v) (\<lambda>n.
     collect_nodes (AList.update (gn_id n) n nodes) vs)"

definition graph_map :: "json option \<Rightarrow> json option \<Rightarrow> os_error + (string, graph_node) jsmap" where
  "graph_map gid nodes = bindR (js_identifier gid) (\<lambda>_. case nodes of
      Some (JArr vs) \<Rightarrow> if vs = [] \<or> js_len vs > 64 then Inl (JsError ''graph requires 1-64 nodes'') else collect_nodes [] vs
    | _ \<Rightarrow> Inl (JsError ''graph requires 1-64 nodes''))"

subsection \<open>The search\<close>

record dfs =
  df_visiting :: "string list"
  df_visited :: "string list"
  df_ordered :: "graph_node list"

text \<open>\<open>None\<close> is an exhausted depth bound; a \<open>throw\<close> ends the whole search.\<close>

fun visit :: "nat \<Rightarrow> (string, graph_node) jsmap \<Rightarrow> string \<Rightarrow> dfs \<Rightarrow> (os_error + dfs) option"
  and visit_all :: "nat \<Rightarrow> (string, graph_node) jsmap \<Rightarrow> string list \<Rightarrow> dfs \<Rightarrow> (os_error + dfs) option" where
  "visit 0 nodes i s = None"
| "visit (Suc d) nodes i s = (case map_of nodes i of
      None \<Rightarrow> Some (Inl (JsError ''graph dependency is missing''))
    | Some n \<Rightarrow>
        if i \<in> set (df_visiting s) then Some (Inl (JsError ''cyclic graph dependency''))
        else if i \<in> set (df_visited s) then Some (Inr s)
        else (case visit_all d nodes (gn_dependsOn n) (s\<lparr>df_visiting := i # df_visiting s\<rparr>) of
            None \<Rightarrow> None
          | Some (Inl e) \<Rightarrow> Some (Inl e)
          | Some (Inr s1) \<Rightarrow> Some (Inr (s1\<lparr>df_visiting := remove1 i (df_visiting s1),
              df_visited := i # df_visited s1, df_ordered := df_ordered s1 @ [n]\<rparr>))))"
| "visit_all d nodes [] s = Some (Inr s)"
| "visit_all d nodes (i # is) s = (case visit d nodes i s of
      None \<Rightarrow> None
    | Some (Inl e) \<Rightarrow> Some (Inl e)
    | Some (Inr s1) \<Rightarrow> visit_all d nodes is s1)"

definition order_nodes :: "(string, graph_node) jsmap \<Rightarrow> (os_error + graph_node list) option" where
  "order_nodes nodes = (case visit_all (Suc (length nodes)) nodes (sort (map fst nodes))
        \<lparr>df_visiting = [], df_visited = [], df_ordered = []\<rparr> of
      None \<Rightarrow> None | Some (Inl e) \<Rightarrow> Some (Inl e) | Some (Inr s) \<Rightarrow> Some (Inr (df_ordered s)))"

definition graphNodes :: "json option \<Rightarrow> json option \<Rightarrow> (os_error + graph_node list) option" where
  "graphNodes gid nodes = (case graph_map gid nodes of Inl e \<Rightarrow> Some (Inl e) | Inr m \<Rightarrow> order_nodes m)"

subsection \<open>The validated nodes\<close>

definition nodes_ok :: "(string, graph_node) jsmap \<Rightarrow> bool" where
  "nodes_ok m = (keys_distinct m \<and> (\<forall>i n. map_of m i = Some n \<longrightarrow> gn_id n = i))"

lemma nodes_ok_update: "nodes_ok m \<Longrightarrow> nodes_ok (AList.update (gn_id n) n m)"
  by (auto simp: nodes_ok_def)

lemma collect_nodes_ok: "nodes_ok nodes \<Longrightarrow> collect_nodes nodes vs = Inr m \<Longrightarrow> nodes_ok m"
proof (induction nodes vs rule: collect_nodes.induct)
  case (2 nodes v vs)
  then obtain n where "graph_node_of nodes v = Inr n" "collect_nodes (AList.update (gn_id n) n nodes) vs = Inr m"
    by (auto simp: bindR_Inr)
  then show ?case using 2(1) nodes_ok_update [OF 2(2)] by blast
qed simp

lemma graph_map_ok: "graph_map gid nodes = Inr m \<Longrightarrow> nodes_ok m"
proof -
  assume "graph_map gid nodes = Inr m"
  then obtain vs where "collect_nodes [] vs = Inr m"
    by (auto simp: graph_map_def bindR_Inr split: option.splits json.splits if_splits)
  moreover have "nodes_ok []" by (simp add: nodes_ok_def)
  ultimately show ?thesis using collect_nodes_ok by blast
qed

subsection \<open>The search succeeds on acyclic graphs\<close>

text \<open>\<open>(a, b)\<close> when \<open>b\<close> depends on \<open>a\<close>.\<close>

definition depends :: "(string, graph_node) jsmap \<Rightarrow> (string \<times> string) set" where
  "depends m = {(a, b). \<exists>n. map_of m b = Some n \<and> a \<in> set (gn_dependsOn n)}"

definition closed_graph :: "(string, graph_node) jsmap \<Rightarrow> bool" where
  "closed_graph m = (\<forall>(a, b) \<in> depends m. jhas m a)"

text \<open>The nodes under visit form a path of dependencies that ends in the node visited next.\<close>

definition path_to :: "(string, graph_node) jsmap \<Rightarrow> string \<Rightarrow> string list \<Rightarrow> bool" where
  "path_to m i vs = successively (\<lambda>a b. (a, b) \<in> depends m) (i # vs)"

lemma path_reaches: "path_to m i vs \<Longrightarrow> j \<in> set vs \<Longrightarrow> (i, j) \<in> (depends m)\<^sup>+"
proof (induction vs arbitrary: i)
  case (Cons v vs)
  then have iv: "(i, v) \<in> depends m" and "path_to m v vs" by (auto simp: path_to_def)
  with Cons.IH [of v] Cons.prems(2) show ?case by (auto intro: trancl_into_trancl2)
qed simp

definition remaining :: "(string, graph_node) jsmap \<Rightarrow> dfs \<Rightarrow> nat" where
  "remaining m s = card (set (map fst m) - set (df_visiting s))"

lemma remaining_push:
  assumes "map_of m i = Some n" and "i \<notin> set (df_visiting s)"
  shows "remaining m (s\<lparr>df_visiting := i # df_visiting s\<rparr>) < remaining m s"
proof -
  have "i \<in> set (map fst m)" using assms(1) by (metis jhas_def jhas_keys option.distinct(1))
  then have "set (map fst m) - set (i # df_visiting s) \<subset> set (map fst m) - set (df_visiting s)"
    using assms(2) by auto
  then show ?thesis unfolding remaining_def by (intro psubset_card_mono) simp_all
qed

text \<open>What a successful visit of an unvisited node did.\<close>

lemma visit_step:
  assumes "visit (Suc d) m i s = Some (Inr s')" and "i \<notin> set (df_visited s)"
  obtains n s1 where "map_of m i = Some n" and "i \<notin> set (df_visiting s)"
    and "visit_all d m (gn_dependsOn n) (s\<lparr>df_visiting := i # df_visiting s\<rparr>) = Some (Inr s1)"
    and "s' = s1\<lparr>df_visiting := remove1 i (df_visiting s1), df_visited := i # df_visited s1,
      df_ordered := df_ordered s1 @ [n]\<rparr>"
  using assms by (auto split: option.splits sum.splits if_splits)

lemma visit_again:
  "visit (Suc d) m i s = Some (Inr s') \<Longrightarrow> i \<in> set (df_visited s) \<Longrightarrow> s' = s"
  by (auto split: option.splits if_splits)

lemma visit_all_step:
  assumes "visit_all d m (i # is) s = Some (Inr s')"
  obtains s1 where "visit d m i s = Some (Inr s1)" and "visit_all d m is s1 = Some (Inr s')"
  using assms by (auto split: option.splits sum.splits)

lemmas search_steps = visit_step visit_all_step

lemma visit_visiting:
  "visit d m i s = Some (Inr s') \<Longrightarrow> df_visiting s' = df_visiting s"
  "visit_all d m is s = Some (Inr s') \<Longrightarrow> df_visiting s' = df_visiting s"
proof (induction d m i s and d m "is" s arbitrary: s' and s' rule: visit_visit_all.induct)
  case (2 d m i s)
  show ?case
  proof (cases "i \<in> set (df_visited s)")
    case True
    then show ?thesis using visit_again [OF 2(2)] by simp
  next
    case False
    then obtain n s1 where *: "map_of m i = Some n" "i \<notin> set (df_visiting s)"
      "visit_all d m (gn_dependsOn n) (s\<lparr>df_visiting := i # df_visiting s\<rparr>) = Some (Inr s1)"
      "s' = s1\<lparr>df_visiting := remove1 i (df_visiting s1), df_visited := i # df_visited s1,
        df_ordered := df_ordered s1 @ [n]\<rparr>"
      using visit_step [OF 2(2)] by blast
    then have "df_visiting s1 = i # df_visiting s" using 2(1) [OF *(1,2) False *(3)] by simp
    with * show ?thesis by simp
  qed
next
  case (4 d m i "is" s)
  from visit_all_step [OF 4(3)] obtain s1 where *: "visit d m i s = Some (Inr s1)"
    "visit_all d m is s1 = Some (Inr s')" .
  from 4(1) [OF *(1)] 4(2) [OF *(1) refl *(2)] show ?case by simp
qed simp_all

lemma visit_enough:
  "remaining m s < d \<Longrightarrow> visit d m i s \<noteq> None"
  "remaining m s < d \<Longrightarrow> visit_all d m is s \<noteq> None"
proof (induction d m i s and d m "is" s rule: visit_visit_all.induct)
  case (2 d m i s)
  show ?case
  proof (cases "map_of m i")
    case (Some n)
    show ?thesis
    proof (cases "i \<in> set (df_visiting s) \<or> i \<in> set (df_visited s)")
      case False
      then have "remaining m (s\<lparr>df_visiting := i # df_visiting s\<rparr>) < d"
        using remaining_push [OF Some, of s] 2(2) by linarith
      with 2(1) Some False show ?thesis by (auto split: option.splits sum.splits)
    qed (use Some in auto)
  qed simp
next
  case (4 d m i "is" s)
  have "remaining m s1 < d" if "visit d m i s = Some (Inr s1)" for s1
    using visit_visiting(1) [OF that] 4(3) by (simp add: remaining_def)
  with 4 show ?case by (auto split: option.splits sum.splits)
qed simp_all

lemma visit_error:
  assumes "visit (Suc d) m i s = Some (Inl e)"
  shows "map_of m i = None \<or> i \<in> set (df_visiting s) \<or> (\<exists>n. map_of m i = Some n \<and> i \<notin> set (df_visiting s)
    \<and> i \<notin> set (df_visited s)
    \<and> visit_all d m (gn_dependsOn n) (s\<lparr>df_visiting := i # df_visiting s\<rparr>) = Some (Inl e))"
  using assms by (auto split: option.splits sum.splits if_splits)

lemma visit_all_error:
  assumes "visit_all d m (i # is) s = Some (Inl e)"
  shows "visit d m i s = Some (Inl e)
    \<or> (\<exists>s1. visit d m i s = Some (Inr s1) \<and> visit_all d m is s1 = Some (Inl e))"
  using assms by (auto split: option.splits sum.splits)

lemma visit_accepts:
  assumes "closed_graph m" and "acyclic (depends m)"
  shows "jhas m i \<Longrightarrow> path_to m i (df_visiting s) \<Longrightarrow> visit d m i s \<noteq> Some (Inl e)"
    and "(\<forall>i \<in> set is. jhas m i \<and> path_to m i (df_visiting s)) \<Longrightarrow> visit_all d m is s \<noteq> Some (Inl e)"
  using assms
proof (induction d m i s and d m "is" s rule: visit_visit_all.induct)
  case (2 d m i s)
  obtain n where n: "map_of m i = Some n" using 2(2) by (auto simp: jhas_def)
  have "i \<notin> set (df_visiting s)"
    using path_reaches [OF 2(3)] 2(5) by (auto simp: acyclic_def)
  moreover have "jhas m a \<and> path_to m a (i # df_visiting s)" if "a \<in> set (gn_dependsOn n)" for a
  proof -
    have "(a, i) \<in> depends m" using n that by (auto simp: depends_def)
    then show ?thesis using 2(3,4) by (auto simp: closed_graph_def path_to_def)
  qed
  ultimately show ?case using visit_error [of d m i s e] 2(1) [OF n] 2(4,5) n by fastforce
next
  case (4 d m i "is" s)
  have "df_visiting s1 = df_visiting s" if "visit d m i s = Some (Inr s1)" for s1
    using visit_visiting(1) [OF that] .
  then show ?case using visit_all_error [of d m i "is" s e] 4 by fastforce
qed simp_all

subsection \<open>The order it gives\<close>

text \<open>Every node of the list comes after the nodes it depends on.\<close>

fun topological :: "string list \<Rightarrow> graph_node list \<Rightarrow> bool" where
  "topological seen [] = True"
| "topological seen (n # ns) = (set (gn_dependsOn n) \<subseteq> set seen \<and> topological (gn_id n # seen) ns)"

lemma topological_snoc: "topological seen (ns @ [n]) \<longleftrightarrow>
    topological seen ns \<and> set (gn_dependsOn n) \<subseteq> set seen \<union> gn_id ` set ns"
  by (induction ns arbitrary: seen) auto

definition search_ok :: "(string, graph_node) jsmap \<Rightarrow> dfs \<Rightarrow> bool" where
  "search_ok m s = (topological [] (df_ordered s) \<and> distinct (map gn_id (df_ordered s))
     \<and> set (df_visited s) = gn_id ` set (df_ordered s)
     \<and> (\<forall>n \<in> set (df_ordered s). map_of m (gn_id n) = Some n))"

text \<open>What a search adds: visited nodes stay visited, nodes under visit stay unvisited.\<close>

definition grows :: "dfs \<Rightarrow> dfs \<Rightarrow> bool" where
  "grows s s' = (set (df_visited s) \<subseteq> set (df_visited s')
     \<and> set (df_visiting s) \<inter> set (df_visited s') \<subseteq> set (df_visited s))"

lemma search_ok_snoc:
  assumes "search_ok m s" and "map_of m i = Some n" and "gn_id n = i"
    and "set (gn_dependsOn n) \<subseteq> set (df_visited s)" and "i \<notin> set (df_visited s)"
  shows "search_ok m (s\<lparr>df_visiting := vs, df_visited := i # df_visited s, df_ordered := df_ordered s @ [n]\<rparr>)"
  using assms by (auto simp: search_ok_def topological_snoc)

lemma visit_orders:
  assumes "nodes_ok m"
  shows "visit d m i s = Some (Inr s') \<Longrightarrow> search_ok m s
      \<Longrightarrow> search_ok m s' \<and> grows s s' \<and> i \<in> set (df_visited s')"
    and "visit_all d m is s = Some (Inr s') \<Longrightarrow> search_ok m s
      \<Longrightarrow> search_ok m s' \<and> grows s s' \<and> set is \<subseteq> set (df_visited s')"
  using assms
proof (induction d m i s and d m "is" s arbitrary: s' and s' rule: visit_visit_all.induct)
  case (2 d m i s)
  show ?case
  proof (cases "i \<in> set (df_visited s)")
    case True
    then show ?thesis using visit_again [OF 2(2)] 2(3) by (simp add: grows_def)
  next
    case False
    then obtain n s1 where *: "map_of m i = Some n" "i \<notin> set (df_visiting s)"
      "visit_all d m (gn_dependsOn n) (s\<lparr>df_visiting := i # df_visiting s\<rparr>) = Some (Inr s1)"
      "s' = s1\<lparr>df_visiting := remove1 i (df_visiting s1), df_visited := i # df_visited s1,
        df_ordered := df_ordered s1 @ [n]\<rparr>"
      using visit_step [OF 2(2)] by blast
    have "search_ok m (s\<lparr>df_visiting := i # df_visiting s\<rparr>)" using 2(3) by (simp add: search_ok_def)
    then have "search_ok m s1 \<and> grows (s\<lparr>df_visiting := i # df_visiting s\<rparr>) s1
        \<and> set (gn_dependsOn n) \<subseteq> set (df_visited s1)"
      using 2(1) [OF *(1,2) False *(3)] 2(4) by simp
    moreover from this have "i \<notin> set (df_visited s1)" using False by (auto simp: grows_def)
    moreover have "gn_id n = i" using 2(4) *(1) by (auto simp: nodes_ok_def)
    ultimately show ?thesis using search_ok_snoc [of m s1 i n] * by (auto simp: grows_def)
  qed
next
  case (4 d m i "is" s)
  from visit_all_step [OF 4(3)] obtain s1 where *: "visit d m i s = Some (Inr s1)"
    "visit_all d m is s1 = Some (Inr s')" .
  have 1: "search_ok m s1 \<and> grows s s1 \<and> i \<in> set (df_visited s1)" using 4(1) [OF *(1) 4(4,5)] .
  then have "search_ok m s' \<and> grows s1 s' \<and> set is \<subseteq> set (df_visited s')" using 4(2) [OF *(1) refl *(2)] 4(5) by simp
  with 1 show ?case using visit_visiting(1) [OF *(1)] by (auto simp: grows_def)
qed (simp_all add: grows_def)

lemma topological_split:
  "topological seen (us @ n # vs) \<Longrightarrow> set (gn_dependsOn n) \<subseteq> set seen \<union> gn_id ` set us"
  by (induction us arbitrary: seen) fastforce+

text \<open>The position of a node in the list grows along dependencies, so an ordered graph has no cycle.\<close>

lemma topological_no_cycle:
  assumes "topological [] ns" and "distinct (map gn_id ns)"
    and "gn_id ` set ns = set (map fst m)" and "\<forall>n \<in> set ns. map_of m (gn_id n) = Some n"
  shows "closed_graph m \<and> acyclic (depends m)"
proof -
  define pos where "pos i = length (takeWhile (\<lambda>n. gn_id n \<noteq> i) ns)" for i
  have below: "jhas m a \<and> pos a < pos b" if "(a, b) \<in> depends m" for a b
  proof -
    from that obtain n where n: "map_of m b = Some n" "a \<in> set (gn_dependsOn n)" by (auto simp: depends_def)
    then have "b \<in> gn_id ` set ns" using assms(3) by (metis jhas_def jhas_keys option.distinct(1))
    then have "n \<in> set ns" "gn_id n = b" using assms(4) n(1) by auto
    then obtain us vs where ns: "ns = us @ n # vs" by (meson split_list)
    have u: "a \<in> gn_id ` set us" using topological_split [of "[]" us n vs] assms(1) ns n(2) by auto
    then obtain us1 u0 us2 where us: "us = us1 @ u0 # us2" "gn_id u0 = a" by (metis image_iff split_list)
    have "b \<notin> set (map gn_id us)" using assms(2) \<open>gn_id n = b\<close> unfolding ns by (auto simp del: set_map)
    then have "gn_id x \<noteq> b" if "x \<in> set us" for x using that by auto
    then have "pos b = length us" using \<open>gn_id n = b\<close> by (simp add: pos_def ns takeWhile_append2)
    moreover have "pos a \<le> length us1" unfolding pos_def ns us(1)
      using us(2) by (induction us1) auto
    moreover have "a \<in> set (map fst m)" using u assms(3) ns by auto
    ultimately show ?thesis using us(1) by (simp add: jhas_keys)
  qed
  have "depends m \<subseteq> measure pos" using below by auto
  then have "acyclic (depends m)" using wf_acyclic wf_measure acyclic_subset by metis
  then show ?thesis using below by (auto simp: closed_graph_def)
qed

lemma order_nodes_result:
  assumes "nodes_ok m"
  shows "\<exists>r. order_nodes m = Some r \<and> (case r of
      Inr ns \<Rightarrow> topological [] ns \<and> distinct (map gn_id ns) \<and> set ns = set (map snd m)
        \<and> closed_graph m \<and> acyclic (depends m)
    | Inl e \<Rightarrow> \<not> (closed_graph m \<and> acyclic (depends m)))"
proof -
  let ?s = "\<lparr>df_visiting = [], df_visited = [], df_ordered = []\<rparr>"
  let ?r = "visit_all (Suc (length m)) m (sort (map fst m)) ?s"
  have "remaining m ?s < Suc (length m)"
    using card_length [of "map fst m"] by (simp add: remaining_def)
  then obtain r where r: "?r = Some r" using visit_enough(2) by blast
  show ?thesis
  proof (cases r)
    case (Inl e)
    then have "\<not> (closed_graph m \<and> acyclic (depends m))"
      using visit_accepts(2) [of m "sort (map fst m)" ?s "Suc (length m)" e] r by (auto simp: path_to_def jhas_keys)
    with Inl r show ?thesis by (simp add: order_nodes_def)
  next
    case (Inr s')
    have "search_ok m ?s" by (simp add: search_ok_def)
    then have ok: "search_ok m s'" and all: "set (map fst m) \<subseteq> set (df_visited s')"
      using visit_orders(2) [OF assms, of "Suc (length m)" "sort (map fst m)" ?s s'] r Inr by auto
    then have ids: "gn_id ` set (df_ordered s') = set (map fst m)"
      by (auto simp: search_ok_def) (metis jhas_def jhas_keys option.distinct(1) set_map)
    have "n \<in> set (df_ordered s') \<longleftrightarrow> n \<in> set (map snd m)" for n
    proof -
      have "n \<in> set (df_ordered s')" if n: "map_of m k = Some n" for k
      proof -
        have "gn_id n = k" "k \<in> set (map fst m)" using assms n
          by (auto simp: nodes_ok_def jhas_keys [symmetric] jhas_def simp del: set_map)
        then obtain n' where "n' \<in> set (df_ordered s')" "gn_id n' = k" using ids by (metis imageE)
        then show ?thesis using ok n by (auto simp: search_ok_def)
      qed
      moreover have "map_of m (gn_id n) = Some n" if "n \<in> set (df_ordered s')"
        using ok that by (simp add: search_ok_def)
      moreover have "keys_distinct m" using assms by (simp add: nodes_ok_def)
      ultimately show ?thesis using jvalues_iff [of m n] by blast
    qed
    then have "set (df_ordered s') = set (map snd m)" by blast
    then show ?thesis
      using ok ids r Inr topological_no_cycle [of "df_ordered s'" m] by (simp add: order_nodes_def search_ok_def)
  qed
qed

text \<open>C23: for every graph that passes the field checks the search returns within its depth bound. It
  returns the nodes, each once and each after the nodes it depends on, exactly when every dependency
  names a node of the graph and no node depends on itself through others; otherwise it throws.\<close>

theorem graph_order:
  assumes "graph_map gid nodes = Inr m"
  shows "\<exists>r. graphNodes gid nodes = Some r \<and> (case r of
      Inr ns \<Rightarrow> topological [] ns \<and> distinct (map gn_id ns) \<and> set ns = set (map snd m)
        \<and> closed_graph m \<and> acyclic (depends m)
    | Inl e \<Rightarrow> \<not> (closed_graph m \<and> acyclic (depends m)))"
  using order_nodes_result [OF graph_map_ok [OF assms]] assms by (simp add: graphNodes_def)

definition sample_node :: "string \<Rightarrow> string list \<Rightarrow> json" where
  "sample_node i ds = JObj [(''id'', JStr i), (''agentId'', JStr ''a''), (''text'', JStr ''t''),
     (''dependsOn'', JArr (map JStr ds))]"

definition sample_graph :: "json option" where
  "sample_graph = Some (JArr [sample_node ''a'' [''b'', ''c''], sample_node ''b'' [], sample_node ''c'' [''b'']])"

lemma graph_order_witness:
  "map_option (map_sum id (map gn_id)) (graphNodes (Some (JStr ''g'')) sample_graph) = Some (Inr [''b'', ''c'', ''a''])
   \<and> (\<exists>m. graph_map (Some (JStr ''g'')) sample_graph = Inr m \<and> closed_graph m \<and> acyclic (depends m))"
proof -
  have run: "map_option (map_sum id (map gn_id)) (graphNodes (Some (JStr ''g'')) sample_graph)
      = Some (Inr [''b'', ''c'', ''a''])" by code_simp
  have "case graph_map (Some (JStr ''g'')) sample_graph of Inr m \<Rightarrow> True | _ \<Rightarrow> False" by code_simp
  then obtain m where m: "graph_map (Some (JStr ''g'')) sample_graph = Inr m" by (auto split: sum.splits)
  from run obtain ns where ns: "graphNodes (Some (JStr ''g'')) sample_graph = Some (Inr ns)"
    by (cases "graphNodes (Some (JStr ''g'')) sample_graph") (auto simp: map_sum_def split: sum.splits)
  from graph_order [OF m] have "closed_graph m \<and> acyclic (depends m)" by (simp add: ns)
  with run m show ?thesis by blast
qed

end
