(* ===== verification/SharedState.thy ===== *)
theory SharedState
  imports Access
begin

text \<open>
  State that the participants of a conversation share (collaboration/state.ts). A state has numbered
  fields; an update names the version it read of each field it changes and is applied only when all
  of them are still current. Every applied or refused update is recorded under its operation id, so a
  retry returns the recorded result. The SQL statements are the reads and writes of the tables by
  primary key; \<open>transaction\<close> is \<open>withTransaction\<close> of control-plane/pg-store.ts.
\<close>

record field_state =
  fs_version :: int
  fs_value :: "json option"
  fs_deleted :: bool

record shared_snapshot =
  sn_version :: int
  sn_audience :: audience
  sn_fields :: "(string, field_state) jsmap"

record state_scope =
  ss_scope :: conversation_scope
  ss_stateId :: string

record state_actor =
  sa_principalId :: string
  sa_work :: "(work_item \<times> work_conversation option) option"
  sa_actionKey :: "string option"
  sa_source :: "message_reference option"

datatype state_result =
    Applied shared_snapshot bool
  | Conflicts "string list" shared_snapshot bool

record im_message =
  im_tenantId :: string
  im_conversationId :: string
  im_threadId :: "string option"
  im_reference :: message_reference
  im_authorId :: string

type_synonym state_key = "string \<times> string \<times> string \<times> string"

record state_operation =
  so_fingerprint :: string
  so_origin :: json
  so_changes :: json
  so_result :: state_result

record shared_tables = conversation_tables +
  sd_messages :: "im_message list"
  sd_states :: "(state_key, shared_snapshot) jsmap"
  sd_operations :: "(state_key \<times> string, state_operation) jsmap"

definition transaction :: "('s, 'a) prog \<Rightarrow> ('s, 'a) prog" where
  "transaction m = (\<lambda>s. case m s of (Inl e, _) \<Rightarrow> (Inl e, s) | (Inr x, s') \<Rightarrow> (Inr x, s'))"

definition state_key :: "state_scope \<Rightarrow> state_key" where
  "state_key sc = (sc_tenantId (ss_scope sc), sc_conversationId (ss_scope sc),
     stringify (opt_json (sc_threadId (ss_scope sc))), ss_stateId sc)"

subsection \<open>Authorisation\<close>

definition shared_authorize :: "state_scope \<Rightarrow> state_actor \<Rightarrow> bool \<Rightarrow> audience option
    \<Rightarrow> shared_tables \<Rightarrow> os_error + conversation_policy" where
  "shared_authorize sc actor write a t =
     bindR (valid_identifier (ss_stateId sc)) (\<lambda>_.
     bindR (valid_identifier (sa_principalId actor)) (\<lambda>_.
     bindR (conversationPolicy t (ss_scope sc)) (\<lambda>p.
     bindR (participant_of p (sa_principalId actor) (if write then CanExecute else CanRead) (Some Human)) (\<lambda>_.
     bindR (case a of None \<Rightarrow> Inr () | Some a \<Rightarrow> requireAudience p a [sa_principalId actor]) (\<lambda>_.
     case sa_work actor of
       None \<Rightarrow> Inr p
     | Some (w, None) \<Rightarrow> Inl (JsError ''shared state is outside this work conversation'')
     | Some (w, Some c) \<Rightarrow>
         if wi_tenantId w \<noteq> sc_tenantId (ss_scope sc) \<or> wc_conversationId c \<noteq> sc_conversationId (ss_scope sc)
            \<or> wi_threadId w \<noteq> sc_threadId (ss_scope sc) \<or> wi_principalId w \<noteq> Some (sa_principalId actor)
         then Inl (JsError ''shared state is outside this work conversation'')
         else bindR (authorizeConversationWork t w (Some c) (if write then OpExecute else OpRead)) (\<lambda>_.
           if (case a of None \<Rightarrow> False | Some a \<Rightarrow> \<not> containsAudience a (wc_audience c))
           then Inl (JsError ''state cannot be disclosed to the work audience'')
           else Inr p))))))"

subsection \<open>Creation and reading\<close>

definition readSharedState :: "state_scope \<Rightarrow> state_actor \<Rightarrow> (shared_tables, shared_snapshot option) prog" where
  "readSharedState sc actor =
     andThen (\<lambda>t. liftR (shared_authorize sc actor False None t) t) (\<lambda>_.
     andThen (asks (\<lambda>t. map_of (sd_states t) (state_key sc))) (\<lambda>row. case row of
         None \<Rightarrow> ret None
       | Some st \<Rightarrow> andThen (\<lambda>t. liftR (shared_authorize sc actor False (Some (sn_audience st)) t) t) (\<lambda>_.
           ret (Some st))))"

fun visibility_name :: "visibility \<Rightarrow> string" where
  "visibility_name ToConversation = ''conversation''"
| "visibility_name ToParticipants = ''participants''"
| "visibility_name Internal = ''internal''"

definition audience_json :: "audience \<Rightarrow> json" where
  "audience_json a = JObj [(''visibility'', JStr (visibility_name (au_visibility a))),
     (''participantIds'', JArr (map JStr (au_participantIds a)))]"

definition digest :: "(string \<Rightarrow> string) \<Rightarrow> json \<Rightarrow> string" where
  "digest hash v = hash (canonicalJson v)"

definition createSharedState :: "(string \<Rightarrow> string) \<Rightarrow> state_scope \<Rightarrow> state_actor \<Rightarrow> audience_input
    \<Rightarrow> (shared_tables, shared_snapshot) prog" where
  "createSharedState hash sc actor input =
     andThen (\<lambda>t. liftR (shared_authorize sc actor True None t) t) (\<lambda>p.
     andThen (liftR (audienceOf p input)) (\<lambda>a.
     andThen (\<lambda>t. liftR (shared_authorize sc actor True (Some a) t) t) (\<lambda>_.
     andThen (update (\<lambda>t. if jhas (sd_states t) (state_key sc) then t
         else t\<lparr>sd_states := AList.update (state_key sc)
           \<lparr>sn_version = 0, sn_audience = a, sn_fields = []\<rparr> (sd_states t)\<rparr>)) (\<lambda>_.
     andThen (readSharedState sc actor) (\<lambda>row. case row of
         None \<Rightarrow> throw (JsError ''Cannot read properties of null'')
       | Some st \<Rightarrow> andThen (guardE (digest hash (audience_json (sn_audience st)) = digest hash (audience_json a))
           (JsError ''state identity reused with a different audience'')) (\<lambda>_. ret st))))))"

subsection \<open>Validation of an update\<close>

text \<open>A change that passed the checks: the field, the version it expects and the new value, if any.\<close>

record state_change =
  sh_field :: string
  sh_expectedVersion :: int
  sh_value :: "json option"

function jsonValue :: "nat \<Rightarrow> json \<Rightarrow> os_error + unit" where
  "jsonValue depth v = (if depth > 32 then Inl (JsError ''state values exceed 32 nesting levels'') else (case v of
      JArr vs \<Rightarrow> check_each (jsonValue (Suc depth)) vs
    | JObj kvs \<Rightarrow> check_each (\<lambda>(k, x). jsonValue (Suc depth) x) kvs
    | _ \<Rightarrow> Inr ()))"
  by pat_completeness auto
termination by (relation "measure (\<lambda>(depth, v). 33 - depth)") auto

declare jsonValue.simps [simp del]

definition field_of :: "json \<Rightarrow> json option" where
  "field_of v = (case v of JObj kvs \<Rightarrow> map_of kvs ''field'' | _ \<Rightarrow> None)"

text \<open>\<open>new Set(changes.map(change => change.field)).size\<close>; a missing field is \<open>undefined\<close> and counts once.\<close>

fun fields_distinct :: "json option list \<Rightarrow> bool" where
  "fields_distinct [] = True"
| "fields_distinct (v # vs) = (((case v of Some x \<Rightarrow> is_reference x | None \<Rightarrow> False) \<or> v \<notin> set vs) \<and> fields_distinct vs)"

definition change_of :: "json \<Rightarrow> os_error + state_change" where
  "change_of v = (case (v, field_of v) of
      (JObj kvs, Some (JStr f)) \<Rightarrow>
        (case map_of kvs ''expectedVersion'' of
          Some (JNum i) \<Rightarrow>
            if f = [] \<or> js_len f > 256 \<or> f \<in> {''__proto__'', ''constructor'', ''prototype''}
               \<or> \<not> safe_int i \<or> i < 0
               \<or> (if jhas kvs ''delete'' then map_of kvs ''delete'' \<noteq> Some (JBool True) \<or> jhas kvs ''value''
                  else \<not> jhas kvs ''value'')
               \<or> \<not> list_all (\<lambda>k. k \<in> {''field'', ''expectedVersion'', ''value'', ''delete''}) (map fst kvs)
            then Inl (JsError ''invalid state change'')
            else bindR (case map_of kvs ''value'' of None \<Rightarrow> Inr () | Some x \<Rightarrow> jsonValue 0 x) (\<lambda>_.
              Inr \<lparr>sh_field = f, sh_expectedVersion = i, sh_value = map_of kvs ''value''\<rparr>)
        | _ \<Rightarrow> Inl (JsError ''invalid state change''))
    | _ \<Rightarrow> Inl (JsError ''invalid state change''))"

fun changes_of :: "json list \<Rightarrow> os_error + state_change list" where
  "changes_of [] = Inr []"
| "changes_of (v # vs) = bindR (change_of v) (\<lambda>c. bindR (changes_of vs) (\<lambda>cs. Inr (c # cs)))"

record state_update =
  su_operationId :: string
  su_changes :: json

definition update_json :: "state_update \<Rightarrow> json" where
  "update_json u = JObj [(''operationId'', JStr (su_operationId u)), (''changes'', su_changes u)]"

text \<open>Reading \<open>change.field\<close> of a \<open>null\<close> change throws.\<close>

definition validateStateUpdate :: "state_update \<Rightarrow> os_error + state_change list" where
  "validateStateUpdate u =
     bindR (valid_identifier (su_operationId u)) (\<lambda>_. case su_changes u of
       JArr vs \<Rightarrow>
         if vs = [] \<or> js_len vs > 64 then Inl (JsError ''state update requires 1-64 distinct fields'')
         else if JNull \<in> set vs then Inl (JsError ''Cannot read properties of null'')
         else if \<not> fields_distinct (map field_of vs) then Inl (JsError ''state update requires 1-64 distinct fields'')
         else bindR (changes_of vs) (\<lambda>cs.
           if utf8_length (stringify (update_json u)) > 64000 then Inl (JsError ''state update exceeds 64 KB'')
           else Inr cs)
     | _ \<Rightarrow> Inl (JsError ''state update requires 1-64 distinct fields''))"

subsection \<open>Applying an update\<close>

definition reference_json :: "message_reference \<Rightarrow> json" where
  "reference_json r = JObj [(''messageId'', JStr (mr_messageId r)), (''version'', JNum (mr_version r))]"

definition origin_json :: "state_actor \<Rightarrow> json" where
  "origin_json actor = JObj ((''principalId'', JStr (sa_principalId actor)) # (case sa_work actor of
      Some (w, c) \<Rightarrow> [(''agentId'', JStr (wi_agentId w)), (''workId'', JStr (wi_id w)),
        (''graphId'', case prop_of (wi_meta w) ''graphId'' of None \<Rightarrow> JNull | Some g \<Rightarrow> g),
        (''source'', case c of None \<Rightarrow> JNull | Some c \<Rightarrow> reference_json (wc_source c)),
        (''actionKey'', opt_json (sa_actionKey actor))]
    | None \<Rightarrow> [(''source'', case sa_source actor of None \<Rightarrow> JNull | Some r \<Rightarrow> reference_json r)]))"

definition source_known :: "state_scope \<Rightarrow> state_actor \<Rightarrow> shared_tables \<Rightarrow> bool" where
  "source_known sc actor t = (case sa_source actor of
      None \<Rightarrow> True
    | Some r \<Rightarrow> list_ex (\<lambda>m. im_tenantId m = sc_tenantId (ss_scope sc)
        \<and> im_conversationId m = sc_conversationId (ss_scope sc) \<and> im_threadId m = sc_threadId (ss_scope sc)
        \<and> im_reference m = r \<and> im_authorId m = sa_principalId actor) (sd_messages t))"

definition field_version :: "string \<Rightarrow> shared_snapshot \<Rightarrow> int" where
  "field_version f st = (case map_of (sn_fields st) f of None \<Rightarrow> 0 | Some x \<Rightarrow> fs_version x)"

definition conflicting :: "state_change list \<Rightarrow> shared_snapshot \<Rightarrow> string list" where
  "conflicting cs st = map sh_field (filter (\<lambda>c. field_version (sh_field c) st \<noteq> sh_expectedVersion c) cs)"

fun apply_changes :: "state_change list \<Rightarrow> (string, field_state) jsmap \<Rightarrow> os_error + (string, field_state) jsmap" where
  "apply_changes [] fs = Inr fs"
| "apply_changes (c # cs) fs =
     (if \<not> safe_int (sh_expectedVersion c + 1) then Inl (JsError ''field version limit reached'')
      else apply_changes cs (AList.update (sh_field c) \<lparr>fs_version = sh_expectedVersion c + 1,
        fs_value = sh_value c, fs_deleted = (sh_value c = None)\<rparr> fs))"

definition field_json :: "field_state \<Rightarrow> json" where
  "field_json x = JObj ([(''version'', JNum (fs_version x)), (''deleted'', JBool (fs_deleted x))]
     @ opt_prop ''value'' (fs_value x))"

definition fields_json :: "(string, field_state) jsmap \<Rightarrow> json" where
  "fields_json fs = JObj (map (\<lambda>(k, x). (k, field_json x)) fs)"

definition applied :: "state_change list \<Rightarrow> shared_snapshot \<Rightarrow> os_error + state_result" where
  "applied cs st =
     (if \<not> safe_int (sn_version st + 1) then Inl (JsError ''state version limit reached'')
      else bindR (apply_changes cs (sn_fields st)) (\<lambda>fs.
        if length fs > 256 \<or> utf8_length (stringify (fields_json fs)) > 256000
        then Inl (JsError ''shared state exceeds 256 fields or 256 KB'')
        else Inr (Applied (st\<lparr>sn_fields := fs, sn_version := sn_version st + 1\<rparr>) False)))"

definition deduplicated :: "state_result \<Rightarrow> state_result" where
  "deduplicated r = (case r of Applied st _ \<Rightarrow> Applied st True | Conflicts fs st _ \<Rightarrow> Conflicts fs st True)"

definition store_result :: "state_scope \<Rightarrow> state_update \<Rightarrow> string \<Rightarrow> state_actor \<Rightarrow> state_result
    \<Rightarrow> shared_tables \<Rightarrow> shared_tables" where
  "store_result sc u fp actor r t =
     (let k = state_key sc; row = \<lparr>so_fingerprint = fp, so_origin = origin_json actor, so_changes = su_changes u, so_result = r\<rparr>
      in t\<lparr>sd_states := (case r of Applied st _ \<Rightarrow> AList.update k st (sd_states t) | _ \<Rightarrow> sd_states t),
           sd_operations := AList.update (k, su_operationId u) row (sd_operations t)\<rparr>)"

definition updateSharedState :: "(string \<Rightarrow> string) \<Rightarrow> state_scope \<Rightarrow> state_actor \<Rightarrow> state_update
    \<Rightarrow> (shared_tables, state_result) prog" where
  "updateSharedState hash sc actor u =
     andThen (liftR (validateStateUpdate u)) (\<lambda>cs.
     andThen (\<lambda>t. liftR (shared_authorize sc actor True None t) t) (\<lambda>_.
     andThen (\<lambda>t. guardE (source_known sc actor t) (JsError ''state update source is outside this actor and conversation'') t) (\<lambda>_.
     andThen (asks (\<lambda>t. map_of (sd_states t) (state_key sc))) (\<lambda>row. case row of
         None \<Rightarrow> throw (JsError ''shared state is unavailable'')
       | Some st \<Rightarrow>
         andThen (\<lambda>t. liftR (shared_authorize sc actor True (Some (sn_audience st)) t) t) (\<lambda>_.
         let fp = digest hash (JObj [(''update'', update_json u), (''origin'', origin_json actor)]) in
         andThen (asks (\<lambda>t. map_of (sd_operations t) (state_key sc, su_operationId u))) (\<lambda>prior. case prior of
             Some o' \<Rightarrow> if so_fingerprint o' \<noteq> fp
               then throw (JsError ''state operation identity reused with different content or actor'')
               else ret (deduplicated (so_result o'))
           | None \<Rightarrow>
             let conflicts = conflicting cs st in
             andThen (liftR (if conflicts \<noteq> [] then Inr (Conflicts conflicts st False) else applied cs st)) (\<lambda>r.
             andThen (update (store_result sc u fp actor r)) (\<lambda>_. ret r))))))))"

definition sharedStateHistory :: "state_scope \<Rightarrow> state_actor \<Rightarrow> int \<Rightarrow> (shared_tables, (string \<times> state_operation) list \<times> int) prog" where
  "sharedStateHistory sc actor afterSeq =
     andThen (guardE (safe_int afterSeq \<and> 0 \<le> afterSeq) (JsError ''invalid state history cursor'')) (\<lambda>_.
     andThen (readSharedState sc actor) (\<lambda>row.
     if row = None then ret ([], afterSeq)
     else asks (\<lambda>t.
       let numbered = enumerate 1 (sd_operations t);
           rows = take 64 (filter (\<lambda>(n, (k, i), o'). k = state_key sc \<and> int n > afterSeq) numbered)
       in (map (\<lambda>(n, (k, i), o'). (i, o')) rows, if rows = [] then afterSeq else int (fst (last rows))))))"

subsection \<open>Versions only grow\<close>

lemma bindR_InrE:
  assumes "bindR m f = Inr y"
  obtains x where "m = Inr x" and "f x = Inr y"
  using assms by (auto simp: bindR_Inr)

lemma change_of_field: "change_of v = Inr c \<Longrightarrow> field_of v = Some (JStr (sh_field c))"
  by (auto simp: change_of_def bindR_Inr split: json.splits option.splits if_splits)

lemma changes_of_fields: "changes_of vs = Inr cs \<Longrightarrow> map field_of vs = map (\<lambda>c. Some (JStr (sh_field c))) cs"
  by (induction vs arbitrary: cs) (auto simp: bindR_Inr dest: change_of_field)

lemma fields_distinct_strings:
  "fields_distinct (map (\<lambda>c. Some (JStr (sh_field c))) cs) \<Longrightarrow> distinct (map sh_field cs)"
  by (induction cs) (auto simp: is_reference_def)

lemma validated_fields: "validateStateUpdate u = Inr cs \<Longrightarrow> distinct (map sh_field cs)"
proof -
  assume "validateStateUpdate u = Inr cs"
  then obtain vs where "changes_of vs = Inr cs" "fields_distinct (map field_of vs)"
    by (auto simp: validateStateUpdate_def bindR_Inr split: json.splits if_splits)
  then show ?thesis using changes_of_fields fields_distinct_strings by metis
qed

lemma apply_changes_other:
  "apply_changes cs fs = Inr fs' \<Longrightarrow> f \<notin> sh_field ` set cs \<Longrightarrow> map_of fs' f = map_of fs f"
  by (induction cs fs rule: apply_changes.induct) (auto split: if_splits)

lemma apply_changes_field:
  "apply_changes cs fs = Inr fs' \<Longrightarrow> distinct (map sh_field cs) \<Longrightarrow> c \<in> set cs \<Longrightarrow> map_of fs' (sh_field c)
     = Some \<lparr>fs_version = sh_expectedVersion c + 1, fs_value = sh_value c, fs_deleted = (sh_value c = None)\<rparr>"
  by (induction cs fs rule: apply_changes.induct) (auto simp: apply_changes_other split: if_splits)

lemma applied_Inr:
  assumes "applied cs st = Inr r"
  obtains fs where "apply_changes cs (sn_fields st) = Inr fs"
    and "r = Applied (st\<lparr>sn_fields := fs, sn_version := sn_version st + 1\<rparr>) False"
  using assms by (auto simp: applied_def bindR_Inr split: if_splits)

lemma applied_grows:
  assumes "applied cs st = Inr (Applied st' b)" and "conflicting cs st = []" and "distinct (map sh_field cs)"
  shows "field_version f st \<le> field_version f st'"
    and "c \<in> set cs \<Longrightarrow> map_of (sn_fields st') (sh_field c)
      = Some \<lparr>fs_version = sh_expectedVersion c + 1, fs_value = sh_value c, fs_deleted = (sh_value c = None)\<rparr>"
proof -
  obtain fs where fs: "apply_changes cs (sn_fields st) = Inr fs" "sn_fields st' = fs"
    using assms(1) by (auto elim!: applied_Inr)
  show "c \<in> set cs \<Longrightarrow> map_of (sn_fields st') (sh_field c)
      = Some \<lparr>fs_version = sh_expectedVersion c + 1, fs_value = sh_value c, fs_deleted = (sh_value c = None)\<rparr>"
    using apply_changes_field [OF fs(1) assms(3)] fs(2) by simp
  show "field_version f st \<le> field_version f st'"
  proof (cases "f \<in> sh_field ` set cs")
    case True
    then obtain c where c: "c \<in> set cs" "f = sh_field c" by auto
    then have "field_version f st = sh_expectedVersion c"
      using assms(2) by (auto simp: conflicting_def filter_empty_conv)
    moreover have "field_version f st' = sh_expectedVersion c + 1"
      using apply_changes_field [OF fs(1) assms(3) c(1)] fs(2) c(2) by (simp add: field_version_def)
    ultimately show ?thesis by simp
  qed (use apply_changes_other [OF fs(1)] fs(2) in \<open>simp add: field_version_def\<close>)
qed

text \<open>What an update that returns did: replayed a recorded result, or recorded a fresh one.\<close>

definition update_fingerprint :: "(string \<Rightarrow> string) \<Rightarrow> state_actor \<Rightarrow> state_update \<Rightarrow> string" where
  "update_fingerprint hash actor u = digest hash (JObj [(''update'', update_json u), (''origin'', origin_json actor)])"

lemma update_cases:
  assumes "updateSharedState hash sc actor u t = (Inr r, t')"
  obtains cs st where "validateStateUpdate u = Inr cs" and "map_of (sd_states t) (state_key sc) = Some st"
    and "(\<exists>o'. map_of (sd_operations t) (state_key sc, su_operationId u) = Some o'
            \<and> so_fingerprint o' = update_fingerprint hash actor u \<and> r = deduplicated (so_result o') \<and> t' = t)
       \<or> map_of (sd_operations t) (state_key sc, su_operationId u) = None
         \<and> (if conflicting cs st \<noteq> [] then r = Conflicts (conflicting cs st) st False else applied cs st = Inr r)
         \<and> t' = store_result sc u (update_fingerprint hash actor u) actor r t"
  using assms unfolding updateSharedState_def Let_def
  by (auto elim!: andThen_InrE simp: guardE_Inr update_fingerprint_def split: option.splits if_splits)

lemma update_throws: "updateSharedState hash sc actor u t = (Inl e, t') \<Longrightarrow> t' = t"
  unfolding updateSharedState_def Let_def
  by (auto simp: andThen_def guardE_def split: option.splits if_splits sum.splits prod.splits)

inductive state_step :: "(string \<Rightarrow> string) \<Rightarrow> shared_tables \<Rightarrow> shared_tables \<Rightarrow> bool" for hash where
  create: "state_step hash t (snd (transaction (createSharedState hash sc actor input) t))"
| apply_update: "state_step hash t (snd (transaction (updateSharedState hash sc actor u) t))"
| administration: "sd_states t' = sd_states t \<Longrightarrow> sd_operations t' = sd_operations t \<Longrightarrow> state_step hash t t'"

text \<open>States stay, their fields' versions grow, and recorded operations are never overwritten.\<close>

definition state_evolves :: "shared_tables \<Rightarrow> shared_tables \<Rightarrow> bool" where
  "state_evolves t t' =
     ((\<forall>k st. map_of (sd_states t) k = Some st \<longrightarrow>
         (\<exists>st'. map_of (sd_states t') k = Some st' \<and> (\<forall>f. field_version f st \<le> field_version f st')))
      \<and> map_of (sd_operations t) \<subseteq>\<^sub>m map_of (sd_operations t'))"

lemma state_evolves_refl: "state_evolves t t"
  by (auto simp: state_evolves_def)

lemma state_evolves_trans: "state_evolves t t' \<Longrightarrow> state_evolves t' t'' \<Longrightarrow> state_evolves t t''"
proof -
  assume *: "state_evolves t t'" "state_evolves t' t''"
  have "\<exists>st''. map_of (sd_states t'') k = Some st'' \<and> (\<forall>f. field_version f st \<le> field_version f st'')"
    if st: "map_of (sd_states t) k = Some st" for k st
  proof -
    from *(1) st obtain st' where st': "map_of (sd_states t') k = Some st'" "\<forall>f. field_version f st \<le> field_version f st'"
      unfolding state_evolves_def by blast
    from *(2) st'(1) obtain st'' where "map_of (sd_states t'') k = Some st''" "\<forall>f. field_version f st' \<le> field_version f st''"
      unfolding state_evolves_def by blast
    with st'(2) show ?thesis by (auto intro: order_trans)
  qed
  with * show ?thesis by (auto simp: state_evolves_def intro: map_le_trans)
qed

lemma update_evolves: "state_evolves t (snd (updateSharedState hash sc actor u t))"
proof (cases "updateSharedState hash sc actor u t")
  case (Pair res t')
  show ?thesis
  proof (cases res)
    case (Inl e)
    then show ?thesis using Pair update_throws state_evolves_refl by fastforce
  next
    case (Inr r)
    from update_cases [OF Pair [unfolded Inr]] obtain cs st where *: "validateStateUpdate u = Inr cs"
      "map_of (sd_states t) (state_key sc) = Some st"
      "t' = t \<or> map_of (sd_operations t) (state_key sc, su_operationId u) = None
         \<and> (if conflicting cs st \<noteq> [] then r = Conflicts (conflicting cs st) st False else applied cs st = Inr r)
         \<and> t' = store_result sc u (update_fingerprint hash actor u) actor r t" by blast
    have grows: "\<forall>f. field_version f st \<le> field_version f st'" if "r = Applied st' b" 
      "if conflicting cs st \<noteq> [] then r = Conflicts (conflicting cs st) st False else applied cs st = Inr r" for st' b
      using that applied_grows(1) [OF _ _ validated_fields [OF *(1)]] by (simp split: if_splits)
    have "state_evolves t t'"
    proof (cases "t' = t")
      case False
      then have new: "map_of (sd_operations t) (state_key sc, su_operationId u) = None"
        and r: "if conflicting cs st \<noteq> [] then r = Conflicts (conflicting cs st) st False else applied cs st = Inr r"
        and t': "t' = store_result sc u (update_fingerprint hash actor u) actor r t" using *(3) by blast+
      have "map_of (sd_operations t) \<subseteq>\<^sub>m map_of (sd_operations t')"
        using new by (auto simp: t' store_result_def Let_def map_le_def)
      then show ?thesis using *(2) grows [OF _ r]
        by (cases r) (auto simp: state_evolves_def t' store_result_def Let_def)
    qed (simp add: state_evolves_refl)
    then show ?thesis by (simp add: Pair)
  qed
qed

lemma create_rows:
  assumes "createSharedState hash sc actor input t = (Inr st, t')"
  shows "sd_operations t' = sd_operations t \<and> (\<forall>k st. map_of (sd_states t) k = Some st \<longrightarrow> map_of (sd_states t') k = Some st)"
  using assms unfolding createSharedState_def readSharedState_def
  by (auto elim!: andThen_InrE simp: guardE_Inr jhas_def split: option.splits if_splits)

lemma transaction_evolves:
  assumes "\<And>x t'. m t = (Inr x, t') \<Longrightarrow> state_evolves t t'"
  shows "state_evolves t (snd (transaction m t))"
  using assms state_evolves_refl by (auto simp: transaction_def split: prod.splits sum.splits)

lemma state_step_evolves: "state_step hash t t' \<Longrightarrow> state_evolves t t'"
proof (induction rule: state_step.induct)
  case (create t sc actor input)
  show ?case by (rule transaction_evolves) (auto simp: state_evolves_def dest!: create_rows)
next
  case (apply_update t sc actor u)
  show ?case using update_evolves [of t hash sc actor u] by (intro transaction_evolves) auto
next
  case (administration t' t)
  then show ?case by (auto simp: state_evolves_def)
qed

lemma state_steps_evolve: "(state_step hash)\<^sup>*\<^sup>* t t' \<Longrightarrow> state_evolves t t'"
  by (induction rule: rtranclp_induct) (blast intro: state_evolves_refl state_evolves_trans state_step_evolves)+


subsection \<open>Optimistic concurrency\<close>

lemma deduplicated_simps [simp]:
  "deduplicated r \<noteq> Applied st False" "deduplicated (deduplicated r) = deduplicated r"
  by (auto simp: deduplicated_def split: state_result.splits)

lemma fresh_update:
  assumes "updateSharedState hash sc actor u t = (Inr (Applied st' False), t')" and "validateStateUpdate u = Inr cs"
  obtains st where "map_of (sd_states t) (state_key sc) = Some st" and "conflicting cs st = []"
    and "applied cs st = Inr (Applied st' False)" and "map_of (sd_states t') (state_key sc) = Some st'"
proof -
  obtain st where st: "map_of (sd_states t) (state_key sc) = Some st"
    "if conflicting cs st \<noteq> [] then Applied st' False = Conflicts (conflicting cs st) st False
       else applied cs st = Inr (Applied st' False)"
    "t' = store_result sc u (update_fingerprint hash actor u) actor (Applied st' False) t"
    using assms(1) by (rule update_cases) (use assms(2) deduplicated_simps(1) in \<open>metis sum.inject(2)\<close>)
  then have "conflicting cs st = []" "applied cs st = Inr (Applied st' False)" by (simp_all split: if_splits)
  with st(1,3) show ?thesis by (intro that) (simp_all add: store_result_def Let_def)
qed

text \<open>C24: a shared state loses no update. Once an update is applied, the fields it names hold its
  values at the version after the one it expected, and no later update that still expects that
  version, or an older one, of one of these fields is ever applied, whatever happened in between.\<close>

theorem shared_update_serialised:
  assumes "updateSharedState hash sc actor u t = (Inr (Applied st False), t1)"
    and "(state_step hash)\<^sup>*\<^sup>* t1 t2"
    and "validateStateUpdate u = Inr cs" and "c \<in> set cs"
    and "validateStateUpdate u' = Inr cs'" and "c' \<in> set cs'"
    and "sh_field c' = sh_field c" and "sh_expectedVersion c' \<le> sh_expectedVersion c"
  shows "map_of (sd_states t1) (state_key sc) = Some st
    \<and> map_of (sn_fields st) (sh_field c)
      = Some \<lparr>fs_version = sh_expectedVersion c + 1, fs_value = sh_value c, fs_deleted = (sh_value c = None)\<rparr>
    \<and> fst (updateSharedState hash sc actor' u' t2) \<noteq> Inr (Applied st' False)"
proof -
  obtain st0 where st0: "conflicting cs st0 = []" "applied cs st0 = Inr (Applied st False)"
    "map_of (sd_states t1) (state_key sc) = Some st" using fresh_update [OF assms(1,3)] .
  have f: "map_of (sn_fields st) (sh_field c)
      = Some \<lparr>fs_version = sh_expectedVersion c + 1, fs_value = sh_value c, fs_deleted = (sh_value c = None)\<rparr>"
    using applied_grows(2) [OF st0(2,1) validated_fields [OF assms(3)] assms(4)] .
  obtain st2 where st2: "map_of (sd_states t2) (state_key sc) = Some st2"
    "field_version (sh_field c) st \<le> field_version (sh_field c) st2"
    using state_steps_evolve [OF assms(2)] st0(3) unfolding state_evolves_def by blast
  have "field_version (sh_field c) st = sh_expectedVersion c + 1" using f by (simp add: field_version_def)
  then have "field_version (sh_field c') st2 \<noteq> sh_expectedVersion c'" using st2(2) assms(7,8) by simp
  then have "conflicting cs' st2 \<noteq> []" using assms(6) by (auto simp: conflicting_def filter_empty_conv)
  moreover have False if run: "fst (updateSharedState hash sc actor' u' t2) = Inr (Applied st' False)"
      and "conflicting cs' st2 \<noteq> []"
  proof -
    from run have "updateSharedState hash sc actor' u' t2
        = (Inr (Applied st' False), snd (updateSharedState hash sc actor' u' t2))" by (simp add: prod_eq_iff)
    from fresh_update [OF this assms(5)] st2(1) that(2) show False by auto
  qed
  ultimately show ?thesis using st0(3) f by blast
qed

text \<open>An operation of a shared state takes effect once. After an update returned, repeating it with
  the same operation id by the same actor in any later state either throws or returns the recorded
  result, marked as deduplicated, and changes nothing.\<close>

theorem shared_update_replayed:
  assumes "updateSharedState hash sc actor u t = (Inr r, t1)" and "(state_step hash)\<^sup>*\<^sup>* t1 t2"
    and "updateSharedState hash sc actor u t2 = (Inr r', t3)"
  shows "r' = deduplicated r \<and> t3 = t2"
proof -
  have "\<exists>o'. map_of (sd_operations t1) (state_key sc, su_operationId u) = Some o'
      \<and> deduplicated (so_result o') = deduplicated r"
    using assms(1) by (rule update_cases) (auto simp: store_result_def Let_def)
  then obtain o' where o': "map_of (sd_operations t1) (state_key sc, su_operationId u) = Some o'"
    "deduplicated (so_result o') = deduplicated r" by blast
  then have "map_of (sd_operations t2) (state_key sc, su_operationId u) = Some o'"
    using state_steps_evolve [OF assms(2)] unfolding state_evolves_def map_le_def by (metis domI)
  with o' show ?thesis by (auto intro: update_cases [OF assms(3)])
qed

subsection \<open>A sample run\<close>

definition sample_policy :: conversation_policy where
  "sample_policy = \<lparr>cp_version = 1, cp_kind = Group, cp_owner = OwnerOrganization ''o'',
     cp_participants = [\<lparr>pt_id = ''ann'', pt_kind = Human, pt_capabilities = [CanRead, CanExecute]\<rparr>,
       \<lparr>pt_id = ''bob'', pt_kind = Human, pt_capabilities = [CanRead, CanExecute]\<rparr>],
     cp_defaultAgentId = None\<rparr>"

definition sample_scope :: state_scope where
  "sample_scope = \<lparr>ss_scope = \<lparr>sc_tenantId = ''t'', sc_conversationId = ''c'', sc_threadId = None\<rparr>, ss_stateId = ''s''\<rparr>"

definition sample_actor :: "string \<Rightarrow> state_actor" where
  "sample_actor i = \<lparr>sa_principalId = i, sa_work = None, sa_actionKey = None, sa_source = None\<rparr>"

definition sample_tables :: shared_tables where
  "sample_tables = snd (createSharedState id sample_scope (sample_actor ''ann'') ConversationAudience
     \<lparr>ct_policies = [((''t'', ''c''), sample_policy)], ct_threads = [], ct_slots = [],
      sd_messages = [], sd_states = [], sd_operations = []\<rparr>)"

definition sample_update :: "string \<Rightarrow> int \<Rightarrow> string \<Rightarrow> state_update" where
  "sample_update i v x = \<lparr>su_operationId = i, su_changes = JArr [JObj [(''field'', JStr ''f''),
     (''expectedVersion'', JNum v), (''value'', JStr x)]]\<rparr>"

abbreviation sample_apply :: "string \<Rightarrow> state_update \<Rightarrow> (shared_tables, state_result) prog" where
  "sample_apply i u \<equiv> updateSharedState id sample_scope (sample_actor i) u"

definition sample_updated :: shared_tables where
  "sample_updated = snd (sample_apply ''ann'' (sample_update ''one'' 0 ''x'') sample_tables)"

lemma sample_run: "case sample_apply ''ann'' (sample_update ''one'' 0 ''x'') sample_tables of
    (Inr (Applied st False), _) \<Rightarrow> True | _ \<Rightarrow> False"
  by code_simp

lemma shared_update_witness:
  "\<forall>st'. fst (sample_apply ''bob'' (sample_update ''two'' 0 ''y'') sample_updated) \<noteq> Inr (Applied st' False)"
proof -
  obtain st where run: "sample_apply ''ann'' (sample_update ''one'' 0 ''x'') sample_tables
      = (Inr (Applied st False), sample_updated)"
    using sample_run by (auto simp: sample_updated_def split: prod.splits sum.splits state_result.splits bool.splits)
  have "validateStateUpdate (sample_update ''one'' 0 ''x'')
      = Inr [\<lparr>sh_field = ''f'', sh_expectedVersion = 0, sh_value = Some (JStr ''x'')\<rparr>]"
    "validateStateUpdate (sample_update ''two'' 0 ''y'')
      = Inr [\<lparr>sh_field = ''f'', sh_expectedVersion = 0, sh_value = Some (JStr ''y'')\<rparr>]" by code_simp+
  from shared_update_serialised [OF run _ this(1) _ this(2), of sample_updated] show ?thesis by simp
qed

lemma shared_replay_witness:
  "\<exists>r. sample_apply ''ann'' (sample_update ''one'' 0 ''x'') sample_updated = (Inr (deduplicated r), sample_updated)"
proof -
  obtain st where run: "sample_apply ''ann'' (sample_update ''one'' 0 ''x'') sample_tables
      = (Inr (Applied st False), sample_updated)"
    using sample_run by (auto simp: sample_updated_def split: prod.splits sum.splits state_result.splits bool.splits)
  have "case sample_apply ''ann'' (sample_update ''one'' 0 ''x'') sample_updated of (Inr r, _) \<Rightarrow> True | _ \<Rightarrow> False"
    by code_simp
  then obtain r' t3 where again: "sample_apply ''ann'' (sample_update ''one'' 0 ''x'') sample_updated = (Inr r', t3)"
    by (auto split: prod.splits sum.splits)
  from shared_update_replayed [OF run _ again] again show ?thesis by auto
qed

end
