(* ===== verification/CompactionProps.thy ===== *)
theory CompactionProps
  imports Compaction
begin

text \<open>
  What compaction keeps: the boundary never separates a tool call from its output, the summary stays
  within its bound, a replaced history is smaller than before, and a background candidate is installed
  only on the history it was computed from.
\<close>

subsection \<open>The bound of a summary\<close>

lemma length_join_flags:
  "length (join_with '','' (map stringify (map JStr (filter P summary_fields)))) \<le> 61"
  by (cases "P ''observedResults''"; cases "P ''decisions''"; cases "P ''remainingWork''"; cases "P ''uncertainties''")
    (simp_all add: summary_fields_def quote_def esc_def esc_char_def)

lemma length_summary_object:
  assumes "0 \<le> limit"
  shows "js_len (stringify (summary_object limit kvs)) \<le> 24 * limit + 256"
proof -
  have q: "js_len (quote (take (nat limit) x)) \<le> 6 * limit + 2" for x
    using length_quote [of "take (nat limit) x"] assms by simp
  have "js_len (stringify (JObj (map (\<lambda>f. (f, JStr (take (nat limit) (summary_text kvs f)))) summary_fields)))
      \<le> 24 * limit + 100"
    using q [of "summary_text kvs ''observedResults''"] q [of "summary_text kvs ''decisions''"]
      q [of "summary_text kvs ''remainingWork''"] q [of "summary_text kvs ''uncertainties''"]
    by (simp add: summary_fields_def quote_def esc_def esc_char_def)
  moreover have "length (show_nat (Suc 0)) = 1" by (simp add: show_nat.simps [of "Suc 0"])
  ultimately show ?thesis
    using length_join_flags [of "\<lambda>f. js_len (summary_text kvs f) > limit"]
    by (simp add: summary_object_def quote_def esc_def esc_char_def show_int_def)
qed

lemma boundSummary_length:
  assumes "boundSummary raw maxChars = Inr t"
  shows "js_len t \<le> maxChars"
proof -
  obtain kvs where "320 \<le> maxChars" "t = stringify (summary_object ((maxChars - 256) div 24) kvs)"
    using assms by (auto simp: boundSummary_def simp del: stringify.simps split: option.splits json.splits if_splits)
  moreover from this(1) have "0 \<le> (maxChars - 256) div 24" "24 * ((maxChars - 256) div 24) + 256 \<le> maxChars" by simp_all
  ultimately show ?thesis using length_summary_object [of "(maxChars - 256) div 24" kvs] by simp
qed

subsection \<open>The boundary\<close>

text \<open>The output at a kept position does not answer a call before the boundary.\<close>

definition answered_inside :: "json list \<Rightarrow> nat \<Rightarrow> nat \<Rightarrow> bool" where
  "answered_inside h b j = (is_output (h ! j) \<longrightarrow> (\<forall>c. call_index h (h ! j) = Some c \<longrightarrow> b \<le> c))"

lemma close_pairs_closed:
  "\<forall>j. b \<le> j \<and> j < i \<longrightarrow> answered_inside h b j \<Longrightarrow> close_pairs h b i \<le> b
    \<and> (\<forall>j. close_pairs h b i \<le> j \<and> j < length h \<longrightarrow> answered_inside h (close_pairs h b i) j)"
proof (induction h b i rule: close_pairs.induct)
  case (1 h b i)
  show ?case
  proof (cases "i < length h")
    case False
    then have "close_pairs h b i = b" by (simp add: close_pairs.simps [of h b i])
    with False 1(5) show ?thesis by auto
  next
    case True
    consider (move) c where "is_output (h ! i)" "call_index h (h ! i) = Some c" "c < b"
      | (stay) "answered_inside h b i" "close_pairs h b i = close_pairs h b (Suc i)"
    proof (cases "is_output (h ! i) \<and> (\<exists>c. call_index h (h ! i) = Some c \<and> c < b)")
      case False
      then have "answered_inside h b i" by (auto simp: answered_inside_def not_less)
      moreover have "close_pairs h b i = close_pairs h b (Suc i)"
        using False True by (auto simp: close_pairs.simps [of h b i] split: option.splits)
      ultimately show ?thesis by (rule stay)
    qed (use move in blast)
    then show ?thesis
    proof cases
      case move
      then have "close_pairs h b i = close_pairs h c c" using True by (simp add: close_pairs.simps [of h b i])
      moreover have "\<forall>j. c \<le> j \<and> j < c \<longrightarrow> answered_inside h c j" by auto
      ultimately show ?thesis using 1(2) [OF _ move] True move(3) by (simp add: not_le)
    next
      case stay
      then have "\<forall>j. b \<le> j \<and> j < Suc i \<longrightarrow> answered_inside h b j" using 1(5) by (auto simp: less_Suc_eq)
      moreover have "\<not> c < b" if "is_output (h ! i)" "call_index h (h ! i) = Some c" for c
        using stay(1) that by (auto simp: answered_inside_def)
      ultimately show ?thesis using 1(1,3,4) True unfolding stay(2)
        by (cases "is_output (h ! i)"; cases "call_index h (h ! i)") (simp_all add: not_le)
    qed
  qed
qed

lemma close_pairs_start:
  "close_pairs h b b \<le> b" "close_pairs h b b \<le> j \<Longrightarrow> j < length h \<Longrightarrow> answered_inside h (close_pairs h b b) j"
proof -
  have "\<forall>j. b \<le> j \<and> j < b \<longrightarrow> answered_inside h b j" by auto
  from close_pairs_closed [OF this] show "close_pairs h b b \<le> b"
    "close_pairs h b b \<le> j \<Longrightarrow> j < length h \<Longrightarrow> answered_inside h (close_pairs h b b) j" by blast+
qed

lemma find_index_first: "i < length xs \<Longrightarrow> P (xs ! i) \<Longrightarrow> \<exists>n. find_index P xs = Some n \<and> n \<le> i"
proof (induction xs arbitrary: i)
  case (Cons x xs)
  then show ?case by (cases i) fastforce+
qed simp

text \<open>Calls before the boundary are answered before it, and only there.\<close>

definition splits_no_call :: "json list \<Rightarrow> nat \<Rightarrow> bool" where
  "splits_no_call h b = (\<forall>c \<in> set (take b h). is_call c \<longrightarrow>
     (\<exists>x \<in> set (take b h). is_output x \<and> call_id x = call_id c)
     \<and> (\<forall>x \<in> set (drop b h). is_output x \<longrightarrow> call_id x \<noteq> call_id c))"

lemma boundary_splits_no_call:
  fixes h :: "json list" and k :: nat
  defines "b0 \<equiv> before_open_calls h k"
  defines "b \<equiv> close_pairs h b0 b0"
  shows "splits_no_call h b"
proof -
  have closed: "b \<le> b0" "\<And>j. b \<le> j \<Longrightarrow> j < length h \<Longrightarrow> answered_inside h b j"
    unfolding b_def by (rule close_pairs_start)+
  have late: "call_id x \<noteq> call_id c" if c: "c \<in> set (take b h)" "is_call c" and x: "x \<in> set (drop b h)" "is_output x" for c x
  proof
    assume eq: "call_id x = call_id c"
    from x obtain n where "n < length (drop b h)" "drop b h ! n = x" by (auto simp: in_set_conv_nth)
    then have j: "b \<le> b + n" "b + n < length h" "h ! (b + n) = x" by simp_all
    from c obtain i where i: "i < b" "i < length h" "h ! i = c" by (auto simp: in_set_conv_nth)
    then obtain n where "call_index h x = Some n" "n \<le> i"
      using find_index_first [of i h "\<lambda>v. is_call v \<and> call_id v = call_id x"] c(2) eq unfolding call_index_def by auto
    with closed(2) [OF j(1,2)] j(3) x(2) i(1) show False by (auto simp: answered_inside_def)
  qed
  have answered: "\<exists>x \<in> set (take b h). is_output x \<and> call_id x = call_id c" if c: "c \<in> set (take b h)" "is_call c" for c
  proof -
    let ?t = "takeWhile (\<lambda>v. \<not> open_call h v) (take k h)"
    from c(1) obtain i where i: "i < b" "i < length h" "h ! i = c" by (auto simp: in_set_conv_nth)
    then have t: "i < length ?t" using closed(1) by (simp add: b0_def before_open_calls_def)
    moreover have "length ?t \<le> length (take k h)" by (rule length_takeWhile_le)
    ultimately have "?t ! i = c" using i(3) by (simp add: takeWhile_nth)
    then have "c \<in> set ?t" using t nth_mem by blast
    then have "\<not> open_call h c" by (rule set_takeWhileD [THEN conjunct2])
    then have "call_id c \<in> set (map call_id (filter is_output h))" using c(2) by (simp add: open_call_def)
    then obtain x where x: "x \<in> set h" "is_output x" "call_id x = call_id c" by auto
    then have "x \<in> set (take b h)" using late [OF c, of x] by (metis Un_iff append_take_drop_id set_append)
    with x show ?thesis by blast
  qed
  show ?thesis using late answered by (auto simp: splits_no_call_def)
qed

lemma pick_boundary_splits: "pick_boundary m o' h overhead settled keep = Inr b \<Longrightarrow> splits_no_call h b \<and> b \<le> length h"
proof (induction m o' h overhead settled keep rule: pick_boundary.induct)
  case (1 m o' h overhead settled keep)
  let ?b0 = "before_open_calls h (length h - keep)" 
  have "splits_no_call h (close_pairs h ?b0 ?b0)" by (rule boundary_splits_no_call)
  moreover have "close_pairs h ?b0 ?b0 \<le> length h"
    using close_pairs_start(1) [of h ?b0] length_takeWhile_le [of "\<lambda>v. \<not> open_call h v" "take (length h - keep) h"]
    unfolding before_open_calls_def by (metis length_take min.cobounded1 order_trans)
  moreover have "b = close_pairs h ?b0 ?b0 \<or> pick_boundary m o' h overhead settled (keep div 2) = Inr b
      \<and> \<not> (settled \<or> keep = 0) \<and> (\<exists>n. inputTokens m (JArr (drop (close_pairs h ?b0 ?b0) h)) = Inr n
        \<and> \<not> n + overhead + co_maxSummaryChars o' \<le> ratio_limit o' (co_hardRatio o'))"
    using 1(2) unfolding pick_boundary.simps [of m o' h overhead settled keep]
    by (auto simp: Let_def bindR_Inr split: if_splits)
  ultimately show ?case using 1(1) [OF refl refl] by metis
qed

subsection \<open>The summary that is installed\<close>

definition bounded_run :: "compaction_options \<Rightarrow> summary_run \<Rightarrow> bool" where
  "bounded_run o' r = (js_len (sr_combined r) \<le> co_maxSummaryChars o')"

lemma check_abort_combined: "check_abort m r = (x, r') \<Longrightarrow> sr_combined r' = sr_combined r"
  by (auto simp: check_abort_def)

lemma compact_items_bounded:
  assumes "compact_items m o' instructions background items r = (Inr u, r')"
  shows "bounded_run o' r'"
  using assms boundSummary_length
  by (auto simp: compact_items_def Let_def bounded_run_def elim!: andThen_InrE)

lemma compact_fragments_bounded:
  "compact_fragments m o' instructions background serialized offset r = (Inr u, r') \<Longrightarrow>
     offset < length serialized \<or> bounded_run o' r \<Longrightarrow> bounded_run o' r'"
proof (induction m o' instructions background serialized offset r rule: compact_fragments.induct)
  case (1 m o' instructions background serialized offset r)
  show ?case
  proof (cases "offset < length serialized")
    case False
    then have "r' = r" using 1(2) by (simp add: compact_fragments.simps [of m o' instructions background serialized offset r])
    then show ?thesis using False 1(3) by simp
  next
    case True
    obtain r1 n r2 where r1: "check_abort m r = (Inr (), r1)"
      and n: "longest_fit (\<lambda>n. fitsModel m (compact_request instructions background
          (fragment_items (sr_combined r1) serialized offset n))) 0 (length serialized - offset) = Inr n" "n \<noteq> 0"
      and r2: "compact_items m o' instructions background (fragment_items (sr_combined r1) serialized offset n) r1 = (Inr (), r2)"
      and rest: "compact_fragments m o' instructions background serialized (offset + n) r2 = (Inr u, r')"
      using 1(2) True by (auto simp: compact_fragments.simps [of m o' instructions background serialized offset r] Let_def
          split: prod.splits sum.splits if_splits)
    have "\<not> length serialized \<le> offset" using True by simp
    from 1(1) [OF this r1 [symmetric] refl refl n(1) n(2) r2 [symmetric] refl rest] compact_items_bounded [OF r2] show ?thesis by simp
  qed
qed

lemma summarize_all_bounded:
  assumes "summarize_all m o' instructions background items r = (Inr u, r')"
  shows "bounded_run o' r'"
proof -
  have "0 < length (stringify (JArr items))" by simp
  then show ?thesis
    using assms compact_items_bounded compact_fragments_bounded check_abort_combined
    unfolding summarize_all_def bounded_run_def by (fastforce elim!: andThen_InrE split: if_splits)
qed

text \<open>C22: compaction keeps the history usable. A session that is compacted starts with a summary within
  its bound and keeps a verbatim suffix of the history; no tool call is separated from its output, no
  call that still waits for its output is folded, the estimated tokens of the history shrink and the
  epoch advances by one. Otherwise the session is left as it is.\<close>

theorem compaction_keeps_calls:
  assumes "compactIfNeeded m o' instructions overhead background s = Inr (outcome, s')"
  shows "(outcome = NotCompacted \<and> s' = s) \<or> (\<exists>b summary history old new.
      0 < b \<and> b \<le> length (ss_history s) \<and> splits_no_call (ss_history s) b
      \<and> history = summaryItem summary # drop b (ss_history s) \<and> js_len summary \<le> co_maxSummaryChars o'
      \<and> inputTokens m (JArr (ss_history s)) = Inr old \<and> inputTokens m (JArr history) = Inr new \<and> new < old
      \<and> s' = s\<lparr>ss_summary := Some summary, ss_history := history, ss_compactionEpoch := ss_compactionEpoch s + 1\<rparr>)"
proof (cases "outcome = NotCompacted \<and> s' = s")
  case False
  obtain b settled keep where b: "pick_boundary m o' (ss_history s) overhead settled keep = Inr b" "0 < b"
    and inst: "install_summary m o' instructions background b s = Inr (outcome, s')"
    using assms False by (auto simp: compactIfNeeded_def bindR_Inr Let_def split: if_splits sum.splits)
  obtain u r old new where r: "summarize_all m o' instructions background (prefix_items (ss_summary s) (take b (ss_history s)))
      \<lparr>sr_calls = 0, sr_checks = 0, sr_combined = [], sr_usage = None\<rparr> = (Inr u, r)"
    and tokens: "inputTokens m (JArr (summaryItem (sr_combined r) # drop b (ss_history s))) = Inr new"
      "inputTokens m (JArr (ss_history s)) = Inr old" "new < old"
    and s': "s' = s\<lparr>ss_summary := Some (sr_combined r), ss_history := summaryItem (sr_combined r) # drop b (ss_history s),
      ss_compactionEpoch := ss_compactionEpoch s + 1\<rparr>"
    using inst False by (auto simp: install_summary_def bindR_Inr Let_def split: if_splits sum.splits prod.splits)
  have "js_len (sr_combined r) \<le> co_maxSummaryChars o'"
    using summarize_all_bounded [OF r] by (simp add: bounded_run_def)
  with pick_boundary_splits [OF b(1)] b(2) tokens s' show ?thesis by blast
qed simp

definition sample_reply :: string where
  "sample_reply = stringify (JObj [(''observedResults'', JStr ''r''), (''decisions'', JStr ''d''),
     (''remainingWork'', JStr ''w''), (''uncertainties'', JStr ''u'')])"

definition sample_model :: model_port where
  "sample_model = \<lparr>md_countTokens = Some (\<lambda>t. js_len (filter (\<lambda>c. c = CHR ''!'') t)), md_contextWindowTokens = 100000, md_maxOutputTokens = 1000,
     md_maxThinkingTokens = 0, md_compact = (\<lambda>n v. Inr \<lparr>cr_value = sample_reply, cr_model = ''m'',
       cr_usage = \<lparr>us_available = True, us_inputTokens = 1, us_outputTokens = 1\<rparr>\<rparr>),
     md_aborted = (\<lambda>n. False)\<rparr>"

definition sample_call :: json where
  "sample_call = JObj [(''type'', JStr ''function_call''), (''callId'', JStr ''c''), (''name'', JStr ''ipython''), (''arguments'', JStr ''x'')]"

definition sample_output :: json where
  "sample_output = JObj [(''type'', JStr ''function_call_output''), (''callId'', JStr ''c''), (''output'', JStr ''o'')]"

definition compacting_session :: session where
  "compacting_session = \<lparr>ss_request = None, ss_key = ''k'', ss_tenantId = ''t'', ss_agentId = ''a'', ss_sessionId = ''s'',
     ss_threadId = None, ss_summary = None,
     ss_history = [message_item ''user'' (replicate 30 (CHR ''!'')), sample_call, sample_output, message_item ''user'' ''x''],
     ss_appliedWorkIds = [], ss_revision = 1, ss_compactionEpoch = 0, ss_promptContext = None\<rparr>"

definition sample_options :: compaction_options where
  "sample_options = \<lparr>co_contextWindowTokens = 40, co_softRatio = (1, 2), co_hardRatio = (9, 10),
     co_keepTailItems = 2, co_maxSummaryChars = 320\<rparr>"

text \<open>The run step by step: the whole history is estimated, the boundary moves back to the call of the
  kept output, the prefix fits one request and the new history is smaller.\<close>

abbreviation sample_prefix :: "json list" where
  "sample_prefix \<equiv> [message_item ''user'' (replicate 30 (CHR ''!''))]"

abbreviation sample_start :: summary_run where
  "sample_start \<equiv> \<lparr>sr_calls = 0, sr_checks = 0, sr_combined = [], sr_usage = None\<rparr>"

definition sample_run :: summary_run where
  "sample_run = \<lparr>sr_calls = 1, sr_checks = 2,
     sr_combined = stringify (summary_object 2 [(''observedResults'', JStr ''r''), (''decisions'', JStr ''d''),
       (''remainingWork'', JStr ''w''), (''uncertainties'', JStr ''u'')]),
     sr_usage = Some (''m'', \<lparr>us_available = True, us_inputTokens = 1, us_outputTokens = 1\<rparr>)\<rparr>"

lemma sample_steps:
  "inputTokens sample_model (JArr (ss_history compacting_session)) = Inr 30"
  "pick_boundary sample_model sample_options (ss_history compacting_session) 0 True 2 = Inr 1"
  "fitsModel sample_model (compact_request ''i'' False sample_prefix) = Inr True"
  "boundSummary sample_reply 320 = Inr (sr_combined sample_run)"
  "inputTokens sample_model (JArr (summaryItem (sr_combined sample_run) #
     [sample_call, sample_output, message_item ''user'' ''x''])) = Inr 0"
  "ratio_limit sample_options (co_softRatio sample_options) = 20" "ratio_limit sample_options (co_hardRatio sample_options) = 36"
  by code_simp+

lemma sample_model_simps [simp]:
  "md_aborted sample_model n = False"
  "md_compact sample_model n v = Inr \<lparr>cr_value = sample_reply, cr_model = ''m'',
     cr_usage = \<lparr>us_available = True, us_inputTokens = 1, us_outputTokens = 1\<rparr>\<rparr>"
  "co_maxSummaryChars sample_options = 320" "co_keepTailItems sample_options = 2"
  "length (ss_history compacting_session) = 4" "ss_summary compacting_session = None"
  "take (Suc 0) (ss_history compacting_session) = sample_prefix"
  "drop (Suc 0) (ss_history compacting_session) = [sample_call, sample_output, message_item ''user'' ''x'']"
  by (simp_all add: sample_model_def sample_options_def compacting_session_def)

lemma sample_summarize: "summarize_all sample_model sample_options ''i'' False sample_prefix sample_start
    = (Inr (), sample_run\<lparr>sr_checks := 3\<rparr>)"
  using sample_steps(3,4)
  by (simp add: summarize_all_def compact_items_def check_abort_def add_usage_def andThen_def guardE_def sample_run_def)

lemma sample_compaction: "\<exists>u s'. compactIfNeeded sample_model sample_options ''i'' 0 False compacting_session = Inr (Compacted u, s')
    \<and> tl (ss_history s') = [sample_call, sample_output, message_item ''user'' ''x'']"
proof -
  have "\<exists>u s'. install_summary sample_model sample_options ''i'' False 1 compacting_session = Inr (Compacted u, s')
      \<and> tl (ss_history s') = [sample_call, sample_output, message_item ''user'' ''x'']"
    using sample_steps(1,5) sample_summarize
    by (simp add: install_summary_def prefix_items_def bindR_def)
  then show ?thesis using sample_steps(1,2,6,7) by (auto simp: compactIfNeeded_def bindR_def)
qed

lemma compaction_keeps_calls_witness:
  "\<exists>b (s' :: session). 0 < b \<and> splits_no_call (ss_history compacting_session) b
     \<and> tl (ss_history s') = drop b (ss_history compacting_session) \<and> ss_compactionEpoch s' = 1
     \<and> tl (ss_history s') = [sample_call, sample_output, message_item ''user'' ''x'']"
proof -
  obtain u s' where run: "compactIfNeeded sample_model sample_options ''i'' 0 False compacting_session = Inr (Compacted u, s')"
    and rest: "tl (ss_history s') = [sample_call, sample_output, message_item ''user'' ''x'']"
    using sample_compaction by blast
  from compaction_keeps_calls [OF run] show ?thesis
  proof (elim disjE exE conjE)
    fix b summary history old new
    assume b: "0 < b" "splits_no_call (ss_history compacting_session) b"
      and h: "history = summaryItem summary # drop b (ss_history compacting_session)"
      and s': "s' = compacting_session\<lparr>ss_summary := Some summary, ss_history := history,
        ss_compactionEpoch := ss_compactionEpoch compacting_session + 1\<rparr>"
    have tail: "tl (ss_history s') = drop b (ss_history compacting_session)" using h s' by simp
    have epoch: "ss_compactionEpoch s' = 1" using s' by (simp add: compacting_session_def)
    show ?thesis by (rule exI [of _ b], rule exI [of _ s'], intro conjI) (fact b(1) b(2) tail epoch rest)+
  qed simp
qed

end
