(* ===== verification/ModelCalls.thy ===== *)
theory ModelCalls
  imports Compaction
begin

text \<open>
  The boundary around every provider attempt (model/execution.ts): admission against the limits of the
  run, reservation with the host, the attempt itself, settlement of its usage and the decision to try
  again. The host, the provider, the clock and the abort signal are parameters: what they answer at
  each step of the run. The log lists the calls that leave the process, in their order; metadata of
  the observations (latency, prompt manifests, model names) is left out.
\<close>

record call_limits =
  cl_maxModelCalls :: int
  cl_maxTokens :: int
  cl_maxCostMicros :: int
  cl_wallClockMs :: int
  cl_inputCostMicrosPerMillion :: int
  cl_outputCostMicrosPerMillion :: int

definition DEFAULT_MODEL_BUDGET :: call_limits where
  "DEFAULT_MODEL_BUDGET = \<lparr>cl_maxModelCalls = 128, cl_maxTokens = 1000000, cl_maxCostMicros = 10000000,
     cl_wallClockMs = 1800000, cl_inputCostMicrosPerMillion = 0, cl_outputCostMicrosPerMillion = 0\<rparr>"

text \<open>A failed attempt: an error of the model driver with its kind and HTTP status, or any other error.\<close>

datatype attempt_failure = DriverError string "int option" | OtherError os_error

datatype call_event =
    ReserveCall string int int
  | StartedEvent string
  | ProviderCall string
  | RecordUsage string int int int
  | FinishedEvent string bool

record call_state =
  cs_sequence :: int
  cs_calls :: int
  cs_tokens :: int
  cs_cost :: int
  cs_log :: "call_event list"

text \<open>
  \<open>cp_reserve\<close> answers whether the call is allowed and the milliseconds to its deadline;
  \<open>cp_elapsed\<close> the time since the run began; \<open>cp_provider\<close> the outcome of the attempt. Each is a
  function of the log so far, so that it may answer differently at each step.
\<close>

record call_port =
  cp_aborted :: "call_event list \<Rightarrow> bool"
  cp_elapsed :: "call_event list \<Rightarrow> int"
  cp_reserve :: "call_event list \<Rightarrow> os_error + bool \<times> int"
  cp_emit :: "call_event list \<Rightarrow> os_error + unit"
  cp_provider :: "call_event list \<Rightarrow> attempt_failure + model_usage"
  cp_record :: "call_event list \<Rightarrow> os_error + unit"
  cp_deadline :: "call_event list \<Rightarrow> bool"

definition ceil_div :: "int \<Rightarrow> int \<Rightarrow> int" where
  "ceil_div a b = - ((- a) div b)"

definition call_cost :: "call_limits \<Rightarrow> int \<Rightarrow> int \<Rightarrow> int" where
  "call_cost l i out = ceil_div (i * cl_inputCostMicrosPerMillion l + out * cl_outputCostMicrosPerMillion l) 1000000"

definition logged :: "call_event \<Rightarrow> (call_event list \<Rightarrow> os_error + 'a) \<Rightarrow> (call_state, 'a) prog" where
  "logged e f = (\<lambda>s. (f (cs_log s @ [e]), s\<lparr>cs_log := cs_log s @ [e]\<rparr>))"

definition attempt_id :: "string \<Rightarrow> nat \<Rightarrow> string" where
  "attempt_id logical n = (if n = 1 then logical else logical @ '':retry:'' @ show_nat n)"

definition exhausted :: "call_limits \<Rightarrow> int \<Rightarrow> int \<Rightarrow> int \<Rightarrow> call_state \<Rightarrow> bool" where
  "exhausted l i out elapsed s = (cs_calls s \<ge> cl_maxModelCalls l \<or> cs_tokens s + i + out > cl_maxTokens l
     \<or> cs_cost s + call_cost l i out > cl_maxCostMicros l \<or> elapsed \<ge> cl_wallClockMs l)"

definition budget_exhausted :: os_error where
  "budget_exhausted = JsError ''root work model budget exhausted''"

text \<open>Admission and reservation of one attempt.\<close>

definition admit :: "call_port \<Rightarrow> call_limits \<Rightarrow> int \<Rightarrow> int \<Rightarrow> string \<Rightarrow> (call_state, unit) prog" where
  "admit p l i out callId =
     andThen (asks cs_log) (\<lambda>g.
     andThen (guardE (\<not> cp_aborted p g) (JsError ''aborted'')) (\<lambda>_.
     andThen (\<lambda>s. guardE (\<not> exhausted l i out (cp_elapsed p g) s) budget_exhausted s) (\<lambda>_.
     andThen (logged (ReserveCall callId (i + out) (call_cost l i out)) (cp_reserve p)) (\<lambda>(allowed, remaining).
     andThen (guardE allowed budget_exhausted) (\<lambda>_.
     andThen (guardE (0 < remaining) (JsError ''root work execution time exhausted'')) (\<lambda>_.
     update (\<lambda>s. s\<lparr>cs_calls := cs_calls s + 1, cs_tokens := cs_tokens s + i + out,
       cs_cost := cs_cost s + call_cost l i out\<rparr>)))))))"

text \<open>The usage is recorded even when the caller has given up; the event only while it has not.\<close>

definition settle_attempt :: "call_port \<Rightarrow> string \<Rightarrow> bool \<Rightarrow> int \<Rightarrow> int \<Rightarrow> int \<Rightarrow> (call_state, unit) prog" where
  "settle_attempt p callId ok ti tt c =
     andThen (logged (RecordUsage callId ti tt c) (cp_record p)) (\<lambda>_.
     andThen (asks cs_log) (\<lambda>g. if cp_aborted p g then ret () else logged (FinishedEvent callId ok) (cp_emit p)))"

text \<open>The provider call and its settlement; an attempt without measured usage is charged its reservation.\<close>

definition perform :: "call_port \<Rightarrow> call_limits \<Rightarrow> int \<Rightarrow> int \<Rightarrow> string
    \<Rightarrow> (call_state, attempt_failure + model_usage) prog" where
  "perform p l i out callId =
     andThen (logged (StartedEvent callId) (cp_emit p)) (\<lambda>_.
     andThen (logged (ProviderCall callId) (\<lambda>g. Inr (cp_provider p g))) (\<lambda>result.
     let measured = (case result of Inr u \<Rightarrow> us_available u | Inl _ \<Rightarrow> False);
         ti = (case result of Inr u \<Rightarrow> if measured then us_inputTokens u else i | Inl _ \<Rightarrow> i);
         tt = (case result of Inr u \<Rightarrow> if measured then us_outputTokens u else out | Inl _ \<Rightarrow> out);
         c = call_cost l ti tt
     in andThen (update (\<lambda>s. s\<lparr>cs_tokens := cs_tokens s + (ti + tt - i - out), cs_cost := cs_cost s + (c - call_cost l i out)\<rparr>)) (\<lambda>_.
        andThen (settle_attempt p callId (case result of Inr _ \<Rightarrow> True | _ \<Rightarrow> False) ti tt c) (\<lambda>_.
        ret result))))"

definition retryable :: "attempt_failure \<Rightarrow> bool" where
  "retryable f = (case f of
      OtherError _ \<Rightarrow> False
    | DriverError kind status \<Rightarrow> kind \<noteq> ''protocol''
        \<and> (case status of None \<Rightarrow> True | Some c \<Rightarrow> c = 429 \<or> c \<ge> 500))"

definition failure_error :: "attempt_failure \<Rightarrow> os_error" where
  "failure_error f = (case f of OtherError e \<Rightarrow> e | DriverError kind _ \<Rightarrow> JsError kind)"

text \<open>\<open>for (attempt = 1; ; attempt++)\<close>: the third failure is thrown, so the loop ends.\<close>

function attempts :: "call_port \<Rightarrow> call_limits \<Rightarrow> int \<Rightarrow> int \<Rightarrow> string \<Rightarrow> nat \<Rightarrow> call_state
    \<Rightarrow> (os_error + model_usage) \<times> call_state" where
  "attempts p l i out logical n s =
     (case admit p l i out (attempt_id logical n) s of
        (Inl e, s1) \<Rightarrow> (Inl e, s1)
      | (Inr _, s1) \<Rightarrow> (case perform p l i out (attempt_id logical n) s1 of
            (Inl e, s2) \<Rightarrow> (Inl e, s2)
          | (Inr (Inr u), s2) \<Rightarrow> (Inr u, s2)
          | (Inr (Inl f), s2) \<Rightarrow>
              if \<not> retryable f \<or> n \<ge> 3 \<or> cp_deadline p (cs_log s2) then (Inl (failure_error f), s2)
              else if cp_aborted p (cs_log s2) then (Inl (JsError ''aborted''), s2)
              else attempts p l i out logical (Suc n) s2))"
  by pat_completeness auto
termination by (relation "measure (\<lambda>(p, l, i, out, logical, n, s). 4 - n)") auto

declare attempts.simps [simp del]

definition logical_id :: "work_item \<Rightarrow> string \<Rightarrow> int \<Rightarrow> string" where
  "logical_id w namespace n = wi_id w @ '':'' @ show_int (wi_fence w) @ '':'' @ namespace @ '':'' @ show_int n"

definition nextCallId :: "work_item \<Rightarrow> string \<Rightarrow> call_state \<Rightarrow> string" where
  "nextCallId w namespace s = logical_id w namespace (cs_sequence s + 1)"

text \<open>\<open>invoke\<close>: \<open>i\<close> and \<open>out\<close> are the estimated input and the output the model may produce.\<close>

definition invoke :: "call_port \<Rightarrow> call_limits \<Rightarrow> work_item \<Rightarrow> string \<Rightarrow> int \<Rightarrow> int \<Rightarrow> (call_state, model_usage) prog" where
  "invoke p l w namespace i out = (\<lambda>s.
     attempts p l i out (nextCallId w namespace s) 1 (s\<lparr>cs_sequence := cs_sequence s + 1\<rparr>))"

subsection \<open>Call ids\<close>

lemma attempt_id_digits:
  assumes "0 \<le> k" and "1 \<le> n"
  shows "\<exists>suf. attempt_id (logical_id w namespace k) n
      = (wi_id w @ '':'' @ show_int (wi_fence w) @ '':'' @ namespace @ '':'') @ show_nat (nat k) @ suf
    \<and> suf = (if n = 1 then [] else '':retry:'' @ show_nat n)"
  using assms by (auto simp: attempt_id_def logical_id_def show_int_def)

lemma show_nat_stop:
  assumes "show_nat k @ r = show_nat k' @ r'" and "r = [] \<or> \<not> dec_char (hd r)" and "r' = [] \<or> \<not> dec_char (hd r')"
  shows "k = k' \<and> r = r'"
proof -
  have "takeWhile dec_char (show_nat k @ r) = show_nat k" "takeWhile dec_char (show_nat k' @ r') = show_nat k'"
    using takeWhile_stop [OF show_nat_dec] assms(2,3) by blast+
  with assms(1) have "show_nat k = show_nat k'" by simp
  with assms(1) show ?thesis using show_nat_inj by auto
qed

lemma attempt_id_inj:
  assumes "0 \<le> k" "1 \<le> n" "0 \<le> k'" "1 \<le> n'"
    and "attempt_id (logical_id w namespace k) n = attempt_id (logical_id w namespace k') n'"
  shows "k = k' \<and> n = n'"
proof -
  define suf where "suf n = (if n = 1 then [] else '':retry:'' @ show_nat n)" for n
  have "show_nat (nat k) @ suf n = show_nat (nat k') @ suf n'"
    using attempt_id_digits [OF assms(1,2), of w namespace] attempt_id_digits [OF assms(3,4), of w namespace] assms(5)
    by (simp add: suf_def)
  moreover have "suf n = [] \<or> \<not> dec_char (hd (suf n))" for n by (simp add: suf_def dec_char_def)
  ultimately have "nat k = nat k'" "suf n = suf n'" using show_nat_stop by metis+
  then show ?thesis using assms(1,3) show_nat_inj by (auto simp: suf_def split: if_splits)
qed

subsection \<open>What a call leaves in the log\<close>

definition provided :: "call_event list \<Rightarrow> string list" where
  "provided g = concat (map (\<lambda>e. case e of ProviderCall i \<Rightarrow> [i] | _ \<Rightarrow> []) g)"

definition recorded :: "call_event list \<Rightarrow> string list" where
  "recorded g = concat (map (\<lambda>e. case e of RecordUsage i _ _ _ \<Rightarrow> [i] | _ \<Rightarrow> []) g)"

definition reserved :: "call_event list \<Rightarrow> string list" where
  "reserved g = concat (map (\<lambda>e. case e of ReserveCall i _ _ \<Rightarrow> [i] | _ \<Rightarrow> []) g)"

lemma log_simps [simp]:
  "provided (g @ h) = provided g @ provided h" "provided (ProviderCall i # g) = i # provided g"
  "provided (ReserveCall i a b # g) = provided g" "provided (StartedEvent i # g) = provided g"
  "provided (RecordUsage i x y z # g) = provided g" "provided (FinishedEvent i ok # g) = provided g" "provided [] = []"
  "recorded (g @ h) = recorded g @ recorded h" "recorded (RecordUsage i x y z # g) = i # recorded g"
  "recorded (ReserveCall i a b # g) = recorded g" "recorded (StartedEvent i # g) = recorded g"
  "recorded (ProviderCall i # g) = recorded g" "recorded (FinishedEvent i ok # g) = recorded g" "recorded [] = []"
  "reserved (g @ h) = reserved g @ reserved h" "reserved (ReserveCall i a b # g) = i # reserved g"
  "reserved (ProviderCall i # g) = reserved g" "reserved (StartedEvent i # g) = reserved g"
  "reserved (RecordUsage i x y z # g) = reserved g" "reserved (FinishedEvent i ok # g) = reserved g" "reserved [] = []"
  by (simp_all add: provided_def recorded_def reserved_def)

lemma admit_log:
  assumes "admit p l i out c s = (r, s')"
  shows "cs_sequence s' = cs_sequence s \<and> (\<exists>g. cs_log s' = cs_log s @ g \<and> provided g = [] \<and> recorded g = []
    \<and> (r = Inr () \<longrightarrow> reserved g = [c] \<and> cs_calls s < cl_maxModelCalls l \<and> cs_calls s' = cs_calls s + 1)
    \<and> (r \<noteq> Inr () \<longrightarrow> cs_calls s' = cs_calls s))"
  using assms by (auto simp: admit_def andThen_def logged_def guardE_def exhausted_def split: sum.splits if_splits prod.splits)

lemma perform_log:
  assumes "perform p l i out c s = (r, s')"
  shows "cs_sequence s' = cs_sequence s \<and> cs_calls s' = cs_calls s
    \<and> (\<exists>g. cs_log s' = cs_log s @ g \<and> reserved g = [] \<and> provided g = recorded g
       \<and> (provided g = [c] \<or> provided g = [] \<and> (\<exists>e. r = Inl e)))"
  using assms by (auto simp: perform_def settle_attempt_def andThen_def logged_def Let_def split: sum.splits if_splits prod.splits)

definition attempts_from :: "call_limits \<Rightarrow> string \<Rightarrow> nat \<Rightarrow> (os_error + model_usage) \<Rightarrow> call_state \<Rightarrow> call_state \<Rightarrow> bool" where
  "attempts_from l logical n r s s' = (\<exists>g m. cs_log s' = cs_log s @ g \<and> recorded g = provided g
     \<and> provided g = map (attempt_id logical) [n..<n + m] \<and> n + m \<le> 4 \<and> (\<forall>u. r = Inr u \<longrightarrow> 1 \<le> m)
     \<and> cs_sequence s' = cs_sequence s \<and> cs_calls s' \<le> max (cs_calls s) (cl_maxModelCalls l))"

lemma admit_only:
  assumes "admit p l i out c s = (Inl e, s')" and "n \<le> 4"
  shows "attempts_from l logical n (Inl e) s s'"
  using admit_log [OF assms(1)] assms(2) unfolding attempts_from_def
  by (elim conjE exE) (intro exI [of _ 0] exI, auto)

lemma attempt_once:
  assumes "admit p l i out (attempt_id logical n) s = (Inr (), s1)"
    and "perform p l i out (attempt_id logical n) s1 = (x, s2)" and "n \<le> 3"
    and "\<forall>u. r = Inr u \<longrightarrow> x = Inr (Inr u)"
  shows "attempts_from l logical n r s s2"
proof -
  obtain g1 where g1: "cs_log s1 = cs_log s @ g1" "provided g1 = []" "recorded g1 = []"
    "cs_calls s < cl_maxModelCalls l" "cs_calls s1 = cs_calls s + 1" "cs_sequence s1 = cs_sequence s"
    using admit_log [OF assms(1)] by auto
  obtain g2 where g2: "cs_log s2 = cs_log s1 @ g2" "provided g2 = recorded g2" "cs_calls s2 = cs_calls s1"
    "cs_sequence s2 = cs_sequence s1"
    "provided g2 = [attempt_id logical n] \<or> provided g2 = [] \<and> (\<exists>e. x = Inl e)"
    using perform_log [OF assms(2)] by auto
  define m where "m = length (provided g2)"
  have "provided g2 = map (attempt_id logical) [n..<n + m]" "m \<le> 1" using g2(5) by (auto simp: m_def)
  moreover have "1 \<le> m" if "r = Inr u" for u using that assms(4) g2(5) by (auto simp: m_def)
  ultimately show ?thesis using g1 g2 assms(3) unfolding attempts_from_def
    by (intro exI [of _ "g1 @ g2"] exI [of _ m]) auto
qed

lemma attempts_from_next:
  assumes "admit p l i out (attempt_id logical n) s = (Inr (), s1)"
    and "perform p l i out (attempt_id logical n) s1 = (Inr x, s2)"
    and "attempts_from l logical (Suc n) r s2 s3"
  shows "attempts_from l logical n r s s3"
proof -
  obtain g1 where g1: "cs_log s1 = cs_log s @ g1" "provided g1 = []" "recorded g1 = []"
    "cs_calls s < cl_maxModelCalls l" "cs_calls s1 = cs_calls s + 1" "cs_sequence s1 = cs_sequence s"
    using admit_log [OF assms(1)] by auto
  obtain g2 where g2: "cs_log s2 = cs_log s1 @ g2" "provided g2 = recorded g2" "cs_calls s2 = cs_calls s1"
    "cs_sequence s2 = cs_sequence s1" "provided g2 = [attempt_id logical n]"
    using perform_log [OF assms(2)] by auto
  obtain g3 m where g3: "cs_log s3 = cs_log s2 @ g3" "recorded g3 = provided g3"
    "provided g3 = map (attempt_id logical) [Suc n..<Suc n + m]" "Suc n + m \<le> 4"
    "cs_sequence s3 = cs_sequence s2" "cs_calls s3 \<le> max (cs_calls s2) (cl_maxModelCalls l)"
    using assms(3) unfolding attempts_from_def by blast
  have "[n..<n + Suc m] = n # [Suc n..<Suc n + m]" by (simp add: upt_rec [of n])
  then show ?thesis using g1 g2 g3 unfolding attempts_from_def
    by (intro exI [of _ "g1 @ g2 @ g3"] exI [of _ "Suc m"]) auto
qed

lemma attempts_log: "attempts p l i out logical n s = (r, s') \<Longrightarrow> n \<le> 3 \<Longrightarrow> attempts_from l logical n r s s'"
proof (induction p l i out logical n s rule: attempts.induct)
  case (1 p l i out logical n s)
  note run = 1(2) [unfolded attempts.simps [of p l i out logical n s]]
  obtain x s1 where admit: "admit p l i out (attempt_id logical n) s = (x, s1)" by fastforce
  show ?case
  proof (cases x)
    case (Inl e)
    then show ?thesis using run admit 1(3) admit_only [of p l i out _ s e s1 n logical] by auto
  next
    case (Inr u)
    note admitted = admit [unfolded Inr]
    obtain y s2 where perf: "perform p l i out (attempt_id logical n) s1 = (y, s2)" by fastforce
    show ?thesis
    proof (cases "\<exists>f. y = Inr (Inl f) \<and> retryable f \<and> n < 3 \<and> \<not> cp_deadline p (cs_log s2) \<and> \<not> cp_aborted p (cs_log s2)")
      case True
      then obtain f where f: "y = Inr (Inl f)" "retryable f" "n < 3" "\<not> cp_deadline p (cs_log s2)" "\<not> cp_aborted p (cs_log s2)"
        by blast
      then have rest: "attempts p l i out logical (Suc n) s2 = (r, s')" using run admitted perf by simp
      have "attempts_from l logical (Suc n) r s2 s'"
        using 1(1) [OF admitted [symmetric] refl perf [unfolded f(1), symmetric] refl refl] rest f by simp
      then show ?thesis using attempts_from_next [OF _ perf [unfolded f(1)]] admitted by simp
    next
      case False
      then have "s' = s2 \<and> (\<forall>u. r = Inr u \<longrightarrow> y = Inr (Inr u))"
        using run admitted perf by (auto split: sum.splits if_splits)
      then show ?thesis using attempt_once [OF _ perf 1(3)] admitted by simp
    qed
  qed
qed

subsection \<open>All the calls of a run\<close>

text \<open>
  A run makes one logical call after the other; host and provider may answer differently in each.
  Calls that overlap in time take their sequence numbers when they start, as these do.
\<close>

inductive call_step :: "work_item \<Rightarrow> string \<Rightarrow> call_limits \<Rightarrow> call_state \<Rightarrow> call_state \<Rightarrow> bool" for w namespace l where
  "call_step w namespace l s (snd (invoke p l w namespace i out s))"

definition no_calls :: call_state where
  "no_calls = \<lparr>cs_sequence = 0, cs_calls = 0, cs_tokens = 0, cs_cost = 0, cs_log = []\<rparr>"

definition calls_ok :: "work_item \<Rightarrow> string \<Rightarrow> call_limits \<Rightarrow> call_state \<Rightarrow> bool" where
  "calls_ok w namespace l s = (0 \<le> cs_sequence s \<and> recorded (cs_log s) = provided (cs_log s)
     \<and> distinct (provided (cs_log s)) \<and> cs_calls s \<le> max 0 (cl_maxModelCalls l)
     \<and> (\<forall>c \<in> set (provided (cs_log s)). \<exists>k n. 0 \<le> k \<and> k \<le> cs_sequence s \<and> 1 \<le> n
          \<and> c = attempt_id (logical_id w namespace k) n))"

lemma call_step_ok:
  assumes "calls_ok w namespace l s" and "call_step w namespace l s s'"
  shows "calls_ok w namespace l s'"
proof -
  from assms(2) obtain p i out r where "invoke p l w namespace i out s = (r, s')"
    by (cases rule: call_step.cases) (metis prod.collapse)
  then have "attempts p l i out (nextCallId w namespace s) 1 (s\<lparr>cs_sequence := cs_sequence s + 1\<rparr>) = (r, s')"
    by (simp add: invoke_def)
  from attempts_log [OF this] obtain g m where g: "cs_log s' = cs_log s @ g" "recorded g = provided g"
    "provided g = map (attempt_id (logical_id w namespace (cs_sequence s + 1))) [1..<1 + m]"
    "cs_sequence s' = cs_sequence s + 1" "cs_calls s' \<le> max (cs_calls s) (cl_maxModelCalls l)"
    unfolding attempts_from_def nextCallId_def by (auto simp del: upt_Suc)
  have "0 \<le> cs_sequence s" using assms(1) by (simp add: calls_ok_def)
  then have "distinct (provided g)" unfolding g(3)
    using attempt_id_inj [of "cs_sequence s + 1" _ "cs_sequence s + 1"] by (auto simp: distinct_map inj_on_def)
  moreover have "set (provided (cs_log s)) \<inter> set (provided g) = {}"
  proof (rule ccontr)
    assume "set (provided (cs_log s)) \<inter> set (provided g) \<noteq> {}"
    then obtain c where "c \<in> set (provided (cs_log s))" "c \<in> set (provided g)" by blast
    then obtain k n n' where "0 \<le> k" "k \<le> cs_sequence s" "1 \<le> n" "1 \<le> n'"
      "attempt_id (logical_id w namespace k) n = attempt_id (logical_id w namespace (cs_sequence s + 1)) n'"
      using assms(1) unfolding g(3) calls_ok_def by fastforce
    with attempt_id_inj [of k n "cs_sequence s + 1" n' w namespace] show False by simp
  qed
  moreover have "\<exists>k n. 0 \<le> k \<and> k \<le> cs_sequence s' \<and> 1 \<le> n \<and> c = attempt_id (logical_id w namespace k) n"
    if "c \<in> set (provided (cs_log s'))" for c
  proof (cases "c \<in> set (provided g)")
    case True
    then obtain n where "1 \<le> n" "c = attempt_id (logical_id w namespace (cs_sequence s + 1)) n" unfolding g(3) by auto
    then show ?thesis using \<open>0 \<le> cs_sequence s\<close> g(4) by (intro exI [of _ "cs_sequence s + 1"] exI [of _ n]) simp
  next
    case False
    then have "c \<in> set (provided (cs_log s))" using that g(1) by simp
    then obtain k n where "0 \<le> k" "k \<le> cs_sequence s" "1 \<le> n" "c = attempt_id (logical_id w namespace k) n"
      using assms(1) unfolding calls_ok_def by blast
    then show ?thesis using g(4) by (intro exI [of _ k] exI [of _ n]) simp
  qed
  ultimately show ?thesis using assms(1) g by (auto simp: calls_ok_def)
qed

lemma no_calls_ok: "calls_ok w namespace l no_calls"
  by (simp add: calls_ok_def no_calls_def)

interpretation call_run: transition_system "\<lambda>s. s = no_calls" "call_step w namespace l" "calls_ok w namespace l" for w namespace l
  by unfold_locales (auto simp: no_calls_ok intro: call_step_ok)


definition flaky_limits :: call_limits where
  "flaky_limits = DEFAULT_MODEL_BUDGET\<lparr>cl_maxModelCalls := 2\<rparr>"

text \<open>A provider that fails with status 503 first and answers the second attempt.\<close>

definition flaky_port :: call_port where
  "flaky_port = \<lparr>cp_aborted = (\<lambda>g. False), cp_elapsed = (\<lambda>g. 0), cp_reserve = (\<lambda>g. Inr (True, 1000)),
     cp_emit = (\<lambda>g. Inr ()),
     cp_provider = (\<lambda>g. if length g < 4 then Inl (DriverError ''http'' (Some 503))
       else Inr \<lparr>us_available = True, us_inputTokens = 3, us_outputTokens = 4\<rparr>),
     cp_record = (\<lambda>g. Inr ()), cp_deadline = (\<lambda>g. False)\<rparr>"

definition sample_call_item :: work_item where
  "sample_call_item = \<lparr>wi_id = ''w'', wi_fence = 1, wi_homeEpoch = 1, wi_tenantId = ''t'', wi_agentId = ''a'',
     wi_sessionId = ''s'', wi_threadId = None, wi_kind = ''chat'', wi_lane = Interactive, wi_triggerRef = ''r'',
     wi_principalId = None, wi_createdAt = 0, wi_availableAt = 0, wi_attempts = 1, wi_preemptions = 0, wi_meta = None\<rparr>"

lemma show_small: "show_nat (Suc 0) = ''1''" "show_nat (Suc (Suc 0)) = ''2''"
  by code_simp+

lemma flaky_run: "case invoke flaky_port flaky_limits sample_call_item ''model'' 10 20 no_calls of
    (Inr u, s') \<Rightarrow> provided (cs_log s') = [''w:1:model:1'', ''w:1:model:1:retry:2''] | _ \<Rightarrow> False"
  by (simp add: invoke_def attempts.simps admit_def perform_def settle_attempt_def andThen_def logged_def guardE_def flaky_port_def
      flaky_limits_def DEFAULT_MODEL_BUDGET_def no_calls_def exhausted_def call_cost_def ceil_div_def retryable_def
      attempt_id_def nextCallId_def logical_id_def sample_call_item_def provided_def Let_def show_int_def
      show_small)


end
