(* ===== verification/Corrections.thy ===== *)
theory Corrections
  imports Context
begin

text \<open>
  The bound on corrections of one turn loop (runtime/corrections.ts). A failure may be answered with
  another model turn only while the budget allows it; only an observation never seen before refills
  the budget, and volatile parts of an observation (clock texts, ids of the execution) do not make it
  new. \<open>localeCompare\<close> is a parameter: how the host orders property names.
\<close>

subsection \<open>Stable observations\<close>

definition incidental :: "string list" where
  "incidental = [''observedAt'', ''recordedAt'', ''timestamp'', ''durationMs'', ''latencyMs'', ''executionId'',
     ''idempotencyKey'', ''callId'']"

definition word_char :: "char \<Rightarrow> bool" where
  "word_char c = (is_digit c \<or> is_lower c \<or> is_upper c \<or> c = CHR ''_'')"

text \<open>\<open>\b\<close> between a character and the rest of the text.\<close>

definition word_boundary :: "char option \<Rightarrow> string \<Rightarrow> bool" where
  "word_boundary before rest =
     ((case before of None \<Rightarrow> False | Some c \<Rightarrow> word_char c) \<noteq> (case rest of [] \<Rightarrow> False | c # _ \<Rightarrow> word_char c))"

text \<open>A pattern of digits and literal characters; \<open>None\<close> stands for \<open>\d\<close>, \<open>Some cs\<close> for one of \<open>cs\<close>.\<close>

fun match_pattern :: "string option list \<Rightarrow> string \<Rightarrow> string option" where
  "match_pattern [] s = Some s"
| "match_pattern (p # ps) [] = None"
| "match_pattern (p # ps) (c # s) =
     (if (case p of None \<Rightarrow> is_digit c | Some cs \<Rightarrow> c \<in> set cs) then match_pattern ps s else None)"

definition date_time_pattern :: "string option list" where
  "date_time_pattern = [None, None, None, None, Some ''-'', None, None, Some ''-'', None, None, Some ''T '',
     None, None, Some '':'', None, None, Some '':'', None, None]"

definition zone_pattern :: "string option list" where
  "zone_pattern = [Some ''+-'', None, None, Some '':'', None, None]"

text \<open>The fractions \<open>(?:\.\d+)?\<close> may match, longest first, then none.\<close>

definition fraction_rests :: "string \<Rightarrow> string list" where
  "fraction_rests s = (case s of
      [] \<Rightarrow> [s]
    | c # t \<Rightarrow> (if c = CHR ''.'' then map (\<lambda>n. drop n t) (rev [1..<Suc (length (takeWhile is_digit t))]) else []) @ [s])"

text \<open>\<open>(?:Z|[+-]\d\d:\d\d)?\<close>\<close>

definition zone_rests :: "string \<Rightarrow> string list" where
  "zone_rests s = (if s \<noteq> [] \<and> hd s = CHR ''Z'' then [tl s, s]
     else case match_pattern zone_pattern s of Some t \<Rightarrow> [t, s] | None \<Rightarrow> [s])"

text \<open>Every way to end a match that starts here, in the order the engine tries them; the last character
  before the end decides the final \<open>\b\<close>.\<close>

definition time_ends :: "string \<Rightarrow> string list" where
  "time_ends s = (case match_pattern date_time_pattern s of
      None \<Rightarrow> []
    | Some r \<Rightarrow> filter (\<lambda>e. word_boundary (Some (s ! (length s - length e - 1))) e) (concat (map zone_rests (fraction_rests r))))"

lemma match_pattern_shorter: "match_pattern ps s = Some r \<Longrightarrow> length s = length r + length ps"
  by (induction ps s rule: match_pattern.induct) (auto split: if_splits)

lemma zone_rests_length: "e \<in> set (zone_rests s) \<Longrightarrow> length e \<le> length s"
  by (auto simp: zone_rests_def dest: match_pattern_shorter split: if_splits option.splits)

lemma fraction_rests_length: "e \<in> set (fraction_rests s) \<Longrightarrow> length e \<le> length s"
  by (auto simp: fraction_rests_def split: list.splits if_splits)

lemma time_ends_shorter: "e \<in> set (time_ends s) \<Longrightarrow> length e < length s"
proof -
  assume "e \<in> set (time_ends s)"
  then obtain r x where r: "match_pattern date_time_pattern s = Some r" "x \<in> set (fraction_rests r)" "e \<in> set (zone_rests x)"
    by (cases "match_pattern date_time_pattern s") (auto simp: time_ends_def)
  have "length s = length r + 19" using match_pattern_shorter [OF r(1)] by (simp add: date_time_pattern_def)
  with fraction_rests_length [OF r(2)] zone_rests_length [OF r(3)] show ?thesis by simp
qed

text \<open>The global replacement of every match by \<open><time>\<close>.\<close>

function blur_times :: "char option \<Rightarrow> string \<Rightarrow> string" where
  "blur_times before [] = []"
| "blur_times before (c # s) =
     (case (if word_boundary before (c # s) then time_ends (c # s) else []) of
        [] \<Rightarrow> c # blur_times (Some c) s
      | e # _ \<Rightarrow> ''<time>'' @ blur_times (Some (last (take (length (c # s) - length e) (c # s)))) e)"
  by pat_completeness auto
termination
proof (relation "measure (\<lambda>(before, s). length s)", goal_cases)
  case (3 before c s e es)
  then have "e \<in> set (time_ends (c # s))" by (metis list.distinct(1) list.set_intros(1))
  from time_ends_shorter [OF this] show ?case by simp
qed auto

definition revision_key :: "string \<Rightarrow> bool" where
  "revision_key k = (let l = map to_lower k in js_includes l ''revision'' \<or> js_includes l ''version'' \<or> js_includes l ''sha256'')"

fun stableObservation :: "(string \<Rightarrow> string \<Rightarrow> int) \<Rightarrow> json \<Rightarrow> string \<Rightarrow> json" where
  "stableObservation cmp (JArr vs) key = JArr (map (\<lambda>v. stableObservation cmp v []) vs)"
| "stableObservation cmp (JObj kvs) key = JObj (js_sort (\<lambda>a b. cmp (fst a) (fst b))
     (map (\<lambda>(k, v). (k, stableObservation cmp v k)) (filter (\<lambda>(k, v). k \<notin> set incidental) kvs)))"
| "stableObservation cmp (JStr s) key = JStr (if revision_key key then s else blur_times None s)"
| "stableObservation cmp v key = v"

subsection \<open>The budget\<close>

datatype correction_category = ContentAcceptance | ToolProtocol | KernelError | ResponseProtocol

fun category_name :: "correction_category \<Rightarrow> string" where
  "category_name ContentAcceptance = ''content_acceptance''"
| "category_name ToolProtocol = ''tool_protocol''"
| "category_name KernelError = ''kernel_error''"
| "category_name ResponseProtocol = ''response_protocol''"

definition protocol_category :: "correction_category \<Rightarrow> bool" where
  "protocol_category c = (c = ResponseProtocol \<or> c = ToolProtocol)"

record correction_budget =
  cb_last :: string
  cb_count :: nat
  cb_protocolRepairs :: nat
  cb_observations :: "string list"

definition new_budget :: correction_budget where
  "new_budget = \<lparr>cb_last = [], cb_count = 0, cb_protocolRepairs = 0, cb_observations = []\<rparr>"

definition consume :: "(string \<Rightarrow> string) \<Rightarrow> correction_category \<Rightarrow> string \<Rightarrow> correction_budget \<Rightarrow> bool \<times> correction_budget" where
  "consume hash c failure b =
     (let b1 = (if protocol_category c then b\<lparr>cb_protocolRepairs := cb_protocolRepairs b + 1\<rparr> else b)
      in if protocol_category c \<and> cb_protocolRepairs b1 > 2 then (False, b1)
         else (let n = min 6 (cb_count b1 + 1)
               in (n < 3, b1\<lparr>cb_count := n, cb_last := hash (category_name c @ '':'' @ failure)\<rparr>)))"

definition observe :: "(string \<Rightarrow> string) \<Rightarrow> (string \<Rightarrow> string \<Rightarrow> int) \<Rightarrow> json \<Rightarrow> correction_budget \<Rightarrow> correction_budget" where
  "observe hash cmp v b =
     (let key = hash (stringify (stableObservation cmp v []))
      in if key \<in> set (cb_observations b) then b
         else (let obs = cb_observations b @ [key]
               in b\<lparr>cb_observations := (if length obs > 2048 then tl obs else obs), cb_last := [], cb_count := 0\<rparr>))"

definition rediagnose :: "correction_budget \<Rightarrow> bool" where
  "rediagnose b = (cb_count b \<ge> 2)"

definition has_budget :: "correction_category \<Rightarrow> correction_budget \<Rightarrow> bool" where
  "has_budget c b = (cb_count b < 2 \<and> (\<not> protocol_category c \<or> cb_protocolRepairs b < 2))"

text \<open>Only these facts of a value count as progress; \<open>None\<close> is \<open>undefined\<close>.\<close>

definition progress_keys :: "string list" where
  "progress_keys = [''version'', ''revision'', ''sha256'', ''ok'', ''executionState'', ''status'', ''action'']"

definition truthy :: "json option \<Rightarrow> bool" where
  "truthy v = (case v of None \<Rightarrow> False | Some JNull \<Rightarrow> False | Some (JBool b) \<Rightarrow> b | Some (JNum i) \<Rightarrow> i \<noteq> 0
     | Some (JStr s) \<Rightarrow> s \<noteq> [] | _ \<Rightarrow> True)"

definition has_facts :: "json \<Rightarrow> bool" where
  "has_facts v = (case v of JArr vs \<Rightarrow> list_ex (\<lambda>x. truthy (Some x)) vs | JObj kvs \<Rightarrow> kvs \<noteq> [] | _ \<Rightarrow> False)"

fun progressFacts :: "json \<Rightarrow> json option" where
  "progressFacts (JArr vs) = Some (JArr (map (\<lambda>v. case progressFacts v of None \<Rightarrow> JNull | Some x \<Rightarrow> x) vs))"
| "progressFacts (JObj kvs) = Some (JObj (concat (map (\<lambda>(k, v).
     if k \<in> set progress_keys then [(k, v)]
     else (case progressFacts v of None \<Rightarrow> [] | Some n \<Rightarrow> if has_facts n then [(k, n)] else [])) kvs)))"
| "progressFacts v = None"

subsection \<open>Corrections are bounded\<close>

datatype correction_event = Correct correction_category string | Observe json

text \<open>One event of the turn loop and whether it was a correction the budget allowed.\<close>

fun correction_step :: "(string \<Rightarrow> string) \<Rightarrow> (string \<Rightarrow> string \<Rightarrow> int) \<Rightarrow> correction_event
    \<Rightarrow> correction_budget \<Rightarrow> bool \<times> correction_budget" where
  "correction_step hash cmp (Correct c f) b = consume hash c f b"
| "correction_step hash cmp (Observe v) b = (False, observe hash cmp v b)"

text \<open>Allowed corrections, allowed protocol corrections and observations that were new.\<close>

fun tally :: "(string \<Rightarrow> string) \<Rightarrow> (string \<Rightarrow> string \<Rightarrow> int) \<Rightarrow> correction_event list \<Rightarrow> correction_budget \<Rightarrow> nat \<times> nat \<times> nat" where
  "tally hash cmp [] b = (0, 0, 0)"
| "tally hash cmp (e # es) b =
     (let (ok, b') = correction_step hash cmp e b; (n, p, f) = tally hash cmp es b'
      in (if ok then Suc n else n,
          if ok \<and> (case e of Correct c _ \<Rightarrow> protocol_category c | _ \<Rightarrow> False) then Suc p else p,
          if (case e of Observe v \<Rightarrow> b' \<noteq> b | _ \<Rightarrow> False) then Suc f else f))"

lemma observe_cases: "observe hash cmp v b = b \<or> cb_count (observe hash cmp v b) = 0
    \<and> cb_protocolRepairs (observe hash cmp v b) = cb_protocolRepairs b"
  by (auto simp: observe_def Let_def)

lemma tally_bound: "tally hash cmp es b = (n, p, f) \<Longrightarrow>
    n \<le> 2 * f + (2 - cb_count b) \<and> p \<le> 2 - cb_protocolRepairs b"
proof (induction es arbitrary: b n p f)
  case (Cons e es)
  obtain ok b' where step: "correction_step hash cmp e b = (ok, b')" by fastforce
  obtain n' p' f' where rest: "tally hash cmp es b' = (n', p', f')" by (metis prod_cases3)
  from Cons.IH [OF rest] have IH: "n' \<le> 2 * f' + (2 - cb_count b')" "p' \<le> 2 - cb_protocolRepairs b'" by auto
  show ?case
  proof (cases e)
    case (Correct c x)
    then show ?thesis using Cons.prems step rest IH
      by (auto simp: consume_def Let_def split: if_splits)
  next
    case (Observe v)
    then show ?thesis using Cons.prems step rest IH observe_cases [of hash cmp v b] by (auto split: if_splits)
  qed
qed simp

lemma tally_observations:
  "snd (snd (tally hash cmp es b)) \<le> length (filter (\<lambda>e. case e of Observe _ \<Rightarrow> True | _ \<Rightarrow> False) es)"
proof (induction es arbitrary: b)
  case (Cons e es)
  obtain ok b' where step: "correction_step hash cmp e b = (ok, b')" by fastforce
  obtain n p f where rest: "tally hash cmp es b' = (n, p, f)" by (metis prod_cases3)
  from Cons.IH [of b'] rest step show ?case by (cases e) auto
qed simp

text \<open>Corrections end. Whatever fails and whatever is observed, a budget allows at most two
  corrections for every observation it has never seen, two more at the start, and never more than two
  corrections of protocol errors in its lifetime; an observation that is still remembered does not count.\<close>

theorem corrections_bounded:
  "case tally hash cmp es new_budget of (n, p, f) \<Rightarrow>
     n \<le> 2 * (f + 1) \<and> p \<le> 2 \<and> f \<le> length (filter (\<lambda>e. case e of Observe _ \<Rightarrow> True | _ \<Rightarrow> False) es)"
proof -
  obtain n p f where t: "tally hash cmp es new_budget = (n, p, f)" by (metis prod_cases3)
  from tally_bound [OF t] tally_observations [of hash cmp es new_budget] show ?thesis unfolding t by (simp add: new_budget_def)
qed

end
