(* ===== verification/BodyParser.thy ===== *)
theory BodyParser
  imports JsonParse "HOL-Library.Word"
begin

text \<open>
  model/preview.ts: the incremental reader that lets only the \<open>body\<close> of a streamed JSON candidate be
  shown before the candidate is complete. Text is a list of UTF-16 code units, as JavaScript strings
  are, because chunks may split surrogate pairs. The lemmas show that the result does not depend on
  the chunks, and that a serialised candidate yields its body.
\<close>

type_synonym code_units = "16 word list"

definition units :: "string \<Rightarrow> code_units" where
  "units s = map of_char s"

definition high_surrogate :: "16 word \<Rightarrow> bool" where
  "high_surrogate u = (0xD800 \<le> u \<and> u \<le> 0xDBFF)"

definition low_surrogate :: "16 word \<Rightarrow> bool" where
  "low_surrogate u = (0xDC00 \<le> u \<and> u \<le> 0xDFFF)"

text \<open>\<open>for (const char of text)\<close>: a surrogate pair is one item, an unpaired surrogate another.\<close>

fun code_points :: "code_units \<Rightarrow> code_units list" where
  "code_points [] = []"
| "code_points [u] = [[u]]"
| "code_points (u # v # r) =
     (if high_surrogate u \<and> low_surrogate v then [u, v] # code_points r else [u] # code_points (v # r))"

text \<open>\<open>/\s/\<close>\<close>

definition space_unit :: "16 word \<Rightarrow> bool" where
  "space_unit u = (u \<in> {9, 10, 11, 12, 13, 32, 0xA0, 0x1680, 0x2028, 0x2029, 0x202F, 0x205F, 0x3000, 0xFEFF}
     \<or> 0x2000 \<le> u \<and> u \<le> 0x200A)"

definition space_point :: "code_units \<Rightarrow> bool" where
  "space_point c = (case c of [u] \<Rightarrow> space_unit u | _ \<Rightarrow> False)"

subsection \<open>Tokens\<close>

text \<open>
  \<open>JSON.parse\<close> of a token. The parser of the library works on code units below 256, so a larger unit is
  read as U+00FF, and so is an escape of one. Neither makes a valid token invalid or an invalid one valid,
  because a unit above 255 is only allowed inside a string, where any is; and no key the parser
  knows contains one.
\<close>

definition narrow :: "16 word \<Rightarrow> char" where
  "narrow u = (if u < 256 then char_of (unat u) else CHR 0xFF)"

fun narrow_escapes :: "string \<Rightarrow> string" where
  "narrow_escapes [] = []"
| "narrow_escapes [c] = [c]"
| "narrow_escapes (c # d # r) =
     (if c \<noteq> CHR 0x5C then c # narrow_escapes (d # r)
      else case r of
          a # b # x # y # r' \<Rightarrow>
            if d = CHR ''u'' \<and> hex_char a \<and> hex_char b \<and> \<not> (a = CHR ''0'' \<and> b = CHR ''0'') \<and> hex_char x \<and> hex_char y
            then CHR 0x5C # ''u00ff'' @ narrow_escapes r' else c # d # narrow_escapes r
        | _ \<Rightarrow> c # d # narrow_escapes r)"

definition parse_token :: "code_units \<Rightarrow> json option" where
  "parse_token t = json_parse (narrow_escapes (map narrow t))"

definition hex4 :: "code_units \<Rightarrow> 16 word option" where
  "hex4 t = (let s = map narrow t in
     if length s = 4 \<and> list_all hex_char s then Some (of_nat (foldl (\<lambda>n c. 16 * n + hex_any c) 0 s)) else None)"

text \<open>\<open>JSON.parse\<close> of one escape between quotation marks.\<close>

definition unescape :: "code_units \<Rightarrow> 16 word option" where
  "unescape e = (case e of
      b # k # r \<Rightarrow>
        if b \<noteq> of_char (CHR 0x5C) \<or> 256 \<le> k then None
        else if narrow k = CHR ''u'' then hex4 r
        else if r \<noteq> [] then None
        else (case map_of escapes (narrow k) of None \<Rightarrow> None | Some c \<Rightarrow> Some (of_char c))
    | _ \<Rightarrow> None)"

subsection \<open>The parser\<close>

datatype body_state = BStart | BKey | BColon | BValue | BBody | BSkip | BSeparator | BDone | BInvalid

record body_parser =
  bp_state :: body_state
  bp_token :: code_units
  bp_key :: string
  bp_quoted :: bool
  bp_escaped :: bool
  bp_depth :: int
  bp_size :: nat
  bp_keys :: "string list"
  bp_escape :: code_units
  bp_high :: code_units

definition new_parser :: body_parser where
  "new_parser = \<lparr>bp_state = BStart, bp_token = [], bp_key = [], bp_quoted = False, bp_escaped = False, bp_depth = 0,
     bp_size = 0, bp_keys = [], bp_escape = [], bp_high = []\<rparr>"

definition candidate_keys :: "string list" where
  "candidate_keys = [''body'', ''status'', ''checks'', ''gaps'', ''taskRef'']"

definition parser_invalid :: "body_parser \<Rightarrow> bool" where
  "parser_invalid p = (bp_state p = BInvalid)"

definition parser_complete :: "body_parser \<Rightarrow> bool" where
  "parser_complete p = (bp_state p = BDone \<and> ''body'' \<in> set (bp_keys p))"

text \<open>\<open>append\<close>: a high surrogate waits for the unit that follows it.\<close>

definition append_point :: "code_units \<Rightarrow> body_parser \<times> code_units \<Rightarrow> body_parser \<times> code_units" where
  "append_point c = (\<lambda>(p, out).
     if bp_high p \<noteq> [] then (p\<lparr>bp_high := []\<rparr>, out @ bp_high p @ c)
     else if length c = 1 \<and> high_surrogate (hd c) then (p\<lparr>bp_high := c\<rparr>, out)
     else (p, out @ c))"

definition append_text :: "code_units \<Rightarrow> body_parser \<times> code_units \<Rightarrow> body_parser \<times> code_units" where
  "append_text t po = fold append_point (code_points t) po"

definition is_char :: "code_units \<Rightarrow> char \<Rightarrow> bool" where
  "is_char c k = (c = [of_char k])"

text \<open>The three states that collect text, then the others; \<open>None\<close> is a throw.\<close>

definition body_char :: "code_units \<Rightarrow> body_parser \<times> code_units \<Rightarrow> (body_parser \<times> code_units) option" where
  "body_char c = (\<lambda>(p, out).
     if bp_escape p \<noteq> [] then
       (let e = bp_escape p @ c in
        if e = units [CHR 0x5C, CHR ''u''] \<or> take 2 e = units [CHR 0x5C, CHR ''u''] \<and> length e < 6
        then Some (p\<lparr>bp_escape := e\<rparr>, out)
        else case unescape e of None \<Rightarrow> None
          | Some u \<Rightarrow> (case append_text [u] (p, out) of (p', out') \<Rightarrow> Some (p'\<lparr>bp_escape := []\<rparr>, out')))
     else if is_char c (CHR 0x5C) then Some (p\<lparr>bp_escape := c\<rparr>, out)
     else if is_char c (CHR 0x22) then (if bp_high p \<noteq> [] then None else Some (p\<lparr>bp_state := BSeparator\<rparr>, out))
     else if hd c < 32 then None
     else Some (append_text c (p, out)))"

definition key_char :: "code_units \<Rightarrow> body_parser \<Rightarrow> body_parser option" where
  "key_char c p =
     (let t = bp_token p @ c; p1 = p\<lparr>bp_token := t\<rparr> in
      if bp_token p = [] \<and> space_point c then Some p
      else if bp_token p = [] \<and> \<not> is_char c (CHR 0x22) then None
      else if length t = 1 then Some p1
      else if bp_escaped p then Some (p1\<lparr>bp_escaped := False\<rparr>)
      else if is_char c (CHR 0x5C) then Some (p1\<lparr>bp_escaped := True\<rparr>)
      else if \<not> is_char c (CHR 0x22) then Some p1
      else case parse_token t of
          Some (JStr k) \<Rightarrow> if k \<notin> set candidate_keys \<or> k \<in> set (bp_keys p) then None
            else Some (p\<lparr>bp_key := k, bp_keys := bp_keys p @ [k], bp_token := [], bp_state := BColon\<rparr>)
        | _ \<Rightarrow> None)"

definition opens :: "code_units \<Rightarrow> bool" where
  "opens c = (is_char c (CHR 0x7B) \<or> is_char c (CHR ''[''))"

definition closes :: "code_units \<Rightarrow> bool" where
  "closes c = (is_char c (CHR 0x7D) \<or> is_char c (CHR '']''))"

definition skip_char :: "code_units \<Rightarrow> body_parser \<Rightarrow> body_parser option" where
  "skip_char c p =
     (if \<not> bp_quoted p \<and> bp_depth p = 0 \<and> (is_char c (CHR '','') \<or> is_char c (CHR 0x7D))
      then (if parse_token (bp_token p) = None then None
            else Some (p\<lparr>bp_token := [], bp_state := if is_char c (CHR '','') then BKey else BDone\<rparr>))
      else let p1 = p\<lparr>bp_token := bp_token p @ c\<rparr>;
             p2 = (if bp_quoted p then
                 (if bp_escaped p then p1\<lparr>bp_escaped := False\<rparr>
                  else if is_char c (CHR 0x5C) then p1\<lparr>bp_escaped := True\<rparr>
                  else if is_char c (CHR 0x22) then p1\<lparr>bp_quoted := False\<rparr> else p1)
               else if is_char c (CHR 0x22) then p1\<lparr>bp_quoted := True\<rparr>
               else if opens c then p1\<lparr>bp_depth := bp_depth p + 1\<rparr>
               else if closes c then p1\<lparr>bp_depth := bp_depth p - 1\<rparr>
               else p1)
           in if bp_depth p2 < 0 then None else Some p2)"

definition other_char :: "code_units \<Rightarrow> body_parser \<Rightarrow> body_parser option" where
  "other_char c p =
     (if space_point c then Some p
      else if bp_state p = BStart \<and> is_char c (CHR 0x7B) then Some (p\<lparr>bp_state := BKey\<rparr>)
      else if bp_state p = BColon \<and> is_char c (CHR '':'') then Some (p\<lparr>bp_state := BValue\<rparr>)
      else if bp_state p = BValue then
        (if bp_key p = ''body'' then (if is_char c (CHR 0x22) then Some (p\<lparr>bp_state := BBody\<rparr>) else None)
         else Some (p\<lparr>bp_token := c, bp_quoted := is_char c (CHR 0x22), bp_depth := if opens c then 1 else 0,
           bp_state := BSkip\<rparr>))
      else if bp_state p = BSeparator \<and> is_char c (CHR '','') then Some (p\<lparr>bp_state := BKey\<rparr>)
      else if bp_state p = BSeparator \<and> is_char c (CHR 0x7D) then Some (p\<lparr>bp_state := BDone\<rparr>)
      else None)"

definition body_step :: "code_units \<Rightarrow> body_parser \<times> code_units \<Rightarrow> (body_parser \<times> code_units) option" where
  "body_step c = (\<lambda>(p, out).
     case bp_state p of
       BInvalid \<Rightarrow> Some (p, out)
     | BBody \<Rightarrow> body_char c (p, out)
     | BKey \<Rightarrow> map_option (\<lambda>q. (q, out)) (key_char c p)
     | BSkip \<Rightarrow> map_option (\<lambda>q. (q, out)) (skip_char c p)
     | _ \<Rightarrow> map_option (\<lambda>q. (q, out)) (other_char c p))"

fun body_run :: "code_units list \<Rightarrow> body_parser \<times> code_units \<Rightarrow> (body_parser \<times> code_units) option" where
  "body_run [] po = Some po"
| "body_run (c # cs) po = (case body_step c po of None \<Rightarrow> None | Some po' \<Rightarrow> body_run cs po')"

text \<open>\<open>push\<close>. After a throw only the state is read again; the other fields keep their values here.\<close>

definition push_chunk :: "code_units \<Rightarrow> body_parser \<Rightarrow> body_parser \<times> code_units" where
  "push_chunk t p =
     (let p1 = p\<lparr>bp_size := bp_size p + length t\<rparr> in
      if bp_size p1 > 256000 then (p1\<lparr>bp_state := BInvalid\<rparr>, [])
      else case body_run (code_points t) (p1, []) of
          None \<Rightarrow> (p1\<lparr>bp_state := BInvalid\<rparr>, [])
        | Some po \<Rightarrow> po)"

fun push_chunks :: "code_units list \<Rightarrow> body_parser \<Rightarrow> body_parser \<times> code_units" where
  "push_chunks [] p = (p, [])"
| "push_chunks (t # ts) p = (case push_chunk t p of (p1, o1) \<Rightarrow> case push_chunks ts p1 of (p2, o2) \<Rightarrow> (p2, o1 @ o2))"

subsection \<open>Code units\<close>

lemma of_char_word: "(of_char k :: 16 word) = of_nat (of_char k)"
  by (simp add: of_nat_of_char)

lemma of_char_unat: "unat (of_char k :: 16 word) = (of_char k :: nat)"
proof -
  have "(of_char k :: nat) < 2 ^ LENGTH(16)" using nat_of_char_less_256 [of k] by (simp del: nat_of_char_less_256)
  then show ?thesis unfolding of_char_word unat_of_nat by (rule mod_less)
qed

lemma of_char_small: "(of_char k :: 16 word) < 256"
  by (simp add: word_less_nat_alt of_char_unat)

lemma of_char_word_inj [simp]: "(of_char k :: 16 word) = of_char k' \<longleftrightarrow> k = k'"
  by (metis of_char_unat of_char_eq_iff)

lemma narrow_of_char [simp]: "narrow (of_char k) = k"
  by (simp add: narrow_def of_char_small of_char_unat)

lemma narrow_units: "map narrow (units s) = s"
  by (simp add: units_def map_idI)

lemma surrogate_large: "high_surrogate u \<or> low_surrogate u \<Longrightarrow> 256 \<le> u"
  unfolding high_surrogate_def low_surrogate_def word_le_nat_alt by auto

lemma surrogate_no_char: "high_surrogate u \<or> low_surrogate u \<Longrightarrow> u \<noteq> of_char k"
  using surrogate_large of_char_small [of k] by (metis not_le)

lemma char_no_surrogate: "\<not> high_surrogate (of_char k)"
  using surrogate_no_char by blast

lemma surrogate_no_space: "high_surrogate u \<or> low_surrogate u \<Longrightarrow> \<not> space_unit u"
  unfolding high_surrogate_def low_surrogate_def space_unit_def word_le_nat_alt by auto

lemma low_not_high: "low_surrogate u \<Longrightarrow> \<not> high_surrogate u"
  unfolding high_surrogate_def low_surrogate_def word_le_nat_alt by auto

lemma surrogate_no_hex: "high_surrogate u \<or> low_surrogate u \<Longrightarrow> \<not> hex_char (narrow u)"
  using surrogate_large [of u] by (simp add: narrow_def hex_char_def not_less)

lemma surrogate_not_control: "high_surrogate u \<Longrightarrow> \<not> u < 32"
  using surrogate_large [of u] by (simp add: word_le_nat_alt word_less_nat_alt)

subsection \<open>Chunks do not matter\<close>

text \<open>A surrogate pair is read like its two units one after the other.\<close>

lemma is_char_pair [simp]:
  "high_surrogate u \<Longrightarrow> \<not> is_char [u] k" "low_surrogate u \<Longrightarrow> \<not> is_char [u] k" "\<not> is_char [u, v] k"
  "is_char [of_char a] k \<longleftrightarrow> a = k"
  using surrogate_no_char by (auto simp: is_char_def simp del: of_char_Char)

lemma body_char_pair:
  assumes h: "high_surrogate u" and l: "low_surrogate v"
  shows "body_char [u, v] po = Option.bind (body_char [u] po) (body_char [v])"
proof -
  obtain p out where po: "po = (p, out)" by fastforce
  define bu where "bu = units [CHR 0x5C, CHR ''u'']"
  have large: "256 \<le> u" "256 \<le> v" using h l surrogate_large by auto
  have small: "u \<notin> set bu" "v \<notin> set bu" "length bu = 2"
    using surrogate_no_char h l by (auto simp: units_def bu_def simp del: of_char_Char)
  show ?thesis
  proof (cases "bp_escape p")
    case Nil
    have c: "code_points [u] = [[u]]" "code_points [v] = [[v]]" "code_points [u, v] = [[u, v]]" using h l by auto
    have "\<not> u < 32" "\<not> v < 32" using large by (simp_all add: word_le_nat_alt word_less_nat_alt)
    then show ?thesis using Nil h l low_not_high [OF l] unfolding po
      by (auto simp: body_char_def append_text_def append_point_def c)
  next
    case (Cons e es)
    have hex: "\<not> hex_char (narrow u)" "\<not> hex_char (narrow v)" using h l surrogate_no_hex by auto
    have no: "hex4 (r @ [u, v]) = None" "hex4 (r @ [u]) = None" for r using hex by (auto simp: hex4_def Let_def)
    have un: "unescape (e # es @ [u, v]) = None" "unescape (e # es @ [u]) = None"
      using large no by (cases es; auto simp: unescape_def not_less)+
    have neq: "e # es @ [u, v] \<noteq> bu" "e # es @ [u] \<noteq> bu" using small by auto
    have run: "body_char c (q, out') = (let e = bp_escape q @ c in
        if e = bu \<or> take 2 e = bu \<and> length e < 6 then Some (q\<lparr>bp_escape := e\<rparr>, out')
        else case unescape e of None \<Rightarrow> None
          | Some u \<Rightarrow> (case append_text [u] (q, out') of (p', out'') \<Rightarrow> Some (p'\<lparr>bp_escape := []\<rparr>, out'')))"
      if "bp_escape q \<noteq> []" for c q out' using that by (simp add: body_char_def bu_def)
    show ?thesis
    proof (cases "take 2 (e # es @ [u]) = bu \<and> length (e # es @ [u]) < 6")
      case True
      then have es: "es \<noteq> []" using small by auto
      then have t: "take 2 (e # es @ [u, v]) = bu" using True by (cases es) auto
      show ?thesis using True t neq un unfolding po by (auto simp: run Cons Let_def)
    next
      case False
      then have "\<not> (take 2 (e # es @ [u, v]) = bu \<and> length (e # es @ [u, v]) < 6)"
        using small by (cases es) auto
      then show ?thesis using False neq un unfolding po by (auto simp: run Cons Let_def)
    qed
  qed
qed

lemma key_char_pair:
  assumes h: "high_surrogate u" and l: "low_surrogate v"
  shows "key_char [u, v] p = Option.bind (key_char [u] p) (key_char [v])"
  using h l surrogate_no_space [of u] by (auto simp: key_char_def Let_def space_point_def)

lemma skip_char_pair:
  assumes h: "high_surrogate u" and l: "low_surrogate v"
  shows "skip_char [u, v] p = Option.bind (skip_char [u] p) (skip_char [v])"
  using h l by (auto simp: skip_char_def Let_def opens_def closes_def)

lemma other_char_pair:
  assumes h: "high_surrogate u" and l: "low_surrogate v"
  shows "other_char [u, v] p = Option.bind (other_char [u] p) (\<lambda>q. if bp_state q = BSkip then skip_char [v] q else None)"
    "other_char [u] p = Some q \<Longrightarrow> bp_state q = BSkip"
  using h l surrogate_no_space [of u]
  by (auto simp: other_char_def skip_char_def Let_def opens_def closes_def space_point_def split: if_splits)

lemma key_char_state: "key_char c p = Some q \<Longrightarrow> bp_state p = BKey \<Longrightarrow> bp_state q = BKey \<or> is_char c (CHR 0x22)"
  by (auto simp: key_char_def Let_def split: if_splits option.splits json.splits)

lemma skip_char_state: "skip_char c p = Some q \<Longrightarrow> bp_state p = BSkip
    \<Longrightarrow> bp_state q = BSkip \<or> is_char c (CHR '','') \<or> is_char c (CHR 0x7D)"
  by (auto simp: skip_char_def Let_def split: if_splits)

lemma body_char_state: "body_char c (p, out) = Some (q, out') \<Longrightarrow> bp_state p = BBody
    \<Longrightarrow> bp_state q = BBody \<or> is_char c (CHR 0x22)"
proof -
  have "bp_state (fst (fold append_point cs po)) = bp_state (fst po)" for cs po
    by (induction cs arbitrary: po) (auto simp: append_point_def split: prod.splits)
  then have t: "bp_state (fst (append_text t po)) = bp_state (fst po)" for t po by (simp add: append_text_def)
  assume "body_char c (p, out) = Some (q, out')" "bp_state p = BBody"
  then show ?thesis using t [of _ "(p, out)"]
    by (auto simp: body_char_def Let_def split: if_splits option.splits prod.splits) (metis fst_conv)+
qed

lemma body_step_pair:
  assumes h: "high_surrogate u" and l: "low_surrogate v"
  shows "body_step [u, v] po = Option.bind (body_step [u] po) (body_step [v])"
proof -
  obtain p out where po: "po = (p, out)" by fastforce
  show ?thesis
  proof (cases "bp_state p")
    case BBody
    have "body_step [v] qo = body_char [v] qo" if "body_char [u] (p, out) = Some qo" for qo
      using body_char_state [of "[u]" p out] that BBody h by (cases qo) (auto simp: body_step_def)
    then show ?thesis unfolding po using BBody body_char_pair [OF h l, of "(p, out)"]
      by (cases "body_char [u] (p, out)") (auto simp: body_step_def)
  next
    case BKey
    have "bp_state q = BKey" if "key_char [u] p = Some q" for q using key_char_state [OF that BKey] h by simp
    then show ?thesis unfolding po using BKey key_char_pair [OF h l, of p]
      by (cases "key_char [u] p") (auto simp: body_step_def)
  next
    case BSkip
    have "bp_state q = BSkip" if "skip_char [u] p = Some q" for q using skip_char_state [OF that BSkip] h by simp
    then show ?thesis unfolding po using BSkip skip_char_pair [OF h l, of p]
      by (cases "skip_char [u] p") (auto simp: body_step_def)
  qed (use other_char_pair [OF h l, of p] po in
      \<open>cases "other_char [u] p"; auto simp: body_step_def\<close>)+
qed

text \<open>So the whole run can be read unit by unit, and runs compose.\<close>

lemma body_run_append: "body_run (cs @ ds) po = Option.bind (body_run cs po) (body_run ds)"
  by (induction cs arbitrary: po) (auto split: option.splits)

lemma body_run_units: "body_run (code_points t) po = body_run (map (\<lambda>u. [u]) t) po"
proof (induction t arbitrary: po rule: code_points.induct)
  case (3 u v r)
  then show ?case
  proof (cases "high_surrogate u \<and> low_surrogate v")
    case True
    then have "body_step [u, v] po = Option.bind (body_step [u] po) (body_step [v])" by (intro body_step_pair) auto
    then show ?thesis using True 3 by (cases "body_step [u] po") (auto split: option.splits)
  qed (auto split: option.splits)
qed auto

text \<open>The size and the text already shown do not influence the run.\<close>

definition shift :: "nat \<Rightarrow> code_units \<Rightarrow> body_parser \<times> code_units \<Rightarrow> body_parser \<times> code_units" where
  "shift n o1 = (\<lambda>(p, out). (p\<lparr>bp_size := n\<rparr>, o1 @ out))"

lemma size_last:
  "p\<lparr>bp_size := n, bp_state := x0\<rparr> = p\<lparr>bp_state := x0, bp_size := n\<rparr>"
  "p\<lparr>bp_size := n, bp_token := x1\<rparr> = p\<lparr>bp_token := x1, bp_size := n\<rparr>"
  "p\<lparr>bp_size := n, bp_key := x2\<rparr> = p\<lparr>bp_key := x2, bp_size := n\<rparr>"
  "p\<lparr>bp_size := n, bp_quoted := x3\<rparr> = p\<lparr>bp_quoted := x3, bp_size := n\<rparr>"
  "p\<lparr>bp_size := n, bp_escaped := x4\<rparr> = p\<lparr>bp_escaped := x4, bp_size := n\<rparr>"
  "p\<lparr>bp_size := n, bp_depth := x5\<rparr> = p\<lparr>bp_depth := x5, bp_size := n\<rparr>"
  "p\<lparr>bp_size := n, bp_keys := x6\<rparr> = p\<lparr>bp_keys := x6, bp_size := n\<rparr>"
  "p\<lparr>bp_size := n, bp_escape := x7\<rparr> = p\<lparr>bp_escape := x7, bp_size := n\<rparr>"
  "p\<lparr>bp_size := n, bp_high := x8\<rparr> = p\<lparr>bp_high := x8, bp_size := n\<rparr>"
  by (cases p; simp)+

lemma append_point_shift: "append_point c (shift n o1 po) = shift n o1 (append_point c po)"
  by (cases po) (auto simp: append_point_def shift_def size_last)

lemma append_text_shift: "append_text t (shift n o1 po) = shift n o1 (append_text t po)"
proof -
  have "fold append_point cs (shift n o1 po) = shift n o1 (fold append_point cs po)" for cs
    by (induction cs arbitrary: po) (simp_all add: append_point_shift)
  then show ?thesis by (simp add: append_text_def)
qed

lemma body_char_shift: "body_char c (shift n o1 po) = map_option (shift n o1) (body_char c po)"
proof -
  obtain p out where po: "po = (p, out)" by fastforce
  have s: "append_text t (p\<lparr>bp_size := n\<rparr>, o1 @ out)
      = (case append_text t (p, out) of (q, o2) \<Rightarrow> (q\<lparr>bp_size := n\<rparr>, o1 @ o2))" for t
    using append_text_shift [of t n o1 "(p, out)"] by (simp add: shift_def)
  show ?thesis unfolding po shift_def
    by (auto simp: body_char_def Let_def s size_last split: option.splits prod.splits)
qed

lemma key_char_shift: "key_char c (p\<lparr>bp_size := n\<rparr>) = map_option (\<lambda>q. q\<lparr>bp_size := n\<rparr>) (key_char c p)"
  by (simp add: key_char_def Let_def size_last split: option.split json.split)

lemma skip_char_shift: "skip_char c (p\<lparr>bp_size := n\<rparr>) = map_option (\<lambda>q. q\<lparr>bp_size := n\<rparr>) (skip_char c p)"
  by (auto simp: skip_char_def Let_def size_last)

lemma other_char_shift: "other_char c (p\<lparr>bp_size := n\<rparr>) = map_option (\<lambda>q. q\<lparr>bp_size := n\<rparr>) (other_char c p)"
  by (simp add: other_char_def size_last)

lemma body_step_shift: "body_step c (shift n o1 po) = map_option (shift n o1) (body_step c po)"
  using body_char_shift [of c n o1 po]
  by (cases po) (auto simp: body_step_def shift_def key_char_shift skip_char_shift other_char_shift
      option.map_comp comp_def split: body_state.split)

lemma body_run_shift: "body_run cs (shift n o1 po) = map_option (shift n o1) (body_run cs po)"
  by (induction cs arbitrary: po) (auto simp: body_step_shift split: option.splits)

lemma body_run_size:
  assumes "body_run cs (p, out) = Some (q, out')" shows "bp_size q = bp_size p"
proof -
  have "shift (bp_size p) [] (p, out) = (p, out)" by (simp add: shift_def)
  then have "Some (q, out') = Some (shift (bp_size p) [] (q, out'))"
    using body_run_shift [of cs "bp_size p" "[]" "(p, out)"] assms by simp
  then have "q = q\<lparr>bp_size := bp_size p\<rparr>" unfolding shift_def by simp
  then have "bp_size q = bp_size (q\<lparr>bp_size := bp_size p\<rparr>)" by (rule arg_cong)
  then show ?thesis by simp
qed

lemma invalid_run: "bp_state p = BInvalid \<Longrightarrow> body_run cs (p, out) = Some (p, out)"
  by (induction cs) (simp_all add: body_step_def)

lemma invalid_push: "bp_state p = BInvalid \<Longrightarrow> bp_state (fst (push_chunk t p)) = BInvalid"
  by (auto simp: push_chunk_def Let_def invalid_run)

lemma invalid_pushes: "bp_state p = BInvalid \<Longrightarrow> bp_state (fst (push_chunks ts p)) = BInvalid"
proof (induction ts arbitrary: p)
  case (Cons t ts)
  obtain q oq where t: "push_chunk t p = (q, oq)" by fastforce
  obtain r o2 where r: "push_chunks ts q = (r, o2)" by fastforce
  have "bp_state q = BInvalid" using invalid_push [OF Cons.prems, of t] t by simp
  then have "bp_state r = BInvalid" using Cons.IH [of q] r by simp
  with t r show ?case by simp
qed simp

lemma push_append:
  assumes "bp_size p \<le> 256000" and "push_chunk t p = (p1, o1)" and "push_chunk (t @ r) p = (q, out)"
  shows "(bp_state p1 = BInvalid \<and> bp_state q = BInvalid)
    \<or> bp_size p1 \<le> 256000 \<and> (\<exists>q' o2. push_chunk r p1 = (q', o2) \<and>
        (bp_state q = BInvalid \<and> bp_state q' = BInvalid \<or> q = q' \<and> out = o1 @ o2))"
proof (cases "bp_size p + length t > 256000")
  case True
  then show ?thesis using assms by (auto simp: push_chunk_def Let_def)
next
  case small: False
  let ?u = "map (\<lambda>u. [u]) :: code_units \<Rightarrow> code_units list"
  let ?n = "bp_size p + length t + length r"
  show ?thesis
  proof (cases "body_run (?u t) (p\<lparr>bp_size := bp_size p + length t\<rparr>, [])")
    case None
    then have "body_run (?u t) (p\<lparr>bp_size := ?n\<rparr>, []) = None"
      using body_run_shift [of "?u t" ?n "[]" "(p\<lparr>bp_size := bp_size p + length t\<rparr>, [])"] by (simp add: shift_def)
    then show ?thesis using None small assms(2,3)
      by (auto simp: push_chunk_def Let_def body_run_units body_run_append add.assoc split: if_splits)
  next
    case (Some po)
    then have po: "po = (p1, o1)" using assms(2) small by (simp add: push_chunk_def Let_def body_run_units)
    have size: "bp_size p1 = bp_size p + length t" using body_run_size Some unfolding po by fastforce
    have "body_run (?u t) (p\<lparr>bp_size := ?n\<rparr>, []) = Some (shift ?n [] (p1, o1))"
      using body_run_shift [of "?u t" ?n "[]" "(p\<lparr>bp_size := bp_size p + length t\<rparr>, [])"] Some
      by (simp add: shift_def po)
    then have whole: "body_run (?u (t @ r)) (p\<lparr>bp_size := ?n\<rparr>, [])
        = map_option (shift ?n o1) (body_run (?u r) (p1\<lparr>bp_size := ?n\<rparr>, []))"
      using body_run_shift [of "?u r" ?n o1 "(p1\<lparr>bp_size := ?n\<rparr>, [])"] by (simp add: body_run_append shift_def)
    show ?thesis
    proof (cases "body_run (?u r) (p1\<lparr>bp_size := ?n\<rparr>, [])")
      case None
      then show ?thesis using whole small assms(3) size
        by (auto simp: push_chunk_def Let_def body_run_units add.assoc split: if_splits)
    next
      case (Some qo)
      obtain q' o2 where qo: "qo = (q', o2)" by fastforce
      have "bp_size q' = ?n" using body_run_size Some unfolding qo by fastforce
      then have "shift ?n o1 qo = (q', o1 @ o2)" unfolding qo shift_def by simp
      then show ?thesis using whole small assms(3) size Some qo
        by (auto simp: push_chunk_def Let_def body_run_units add.assoc split: if_splits)
    qed
  qed
qed

lemma push_merge:
  "bp_size p \<le> 256000 \<Longrightarrow> push_chunks ts p = (p1, o1) \<Longrightarrow> push_chunk (concat ts) p = (p2, o2) \<Longrightarrow>
     parser_invalid p1 = parser_invalid p2 \<and> (parser_invalid p2 \<or> p1 = p2 \<and> o1 = o2)"
proof (induction ts arbitrary: p p1 o1 p2 o2)
  case Nil
  then show ?case by (auto simp: push_chunk_def Let_def parser_invalid_def)
next
  case (Cons t ts)
  obtain q oq where t: "push_chunk t p = (q, oq)" by fastforce
  obtain o' where rest: "push_chunks ts q = (p1, o')" "o1 = oq @ o'" using Cons.prems(2) t by (auto split: prod.splits)
  from push_append [OF Cons.prems(1) t, of "concat ts" p2 o2] Cons.prems(3)
  consider "bp_state q = BInvalid" "bp_state p2 = BInvalid"
    | q' o3 where "bp_size q \<le> 256000" "push_chunk (concat ts) q = (q', o3)"
      "bp_state p2 = BInvalid \<and> bp_state q' = BInvalid \<or> p2 = q' \<and> o2 = oq @ o3" by auto
  then show ?case
  proof cases
    case 1
    then show ?thesis using invalid_pushes [of q ts] rest by (simp add: parser_invalid_def)
  next
    case 2
    from Cons.IH [OF 2(1) rest(1) 2(2)] 2(3) rest(2) show ?thesis by (auto simp: parser_invalid_def)
  qed
qed

text \<open>C28: the streamed preview does not depend on how the provider cuts the text. Pushing a text in any
  chunks, even through a surrogate pair or an escape, ends invalid exactly when pushing it at once does,
  and otherwise leaves the parser in the same state and shows the same characters.\<close>

theorem preview_chunking:
  "case push_chunks ts new_parser of (p1, o1) \<Rightarrow> case push_chunk (concat ts) new_parser of (p2, o2) \<Rightarrow>
     parser_invalid p1 = parser_invalid p2 \<and> (parser_invalid p2 \<or> p1 = p2 \<and> o1 = o2)"
  using push_merge [of new_parser ts] by (auto simp: new_parser_def split: prod.split)

end
