(* ===== verification/BodyStream.thy ===== *)
theory BodyStream
  imports BodyParser
begin

text \<open>
  What the body reader of model/preview.ts shows for a serialised candidate: the lemmas run it over the
  tokens \<open>JSON.stringify\<close> prints, keys, skipped values and the escaped body, for
  \<open>body_streamed\<close>.
\<close>

definition ch :: "char \<Rightarrow> code_units" where
  "ch c = [of_char c]"

fun run_on :: "string \<Rightarrow> body_parser \<times> code_units \<Rightarrow> (body_parser \<times> code_units) option" where
  "run_on [] po = Some po"
| "run_on (c # s) po = Option.bind (body_step (ch c) po) (run_on s)"

lemma run_on_append: "run_on (s @ t) po = Option.bind (run_on s po) (run_on t)"
  by (induction s arbitrary: po) (auto split: bind_splits)

lemma run_on_units: "body_run (code_points (units s)) po = run_on s po"
  unfolding body_run_units units_def by (induction s arbitrary: po) (auto simp: ch_def split: option.split)

lemma units_append [simp]: "units (s @ t) = units s @ units t" "units (c # s) = ch c @ units s" "units [] = []"
  by (simp_all add: units_def ch_def)

lemma is_char_ch [simp]: "is_char (ch c) k \<longleftrightarrow> c = k"
  by (simp add: ch_def)

subsection \<open>Escapes survive the narrowing of a token\<close>

definition stable :: "string \<Rightarrow> bool" where
  "stable s = (\<forall>r. narrow_escapes (s @ r) = s @ narrow_escapes r)"

lemma stable_append: "stable s \<Longrightarrow> stable t \<Longrightarrow> stable (s @ t)"
  by (simp add: stable_def)

lemma narrow_plain: "c \<noteq> CHR 0x5C \<Longrightarrow> narrow_escapes (c # r) = c # narrow_escapes r"
  by (cases r) simp_all

lemma stable_plain: "CHR 0x5C \<notin> set s \<Longrightarrow> stable s"
  unfolding stable_def by (induction s) (auto simp: narrow_plain)

lemma narrow_short: "d \<noteq> CHR ''u'' \<Longrightarrow> narrow_escapes (CHR 0x5C # d # r) = CHR 0x5C # d # narrow_escapes r"
  by (subst narrow_escapes.simps(3)) (simp split: list.split del: narrow_escapes.simps)

lemma hex_digit_plain: "d < 16 \<Longrightarrow> hex_digit d \<noteq> CHR 0x5C"
  using hex_any_digit [of d] by (auto simp: hex_char_def)

lemma narrow_hex:
  assumes "x \<noteq> CHR 0x5C" "y \<noteq> CHR 0x5C"
  shows "narrow_escapes (CHR 0x5C # CHR ''u'' # CHR ''0'' # CHR ''0'' # x # y # r)
    = CHR 0x5C # CHR ''u'' # CHR ''0'' # CHR ''0'' # x # y # narrow_escapes r"
  using assms by (subst narrow_escapes.simps(3)) (simp add: narrow_plain del: narrow_escapes.simps)

lemma esc_char_shape:
  obtains "esc_char c = [c]" "c \<noteq> CHR 0x5C" "c \<noteq> CHR 0x22" "32 \<le> (of_char c :: nat)"
  | d where "esc_char c = [CHR 0x5C, d]" "d \<noteq> CHR ''u''" "map_of escapes d = Some c"
  | "esc_char c = [CHR 0x5C, CHR ''u'', CHR ''0'', CHR ''0'', hex_digit (of_char c div 16), hex_digit (of_char c mod 16)]"
    "(of_char c :: nat) < 32"
proof -
  consider "c = CHR 0x22" | "c = CHR 0x5C" | "c = CHR 0x08" | "c = CHR 0x09" | "c = CHR 0x0A" | "c = CHR 0x0C" | "c = CHR 0x0D"
    | "c \<notin> {CHR 0x22, CHR 0x5C, CHR 0x08, CHR 0x09, CHR 0x0A, CHR 0x0C, CHR 0x0D}" by blast
  then show thesis
  proof cases
    case 8
    then show thesis
      by (cases "(of_char c :: nat) < 32") (rule that(3) that(1); simp add: esc_char_def)+
  next
    case 1
    then show thesis by (intro that(2) [of "CHR 0x22"]) (simp_all add: esc_char_def escapes_def)
  next
    case 2
    then show thesis by (intro that(2) [of "CHR 0x5C"]) (simp_all add: esc_char_def escapes_def)
  next
    case 3
    then show thesis by (intro that(2) [of "CHR ''b''"]) (simp_all add: esc_char_def escapes_def)
  next
    case 4
    then show thesis by (intro that(2) [of "CHR ''t''"]) (simp_all add: esc_char_def escapes_def)
  next
    case 5
    then show thesis by (intro that(2) [of "CHR ''n''"]) (simp_all add: esc_char_def escapes_def)
  next
    case 6
    then show thesis by (intro that(2) [of "CHR ''f''"]) (simp_all add: esc_char_def escapes_def)
  next
    case 7
    then show thesis by (intro that(2) [of "CHR ''r''"]) (simp_all add: esc_char_def escapes_def)
  qed
qed

lemma hex_digit_no_quote: "d < 16 \<Longrightarrow> hex_digit d \<noteq> CHR 0x22"
  using hex_any_digit [of d] by (auto simp: hex_char_def)

lemma stable_esc_char: "stable (esc_char c)"
proof (cases c rule: esc_char_shape)
  case 1
  then show ?thesis using stable_plain [of "[c]"] by simp
next
  case (2 d)
  then show ?thesis by (simp add: stable_def narrow_short del: narrow_escapes.simps)
next
  case 3
  then have "hex_digit (of_char c div 16) \<noteq> CHR 0x5C" "hex_digit (of_char c mod 16) \<noteq> CHR 0x5C"
    by (intro hex_digit_plain; linarith)+
  then show ?thesis by (simp add: stable_def 3 narrow_hex del: narrow_escapes.simps)
qed

lemma stable_wrap: "stable s \<Longrightarrow> a \<noteq> CHR 0x5C \<Longrightarrow> b \<noteq> CHR 0x5C \<Longrightarrow> stable (a # s @ [b])"
  using stable_append [OF stable_plain [of "[a]"] stable_append [OF _ stable_plain [of "[b]"]], of s] by simp

lemma stable_quote: "stable (quote s)"
proof -
  have "stable (esc s)" unfolding esc_def by (induction s) (simp_all add: stable_append stable_esc_char stable_plain)
  then show ?thesis unfolding quote_def by (rule stable_wrap) simp_all
qed

lemma stable_join: "list_all stable ts \<Longrightarrow> stable (join_with '','' ts)"
proof (induction "'',''" ts rule: join_with.induct)
  case (3 t u ts)
  then show ?case using stable_append [of t "'','' @ join_with '','' (u # ts)"] stable_append [OF stable_plain, of "'',''"] by simp
qed (simp_all add: stable_plain)

lemma show_int_plain: "CHR 0x5C \<notin> set (show_int i)"
  using show_nat_digits [of "CHR 0x5C"] by (auto simp: show_int_def)

lemma stable_stringify: "integral v \<Longrightarrow> stable (stringify v)"
proof (induction v)
  case (JArr vs)
  then have "stable (join_with '','' (map stringify vs))" by (intro stable_join) (auto simp: list_all_iff)
  from stable_wrap [OF this, of "CHR ''[''" "CHR '']''"] show ?case by simp
next
  case (JObj kvs)
  have "stable (member_text kv)" if "kv \<in> set kvs" for kv
    using JObj.IH [OF that, of "snd kv"] JObj.prems that stable_append [OF stable_quote stable_append [OF stable_plain [of "'':''"]]]
    by (cases kv) (auto simp: member_text_def list_all_iff)
  then have "stable (join_with '','' (map member_text kvs))" by (intro stable_join) (auto simp: list_all_iff)
  from stable_wrap [OF this, of "CHR 0x7B" "CHR 0x7D"] show ?case unfolding stringify.simps member_text_eq by simp
qed (auto simp: stable_plain stable_quote show_int_plain)

lemma parse_token_stringify: "wf_json v \<Longrightarrow> integral v \<Longrightarrow> parse_token (units (stringify v)) = Some v"
  using stable_stringify [of v] parse_stringify [of v] by (simp add: parse_token_def narrow_units stable_def)
   (metis append_Nil2 narrow_escapes.simps(1))

subsection \<open>Skipped values\<close>

definition between :: "int \<Rightarrow> body_parser \<Rightarrow> bool" where
  "between d p = (bp_state p = BSkip \<and> \<not> bp_quoted p \<and> \<not> bp_escaped p \<and> d \<le> bp_depth p)"

text \<open>Reading \<open>s\<close> while skipping only collects it.\<close>

definition inert :: "int \<Rightarrow> string \<Rightarrow> bool" where
  "inert d s = (\<forall>p out. between d p \<longrightarrow> run_on s (p, out) = Some (p\<lparr>bp_token := bp_token p @ units s\<rparr>, out))"

lemma inertD: "inert d s \<Longrightarrow> between d p \<Longrightarrow> run_on s (p, out) = Some (p\<lparr>bp_token := bp_token p @ units s\<rparr>, out)"
  by (simp add: inert_def)

lemma inert_mono: "inert d s \<Longrightarrow> d \<le> e \<Longrightarrow> inert e s"
  by (auto simp: inert_def between_def)

lemma inert_append: "inert d s \<Longrightarrow> inert d t \<Longrightarrow> inert d (s @ t)"
  by (auto simp: inert_def run_on_append between_def)

lemma inert_Nil: "inert d []"
  by (simp add: inert_def)

definition bracket :: "char \<Rightarrow> bool" where
  "bracket c = (c \<in> {CHR 0x7B, CHR ''['', CHR 0x7D, CHR '']'', CHR '','', CHR 0x22})"

lemma inert_char: "c = CHR '','' \<and> 0 < d \<or> 0 \<le> d \<and> \<not> bracket c \<Longrightarrow> inert d [c]"
  by (auto simp: inert_def between_def body_step_def skip_char_def Let_def opens_def closes_def bracket_def)

lemma inert_plain: "0 \<le> d \<Longrightarrow> \<forall>c\<in>set s. \<not> bracket c \<Longrightarrow> inert d s"
proof (induction s)
  case (Cons c s)
  then show ?case using inert_append [of d "[c]" s] inert_char [of c d] by simp
qed (simp add: inert_Nil)

text \<open>Inside a quoted string every unit is collected; the escapes keep the quotation mark from ending it.\<close>

lemma quoted_char:
  assumes "bp_state p = BSkip" "bp_quoted p" "\<not> bp_escaped p" "0 \<le> bp_depth p"
  shows "run_on (esc_char c) (p, out) = Some (p\<lparr>bp_token := bp_token p @ units (esc_char c)\<rparr>, out)"
proof (cases c rule: esc_char_shape)
  case 1
  then show ?thesis using assms by (simp add: body_step_def skip_char_def Let_def)
next
  case (2 d)
  then show ?thesis using assms by (simp add: body_step_def skip_char_def Let_def)
next
  case 3
  then have "(of_char c :: nat) div 16 < 16" "(of_char c :: nat) mod 16 < 16" by linarith+
  then have h: "hex_digit (of_char c div 16) \<noteq> CHR 0x5C" "hex_digit (of_char c mod 16) \<noteq> CHR 0x5C"
    "hex_digit (of_char c div 16) \<noteq> CHR 0x22" "hex_digit (of_char c mod 16) \<noteq> CHR 0x22"
    using hex_digit_plain hex_digit_no_quote by auto
  show ?thesis unfolding 3 using assms h by (simp add: body_step_def skip_char_def Let_def)
qed

lemma quoted_run:
  assumes "bp_state p = BSkip" "bp_quoted p" "\<not> bp_escaped p" "0 \<le> bp_depth p"
  shows "run_on (esc s) (p, out) = Some (p\<lparr>bp_token := bp_token p @ units (esc s)\<rparr>, out)"
  using assms
proof (induction s arbitrary: p)
  case (Cons c s)
  then show ?case using quoted_char [OF Cons.prems, of c out]
      Cons.IH [of "p\<lparr>bp_token := bp_token p @ units (esc_char c)\<rparr>"]
    by (simp add: esc_def run_on_append)
qed (simp add: esc_def)

lemma inert_quote: "0 \<le> d \<Longrightarrow> inert d (quote s)"
  unfolding inert_def
proof (intro allI impI)
  fix p out assume d: "0 \<le> d" and p: "between d p"
  let ?p = "p\<lparr>bp_token := bp_token p @ ch (CHR 0x22), bp_quoted := True\<rparr>"
  have "run_on [CHR 0x22] (p, out) = Some (?p, out)"
    using p d by (simp add: between_def body_step_def skip_char_def Let_def)
  moreover have "run_on (esc s) (?p, out) = Some (?p\<lparr>bp_token := bp_token ?p @ units (esc s)\<rparr>, out)"
    by (intro quoted_run) (use p d in \<open>simp_all add: between_def\<close>)
  ultimately show "run_on (quote s) (p, out) = Some (p\<lparr>bp_token := bp_token p @ units (quote s)\<rparr>, out)"
    using run_on_append [of "[CHR 0x22]" "esc s @ [CHR 0x22]" "(p, out)"] p d
    by (simp add: quote_def run_on_append between_def body_step_def skip_char_def Let_def)
qed

lemma inert_join: "list_all (inert d) ts \<Longrightarrow> 0 < d \<Longrightarrow> inert d (join_with '','' ts)"
proof (induction "'',''" ts rule: join_with.induct)
  case (3 t u ts)
  then have "inert d (t @ '','' @ join_with '','' (u # ts))" by (intro inert_append inert_char) simp_all
  then show ?case by simp
qed (simp_all add: inert_Nil)

lemma inert_nested:
  assumes "inert (d + 1) s" "0 \<le> d" "a = CHR 0x7B \<and> b = CHR 0x7D \<or> a = CHR ''['' \<and> b = CHR '']''"
  shows "inert d (a # s @ [b])"
  unfolding inert_def
proof (intro allI impI)
  fix p out assume p: "between d p"
  let ?p = "p\<lparr>bp_token := bp_token p @ ch a, bp_depth := bp_depth p + 1\<rparr>"
  have "run_on [a] (p, out) = Some (?p, out)"
    using p assms by (auto simp: between_def body_step_def skip_char_def Let_def opens_def closes_def)
  moreover have "run_on s (?p, out) = Some (?p\<lparr>bp_token := bp_token ?p @ units s\<rparr>, out)"
    using p by (intro inertD [OF assms(1)]) (simp add: between_def)
  ultimately show "run_on (a # s @ [b]) (p, out) = Some (p\<lparr>bp_token := bp_token p @ units (a # s @ [b])\<rparr>, out)"
    using run_on_append [of "[a]" "s @ [b]" "(p, out)"] p assms(2,3)
    by (cases p) (auto simp: run_on_append between_def body_step_def skip_char_def Let_def opens_def closes_def)
qed

lemma show_int_inert: "0 \<le> d \<Longrightarrow> inert d (show_int i)"
proof (rule inert_plain)
  show "\<forall>c\<in>set (show_int i). \<not> bracket c"
    using show_nat_digits [of _ "nat i"] show_nat_digits [of _ "nat (- i)"]
    by (fastforce simp: show_int_def bracket_def split: if_splits)
qed

lemma inert_stringify: "integral v \<Longrightarrow> 0 \<le> d \<Longrightarrow> inert d (stringify v)"
proof (induction v arbitrary: d)
  case (JArr vs)
  then have "inert (d + 1) (join_with '','' (map stringify vs))" by (intro inert_join) (auto simp: list_all_iff)
  from inert_nested [OF this JArr.prems(2), of "CHR ''[''" "CHR '']''"] show ?case by simp
next
  case (JObj kvs)
  have "inert (d + 1) (member_text kv)" if kv: "kv \<in> set kvs" for kv
  proof -
    obtain k v where [simp]: "kv = (k, v)" by (cases kv)
    have "inert (d + 1) (stringify v)" using JObj kv by (auto simp: list_all_iff)
    then have "inert (d + 1) (quote k @ '':'' @ stringify v)"
      using JObj.prems by (intro inert_append inert_quote inert_char) (simp_all add: bracket_def)
    then show ?thesis by (simp add: member_text_def)
  qed
  then have "inert (d + 1) (join_with '','' (map member_text kvs))"
    using JObj.prems by (intro inert_join) (auto simp: list_all_iff)
  from inert_nested [OF this JObj.prems(2), of "CHR 0x7B" "CHR 0x7D"] show ?case
    unfolding stringify.simps member_text_eq by simp
qed (auto intro!: inert_plain inert_quote show_int_inert simp: bracket_def)

subsection \<open>The body\<close>

lemma append_ch: "bp_high p = [] \<Longrightarrow> append_text [of_char c] (p, out) = (p, out @ ch c)"
  by (simp add: append_text_def append_point_def ch_def char_no_surrogate)

lemma ch_small: "hd (ch c) < 32 \<longleftrightarrow> (of_char c :: nat) < 32"
  by (simp add: ch_def word_less_nat_alt of_char_unat)

lemma unescape_short: "d \<noteq> CHR ''u'' \<Longrightarrow> map_of escapes d = Some c \<Longrightarrow> unescape (ch (CHR 0x5C) @ ch d) = Some (of_char c)"
  using of_char_small [of d] by (simp add: unescape_def ch_def not_le del: of_char_Char)

lemma unescape_hex:
  assumes "(of_char c :: nat) < 32"
  shows "unescape (ch (CHR 0x5C) @ ch (CHR ''u'') @ ch (CHR ''0'') @ ch (CHR ''0'') @ ch (hex_digit (of_char c div 16))
    @ ch (hex_digit (of_char c mod 16))) = Some (of_char c)"
proof -
  have d: "(of_char c :: nat) div 16 < 16" "(of_char c :: nat) mod 16 < 16" using assms by linarith+
  have "hex4 [of_char (CHR ''0''), of_char (CHR ''0''), of_char (hex_digit (of_char c div 16)), of_char (hex_digit (of_char c mod 16))]
      = Some (of_nat (16 * (of_char c div 16) + of_char c mod 16))"
    using hex_any_digit [OF d(1)] hex_any_digit [OF d(2)]
    by (simp add: hex4_def hex_char_def hex_any_def [of "CHR ''0''"] Let_def del: of_char_Char mult_div_mod_eq)
       (simp add: Let_def)
  then show ?thesis using of_char_small [of "CHR ''u''"]
    by (simp add: unescape_def ch_def not_le of_nat_of_char del: of_char_Char)
qed

lemma units_u: "units [CHR 0x5C, CHR ''u''] = ch (CHR 0x5C) @ ch (CHR ''u'')"
  by simp

lemma ch_inj [simp]: "ch c = ch d \<longleftrightarrow> c = d" "length (ch c) = 1" "ch c \<noteq> []" "ch c @ s = ch d @ t \<longleftrightarrow> c = d \<and> s = t"
  by (simp_all add: ch_def)

lemma take_ch [simp]: "take (Suc n) (ch c @ s) = ch c @ take n s" "take (Suc n) (ch c) = ch c"
  by (simp_all add: ch_def)

lemma escape_char:
  assumes "bp_state p = BBody" "bp_escape p = []" "bp_high p = []"
  shows "run_on (esc_char c) (p, out) = Some (p, out @ ch c)"
proof (cases c rule: esc_char_shape)
  case 1
  then show ?thesis using assms append_ch [of p c out] ch_small [of c]
    by (simp add: body_step_def body_char_def ch_def [of c, symmetric] not_less)
next
  case (2 d)
  have p: "p\<lparr>bp_escape := []\<rparr> = p" using assms(2) by (cases p) simp
  show ?thesis using 2 assms append_ch [of "p\<lparr>bp_escape := ch (CHR 0x5C)\<rparr>" c out] unescape_short [OF 2(2,3)]
    by (simp add: body_step_def body_char_def Let_def units_u numeral_2_eq_2 p del: units_append)
next
  case 3
  have p: "p\<lparr>bp_escape := []\<rparr> = p" using assms(2) by (cases p) simp
  show ?thesis unfolding 3(1) using assms append_ch [of "p\<lparr>bp_escape := x\<rparr>" c out for x] unescape_hex [OF 3(2)]
    by (simp add: body_step_def body_char_def Let_def units_u numeral_2_eq_2 p del: units_append)
qed

lemma escape_run:
  "bp_state p = BBody \<Longrightarrow> bp_escape p = [] \<Longrightarrow> bp_high p = [] \<Longrightarrow> run_on (esc s) (p, out) = Some (p, out @ units s)"
proof (induction s arbitrary: out)
  case (Cons c s)
  then show ?case using escape_char [OF Cons.prems, of c out] by (simp add: esc_def run_on_append)
qed (simp add: esc_def)

subsection \<open>Members\<close>

lemma space_ch: "32 < (of_char c :: nat) \<Longrightarrow> (of_char c :: nat) < 128 \<Longrightarrow> \<not> space_point (ch c)"
  using of_char_unat [of c] by (auto simp: space_point_def ch_def space_unit_def word_le_nat_alt)

lemma stringify_first:
  "integral v \<Longrightarrow> \<exists>c s. stringify v = c # s \<and> \<not> space_point (ch c) \<and> c \<notin> {CHR '','', CHR 0x7D, CHR '']''}"
proof (cases v)
  case (JNum i)
  obtain c s where cs: "show_int i = c # s" by (cases "show_int i") (auto simp: show_int_def split: if_splits)
  then have "c = CHR ''-'' \<or> c \<in> set (show_nat (nat i))" by (auto simp: show_int_def split: if_splits)
  then have "45 \<le> (of_char c :: nat) \<and> (of_char c :: nat) < 58" using show_nat_digits [of c "nat i"] by auto
  with cs JNum show ?thesis using space_ch [of c] by auto
qed (auto simp: quote_def space_ch)

definition idle :: "body_parser \<Rightarrow> bool" where
  "idle p = (bp_token p = [] \<and> \<not> bp_escaped p \<and> bp_escape p = [] \<and> bp_high p = [])"

definition ends_member :: "char \<Rightarrow> bool" where
  "ends_member e = (e = CHR '','' \<or> e = CHR 0x7D)"

definition next_state :: "char \<Rightarrow> body_state" where
  "next_state e = (if e = CHR '','' then BKey else BDone)"

lemma value_run:
  assumes "wf_json v" "integral v" "bp_state p = BValue" "bp_key p \<noteq> ''body''" "idle p" "ends_member e"
  shows "run_on (stringify v @ [e]) (p, out)
    = Some (p\<lparr>bp_quoted := False, bp_depth := 0, bp_state := next_state e\<rparr>, out)"
proof -
  let ?p = "p\<lparr>bp_quoted := False, bp_depth := 0, bp_state := BSkip\<rparr>"
  obtain c s where cs: "stringify v = c # s" "\<not> space_point (ch c)" "c \<notin> {CHR '','', CHR 0x7D, CHR '']''}"
    using stringify_first [OF assms(2)] by blast
  have "body_step (ch c) (p, out) = body_step (ch c) (?p, out)"
    using assms(3-5) cs by (cases p) (auto simp: body_step_def other_char_def skip_char_def Let_def idle_def opens_def closes_def)
  then have "run_on (stringify v @ [e]) (p, out) = run_on (stringify v @ [e]) (?p, out)" unfolding cs(1) by simp
  also have "run_on (stringify v) (?p, out) = Some (?p\<lparr>bp_token := bp_token ?p @ units (stringify v)\<rparr>, out)"
    using assms by (intro inertD [OF inert_stringify [of v 0]]) (simp_all add: between_def idle_def)
  then have "run_on (stringify v @ [e]) (?p, out)
      = Some (p\<lparr>bp_quoted := False, bp_depth := 0, bp_state := next_state e\<rparr>, out)"
    using assms(5,6) parse_token_stringify [OF assms(1,2)]
    by (cases p) (auto simp: run_on_append body_step_def skip_char_def idle_def ends_member_def next_state_def)
  finally show ?thesis .
qed

lemma key_text:
  "bp_state p = BKey \<Longrightarrow> bp_token p \<noteq> [] \<Longrightarrow> \<not> bp_escaped p \<Longrightarrow> CHR 0x22 \<notin> set s \<Longrightarrow> CHR 0x5C \<notin> set s
    \<Longrightarrow> run_on s (p, out) = Some (p\<lparr>bp_token := bp_token p @ units s\<rparr>, out)"
proof (induction s arbitrary: p)
  case (Cons c s)
  have "length (bp_token p @ ch c) \<noteq> 1" using Cons.prems by (cases "bp_token p") auto
  moreover have "c \<noteq> CHR 0x22" "c \<noteq> CHR 0x5C" using Cons.prems by auto
  ultimately have "body_step (ch c) (p, out) = Some (p\<lparr>bp_token := bp_token p @ ch c\<rparr>, out)"
    using Cons.prems(1-3) by (simp add: body_step_def key_char_def Let_def del: length_append)
  then show ?case using Cons.IH [of "p\<lparr>bp_token := bp_token p @ ch c\<rparr>"] Cons.prems by simp
qed simp

lemma esc_plain: "\<forall>c\<in>set s. esc_char c = [c] \<Longrightarrow> esc s = s"
  unfolding esc_def by (induction s) auto

lemma candidate_key_plain:
  assumes "k \<in> set candidate_keys"
  shows "esc k = k" "CHR 0x22 \<notin> set k" "CHR 0x5C \<notin> set k"
  using assms by (auto simp: candidate_keys_def esc_char_def intro!: esc_plain)

lemma key_run:
  assumes "k \<in> set candidate_keys" "k \<notin> set (bp_keys p)" "bp_state p = BKey" "idle p"
  shows "run_on (quote k @ '':'') (p, out) = Some (p\<lparr>bp_key := k, bp_keys := bp_keys p @ [k], bp_state := BValue\<rparr>, out)"
proof -
  let ?p = "p\<lparr>bp_token := ch (CHR 0x22)\<rparr>"
  note k = candidate_key_plain [OF assms(1)]
  have start: "body_step (ch (CHR 0x22)) (p, out) = Some (?p, out)"
    using assms by (simp add: body_step_def key_char_def idle_def Let_def space_ch)
  have content: "run_on k (?p, out) = Some (?p\<lparr>bp_token := ch (CHR 0x22) @ units k\<rparr>, out)"
    using key_text [of ?p k out] k assms by (simp add: idle_def)
  have "units (stringify (JStr k)) = ch (CHR 0x22) @ units k @ ch (CHR 0x22)" using k(1) by (simp add: quote_def)
  then have tok: "parse_token (ch (CHR 0x22) @ units k @ ch (CHR 0x22)) = Some (JStr k)"
    using parse_token_stringify [of "JStr k"] by simp
  have "quote k @ '':'' = CHR 0x22 # k @ [CHR 0x22, CHR '':'']" using k(1) by (simp add: quote_def)
  then show ?thesis using start content tok assms
    by (cases p) (simp add: run_on_append body_step_def key_char_def other_char_def idle_def Let_def space_ch)
qed

text \<open>What a member shows.\<close>

definition shown :: "string \<times> json \<Rightarrow> code_units" where
  "shown kv = (case kv of (k, JStr b) \<Rightarrow> if k = ''body'' then units b else [] | _ \<Rightarrow> [])"

lemma member_run:
  assumes "k \<in> set candidate_keys" "k \<notin> set (bp_keys p)" "bp_state p = BKey" "idle p" "ends_member e"
    and "wf_json v" "integral v" "k = ''body'' \<Longrightarrow> \<exists>b. v = JStr b"
  shows "\<exists>q. run_on (member_text (k, v) @ [e]) (p, out) = Some (q, out @ shown (k, v))
    \<and> idle q \<and> bp_state q = next_state e \<and> bp_keys q = bp_keys p @ [k]"
proof -
  let ?p = "p\<lparr>bp_key := k, bp_keys := bp_keys p @ [k], bp_state := BValue\<rparr>"
  have split: "run_on (member_text (k, v) @ [e]) (p, out) = run_on (stringify v @ [e]) (?p, out)"
    using key_run [OF assms(1-4), of out] run_on_append [of "quote k @ '':''" "stringify v @ [e]" "(p, out)"]
    by (simp add: member_text_def)
  show ?thesis
  proof (cases "k = ''body''")
    case False
    then have "shown (k, v) = []" by (simp add: shown_def split: json.split)
    then show ?thesis using False split value_run [OF assms(6,7), of ?p e out] assms(4,5) by (auto simp: idle_def)
  next
    case True
    then obtain b where b: "v = JStr b" using assms(8) by blast
    have "run_on (esc b) (?p\<lparr>bp_state := BBody\<rparr>, out) = Some (?p\<lparr>bp_state := BBody\<rparr>, out @ units b)"
      using assms(4) by (intro escape_run) (simp_all add: idle_def)
    then have "run_on (stringify v @ [e]) (?p, out) = Some (?p\<lparr>bp_state := next_state e\<rparr>, out @ units b)"
      using assms(4,5) True
      by (auto simp: b quote_def run_on_append body_step_def other_char_def body_char_def idle_def space_ch
          ends_member_def next_state_def)
    then show ?thesis using split True assms(4) by (auto simp: b shown_def idle_def)
  qed
qed

lemma members_run:
  assumes "kvs \<noteq> []" "distinct (bp_keys p @ map fst kvs)" "set (map fst kvs) \<subseteq> set candidate_keys"
    and "bp_state p = BKey" "idle p" "wf_json (JObj kvs)" "integral (JObj kvs)"
    and "\<And>v. (''body'', v) \<in> set kvs \<Longrightarrow> \<exists>b. v = JStr b"
  shows "\<exists>q. run_on (join_with '','' (map member_text kvs) @ [CHR 0x7D]) (p, out) = Some (q, out @ concat (map shown kvs))
    \<and> bp_state q = BDone \<and> bp_keys q = bp_keys p @ map fst kvs"
  using assms
proof (induction kvs arbitrary: p out)
  case (Cons kv kvs)
  obtain k v where kv [simp]: "kv = (k, v)" by (cases kv)
  have member: "\<exists>q. run_on (member_text (k, v) @ [e]) (p, out) = Some (q, out @ shown (k, v))
      \<and> idle q \<and> bp_state q = next_state e \<and> bp_keys q = bp_keys p @ [k]" if "ends_member e" for e
    by (intro member_run) (use Cons.prems that in auto)
  show ?case
  proof (cases kvs)
    case Nil
    then show ?thesis using member [of "CHR 0x7D"] by (auto simp: ends_member_def next_state_def)
  next
    case (Cons w ws)
    obtain q where q: "run_on (member_text (k, v) @ [CHR '','']) (p, out) = Some (q, out @ shown (k, v))"
      "idle q" "bp_state q = BKey" "bp_keys q = bp_keys p @ [k]"
      using member [of "CHR '','' "] by (auto simp: ends_member_def next_state_def)
    obtain r where r: "run_on (join_with '','' (map member_text kvs) @ [CHR 0x7D]) (q, out @ shown (k, v))
        = Some (r, (out @ shown (k, v)) @ concat (map shown kvs))" "bp_state r = BDone" "bp_keys r = bp_keys q @ map fst kvs"
      using Cons.IH [of q "out @ shown (k, v)"] Cons.prems Cons q(2-4) by auto
    have "join_with '','' (map member_text (kv # kvs)) @ [CHR 0x7D]
        = (member_text (k, v) @ [CHR '','']) @ join_with '','' (map member_text kvs) @ [CHR 0x7D]" using Cons by simp
    then have "run_on (join_with '','' (map member_text (kv # kvs)) @ [CHR 0x7D]) (p, out)
        = Some (r, out @ concat (map shown (kv # kvs)))"
      using q(1) r(1) by (simp only: run_on_append [of "member_text (k, v) @ [CHR '','']"]) simp
    then show ?thesis using r q(4) by auto
  qed
qed simp

lemma shown_body:
  "distinct (map fst kvs) \<Longrightarrow> (''body'', JStr b) \<in> set kvs \<Longrightarrow> concat (map shown kvs) = units b"
proof (induction kvs)
  case (Cons kv kvs)
  have other: "concat (map shown kvs) = []" if "''body'' \<notin> fst ` set kvs" for kvs
    using that by (induction kvs) (auto simp: shown_def split: json.split)
  show ?case
  proof (cases "kv = (''body'', JStr b)")
    case True
    then show ?thesis using Cons.prems other [of kvs] by (auto simp: shown_def)
  next
    case False
    then have "(''body'', JStr b) \<in> set kvs" "fst kv \<noteq> ''body''" using Cons.prems by (auto simp: image_iff)
    then show ?thesis using Cons by (auto simp: shown_def split: json.split prod.split)
  qed
qed simp

lemma candidate_run:
  assumes "distinct (map fst kvs)" "set (map fst kvs) \<subseteq> set candidate_keys" "(''body'', JStr b) \<in> set kvs"
    and "wf_json (JObj kvs)" "integral (JObj kvs)" "length (stringify (JObj kvs)) \<le> 256000"
  shows "\<exists>q. push_chunk (units (stringify (JObj kvs))) new_parser = (q, units b) \<and> parser_complete q"
proof -
  define n where "n = length (stringify (JObj kvs))"
  let ?p = "new_parser\<lparr>bp_size := n\<rparr>"
  let ?k = "?p\<lparr>bp_state := BKey\<rparr>"
  have start: "run_on [CHR 0x7B] (?p, []) = Some (?k, [])"
    by (simp add: new_parser_def body_step_def other_char_def space_ch)
  have body: "\<exists>b. v = JStr b" if "(''body'', v) \<in> set kvs" for v
    using assms(1,3) that by (metis eq_key_imp_eq_value)
  have k: "kvs \<noteq> []" "bp_keys ?k = []" "bp_state ?k = BKey" "idle ?k" using assms(3) by (auto simp: new_parser_def idle_def)
  have "distinct (bp_keys ?k @ map fst kvs)" unfolding k(2) using assms(1) by simp
  from members_run [OF k(1) this assms(2) k(3,4) assms(4,5) body, of "[]"]
  obtain q where q: "run_on (join_with '','' (map member_text kvs) @ [CHR 0x7D]) (?k, [])
      = Some (q, concat (map shown kvs))" "bp_state q = BDone" "bp_keys q = map fst kvs"
    unfolding k(2) by auto
  have "stringify (JObj kvs) = [CHR 0x7B] @ join_with '','' (map member_text kvs) @ [CHR 0x7D]"
    unfolding stringify.simps member_text_eq by simp
  then have run: "run_on (stringify (JObj kvs)) (?p, []) = Some (q, units b)"
    using start q(1) shown_body [OF assms(1,3)] by (simp only: run_on_append [of "[CHR 0x7B]"]) simp
  have "length (units (stringify (JObj kvs))) = n" by (simp add: units_def n_def del: stringify.simps)
  then have "push_chunk (units (stringify (JObj kvs))) new_parser = (q, units b)"
    using run assms(6) unfolding n_def [symmetric]
    by (simp add: push_chunk_def Let_def run_on_units new_parser_def del: stringify.simps)
  moreover have "''body'' \<in> set (bp_keys q)" using q(3) assms(3) by force
  ultimately show ?thesis using q(2) by (simp add: parser_complete_def)
qed

text \<open>C29: streaming a serialised candidate shows its body and nothing else. However the serialisation of
  an object with known keys, a textual body among them, is cut into chunks, the reader shows exactly
  the body with its escapes undone, and is complete at the end; the other members are never shown.\<close>

theorem body_streamed:
  assumes "distinct (map fst kvs)" "set (map fst kvs) \<subseteq> set candidate_keys" "(''body'', JStr b) \<in> set kvs"
    and "wf_json (JObj kvs)" "integral (JObj kvs)" "length (stringify (JObj kvs)) \<le> 256000"
    and "concat chunks = units (stringify (JObj kvs))"
  shows "\<exists>p :: body_parser. push_chunks chunks new_parser = (p, units b) \<and> parser_complete p"
proof -
  obtain q where q: "push_chunk (concat chunks) new_parser = (q, units b)" "parser_complete q"
    using candidate_run [OF assms(1-6)] assms(7) by auto
  obtain p out where p: "push_chunks chunks new_parser = (p, out)" by fastforce
  have "\<not> parser_invalid q" using q(2) by (simp add: parser_complete_def parser_invalid_def)
  then have "p = q \<and> out = units b" using push_merge [OF _ p q(1)] by (simp add: new_parser_def)
  with p q(2) show ?thesis by blast
qed

text \<open>A candidate whose body needs an escape, cut inside the escape.\<close>

definition sample_candidate :: jobj where
  "sample_candidate = [(''status'', JStr ''complete''), (''gaps'', JArr [JStr ''a}'']), (''body'', JStr [CHR ''x'', CHR 0x22, CHR ''y''])]"

lemma body_streamed_witness:
  "\<exists>p :: body_parser. push_chunks [take 44 (units (stringify (JObj sample_candidate))), drop 44 (units (stringify (JObj sample_candidate)))] new_parser
     = (p, units [CHR ''x'', CHR 0x22, CHR ''y'']) \<and> parser_complete p"
proof (rule body_streamed)
  show "length (stringify (JObj sample_candidate)) \<le> 256000"
    by (simp add: sample_candidate_def quote_def esc_def esc_char_def)
  show "distinct (map fst sample_candidate)" "set (map fst sample_candidate) \<subseteq> set candidate_keys"
    by (simp_all add: sample_candidate_def candidate_keys_def)
  show "(''body'', JStr [CHR ''x'', CHR 0x22, CHR ''y'']) \<in> set sample_candidate" by (simp add: sample_candidate_def)
  show "wf_json (JObj sample_candidate)" "integral (JObj sample_candidate)" by (simp_all add: sample_candidate_def)
qed (simp only: concat.simps append_Nil2 append_take_drop_id)

end
