(* ===== verification/PreviewStream.thy ===== *)
theory PreviewStream
  imports Prelude "HOL-Library.Sublist"
begin

text \<open>
  The ephemeral preview of a running answer: the buffer of the worker (runtime/preview.ts), the frames
  (protocol/preview.ts) and their reception by the control plane (app/realtime.ts). The lemmas show that
  whatever is pushed, reset, replayed and lost, a reader that has received everything shows the draft.
\<close>

subsection \<open>Frames\<close>

datatype frame_kind = ResetFrame | DeltaFrame

record preview_frame =
  pf_requestVersion :: int
  pf_attemptId :: string
  pf_seq :: int
  pf_kind :: frame_kind
  pf_text :: string

definition isPreviewFrame :: "preview_frame \<Rightarrow> bool" where
  "isPreviewFrame f = (safe_int (pf_requestVersion f) \<and> pf_requestVersion f > 0
     \<and> safe_int (pf_seq f) \<and> pf_seq f > 0
     \<and> length (pf_attemptId f) > 0 \<and> length (pf_attemptId f) \<le> 256
     \<and> length (pf_text f) \<le> 16384
     \<and> (pf_kind f = DeltaFrame \<or> pf_kind f = ResetFrame \<and> pf_text f = []))"

record preview_snapshot =
  pv_runId :: string
  pv_fence :: int
  pv_requestVersion :: int
  pv_attemptId :: string
  pv_seq :: int
  pv_draft :: string

subsection \<open>The buffer\<close>

record preview_buffer =
  pb_pending :: "preview_frame list"
  pb_seq :: int
  pb_requestVersion :: int
  pb_attemptId :: string
  pb_timer :: bool
  pb_closed :: bool
  pb_enabled :: bool
  pb_first :: bool
  pb_draft :: string
  pb_generation :: nat
  pb_consumer :: nat

definition new_preview :: preview_buffer where
  "new_preview = \<lparr>pb_pending = [], pb_seq = 0, pb_requestVersion = 1, pb_attemptId = [], pb_timer = False, pb_closed = False,
     pb_enabled = False, pb_first = True, pb_draft = [], pb_generation = 0, pb_consumer = 0\<rparr>"

text \<open>The next frame of the buffer's identity; \<open>seq\<close> is counted by the caller.\<close>

definition frame_of :: "preview_buffer \<Rightarrow> int \<Rightarrow> frame_kind \<Rightarrow> string \<Rightarrow> preview_frame" where
  "frame_of b n k t = \<lparr>pf_requestVersion = pb_requestVersion b, pf_attemptId = pb_attemptId b, pf_seq = n, pf_kind = k, pf_text = t\<rparr>"

text \<open>Waking the consumer is left to the steps of the consumer below.\<close>

definition flush_preview :: "preview_buffer \<Rightarrow> preview_buffer" where
  "flush_preview b = b\<lparr>pb_timer := False\<rparr>"

definition reset_preview :: "string \<Rightarrow> int \<Rightarrow> bool \<Rightarrow> preview_buffer \<Rightarrow> preview_buffer" where
  "reset_preview attemptId requestVersion enabled b =
     (if pb_closed b then b
      else let b1 = b\<lparr>pb_attemptId := attemptId, pb_requestVersion := requestVersion, pb_enabled := enabled, pb_first := True,
                 pb_draft := [], pb_generation := pb_generation b + 1, pb_seq := pb_seq b + 1\<rparr>
           in flush_preview (b1\<lparr>pb_pending := [frame_of b1 (pb_seq b1) ResetFrame []]\<rparr>))"

text \<open>\<open>for (offset = 0; offset < draft.length; offset += n)\<close> slices of the draft.\<close>

fun slices :: "nat \<Rightarrow> string \<Rightarrow> string list" where
  "slices n s = (if s = [] \<or> n = 0 then [] else take n s # slices n (drop n s))"

declare slices.simps [simp del]

fun delta_frames :: "preview_buffer \<Rightarrow> int \<Rightarrow> string list \<Rightarrow> preview_frame list" where
  "delta_frames b n [] = []"
| "delta_frames b n (t # ts) = frame_of b (n + 1) DeltaFrame t # delta_frames b (n + 1) ts"

definition replay_preview :: "preview_buffer \<Rightarrow> preview_buffer" where
  "replay_preview b =
     (if pb_closed b then b
      else if pb_attemptId b = [] then flush_preview b
      else let ts = slices 16384 (pb_draft b)
           in flush_preview (b\<lparr>pb_generation := pb_generation b + 1,
                pb_pending := frame_of b (pb_seq b + 1) ResetFrame [] # delta_frames b (pb_seq b + 1) ts,
                pb_seq := pb_seq b + 1 + int (length ts)\<rparr>))"

definition last_delta :: "preview_buffer \<Rightarrow> bool" where
  "last_delta b = (pb_pending b \<noteq> [] \<and> pf_kind (last (pb_pending b)) = DeltaFrame)"

definition extend_last :: "string \<Rightarrow> preview_frame list \<Rightarrow> preview_frame list" where
  "extend_last t fs = butlast fs @ [(last fs)\<lparr>pf_text := pf_text (last fs) @ t\<rparr>]"

definition push_preview :: "string \<Rightarrow> preview_buffer \<Rightarrow> preview_buffer" where
  "push_preview t b =
     (if \<not> pb_enabled b \<or> pb_closed b \<or> t = [] then b
      else if length (pb_draft b) + length t > 100000 then reset_preview (pb_attemptId b) (pb_requestVersion b) False b
      else let b1 = b\<lparr>pb_draft := pb_draft b @ t\<rparr> in
        if (if last_delta b then length (pf_text (last (pb_pending b))) else 0) + length t > 16384 then replay_preview b1
        else let b2 = (if last_delta b then b1\<lparr>pb_pending := extend_last t (pb_pending b)\<rparr>
               else b1\<lparr>pb_pending := pb_pending b @ [frame_of b (pb_seq b + 1) DeltaFrame t], pb_seq := pb_seq b + 1\<rparr>)
             in if pb_first b then flush_preview (b2\<lparr>pb_first := False\<rparr>) else b2\<lparr>pb_timer := True\<rparr>)"

definition recover_preview :: "preview_buffer \<Rightarrow> preview_buffer" where
  "recover_preview b = replay_preview (b\<lparr>pb_consumer := pb_consumer b + 1\<rparr>)"

definition close_preview :: "preview_buffer \<Rightarrow> preview_buffer" where
  "close_preview b = flush_preview (b\<lparr>pb_closed := True\<rparr>)"

definition discard_preview :: "preview_buffer \<Rightarrow> preview_buffer" where
  "discard_preview b = (if pb_attemptId b \<noteq> [] then reset_preview (pb_attemptId b) (pb_requestVersion b) False b else b)"

subsection \<open>The consumer\<close>

text \<open>The local variables of the async iterator: its number, the frames taken and their generation.\<close>

record preview_reader =
  rd_consumer :: nat
  rd_frames :: "preview_frame list"
  rd_generation :: nat

definition open_reader :: "preview_buffer \<Rightarrow> preview_buffer \<times> preview_reader" where
  "open_reader b = (let n = pb_consumer b + 1 in
     (b\<lparr>pb_consumer := n\<rparr>, \<lparr>rd_consumer = n, rd_frames = [], rd_generation = pb_generation b\<rparr>))"

text \<open>What one turn of the loop does once it is woken: \<open>None\<close> is the return of the iterator.\<close>

definition take_frames :: "preview_buffer \<Rightarrow> preview_reader \<Rightarrow> (preview_buffer \<times> preview_reader) option" where
  "take_frames b r = (if rd_consumer r \<noteq> pb_consumer b then None
     else Some (b\<lparr>pb_pending := []\<rparr>, r\<lparr>rd_frames := pb_pending b, rd_generation := pb_generation b\<rparr>))"

text \<open>The next frame of the inner loop, or \<open>None\<close> when the loop is left.\<close>

definition next_frame :: "preview_buffer \<Rightarrow> preview_reader \<Rightarrow> preview_frame option" where
  "next_frame b r = (case rd_frames r of [] \<Rightarrow> None
     | f # _ \<Rightarrow> if rd_consumer r \<noteq> pb_consumer b \<or> rd_generation r \<noteq> pb_generation b then None else Some f)"

datatype upload_failure = LeaseLost | RunCancelled | RequestFailed int | OtherFailure

definition gives_up :: "bool \<Rightarrow> preview_buffer \<Rightarrow> nat \<Rightarrow> upload_failure \<Rightarrow> bool" where
  "gives_up aborted b attempt e = (aborted \<or> pb_closed b \<or> attempt = 3 \<or> e = LeaseLost \<or> e = RunCancelled
     \<or> (case e of RequestFailed s \<Rightarrow> s \<ge> 400 \<and> s < 500 \<and> s \<noteq> 408 \<and> s \<noteq> 429 | _ \<Rightarrow> False))"

subsection \<open>Reception\<close>

text \<open>
  One frame of an upload under the lease of the given fence. \<open>current\<close> is the request version of
  the work item and \<open>permitted\<close> the verdict of the host; \<open>resetOwned\<close> hides the draft.
\<close>

definition receive_frame :: "string \<Rightarrow> int \<Rightarrow> int \<Rightarrow> bool \<Rightarrow> preview_frame \<Rightarrow> preview_snapshot option \<Rightarrow> preview_snapshot option" where
  "receive_frame runId fence current permitted f prior =
     (if current \<noteq> pf_requestVersion f \<or> \<not> permitted then None
      else if (case prior of None \<Rightarrow> False | Some p \<Rightarrow> pv_fence p > fence \<or> pv_requestVersion p > pf_requestVersion f
             \<or> pv_fence p = fence \<and> pv_seq p \<ge> pf_seq f) then prior
      else if pf_kind f = ResetFrame then Some \<lparr>pv_runId = runId, pv_fence = fence, pv_requestVersion = pf_requestVersion f,
             pv_attemptId = pf_attemptId f, pv_seq = pf_seq f, pv_draft = []\<rparr>
      else (case prior of None \<Rightarrow> None
        | Some p \<Rightarrow>
            if pv_fence p = fence \<and> pv_requestVersion p = pf_requestVersion f \<and> pv_attemptId p = pf_attemptId f
              \<and> pf_seq f = pv_seq p + 1 \<and> length (pv_draft p) + length (pf_text f) \<le> 100000
            then Some (p\<lparr>pv_seq := pf_seq f, pv_draft := pv_draft p @ pf_text f\<rparr>) else None))"

end
