(* ===== verification/PreviewProps.thy ===== *)
theory PreviewProps
  imports PreviewStream
begin

text \<open>
  The preview channel of a run, from the buffer of runtime/preview.ts to the snapshot of
  app/realtime.ts, as a transition system: what the runtime does to the buffer, the consumer, the upload,
  its failures, and the reception. The invariant says that what is still in flight completes the
  snapshot to the draft, or the snapshot stays hidden until the next reset.
\<close>

record preview_system =
  sy_buffer :: preview_buffer
  sy_reader :: "preview_reader option"
  sy_wire :: "preview_frame list"
  sy_snapshot :: "preview_snapshot option"

text \<open>Request versions grow while a run is steered, and attempts have a name.\<close>

inductive preview_step :: "string \<Rightarrow> int \<Rightarrow> preview_system \<Rightarrow> preview_system \<Rightarrow> bool" for runId fence where
  attempt: "a \<noteq> [] \<Longrightarrow> length a \<le> 256 \<Longrightarrow> pb_requestVersion (sy_buffer s) \<le> v \<Longrightarrow> v \<le> max_safe \<Longrightarrow>
    preview_step runId fence s (s\<lparr>sy_buffer := reset_preview a v enabled (sy_buffer s)\<rparr>)"
| text_delta: "preview_step runId fence s (s\<lparr>sy_buffer := push_preview t (sy_buffer s)\<rparr>)"
| discard: "preview_step runId fence s (s\<lparr>sy_buffer := discard_preview (sy_buffer s)\<rparr>)"
| close: "preview_step runId fence s (s\<lparr>sy_buffer := close_preview (sy_buffer s)\<rparr>)"
| connect: "sy_reader s = None \<Longrightarrow> open_reader (sy_buffer s) = (b, r) \<Longrightarrow>
    preview_step runId fence s (s\<lparr>sy_buffer := b, sy_reader := Some r\<rparr>)"
| take_all: "sy_reader s = Some r \<Longrightarrow> rd_frames r = [] \<Longrightarrow> take_frames (sy_buffer s) r = Some (b, r') \<Longrightarrow>
    preview_step runId fence s (s\<lparr>sy_buffer := b, sy_reader := Some r'\<rparr>)"
| yield: "sy_reader s = Some r \<Longrightarrow> next_frame (sy_buffer s) r = Some f \<Longrightarrow>
    preview_step runId fence s (s\<lparr>sy_reader := Some (r\<lparr>rd_frames := tl (rd_frames r)\<rparr>), sy_wire := sy_wire s @ [f]\<rparr>)"
| leave: "sy_reader s = Some r \<Longrightarrow> next_frame (sy_buffer s) r = None \<Longrightarrow>
    preview_step runId fence s (s\<lparr>sy_reader := Some (r\<lparr>rd_frames := []\<rparr>)\<rparr>)"
| receive: "sy_wire s = f # w \<Longrightarrow>
    preview_step runId fence s (s\<lparr>sy_wire := w, sy_snapshot := receive_frame runId fence current permitted f (sy_snapshot s)\<rparr>)"
| broken: "preview_step runId fence s
    \<lparr>sy_buffer = recover_preview (sy_buffer s), sy_reader = None, sy_wire = [], sy_snapshot = None\<rparr>"

definition preview_start :: preview_system where
  "preview_start = \<lparr>sy_buffer = new_preview, sy_reader = None, sy_wire = [], sy_snapshot = None\<rparr>"

subsection \<open>Delivery of frames\<close>

definition deliver :: "string \<Rightarrow> int \<Rightarrow> preview_snapshot option \<Rightarrow> preview_frame list \<Rightarrow> preview_snapshot option" where
  "deliver runId fence X Q = fold (\<lambda>f. receive_frame runId fence (pf_requestVersion f) True f) Q X"

lemma deliver_simps [simp]:
  "deliver runId fence X [] = X"
  "deliver runId fence X (f # Q) = deliver runId fence (receive_frame runId fence (pf_requestVersion f) True f X) Q"
  "deliver runId fence X (Q @ R) = deliver runId fence (deliver runId fence X Q) R"
  by (simp_all add: deliver_def)

text \<open>The snapshot is the state of the buffer, or hidden.\<close>

definition shows_draft :: "int \<Rightarrow> preview_buffer \<Rightarrow> preview_snapshot option \<Rightarrow> bool" where
  "shows_draft fence b X = (case X of None \<Rightarrow> True | Some s \<Rightarrow> pv_fence s = fence \<and> pv_requestVersion s = pb_requestVersion b
     \<and> pv_attemptId s = pb_attemptId b \<and> pv_seq s = pb_seq b \<and> pv_draft s = pb_draft b)"

text \<open>Nothing of a snapshot is newer than sequence number \<open>n\<close> and request version \<open>v\<close>.\<close>

definition within :: "int \<Rightarrow> int \<Rightarrow> int \<Rightarrow> preview_snapshot option \<Rightarrow> bool" where
  "within fence n v X = (case X of None \<Rightarrow> True | Some s \<Rightarrow> pv_fence s = fence \<and> pv_seq s \<le> n \<and> pv_requestVersion s \<le> v)"

lemma receive_within:
  "within fence n v X \<Longrightarrow> pf_seq f \<le> n \<Longrightarrow> pf_requestVersion f \<le> v
    \<Longrightarrow> within fence n v (receive_frame runId fence c ok f X)"
  by (cases X) (simp_all add: within_def receive_frame_def)

lemma deliver_within:
  "within fence n v X \<Longrightarrow> \<forall>f\<in>set Q. pf_seq f \<le> n \<and> pf_requestVersion f \<le> v \<Longrightarrow> within fence n v (deliver runId fence X Q)"
  by (induction Q arbitrary: X) (auto simp: receive_within)

lemma receive_reset:
  "within fence (n - 1) v X \<Longrightarrow> pb_requestVersion b = v \<Longrightarrow>
    receive_frame runId fence v True (frame_of b n ResetFrame []) X
      = Some \<lparr>pv_runId = runId, pv_fence = fence, pv_requestVersion = v, pv_attemptId = pb_attemptId b, pv_seq = n, pv_draft = []\<rparr>"
  by (auto simp: within_def receive_frame_def frame_of_def split: option.splits)

lemma receive_delta:
  assumes "pv_fence s = fence" "pv_requestVersion s = pb_requestVersion b" "pv_attemptId s = pb_attemptId b" "pv_seq s = n"
    and "length (pv_draft s) + length t \<le> 100000"
  shows "receive_frame runId fence (pb_requestVersion b) True (frame_of b (n + 1) DeltaFrame t) (Some s)
    = Some (s\<lparr>pv_seq := n + 1, pv_draft := pv_draft s @ t\<rparr>)"
  using assms by (simp add: receive_frame_def frame_of_def)

lemma receive_delta_hidden: "receive_frame runId fence c ok (frame_of b n DeltaFrame t) None = None"
  by (simp add: receive_frame_def frame_of_def)

lemma deliver_deltas:
  "pv_fence s = fence \<Longrightarrow> pv_requestVersion s = pb_requestVersion b \<Longrightarrow> pv_attemptId s = pb_attemptId b \<Longrightarrow> pv_seq s = n
    \<Longrightarrow> length (pv_draft s) + length (concat ts) \<le> 100000
    \<Longrightarrow> deliver runId fence (Some s) (delta_frames b n ts)
      = Some (s\<lparr>pv_seq := n + int (length ts), pv_draft := pv_draft s @ concat ts\<rparr>)"
proof (induction ts arbitrary: s n)
  case (Cons t ts)
  have "receive_frame runId fence (pb_requestVersion b) True (frame_of b (n + 1) DeltaFrame t) (Some s)
      = Some (s\<lparr>pv_seq := n + 1, pv_draft := pv_draft s @ t\<rparr>)" using Cons.prems by (intro receive_delta) auto
  moreover have "pf_requestVersion (frame_of b (n + 1) DeltaFrame t) = pb_requestVersion b" by (simp add: frame_of_def)
  ultimately show ?case using Cons.IH [of "s\<lparr>pv_seq := n + 1, pv_draft := pv_draft s @ t\<rparr>" "n + 1"] Cons.prems by simp
qed simp

lemma deliver_deltas_hidden: "deliver runId fence None (delta_frames b n ts) = None"
  by (induction ts arbitrary: n) (simp_all add: receive_delta_hidden)

lemma concat_slices: "0 < n \<Longrightarrow> concat (slices n s) = s"
proof (induction n s rule: slices.induct)
  case (1 n s)
  then show ?case by (subst slices.simps) auto
qed

lemma slices_bound: "t \<in> set (slices n s) \<Longrightarrow> length t \<le> n"
proof (induction n s rule: slices.induct)
  case (1 n s)
  from "1.prems" consider "t = take n s" | "\<not> (s = [] \<or> n = 0)" "t \<in> set (slices n (drop n s))"
    by (subst (asm) slices.simps) (auto split: if_splits)
  then show ?case using "1.IH" by cases auto
qed

lemma delta_frames_suffix: "suffix Q (delta_frames b n ts) \<Longrightarrow> \<exists>m us. Q = delta_frames b m us"
proof (induction ts arbitrary: n)
  case Nil
  then show ?case by (metis delta_frames.simps(1) suffix_bot.extremum_uniqueI)
next
  case (Cons t ts)
  from Cons.prems have "Q = delta_frames b n (t # ts) \<or> suffix Q (delta_frames b (n + 1) ts)" by (simp add: suffix_Cons)
  then show ?case using Cons.IH by blast
qed

subsection \<open>What is in flight completes the snapshot\<close>

definition older :: "int \<Rightarrow> preview_frame list \<Rightarrow> preview_snapshot option \<Rightarrow> bool" where
  "older fence Q X = (case X of None \<Rightarrow> True | Some s \<Rightarrow> pv_fence s = fence \<and> (\<forall>f\<in>set Q. pv_seq s < pf_seq f))"

definition channel_ok :: "string \<Rightarrow> int \<Rightarrow> preview_buffer \<Rightarrow> preview_snapshot option \<Rightarrow> preview_frame list \<Rightarrow> bool" where
  "channel_ok runId fence b X Q \<longleftrightarrow>
     sorted_wrt (<) (map pf_seq Q)
     \<and> (\<forall>f\<in>set Q. pf_seq f \<le> pb_seq b \<and> pf_requestVersion f \<le> pb_requestVersion b)
     \<and> within fence (pb_seq b) (pb_requestVersion b) X \<and> older fence Q X
     \<and> shows_draft fence b (deliver runId fence X Q)
     \<and> (\<forall>Q'. suffix Q' Q \<longrightarrow> shows_draft fence b (deliver runId fence None Q'))"

lemma receive_older:
  assumes "older fence (f # Q) X" "sorted_wrt (<) (map pf_seq (f # Q))"
  shows "older fence Q (receive_frame runId fence c ok f X)"
  using assms by (cases X) (simp_all add: older_def receive_frame_def, fastforce)

lemma deliver_older:
  "older fence (Q @ R) X \<Longrightarrow> sorted_wrt (<) (map pf_seq (Q @ R)) \<Longrightarrow> older fence R (deliver runId fence X Q)"
proof (induction Q arbitrary: X)
  case (Cons f Q)
  have "older fence (Q @ R) (receive_frame runId fence (pf_requestVersion f) True f X)"
    using receive_older [of fence f "Q @ R"] Cons.prems by simp
  then show ?case using Cons by simp
qed simp

lemma older_tail: "older fence (Q @ R) X \<Longrightarrow> older fence Q X"
  by (cases X) (simp_all add: older_def)

lemma older_None [simp]: "older fence Q None" "within fence n v None" "shows_draft fence b None"
  by (simp_all add: older_def within_def shows_draft_def)

lemma channel_suffix: "channel_ok runId fence b X Q \<Longrightarrow> suffix R Q \<Longrightarrow> channel_ok runId fence b None R"
  unfolding channel_ok_def by (auto simp: suffix_def sorted_wrt_append)

text \<open>Reception of the next frame, with any request version and verdict.\<close>

lemma channel_receive:
  assumes "channel_ok runId fence b X (f # Q)"
  shows "channel_ok runId fence b (receive_frame runId fence c ok f X) Q"
proof (cases "c = pf_requestVersion f \<and> ok")
  case True
  then show ?thesis using assms receive_within [of fence "pb_seq b" "pb_requestVersion b" X f] receive_older [of fence f Q X]
    unfolding channel_ok_def by (auto intro: suffix_ConsI)
next
  case False
  then have "receive_frame runId fence c ok f X = None" by (auto simp: receive_frame_def)
  then show ?thesis using channel_suffix [OF assms, of Q] by (simp add: suffix_ConsI)
qed

subsection \<open>A new generation of frames\<close>

lemma delta_frames_props:
  "f \<in> set (delta_frames b n ts) \<Longrightarrow> n < pf_seq f \<and> pf_seq f \<le> n + int (length ts)
    \<and> pf_requestVersion f = pb_requestVersion b \<and> pf_attemptId f = pb_attemptId b \<and> pf_kind f = DeltaFrame \<and> pf_text f \<in> set ts"
  by (induction ts arbitrary: n) (auto simp: frame_of_def, force+)

lemma delta_frames_sorted: "sorted_wrt (<) (map pf_seq (delta_frames b n ts))"
  by (induction ts arbitrary: n) (auto simp: frame_of_def dest: delta_frames_props)

lemma fresh_channel:
  assumes pending: "pb_pending b = frame_of b (n + 1) ResetFrame [] # delta_frames b (n + 1) ts"
    and "pb_seq b = n + 1 + int (length ts)" "concat ts = pb_draft b" "length (pb_draft b) \<le> 100000"
    and W: "sorted_wrt (<) (map pf_seq W)" "\<forall>f\<in>set W. pf_seq f \<le> n \<and> pf_requestVersion f \<le> pb_requestVersion b"
    and X: "within fence n (pb_requestVersion b) X" "older fence W X"
  shows "channel_ok runId fence b X (W @ pb_pending b)"
proof -
  let ?P = "pb_pending b" let ?v = "pb_requestVersion b"
  have P: "n < pf_seq f" "pf_seq f \<le> pb_seq b" "pf_requestVersion f = ?v" if "f \<in> set ?P" for f
    using that delta_frames_props [of f b "n + 1" ts] assms(2) unfolding pending by (auto simp: frame_of_def)
  have sorted: "sorted_wrt (<) (map pf_seq ?P)"
    unfolding pending using delta_frames_sorted [of b "n + 1" ts] delta_frames_props [of _ b "n + 1" ts] by (auto simp: frame_of_def)
  have fresh: "shows_draft fence b (deliver runId fence Y ?P)" if Y: "within fence n ?v Y" for Y
  proof -
    have "within fence (n + 1 - 1) ?v Y" using Y by simp
    note start = receive_reset [OF this refl, of runId]
    show ?thesis unfolding pending using assms(2-4) start
      by (simp add: deliver_deltas shows_draft_def) (simp add: frame_of_def deliver_deltas)
  qed
  have "deliver runId fence None Q' = None" if "suffix Q' (delta_frames b (n + 1) ts)" for Q'
    using delta_frames_suffix [OF that] deliver_deltas_hidden by auto
  note hidden = this
  have "shows_draft fence b (deliver runId fence None Q')" if suf: "suffix Q' (W @ ?P)" for Q'
  proof -
    consider W' where "suffix W' W" "Q' = W' @ ?P" | "suffix Q' (delta_frames b (n + 1) ts)"
      using suf unfolding suffix_append pending by (auto simp: suffix_Cons)
    then show ?thesis
    proof cases
      case 1
      have "within fence n ?v (deliver runId fence None W')"
        using W(2) set_mono_suffix [OF 1(1)] by (intro deliver_within) auto
      then show ?thesis unfolding 1(2) deliver_simps(3) by (rule fresh)
    qed (simp add: hidden)
  qed
  moreover have "within fence (pb_seq b) ?v X" using X(1) assms(2) by (cases X) (auto simp: within_def)
  moreover have "older fence (W @ ?P) X" using X P by (cases X) (fastforce simp: older_def within_def)+
  moreover have "sorted_wrt (<) (map pf_seq (W @ ?P))" using W sorted P by (fastforce simp: sorted_wrt_append)
  moreover have "pf_seq f \<le> pb_seq b \<and> pf_requestVersion f \<le> ?v" if "f \<in> set (W @ ?P)" for f
    using that W P assms(2) by fastforce
  moreover have "shows_draft fence b (deliver runId fence X (W @ ?P))" using fresh deliver_within [OF X(1) W(2)] by simp
  ultimately show ?thesis unfolding channel_ok_def by blast
qed

subsection \<open>Text appended to the draft\<close>

definition same_attempt :: "preview_buffer \<Rightarrow> preview_buffer \<Rightarrow> bool" where
  "same_attempt b b' = (pb_requestVersion b' = pb_requestVersion b \<and> pb_attemptId b' = pb_attemptId b)"

lemma shows_append:
  assumes "shows_draft fence b Y" "same_attempt b b'" "pb_seq b' = pb_seq b + 1" "pb_draft b' = pb_draft b @ t"
    and "length (pb_draft b') \<le> 100000"
  shows "shows_draft fence b' (receive_frame runId fence (pb_requestVersion b) True (frame_of b (pb_seq b + 1) DeltaFrame t) Y)"
proof (cases Y)
  case (Some s)
  then have "receive_frame runId fence (pb_requestVersion b) True (frame_of b (pb_seq b + 1) DeltaFrame t) (Some s)
      = Some (s\<lparr>pv_seq := pb_seq b + 1, pv_draft := pv_draft s @ t\<rparr>)"
    using assms by (intro receive_delta) (simp_all add: shows_draft_def)
  then show ?thesis using Some assms by (simp add: shows_draft_def same_attempt_def)
qed (simp add: receive_delta_hidden)

lemma channel_append:
  assumes ok: "channel_ok runId fence b X Q" and b': "same_attempt b b'" "pb_seq b' = pb_seq b + 1" "pb_draft b' = pb_draft b @ t"
    and len: "length (pb_draft b') \<le> 100000"
  shows "channel_ok runId fence b' X (Q @ [frame_of b (pb_seq b + 1) DeltaFrame t])"
proof -
  let ?f = "frame_of b (pb_seq b + 1) DeltaFrame t"
  have f: "pf_seq ?f = pb_seq b + 1" "pf_requestVersion ?f = pb_requestVersion b" by (simp_all add: frame_of_def)
  have v: "pb_requestVersion b' = pb_requestVersion b" using b'(1) by (simp add: same_attempt_def)
  have shows': "shows_draft fence b' (deliver runId fence Y (Q' @ [?f]))" if "shows_draft fence b (deliver runId fence Y Q')" for Y Q'
    using shows_append [OF that b' len, of runId] f by simp
  have "shows_draft fence b' (deliver runId fence None Q')" if "suffix Q' (Q @ [?f])" for Q'
  proof -
    from that consider "Q' = []" | Q'' where "Q' = Q'' @ [?f]" "suffix Q'' Q" by (auto simp: suffix_snoc)
    then show ?thesis
    proof cases
      case 2
      then show ?thesis using shows' [of None Q''] ok unfolding channel_ok_def by blast
    qed simp
  qed
  moreover have "shows_draft fence b' (deliver runId fence X (Q @ [?f]))" using shows' ok unfolding channel_ok_def by blast
  moreover have "sorted_wrt (<) (map pf_seq (Q @ [?f]))" using ok f unfolding channel_ok_def by (fastforce simp: sorted_wrt_append)
  moreover have "within fence (pb_seq b') (pb_requestVersion b') X" using ok b'(2) v unfolding channel_ok_def
    by (cases X) (auto simp: within_def)
  moreover have "older fence (Q @ [?f]) X" using ok f unfolding channel_ok_def by (cases X) (auto simp: older_def within_def)
  moreover have "\<forall>g\<in>set (Q @ [?f]). pf_seq g \<le> pb_seq b' \<and> pf_requestVersion g \<le> pb_requestVersion b'"
    using ok f b'(2) v unfolding channel_ok_def by fastforce
  ultimately show ?thesis unfolding channel_ok_def by blast
qed

lemma shows_extend:
  assumes l: "pf_kind l = DeltaFrame" "pf_requestVersion l = pb_requestVersion b" "pf_attemptId l = pb_attemptId b"
    and Y: "older fence [l] Y" and sh: "shows_draft fence b (receive_frame runId fence (pb_requestVersion b) True l Y)"
    and b': "same_attempt b b'" "pb_seq b' = pb_seq b" "pb_draft b' = pb_draft b @ t" "length (pb_draft b') \<le> 100000"
    and seq: "pf_seq l \<le> pb_seq b"
  shows "shows_draft fence b' (receive_frame runId fence (pb_requestVersion b) True (l\<lparr>pf_text := pf_text l @ t\<rparr>) Y)"
proof (cases Y)
  case (Some s)
  show ?thesis
  proof (cases "receive_frame runId fence (pb_requestVersion b) True l Y")
    case None
    then show ?thesis using l Y Some by (auto simp: receive_frame_def older_def split: if_splits)
  next
    case (Some r)
    note r = this
    show ?thesis
    proof (cases "pv_requestVersion s > pf_requestVersion l")
      case True
      then have "r = s" using r \<open>Y = Some s\<close> by (simp add: receive_frame_def l)
      then show ?thesis using sh r True l by (simp add: shows_draft_def)
    next
      case False
      then have "pv_fence s = fence" "pv_requestVersion s = pf_requestVersion l" "pv_attemptId s = pf_attemptId l"
        "pf_seq l = pv_seq s + 1" "r = s\<lparr>pv_seq := pf_seq l, pv_draft := pv_draft s @ pf_text l\<rparr>"
        using r \<open>Y = Some s\<close> l Y by (auto simp: receive_frame_def older_def split: if_splits)
      then show ?thesis using sh r b' l \<open>Y = Some s\<close>
        by (auto simp: receive_frame_def shows_draft_def same_attempt_def)
    qed
  qed
qed (simp add: receive_frame_def l)

lemma channel_extend:
  assumes ok: "channel_ok runId fence b X (Q @ [l])"
    and l: "pf_kind l = DeltaFrame" "pf_requestVersion l = pb_requestVersion b" "pf_attemptId l = pb_attemptId b"
    and b': "same_attempt b b'" "pb_seq b' = pb_seq b" "pb_draft b' = pb_draft b @ t" "length (pb_draft b') \<le> 100000"
  shows "channel_ok runId fence b' X (Q @ [l\<lparr>pf_text := pf_text l @ t\<rparr>])"
proof -
  let ?l = "l\<lparr>pf_text := pf_text l @ t\<rparr>"
  have v: "pb_requestVersion b' = pb_requestVersion b" using b'(1) by (simp add: same_attempt_def)
  have seq: "pf_seq l \<le> pb_seq b" using ok by (simp add: channel_ok_def)
  have shows': "shows_draft fence b' (deliver runId fence Y (Q' @ [?l]))"
    if "shows_draft fence b (deliver runId fence Y (Q' @ [l]))" "older fence (Q' @ [l]) Y" "sorted_wrt (<) (map pf_seq (Q' @ [l]))" for Y Q'
    using shows_extend [OF l deliver_older [OF that(2,3)] _ b' seq] that(1) l(2) by simp
  have "shows_draft fence b' (deliver runId fence None Q')" if "suffix Q' (Q @ [?l])" for Q'
  proof -
    from that consider "Q' = []" | Q'' where "Q' = Q'' @ [?l]" "suffix Q'' Q" by (auto simp: suffix_snoc)
    then show ?thesis
    proof cases
      case 2
      then have suf: "suffix (Q'' @ [l]) (Q @ [l])" by simp
      then have "sorted_wrt (<) (map pf_seq (Q'' @ [l]))" using ok
        unfolding channel_ok_def by (auto simp: suffix_def sorted_wrt_append)
      then show ?thesis using 2(1) shows' [of None Q''] ok suf unfolding channel_ok_def by auto
    qed simp
  qed
  moreover have "shows_draft fence b' (deliver runId fence X (Q @ [?l]))" using shows' ok unfolding channel_ok_def by blast
  moreover have "older fence (Q @ [?l]) X" using ok unfolding channel_ok_def by (cases X) (auto simp: older_def)
  ultimately show ?thesis using ok b'(2) v unfolding channel_ok_def by (auto simp del: deliver_simps)
qed

subsection \<open>The buffer's operations\<close>

text \<open>A frame \<open>isPreviewFrame\<close> accepts as long as its sequence number is a safe integer.\<close>

definition frame_ok :: "preview_frame \<Rightarrow> bool" where
  "frame_ok f = (0 < pf_requestVersion f \<and> pf_requestVersion f \<le> max_safe \<and> 0 < pf_seq f \<and> pf_attemptId f \<noteq> [] \<and> length (pf_attemptId f) \<le> 256
     \<and> length (pf_text f) \<le> 16384 \<and> (pf_kind f = ResetFrame \<longrightarrow> pf_text f = []))"

lemma frame_ok_valid: "frame_ok f \<Longrightarrow> isPreviewFrame f = (pf_seq f \<le> max_safe)"
  by (cases "pf_kind f") (auto simp: frame_ok_def isPreviewFrame_def safe_int_def max_safe_def)

definition buffer_ok :: "preview_buffer \<Rightarrow> bool" where
  "buffer_ok b = (0 \<le> pb_seq b \<and> 0 < pb_requestVersion b \<and> pb_requestVersion b \<le> max_safe \<and> length (pb_attemptId b) \<le> 256
     \<and> (pb_enabled b \<longrightarrow> pb_attemptId b \<noteq> []) \<and> length (pb_draft b) \<le> 100000
     \<and> (\<forall>f\<in>set (pb_pending b). frame_ok f \<and> pf_requestVersion f = pb_requestVersion b \<and> pf_attemptId f = pb_attemptId b))"

definition buffer_step :: "string \<Rightarrow> int \<Rightarrow> preview_buffer \<Rightarrow> preview_buffer \<Rightarrow> bool" where
  "buffer_step runId fence b b' \<longleftrightarrow> buffer_ok b' \<and> pb_consumer b' = pb_consumer b \<and> pb_generation b \<le> pb_generation b'
     \<and> (if pb_generation b' = pb_generation b
        then \<forall>X W. channel_ok runId fence b X (W @ pb_pending b) \<longrightarrow> channel_ok runId fence b' X (W @ pb_pending b')
        else \<forall>X W R. channel_ok runId fence b X (W @ R) \<longrightarrow> channel_ok runId fence b' X (W @ pb_pending b'))"

lemma buffer_step_refl: "buffer_ok b \<Longrightarrow> buffer_step runId fence b b"
  by (simp add: buffer_step_def)

text \<open>Fields nothing in flight depends on.\<close>

lemma channel_fields:
  assumes "same_attempt b b'" "pb_seq b' = pb_seq b" "pb_draft b' = pb_draft b"
  shows "channel_ok runId fence b' X Q = channel_ok runId fence b X Q"
proof -
  have "shows_draft fence b' Y = shows_draft fence b Y" for Y
    using assms by (cases Y) (simp_all add: shows_draft_def same_attempt_def)
  then show ?thesis using assms by (simp add: channel_ok_def same_attempt_def)
qed

lemma fresh_step:
  assumes b: "buffer_ok b" and "pb_generation b < pb_generation b'" "pb_consumer b' = pb_consumer b"
    and v: "pb_requestVersion b \<le> pb_requestVersion b'" "pb_requestVersion b' \<le> max_safe"
    and a: "pb_attemptId b' \<noteq> []" "length (pb_attemptId b') \<le> 256"
    and pending: "pb_pending b' = frame_of b' (pb_seq b + 1) ResetFrame [] # delta_frames b' (pb_seq b + 1) ts"
    and ts: "pb_seq b' = pb_seq b + 1 + int (length ts)" "concat ts = pb_draft b'" "length (pb_draft b') \<le> 100000"
      "\<And>t. t \<in> set ts \<Longrightarrow> length t \<le> 16384"
  shows "buffer_step runId fence b b'"
proof -
  have "frame_ok f \<and> pf_requestVersion f = pb_requestVersion b' \<and> pf_attemptId f = pb_attemptId b'" if "f \<in> set (pb_pending b')" for f
    using that delta_frames_props [of f b' "pb_seq b + 1" ts] b v a ts(4) unfolding pending
    by (auto simp: frame_ok_def frame_of_def buffer_ok_def)
  then have "buffer_ok b'" using b v a ts by (auto simp: buffer_ok_def)
  moreover have "channel_ok runId fence b' X (W @ pb_pending b')" if ok: "channel_ok runId fence b X (W @ R)" for X W R
  proof (rule fresh_channel [OF pending ts(1-3)])
    show "sorted_wrt (<) (map pf_seq W)" using ok by (simp add: channel_ok_def sorted_wrt_append)
    show "\<forall>f\<in>set W. pf_seq f \<le> pb_seq b \<and> pf_requestVersion f \<le> pb_requestVersion b'" using ok v(1) by (force simp: channel_ok_def)
    show "within fence (pb_seq b) (pb_requestVersion b') X" using ok v(1) by (cases X) (auto simp: channel_ok_def within_def)
    show "older fence W X" using ok older_tail by (auto simp: channel_ok_def)
  qed
  ultimately show ?thesis using assms(2,3) by (simp add: buffer_step_def)
qed

lemma reset_step:
  assumes "buffer_ok b" "a \<noteq> []" "length a \<le> 256" "pb_requestVersion b \<le> v" "v \<le> max_safe"
  shows "buffer_step runId fence b (reset_preview a v enabled b)"
proof (cases "pb_closed b")
  case False
  then show ?thesis using assms
    by (intro fresh_step [where ts = "[]"]) (simp_all add: reset_preview_def flush_preview_def frame_of_def)
qed (simp add: reset_preview_def buffer_step_refl assms)

lemma replay_fresh:
  assumes "buffer_ok b" "\<not> pb_closed b" "pb_attemptId b \<noteq> []" "length (pb_draft b) \<le> 100000"
  shows "pb_pending (replay_preview b) = frame_of (replay_preview b) (pb_seq b + 1) ResetFrame []
      # delta_frames (replay_preview b) (pb_seq b + 1) (slices 16384 (pb_draft b))"
    "pb_seq (replay_preview b) = pb_seq b + 1 + int (length (slices 16384 (pb_draft b)))"
    "pb_draft (replay_preview b) = pb_draft b" "same_attempt b (replay_preview b)"
    "pb_generation (replay_preview b) = pb_generation b + 1" "pb_consumer (replay_preview b) = pb_consumer b"
    "pb_enabled (replay_preview b) = pb_enabled b"
proof -
  have f: "frame_of (replay_preview b) n k t = frame_of b n k t" for n k t
    using assms by (simp add: replay_preview_def flush_preview_def frame_of_def Let_def)
  have d: "delta_frames (replay_preview b) n ts = delta_frames b n ts" for n ts
    by (induction ts arbitrary: n) (simp_all add: f)
  show "pb_pending (replay_preview b) = frame_of (replay_preview b) (pb_seq b + 1) ResetFrame []
      # delta_frames (replay_preview b) (pb_seq b + 1) (slices 16384 (pb_draft b))"
    unfolding f d using assms by (simp add: replay_preview_def flush_preview_def Let_def)
qed (use assms in \<open>simp_all add: replay_preview_def flush_preview_def same_attempt_def Let_def\<close>)

lemma push_step:
  assumes b: "buffer_ok b"
  shows "buffer_step runId fence b (push_preview t b)"
proof -
  let ?b1 = "b\<lparr>pb_draft := pb_draft b @ t\<rparr>"
  let ?n = "(if last_delta b then length (pf_text (last (pb_pending b))) else 0) + length t"
  consider (none) "\<not> pb_enabled b \<or> pb_closed b \<or> t = []"
    | (full) "pb_enabled b" "\<not> pb_closed b" "t \<noteq> []" "length (pb_draft b) + length t > 100000"
    | (replay) "pb_enabled b" "\<not> pb_closed b" "t \<noteq> []" "length (pb_draft b) + length t \<le> 100000" "?n > 16384"
    | (extend) "pb_enabled b" "\<not> pb_closed b" "t \<noteq> []" "length (pb_draft b) + length t \<le> 100000" "?n \<le> 16384" "last_delta b"
    | (append) "pb_enabled b" "\<not> pb_closed b" "t \<noteq> []" "length (pb_draft b) + length t \<le> 100000" "?n \<le> 16384" "\<not> last_delta b"
    by linarith
  then show ?thesis
  proof cases
    case none
    then show ?thesis using b by (auto simp: push_preview_def buffer_step_refl)
  next
    case full
    then have "push_preview t b = reset_preview (pb_attemptId b) (pb_requestVersion b) False b" by (simp add: push_preview_def)
    then show ?thesis using reset_step [OF b] b full(1) by (auto simp: buffer_ok_def)
  next
    case replay
    then have e: "push_preview t b = replay_preview ?b1" by (simp add: push_preview_def Let_def)
    have b1: "buffer_ok ?b1" "\<not> pb_closed ?b1" "pb_attemptId ?b1 \<noteq> []" "length (pb_draft ?b1) \<le> 100000"
      using b replay by (auto simp: buffer_ok_def)
    note r = replay_fresh [OF b1]
    show ?thesis unfolding e
    proof (rule fresh_step [OF b, where ts = "slices 16384 (pb_draft ?b1)"])
      show "length u \<le> 16384" if "u \<in> set (slices 16384 (pb_draft ?b1))" for u using slices_bound [OF that] .
      show "concat (slices 16384 (pb_draft ?b1)) = pb_draft (replay_preview ?b1)" using r(3) by (simp add: concat_slices)
    qed (use r b b1 in \<open>simp_all add: same_attempt_def buffer_ok_def\<close>)
  next
    case extend
    let ?l = "last (pb_pending b)"
    have p: "pb_pending b = butlast (pb_pending b) @ [?l]" and k: "pf_kind ?l = DeltaFrame" and m: "?l \<in> set (pb_pending b)"
      using extend(6) by (auto simp: last_delta_def)
    let ?b' = "push_preview t b"
    have f: "pb_pending ?b' = butlast (pb_pending b) @ [?l\<lparr>pf_text := pf_text ?l @ t\<rparr>]" "same_attempt b ?b'" "pb_seq ?b' = pb_seq b"
      "pb_draft ?b' = pb_draft b @ t" "pb_generation ?b' = pb_generation b" "pb_consumer ?b' = pb_consumer b" "pb_enabled ?b' = pb_enabled b"
      using extend by (auto simp: push_preview_def Let_def flush_preview_def same_attempt_def extend_last_def)
    have id: "pf_requestVersion ?l = pb_requestVersion b" "pf_attemptId ?l = pb_attemptId b" "frame_ok ?l" using b m by (auto simp: buffer_ok_def)
    have "frame_ok (?l\<lparr>pf_text := pf_text ?l @ t\<rparr>)" using id(3) extend(5,6) k by (simp add: frame_ok_def)
    then have "buffer_ok ?b'" using b f extend(4) id
      by (auto simp: buffer_ok_def same_attempt_def dest: in_set_butlastD)
    moreover have "channel_ok runId fence ?b' X (W @ pb_pending ?b')" if "channel_ok runId fence b X (W @ pb_pending b)" for X W
    proof -
      have "channel_ok runId fence b X ((W @ butlast (pb_pending b)) @ [?l])" using that p by (metis append.assoc)
      from channel_extend [OF this k id(1,2) f(2-4)] show ?thesis using f(1,4) extend(4) by simp
    qed
    ultimately show ?thesis using f by (simp add: buffer_step_def)
  next
    case append
    let ?b' = "push_preview t b"
    have f: "pb_pending ?b' = pb_pending b @ [frame_of b (pb_seq b + 1) DeltaFrame t]" "same_attempt b ?b'" "pb_seq ?b' = pb_seq b + 1"
      "pb_draft ?b' = pb_draft b @ t" "pb_generation ?b' = pb_generation b" "pb_consumer ?b' = pb_consumer b" "pb_enabled ?b' = pb_enabled b"
      using append by (auto simp: push_preview_def Let_def flush_preview_def same_attempt_def)
    have "frame_ok (frame_of b (pb_seq b + 1) DeltaFrame t)" using b append by (auto simp: frame_ok_def buffer_ok_def frame_of_def)
    then have "buffer_ok ?b'" using b f append(4) by (auto simp: buffer_ok_def same_attempt_def frame_of_def)
    moreover have "channel_ok runId fence ?b' X (W @ pb_pending ?b')" if "channel_ok runId fence b X (W @ pb_pending b)" for X W
      using channel_append [OF that f(2-4)] f(1,4) append(4) by simp
    ultimately show ?thesis using f by (simp add: buffer_step_def)
  qed
qed

lemma discard_step: "buffer_ok b \<Longrightarrow> buffer_step runId fence b (discard_preview b)"
  using reset_step [of b "pb_attemptId b" "pb_requestVersion b" runId fence False]
  by (auto simp: discard_preview_def buffer_step_refl buffer_ok_def)

lemma close_step:
  assumes "buffer_ok b" shows "buffer_step runId fence b (close_preview b)"
proof -
  have "channel_ok runId fence (close_preview b) X Q = channel_ok runId fence b X Q" for X Q
    by (rule channel_fields) (simp_all add: same_attempt_def close_preview_def flush_preview_def)
  then show ?thesis using assms by (simp add: buffer_step_def close_preview_def flush_preview_def buffer_ok_def)
qed

subsection \<open>The channel\<close>

definition taken :: "preview_system \<Rightarrow> preview_frame list" where
  "taken s = (case sy_reader s of None \<Rightarrow> []
     | Some r \<Rightarrow> if rd_generation r = pb_generation (sy_buffer s) then rd_frames r else [])"

definition system_ok :: "string \<Rightarrow> int \<Rightarrow> preview_system \<Rightarrow> bool" where
  "system_ok runId fence s \<longleftrightarrow> buffer_ok (sy_buffer s)
     \<and> channel_ok runId fence (sy_buffer s) (sy_snapshot s) ((sy_wire s @ taken s) @ pb_pending (sy_buffer s))
     \<and> (\<forall>f\<in>set (sy_wire s). frame_ok f)
     \<and> (case sy_reader s of None \<Rightarrow> True
        | Some r \<Rightarrow> rd_consumer r = pb_consumer (sy_buffer s) \<and> rd_generation r \<le> pb_generation (sy_buffer s) \<and> (\<forall>f\<in>set (rd_frames r). frame_ok f))"

lemma buffer_step_system:
  assumes ok: "system_ok runId fence s" and st: "buffer_step runId fence (sy_buffer s) b'"
  shows "system_ok runId fence (s\<lparr>sy_buffer := b'\<rparr>)"
proof (cases "pb_generation b' = pb_generation (sy_buffer s)")
  case True
  then have "taken (s\<lparr>sy_buffer := b'\<rparr>) = taken s" by (simp add: taken_def cong: option.case_cong)
  moreover have "channel_ok runId fence b' (sy_snapshot s) ((sy_wire s @ taken s) @ pb_pending b')"
    using ok st True unfolding system_ok_def buffer_step_def by (simp del: append_assoc)
  ultimately show ?thesis using ok st True by (auto simp: system_ok_def buffer_step_def split: option.splits)
next
  case False
  then have "taken (s\<lparr>sy_buffer := b'\<rparr>) = []" using ok st
    by (auto simp: taken_def system_ok_def buffer_step_def split: option.splits)
  moreover have "channel_ok runId fence b' (sy_snapshot s) (sy_wire s @ pb_pending b')"
    using ok st False unfolding system_ok_def buffer_step_def by (metis append.assoc)
  ultimately show ?thesis using ok st by (auto simp: system_ok_def buffer_step_def split: option.splits)
qed

lemma system_receive:
  assumes ok: "system_ok runId fence s" and w: "sy_wire s = f # w"
  shows "system_ok runId fence (s\<lparr>sy_wire := w, sy_snapshot := receive_frame runId fence c permitted f (sy_snapshot s)\<rparr>)"
proof -
  have "taken (s\<lparr>sy_wire := w, sy_snapshot := x\<rparr>) = taken s" for x by (cases "sy_reader s") (simp_all add: taken_def)
  then show ?thesis using ok w channel_receive [of runId fence "sy_buffer s" "sy_snapshot s" f "(w @ taken s) @ pb_pending (sy_buffer s)"]
    by (cases "sy_reader s") (simp_all add: system_ok_def)
qed

lemma recover_ok:
  assumes b: "buffer_ok b" and ok: "channel_ok runId fence b X (Q @ pb_pending b)"
  shows "buffer_ok (recover_preview b) \<and> channel_ok runId fence (recover_preview b) None (pb_pending (recover_preview b))"
proof -
  let ?c = "b\<lparr>pb_consumer := pb_consumer b + 1\<rparr>"
  have c: "buffer_ok ?c" using b by (simp add: buffer_ok_def)
  have tail: "channel_ok runId fence b None (pb_pending b)" using channel_suffix [OF ok] by (simp add: suffix_def)
  show ?thesis
  proof (cases "pb_closed b \<or> pb_attemptId b = []")
    case True
    then have "same_attempt b (recover_preview b)" "pb_seq (recover_preview b) = pb_seq b" "pb_draft (recover_preview b) = pb_draft b"
      "pb_pending (recover_preview b) = pb_pending b" "pb_enabled (recover_preview b) = pb_enabled b"
      by (auto simp: recover_preview_def replay_preview_def flush_preview_def same_attempt_def)
    note r = this
    have "channel_ok runId fence (recover_preview b) None (pb_pending (recover_preview b))"
      using tail channel_fields [OF r(1-3)] r(4) by simp
    moreover have "buffer_ok (recover_preview b)" using b r by (simp add: buffer_ok_def same_attempt_def)
    ultimately show ?thesis by blast
  next
    case False
    then have p: "\<not> pb_closed ?c" "pb_attemptId ?c \<noteq> []" "length (pb_draft ?c) \<le> 100000" using b by (auto simp: buffer_ok_def)
    note r = replay_fresh [OF c p]
    have "buffer_step runId fence ?c (replay_preview ?c)"
    proof (rule fresh_step [OF c, where ts = "slices 16384 (pb_draft ?c)"])
      show "length u \<le> 16384" if "u \<in> set (slices 16384 (pb_draft ?c))" for u using slices_bound [OF that] .
      show "concat (slices 16384 (pb_draft ?c)) = pb_draft (replay_preview ?c)" using r(3) by (simp add: concat_slices)
    qed (use r b p in \<open>simp_all add: same_attempt_def buffer_ok_def\<close>)
    moreover have "channel_ok runId fence ?c None ([] @ pb_pending b)"
      using tail channel_fields [of b ?c] by (simp add: same_attempt_def)
    ultimately have "buffer_ok (replay_preview ?c)" "channel_ok runId fence (replay_preview ?c) None ([] @ pb_pending (replay_preview ?c))"
      unfolding buffer_step_def r(5) by (auto simp del: append_Nil)
    then show ?thesis by (simp add: recover_preview_def)
  qed
qed

lemma preview_step_ok: "preview_step runId fence s s' \<Longrightarrow> system_ok runId fence s \<Longrightarrow> system_ok runId fence s'"
proof (induction rule: preview_step.induct)
  case (attempt a s v enabled)
  then show ?case by (intro buffer_step_system reset_step) (auto simp: system_ok_def)
next
  case (text_delta s t)
  then show ?case by (intro buffer_step_system push_step) (auto simp: system_ok_def)
next
  case (discard s)
  then show ?case by (intro buffer_step_system discard_step) (auto simp: system_ok_def)
next
  case (close s)
  then show ?case by (intro buffer_step_system close_step) (auto simp: system_ok_def)
next
  case (connect s b r)
  then have b: "b = (sy_buffer s)\<lparr>pb_consumer := pb_consumer (sy_buffer s) + 1\<rparr>" "rd_consumer r = pb_consumer b"
    "rd_frames r = []" "rd_generation r = pb_generation b" by (auto simp: open_reader_def Let_def)
  have "taken s = []" "taken (s\<lparr>sy_buffer := b, sy_reader := Some r\<rparr>) = []" using connect(1) b by (simp_all add: taken_def)
  moreover have "channel_ok runId fence b X Q = channel_ok runId fence (sy_buffer s) X Q" for X Q
    by (rule channel_fields) (simp_all add: b(1) same_attempt_def)
  moreover have "buffer_ok b = buffer_ok (sy_buffer s)" "pb_pending b = pb_pending (sy_buffer s)" by (simp_all add: b(1) buffer_ok_def)
  ultimately show ?case using connect b by (simp add: system_ok_def)
next
  case (take_all s r b r')
  then have b: "b = (sy_buffer s)\<lparr>pb_pending := []\<rparr>" "rd_frames r' = pb_pending (sy_buffer s)"
    "rd_generation r' = pb_generation b" "rd_consumer r' = pb_consumer b" by (auto simp: take_frames_def split: if_splits)
  have "taken s = []" "taken (s\<lparr>sy_buffer := b, sy_reader := Some r'\<rparr>) = pb_pending (sy_buffer s)"
    using take_all b by (simp_all add: taken_def)
  moreover have "channel_ok runId fence b X Q = channel_ok runId fence (sy_buffer s) X Q" for X Q
    by (rule channel_fields) (simp_all add: b(1) same_attempt_def)
  moreover have "buffer_ok b" "pb_pending b = []" "\<forall>f\<in>set (pb_pending (sy_buffer s)). frame_ok f"
    using take_all by (auto simp: b(1) buffer_ok_def system_ok_def)
  ultimately show ?case using take_all b by (simp add: system_ok_def)
next
  case (yield s r f)
  then obtain fs where r: "rd_frames r = f # fs" "rd_generation r = pb_generation (sy_buffer s)"
    by (auto simp: next_frame_def split: list.splits if_splits)
  have "taken s = f # fs" "taken (s\<lparr>sy_reader := Some (r\<lparr>rd_frames := tl (rd_frames r)\<rparr>), sy_wire := sy_wire s @ [f]\<rparr>) = fs"
    using yield r by (simp_all add: taken_def)
  then show ?case using yield r by (simp add: system_ok_def)
next
  case (leave s r)
  have "taken s = []" "taken (s\<lparr>sy_reader := Some (r\<lparr>rd_frames := []\<rparr>)\<rparr>) = []"
    using leave by (auto simp: taken_def next_frame_def system_ok_def split: list.splits if_splits)
  then show ?case using leave by (simp add: system_ok_def)
next
  case (receive s f w current permitted)
  then show ?case by (intro system_receive)
next
  case (broken s)
  have "buffer_ok (recover_preview (sy_buffer s)) \<and> channel_ok runId fence (recover_preview (sy_buffer s)) None
      (pb_pending (recover_preview (sy_buffer s)))"
    using broken recover_ok unfolding system_ok_def by blast
  then show ?case by (simp add: system_ok_def taken_def)
qed

lemma preview_start_ok: "system_ok runId fence preview_start"
  by (simp add: system_ok_def preview_start_def taken_def buffer_ok_def new_preview_def channel_ok_def max_safe_def)

interpretation previews: transition_system "\<lambda>s. s = preview_start" "preview_step runId fence" "system_ok runId fence" for runId fence
  by unfold_locales (auto simp: preview_start_ok intro: preview_step_ok)

text \<open>C27: readers see the draft. Whatever the runtime pushes, discards and restarts, however its uploads
  fail and reconnect, a reader that shows a draft and has nothing left in flight shows exactly the text
  of the current attempt, its attempt id, request version and sequence number; and every frame the worker
  sends passes the check of the control plane.\<close>

theorem preview_converges:
  assumes "(preview_step runId fence)\<^sup>*\<^sup>* preview_start s"
  shows "(sy_wire s = [] \<and> taken s = [] \<and> pb_pending (sy_buffer s) = [] \<longrightarrow>
      (\<forall>p. sy_snapshot s = Some p \<longrightarrow> pv_draft p = pb_draft (sy_buffer s) \<and> pv_attemptId p = pb_attemptId (sy_buffer s)
        \<and> pv_requestVersion p = pb_requestVersion (sy_buffer s) \<and> pv_seq p = pb_seq (sy_buffer s)))
    \<and> (\<forall>f\<in>set (sy_wire s). pf_seq f \<le> max_safe \<longrightarrow> isPreviewFrame f)"
proof -
  have "system_ok runId fence s" using previews.reachable_inv [OF refl assms] .
  then show ?thesis by (auto simp: system_ok_def channel_ok_def shows_draft_def frame_ok_valid)
qed

definition sample_preview :: preview_system where
  "sample_preview = \<lparr>sy_buffer = push_preview ''Hello'' (reset_preview ''work:1:model:1'' 1 True new_preview), sy_reader = None,
     sy_wire = [], sy_snapshot = None\<rparr>"

lemma sample_preview_reachable: "(preview_step runId fence)\<^sup>*\<^sup>* preview_start sample_preview"
proof -
  let ?a = "preview_start\<lparr>sy_buffer := reset_preview ''work:1:model:1'' 1 True new_preview\<rparr>"
  have "preview_step runId fence preview_start ?a"
    using preview_step.attempt [of "''work:1:model:1''" preview_start 1 runId fence True]
    by (simp add: preview_start_def new_preview_def max_safe_def)
  moreover have "preview_step runId fence ?a sample_preview"
    using preview_step.text_delta [of runId fence ?a "''Hello''"] by (simp add: sample_preview_def preview_start_def)
  ultimately show ?thesis by (meson converse_rtranclp_into_rtranclp rtranclp.rtrancl_refl)
qed

subsection \<open>Recovery\<close>

text \<open>The frames taken are sent, and the frames sent are received.\<close>

lemma send_all:
  "sy_reader s = Some r \<Longrightarrow> rd_consumer r = pb_consumer (sy_buffer s) \<Longrightarrow> rd_generation r = pb_generation (sy_buffer s) \<Longrightarrow>
    (preview_step runId fence)\<^sup>*\<^sup>* s (s\<lparr>sy_reader := Some (r\<lparr>rd_frames := []\<rparr>), sy_wire := sy_wire s @ rd_frames r\<rparr>)"
proof (induction "rd_frames r" arbitrary: s r)
  case Nil
  have "s\<lparr>sy_reader := Some (r\<lparr>rd_frames := []\<rparr>), sy_wire := sy_wire s @ rd_frames r\<rparr> = s"
    using Nil by (cases s; cases r) simp
  then show ?case by simp
next
  case (Cons f fs)
  let ?r = "r\<lparr>rd_frames := fs\<rparr>" let ?s = "s\<lparr>sy_reader := Some ?r, sy_wire := sy_wire s @ [f]\<rparr>"
  have "next_frame (sy_buffer s) r = Some f" using Cons.hyps(2) Cons.prems by (simp add: next_frame_def Cons.hyps(2) [symmetric])
  from preview_step.yield [OF Cons.prems(1) this, of runId fence] have "preview_step runId fence s ?s"
    by (simp add: Cons.hyps(2) [symmetric])
  moreover have "(preview_step runId fence)\<^sup>*\<^sup>* ?s (?s\<lparr>sy_reader := Some (?r\<lparr>rd_frames := []\<rparr>), sy_wire := sy_wire ?s @ rd_frames ?r\<rparr>)"
    by (rule Cons.hyps(1)) (use Cons.prems in simp_all)
  ultimately show ?case by (simp add: Cons.hyps(2) [symmetric] converse_rtranclp_into_rtranclp)
qed

lemma receive_all:
  "(preview_step runId fence)\<^sup>*\<^sup>* s (s\<lparr>sy_wire := [], sy_snapshot := deliver runId fence (sy_snapshot s) (sy_wire s)\<rparr>)"
proof (induction "sy_wire s" arbitrary: s)
  case Nil
  have "s\<lparr>sy_wire := [], sy_snapshot := deliver runId fence (sy_snapshot s) (sy_wire s)\<rparr> = s" using Nil by (cases s) simp
  then show ?case by simp
next
  case (Cons f w)
  let ?s = "s\<lparr>sy_wire := w, sy_snapshot := receive_frame runId fence (pf_requestVersion f) True f (sy_snapshot s)\<rparr>"
  have "preview_step runId fence s ?s" by (rule preview_step.receive) (simp add: Cons.hyps(2))
  moreover have "(preview_step runId fence)\<^sup>*\<^sup>* ?s (?s\<lparr>sy_wire := [], sy_snapshot := deliver runId fence (sy_snapshot ?s) (sy_wire ?s)\<rparr>)"
    by (rule Cons.hyps(1)) simp
  ultimately show ?case by (simp add: Cons.hyps(2) [symmetric] converse_rtranclp_into_rtranclp)
qed

lemma deliver_fresh:
  assumes b: "buffer_ok b" "\<not> pb_closed b" "pb_attemptId b \<noteq> []"
  shows "\<exists>p :: preview_snapshot. deliver runId fence None (pb_pending (recover_preview b)) = Some p \<and> pv_draft p = pb_draft b
    \<and> pv_attemptId p = pb_attemptId b"
proof -
  let ?c = "b\<lparr>pb_consumer := pb_consumer b + 1\<rparr>" let ?r = "replay_preview ?c"
  have c: "buffer_ok ?c" "\<not> pb_closed ?c" "pb_attemptId ?c \<noteq> []" "length (pb_draft ?c) \<le> 100000" using b by (auto simp: buffer_ok_def)
  note r = replay_fresh [OF c]
  let ?ts = "slices 16384 (pb_draft ?c)"
  let ?p = "\<lparr>pv_runId = runId, pv_fence = fence, pv_requestVersion = pb_requestVersion ?r, pv_attemptId = pb_attemptId ?r,
      pv_seq = pb_seq b + 1, pv_draft = []\<rparr>"
  have "receive_frame runId fence (pb_requestVersion ?r) True (frame_of ?r (pb_seq b + 1) ResetFrame []) None = Some ?p"
    using receive_reset [of fence "pb_seq b + 1" "pb_requestVersion ?r" None ?r runId] by simp
  moreover have "pf_requestVersion (frame_of ?r (pb_seq b + 1) ResetFrame []) = pb_requestVersion ?r" by (simp add: frame_of_def)
  ultimately have "deliver runId fence None (pb_pending ?r) = deliver runId fence (Some ?p) (delta_frames ?r (pb_seq b + 1) ?ts)"
    unfolding r(1) by simp
  also have "\<dots> = Some (?p\<lparr>pv_seq := pb_seq b + 1 + int (length ?ts), pv_draft := pv_draft ?p @ concat ?ts\<rparr>)"
    by (rule deliver_deltas) (use c(4) in \<open>simp_all add: concat_slices\<close>)
  finally show ?thesis using r(4) by (simp add: recover_preview_def concat_slices same_attempt_def)
qed

lemma recover_run:
  assumes "(preview_step runId fence)\<^sup>*\<^sup>* preview_start s"
    and "\<not> pb_closed (sy_buffer s)" and "pb_attemptId (sy_buffer s) \<noteq> []"
  obtains s' p where "(preview_step runId fence)\<^sup>*\<^sup>* s s'" "sy_snapshot s' = Some p" "pv_draft p = pb_draft (sy_buffer s)"
    "pb_draft (sy_buffer s') = pb_draft (sy_buffer s)" "pv_attemptId p = pb_attemptId (sy_buffer s)"
    "sy_wire s' = []" "pb_pending (sy_buffer s') = []" "taken s' = []"
proof -
  let ?step = "preview_step runId fence"
  have b: "buffer_ok (sy_buffer s)" using previews.reachable_inv [OF refl assms(1)] by (simp add: system_ok_def)
  define b1 where "b1 = recover_preview (sy_buffer s)"
  define b2 where "b2 = b1\<lparr>pb_consumer := pb_consumer b1 + 1\<rparr>"
  define r where "r = \<lparr>rd_consumer = pb_consumer b2, rd_frames = pb_pending b1, rd_generation = pb_generation b2\<rparr>"
  define b3 where "b3 = b2\<lparr>pb_pending := []\<rparr>"
  let ?s1 = "\<lparr>sy_buffer = b1, sy_reader = None, sy_wire = [], sy_snapshot = None\<rparr>"
  let ?s2 = "\<lparr>sy_buffer = b2, sy_reader = Some (r\<lparr>rd_frames := []\<rparr>), sy_wire = [], sy_snapshot = None\<rparr>"
  let ?s3 = "\<lparr>sy_buffer = b3, sy_reader = Some r, sy_wire = [], sy_snapshot = None\<rparr>"
  let ?s4 = "?s3\<lparr>sy_reader := Some (r\<lparr>rd_frames := []\<rparr>), sy_wire := pb_pending b1\<rparr>"
  let ?s5 = "?s4\<lparr>sy_wire := [], sy_snapshot := deliver runId fence None (pb_pending b1)\<rparr>"
  have "?step s ?s1" unfolding b1_def by (rule preview_step.broken)
  moreover have "?step ?s1 ?s2"
    using preview_step.connect [of ?s1 b2 "r\<lparr>rd_frames := []\<rparr>" runId fence] by (simp add: open_reader_def b2_def r_def Let_def)
  moreover have "?step ?s2 ?s3"
    using preview_step.take_all [of ?s2 "r\<lparr>rd_frames := []\<rparr>" b3 r runId fence] by (simp add: take_frames_def b3_def b2_def r_def)
  moreover have "?step\<^sup>*\<^sup>* ?s3 ?s4" using send_all [of ?s3 r runId fence] by (simp add: r_def b3_def)
  moreover have "?step\<^sup>*\<^sup>* ?s4 ?s5" using receive_all [of runId fence ?s4] by simp
  ultimately have "?step\<^sup>*\<^sup>* s ?s5" by (meson converse_rtranclp_into_rtranclp rtranclp_trans)
  moreover obtain p where "deliver runId fence None (pb_pending b1) = Some p" "pv_draft p = pb_draft (sy_buffer s)"
    "pv_attemptId p = pb_attemptId (sy_buffer s)" using deliver_fresh [OF b assms(2,3)] unfolding b1_def by blast
  moreover have "pb_draft b3 = pb_draft (sy_buffer s)"
    by (simp add: b3_def b2_def b1_def recover_preview_def replay_preview_def flush_preview_def Let_def)
  ultimately show thesis by (intro that [of ?s5 p]) (simp_all add: b3_def taken_def)
qed

text \<open>A broken upload is always recoverable. From every reachable state of an open channel whose
  attempt has a name, breaking the upload, connecting again and delivering what the buffer then holds
  makes the reader show the whole draft, without a further change of the draft.\<close>

theorem preview_recovers:
  assumes "(preview_step runId fence)\<^sup>*\<^sup>* preview_start s"
    and "\<not> pb_closed (sy_buffer s)" and "pb_attemptId (sy_buffer s) \<noteq> []"
  shows "\<exists>s' p. (preview_step runId fence)\<^sup>*\<^sup>* s s' \<and> sy_snapshot s' = Some p
    \<and> pv_draft p = pb_draft (sy_buffer s) \<and> pb_draft (sy_buffer s') = pb_draft (sy_buffer s)
    \<and> pv_attemptId p = pb_attemptId (sy_buffer s) \<and> sy_wire s' = [] \<and> pb_pending (sy_buffer s') = []"
  using recover_run [OF assms] by metis

lemma sample_preview_open: "\<not> pb_closed (sy_buffer sample_preview)" "pb_attemptId (sy_buffer sample_preview) \<noteq> []"
  "pb_draft (sy_buffer sample_preview) = ''Hello''"
  by (simp_all add: sample_preview_def push_preview_def reset_preview_def flush_preview_def new_preview_def last_delta_def frame_of_def Let_def)

lemma preview_converges_witness:
  "\<exists>s p. (preview_step ''work'' 1)\<^sup>*\<^sup>* preview_start s \<and> sy_wire s = [] \<and> sy_snapshot s = Some p \<and> pv_draft p \<noteq> []
    \<and> pv_draft p = pb_draft (sy_buffer s) \<and> pv_seq p = pb_seq (sy_buffer s)"
proof -
  obtain s' p where s': "(preview_step ''work'' 1)\<^sup>*\<^sup>* sample_preview s'" "sy_snapshot s' = Some p" "pv_draft p = ''Hello''"
    "sy_wire s' = []" "pb_pending (sy_buffer s') = []" "taken s' = []"
    using recover_run [OF sample_preview_reachable sample_preview_open(1,2)] sample_preview_open(3) by metis
  have reach: "(preview_step ''work'' 1)\<^sup>*\<^sup>* preview_start s'"
    using sample_preview_reachable s'(1) by (rule rtranclp_trans)
  have "pv_draft p \<noteq> []" by (simp add: s'(3))
  moreover have "pv_draft p = pb_draft (sy_buffer s') \<and> pv_seq p = pb_seq (sy_buffer s')"
    using preview_converges [OF reach] s'(2,4,5,6) by blast
  ultimately show ?thesis using s'(2,4) reach by blast
qed

lemma preview_recovers_witness:
  "\<exists>s' p. (preview_step ''work'' 1)\<^sup>*\<^sup>* sample_preview s' \<and> sy_snapshot s' = Some p \<and> pv_draft p = ''Hello''
    \<and> pb_draft (sy_buffer s') = ''Hello'' \<and> pv_attemptId p = ''work:1:model:1'' \<and> sy_wire s' = [] \<and> pb_pending (sy_buffer s') = []"
  using preview_recovers [OF sample_preview_reachable, of "''work''" 1]
  by (simp add: sample_preview_def push_preview_def reset_preview_def flush_preview_def new_preview_def last_delta_def frame_of_def Let_def)

end
