(* ===== verification/ToolOutput.thy ===== *)
theory ToolOutput
  imports Tools JsonParse
begin

text \<open>
  The arguments and the output of the single code tool (runtime/tool.ts) and the references to
  persisted observations (context/observations.ts). The lemmas bound what a tool hands to the
  model: a result that does not fit is replaced by a parseable notice with a prefix of it.
\<close>

subsection \<open>Arguments\<close>

definition parseIPythonArguments :: "string \<Rightarrow> os_error + string" where
  "parseIPythonArguments raw =
     (case json_parse raw of
        None \<Rightarrow> Inl (JsError ''ipython arguments must be strict JSON'')
      | Some (JObj kvs) \<Rightarrow>
          if map fst kvs \<noteq> [''code''] then Inl (JsError ''ipython arguments must contain exactly one property: \"code\"'')
          else (case map_of kvs ''code'' of
              Some (JStr code) \<Rightarrow> if blank code then Inl (JsError ''ipython \"code\" must be a non-empty string'') else Inr code
            | _ \<Rightarrow> Inl (JsError ''ipython \"code\" must be a non-empty string''))
      | Some _ \<Rightarrow> Inl (JsError ''ipython arguments must be a JSON object''))"

subsection \<open>References to observations\<close>

record observation_ref =
  ob_actionKey :: string
  ob_sha256 :: string
  ob_characters :: int

definition ref_json :: "observation_ref \<Rightarrow> json" where
  "ref_json r = JObj [(''actionKey'', JStr (ob_actionKey r)), (''sha256'', JStr (ob_sha256 r)), (''characters'', JNum (ob_characters r))]"

definition observationRef :: "(string \<Rightarrow> string) \<Rightarrow> string \<Rightarrow> json \<Rightarrow> observation_ref" where
  "observationRef hash actionKey value = (let serialized = canonicalJson value in
     \<lparr>ob_actionKey = actionKey, ob_sha256 = hash serialized, ob_characters = int (length serialized)\<rparr>)"

text \<open>A receipt for the model: its action, key and result. The recorded value of a read is trusted to be
  a reference, as the cast in the code does.\<close>

definition ref_of_value :: "json \<Rightarrow> observation_ref" where
  "ref_of_value v = \<lparr>ob_actionKey = (case json_prop v ''actionKey'' of Some (JStr k) \<Rightarrow> k | _ \<Rightarrow> []),
     ob_sha256 = (case json_prop v ''sha256'' of Some (JStr h) \<Rightarrow> h | _ \<Rightarrow> []),
     ob_characters = (case json_prop v ''characters'' of Some (JNum n) \<Rightarrow> n | _ \<Rightarrow> 0)\<rparr>"

definition receiptReferences :: "(string \<Rightarrow> string) \<Rightarrow> (string \<times> string \<times> action_result) list \<Rightarrow> observation_ref list" where
  "receiptReferences hash receipts =
     map (\<lambda>(action, key, result). case hr_value result of None \<Rightarrow> observationRef hash key JNull
         | Some v \<Rightarrow> if action = ''observations.read'' then ref_of_value v else observationRef hash key v)
       (take 64 (filter (\<lambda>(action, key, result). hr_ok result \<and> hr_value result \<noteq> None
          \<and> \<not> starts_with action ''task.'' \<and> action \<noteq> ''catalog.discover'') receipts))"

subsection \<open>Bounded output\<close>

fun fitting_refs :: "int \<Rightarrow> observation_ref list \<Rightarrow> observation_ref list \<Rightarrow> observation_ref list" where
  "fitting_refs maxChars refs [] = refs"
| "fitting_refs maxChars refs (r # rs) =
     (if int (length (stringify (JArr (map ref_json (refs @ [r]))))) > maxChars - 384 then refs
      else fitting_refs maxChars (refs @ [r]) rs)"

definition output_metadata :: "int \<Rightarrow> observation_ref list \<Rightarrow> int \<Rightarrow> jobj" where
  "output_metadata total_chars refs omitted =
     [(''truncated'', JBool True), (''originalCharacters'', JNum total_chars)]
     @ (if refs = [] then [] else [(''observations'', JArr (map ref_json refs)), (''read'', JStr ''observations.read'')])
     @ (if omitted > 0 then [(''omittedReferences'', JNum omitted)] else [])"

definition preview_size :: "int \<Rightarrow> jobj \<Rightarrow> nat" where
  "preview_size maxChars meta = nat (max 0 ((maxChars - int (length (stringify (JObj meta))) - 80) div 2))"

definition serialize_value :: "json option \<Rightarrow> string" where
  "serialize_value v = (case v of None \<Rightarrow> ''null'' | Some w \<Rightarrow> stringify w)"

definition boundedToolOutput :: "json option \<Rightarrow> int \<Rightarrow> observation_ref list \<Rightarrow> os_error + string" where
  "boundedToolOutput value maxChars observations =
     (if \<not> safe_int maxChars \<or> maxChars < 128 then Inl (JsError ''tool output budget must be at least 128 characters'')
      else let serialized = serialize_value value in
        if int (length serialized) \<le> maxChars then Inr serialized
        else let refs = fitting_refs maxChars [] observations;
               meta = output_metadata (int (length serialized)) refs (int (length observations) - int (length refs))
             in Inr (stringify (JObj (meta @ [(''preview'', JStr (take (preview_size maxChars meta) serialized))]))))"

subsection \<open>Lengths of serialised values\<close>

text \<open>Numbers that are not integral are kept as printable text.\<close>

fun printable_numbers :: "json \<Rightarrow> bool" where
  "printable_numbers (JFrac t) = list_all (\<lambda>c. 32 \<le> (of_char c :: nat)) t"
| "printable_numbers (JArr vs) = list_all printable_numbers vs"
| "printable_numbers (JObj kvs) = list_all (\<lambda>(k, v). printable_numbers v) kvs"
| "printable_numbers _ = True"

abbreviation printable :: "string \<Rightarrow> bool" where
  "printable s \<equiv> list_all (\<lambda>c. 32 \<le> (of_char c :: nat)) s"

lemma hex_digit_printable: "d < 16 \<Longrightarrow> 32 \<le> (of_char (hex_digit d) :: nat)"
  by (auto simp: hex_digit_def)

lemma esc_char_printable: "printable (esc_char c)"
  using hex_digit_printable [of "of_char c div 16"] hex_digit_printable [of "of_char c mod 16"]
  by (auto simp: esc_char_def)

lemma quote_printable: "printable (quote s)"
proof -
  have "printable (esc s)" unfolding esc_def by (induction s) (simp_all add: esc_char_printable)
  then show ?thesis by (simp add: quote_def)
qed

lemma join_printable: "list_all printable ts \<Longrightarrow> printable (join_with '','' ts)"
  by (induction "'',''" ts rule: join_with.induct) auto

lemma show_int_printable: "printable (show_int i)"
  using show_nat_digits [of _ "nat i"] show_nat_digits [of _ "nat (- i)"] by (fastforce simp: show_int_def list_all_iff)

lemma stringify_printable: "printable_numbers v \<Longrightarrow> printable (stringify v)"
proof (induction v)
  case (JArr vs)
  then have "printable (join_with '','' (map stringify vs))" by (intro join_printable) (auto simp: list_all_iff)
  then show ?case by simp
next
  case (JObj kvs)
  have "printable (member_text kv)" if "kv \<in> set kvs" for kv
    using JObj that quote_printable by (cases kv) (auto simp: member_text_def list_all_iff)
  then have "printable (join_with '','' (map member_text kvs))" by (intro join_printable) (auto simp: list_all_iff)
  then show ?case unfolding stringify.simps member_text_eq by simp
qed (simp_all add: quote_printable show_int_printable)

lemma esc_printable: "printable s \<Longrightarrow> length (esc s) \<le> 2 * length s"
proof (induction s)
  case (Cons c s)
  then have "length (esc_char c) \<le> 2" by (simp add: esc_char_def)
  with Cons show ?case by (simp add: esc_def)
qed (simp add: esc_def)

lemma length_show_nat: "n < 10 ^ k \<Longrightarrow> 0 < k \<Longrightarrow> length (show_nat n) \<le> k"
proof (induction k arbitrary: n)
  case (Suc k)
  show ?case
  proof (cases "n < 10")
    case True
    then show ?thesis by (subst show_nat.simps) simp
  next
    case False
    then have "n div 10 < 10 ^ k" "0 < k" using Suc.prems by (auto intro: Nat.gr0I)
    then show ?thesis using Suc.IH [of "n div 10"] False by (subst show_nat.simps) simp
  qed
qed simp

lemma length_show_int: "0 \<le> i \<Longrightarrow> i < 10 ^ k \<Longrightarrow> 0 < k \<Longrightarrow> length (show_int i) \<le> k"
proof -
  assume "0 \<le> i" "i < 10 ^ k" "0 < k"
  then have "nat i < 10 ^ k" by (simp add: nat_less_iff)
  from length_show_nat [OF this \<open>0 < k\<close>] \<open>0 \<le> i\<close> show ?thesis by (simp add: show_int_def)
qed

subsection \<open>The output fits\<close>

lemma fitting_refs_prefix:
  "\<exists>ys zs. fitting_refs m refs rs = refs @ ys \<and> rs = ys @ zs"
proof (induction rs arbitrary: refs)
  case (Cons r rs)
  obtain ys zs where "fitting_refs m (refs @ [r]) rs = (refs @ [r]) @ ys" "rs = ys @ zs" using Cons.IH by blast
  then have "fitting_refs m refs (r # rs) = refs @ [] \<or> fitting_refs m refs (r # rs) = refs @ r # ys \<and> r # rs = (r # ys) @ zs" by simp
  then show ?case by (metis append_Nil)
qed simp

lemma fitting_refs_fit:
  assumes "refs = [] \<or> int (length (stringify (JArr (map ref_json refs)))) \<le> m - 384"
  shows "fitting_refs m refs rs = [] \<or> int (length (stringify (JArr (map ref_json (fitting_refs m refs rs))))) \<le> m - 384"
  using assms
proof (induction rs arbitrary: refs)
  case (Cons r rs)
  show ?case
  proof (cases "int (length (stringify (JArr (map ref_json (refs @ [r]))))) > m - 384")
    case True
    then have "fitting_refs m refs (r # rs) = refs" by (simp only: fitting_refs.simps if_True)
    then show ?thesis using Cons.prems by simp
  next
    case False
    then have "fitting_refs m refs (r # rs) = fitting_refs m (refs @ [r]) rs" by (simp only: fitting_refs.simps if_False)
    moreover have "int (length (stringify (JArr (map ref_json (refs @ [r]))))) \<le> m - 384" using False by linarith
    ultimately show ?thesis using Cons.IH [OF disjI2] by metis
  qed
qed (simp only: fitting_refs.simps)

lemma stringify_snoc:
  "kvs \<noteq> [] \<Longrightarrow> length (stringify (JObj (kvs @ [(k, v)]))) = length (stringify (JObj kvs)) + 1 + length (member_text (k, v))"
proof -
  assume "kvs \<noteq> []"
  then have "length (join_with '','' (map member_text kvs @ [member_text (k, v)])) = length (join_with '','' (map member_text kvs)) + 1 + length (member_text (k, v))"
  proof (induction kvs)
    case (Cons kv kvs)
    then show ?case by (cases kvs) auto
  qed simp
  then show ?thesis unfolding stringify.simps member_text_eq by simp
qed

lemma metadata_length:
  assumes "0 \<le> n" "n < 10 ^ 17" "om < 10 ^ 17" "128 \<le> m"
    and refs: "refs = [] \<or> int (length (stringify (JArr (map ref_json refs)))) \<le> m - 384"
  shows "int (length (stringify (JObj (output_metadata n refs om)))) \<le> m - 13"
proof -
  have n: "length (show_int n) \<le> 17" using assms by (intro length_show_int) auto
  have o: "om > 0 \<Longrightarrow> length (show_int om) \<le> 17" using assms by (intro length_show_int) auto
  show ?thesis using n o refs assms(4)
    by (auto simp: output_metadata_def quote_def esc_def esc_char_def)
qed

lemma metadata_parses: "wf_json (JObj (output_metadata n refs om @ [(''preview'', JStr t)]))"
  "integral (JObj (output_metadata n refs om @ [(''preview'', JStr t)]))"
  by (auto simp: output_metadata_def ref_json_def list_all_iff)

text \<open>C30: what a tool returns to the model fits its budget and stays readable. For a budget of at least 128
  characters the output is never longer than the budget; it is the serialised result itself, or, only when
  that does not fit, a JSON notice that parses back, gives the original size, and carries a prefix of the
  serialised result and references to an initial part of the observations.\<close>

theorem tool_output_bounded:
  assumes "128 \<le> m" and "m \<le> max_safe"
    and "case value of None \<Rightarrow> True | Some v \<Rightarrow> printable_numbers v"
    and "length (serialize_value value) < 10 ^ 17" and "length observations < 10 ^ 17"
  shows "\<exists>s. boundedToolOutput value m observations = Inr s \<and> int (length s) \<le> m
    \<and> (s = serialize_value value \<and> int (length (serialize_value value)) \<le> m
       \<or> int (length (serialize_value value)) > m \<and>
         (\<exists>kvs t refs more. json_parse s = Some (JObj kvs) \<and> map_of kvs ''truncated'' = Some (JBool True)
           \<and> map_of kvs ''originalCharacters'' = Some (JNum (int (length (serialize_value value))))
           \<and> map_of kvs ''preview'' = Some (JStr t) \<and> serialize_value value = t @ drop (length t) (serialize_value value)
           \<and> observations = refs @ more
           \<and> map_of kvs ''observations'' = (if refs = [] then None else Some (JArr (map ref_json refs)))))"
proof (cases "int (length (serialize_value value)) \<le> m")
  case True
  then show ?thesis using assms(1,2) by (simp add: boundedToolOutput_def safe_int_def max_safe_def Let_def)
next
  case False
  let ?s = "serialize_value value" let ?refs = "fitting_refs m [] observations"
  let ?meta = "output_metadata (int (length ?s)) ?refs (int (length observations) - int (length ?refs))"
  let ?t = "take (preview_size m ?meta) ?s"
  let ?out = "stringify (JObj (?meta @ [(''preview'', JStr ?t)]))"
  have out: "boundedToolOutput value m observations = Inr ?out"
    using False assms(1,2) by (simp add: boundedToolOutput_def safe_int_def max_safe_def Let_def del: stringify.simps)
  obtain more where refs: "observations = ?refs @ more" using fitting_refs_prefix [of m "[]" observations] by auto
  have "?refs = [] \<or> int (length (stringify (JArr (map ref_json ?refs)))) \<le> m - 384"
    using fitting_refs_fit [of "[]" m observations] by blast
  then have meta: "int (length (stringify (JObj ?meta))) \<le> m - 13"
    using assms by (intro metadata_length) auto
  have "printable ?s" using assms(3) stringify_printable by (auto simp: serialize_value_def split: option.splits)
  then have "printable ?t" by (auto simp: list_all_iff dest: in_set_takeD)
  then have "length (esc ?t) \<le> 2 * preview_size m ?meta" using esc_printable [of ?t] by simp
  then have "int (length (esc ?t)) \<le> max 0 (m - int (length (stringify (JObj ?meta))) - 80)"
    unfolding preview_size_def by linarith
  moreover have "length ?out = length (stringify (JObj ?meta)) + 1 + (12 + length (esc ?t))"
    using stringify_snoc [of ?meta "''preview''" "JStr ?t"]
    by (simp add: output_metadata_def member_text_def quote_def esc_def esc_char_def del: stringify.simps(7))
  ultimately have "int (length ?out) \<le> m" using meta by linarith
  moreover have "json_parse ?out = Some (JObj (?meta @ [(''preview'', JStr ?t)]))"
    by (rule parse_stringify [OF metadata_parses])
  moreover have keys: "map_of (?meta @ [(''preview'', JStr ?t)]) ''truncated'' = Some (JBool True)"
    "map_of (?meta @ [(''preview'', JStr ?t)]) ''originalCharacters'' = Some (JNum (int (length ?s)))"
    "map_of (?meta @ [(''preview'', JStr ?t)]) ''preview'' = Some (JStr ?t)"
    "map_of (?meta @ [(''preview'', JStr ?t)]) ''observations'' = (if ?refs = [] then None else Some (JArr (map ref_json ?refs)))"
    by (simp_all add: output_metadata_def)
  moreover have "?s = ?t @ drop (length ?t) ?s" by (simp add: min_def)
  moreover have "int (length ?s) > m" using False by linarith
  ultimately show ?thesis using out refs by blast
qed

text \<open>A result of 260 characters, with two persisted observations, in a budget of 128 characters.\<close>

definition long_result :: json where
  "long_result = JStr (replicate 258 (CHR ''x''))"

definition sample_refs :: "observation_ref list" where
  "sample_refs = [\<lparr>ob_actionKey = ''k'', ob_sha256 = ''h'', ob_characters = 260\<rparr>, \<lparr>ob_actionKey = ''l'', ob_sha256 = ''h'', ob_characters = 1\<rparr>]"

lemma long_result_length: "length (serialize_value (Some long_result)) = 260"
proof -
  have "esc (replicate n (CHR ''x'')) = replicate n (CHR ''x'')" for n
    by (induction n) (simp_all add: esc_def esc_char_def)
  then show ?thesis by (simp add: serialize_value_def long_result_def quote_def)
qed

lemma tool_output_bounded_witness:
  "\<exists>s. boundedToolOutput (Some long_result) 128 sample_refs = Inr s \<and> int (length s) \<le> 128 \<and> s \<noteq> serialize_value (Some long_result)"
proof -
  have "printable_numbers long_result" by (simp add: long_result_def)
  then obtain s where s: "boundedToolOutput (Some long_result) 128 sample_refs = Inr s" "int (length s) \<le> 128"
    using tool_output_bounded [of 128 "Some long_result" sample_refs] long_result_length
    by (auto simp: max_safe_def sample_refs_def)
  moreover have "s \<noteq> serialize_value (Some long_result)" using s(2) long_result_length by auto
  ultimately show ?thesis by blast
qed

end
