(* ===== verification/Discovery.thy ===== *)
theory Discovery
  imports ToolOutput ContextLoad
begin

text \<open>
  Which tools a turn sees: the execution snapshot of a hop (runtime/execution-policy.ts), the catalog
  the model pages through and the schemas it has discovered (tools/discovery.ts), and the ranges of
  persisted results it may read again (context/observations.ts). The lemmas show that paging
  lists every authorised tool once and that a snapshot only narrows the catalog.
\<close>

subsection \<open>Specifications\<close>

record listed_tool = tool +
  tl_deferred :: bool

definition observation_json :: "string \<times> bool \<Rightarrow> json" where
  "observation_json ob = JObj [(''resourceType'', JStr (fst ob)), (''completeness'', JStr (completeness (snd ob)))]"

definition precondition_json :: "string \<times> string \<Rightarrow> json" where
  "precondition_json p = JObj [(''readAction'', JStr (fst p)), (''resourceType'', JStr (snd p))]"

text \<open>A text that is present and not empty.\<close>

definition truthy_text :: "string \<Rightarrow> string option \<Rightarrow> jobj" where
  "truthy_text k v = (case v of None \<Rightarrow> [] | Some t \<Rightarrow> if t = [] then [] else [(k, JStr t)])"

definition toolSpecification :: "listed_tool \<Rightarrow> json" where
  "toolSpecification t = JObj
     ([(''name'', JStr (tl_name t)), (''action'', JStr (tl_action t)), (''description'', JStr (tl_description t)),
       (''parameters'', tool_parameters (tool.truncate t)), (''effect'', JStr (effect_name (tl_effect t))),
       (''approval'', JBool (tl_approval t))]
      @ truthy_text ''readback'' (tl_readback t) @ truthy_text ''semanticVersion'' (tl_semanticVersion t)
      @ opt_prop ''observation'' (map_option observation_json (tl_observation t))
      @ opt_prop ''preconditions'' (map_option precondition_json (tl_preconditions t))
      @ (if tl_deferred t then [(''deferred'', JBool True)] else [])
      @ opt_prop ''execution'' (tl_execution t))"

subsection \<open>Discovery\<close>

record discovery_query =
  dq_query :: string
  dq_cursor :: int

definition parse_discovery :: "json \<Rightarrow> os_error + discovery_query" where
  "parse_discovery v =
     (case v of
        JObj kvs \<Rightarrow>
          (case (map_of kvs ''query'', map_of kvs ''cursor'') of
             (Some (JStr q), Some (JNum c)) \<Rightarrow>
               if length kvs \<noteq> 2 \<or> length q > 128 \<or> \<not> safe_int c \<or> c < 0 \<or> c > 100000
               then Inl (JsError ''invalid discovery query'') else Inr \<lparr>dq_query = q, dq_cursor = c\<rparr>
           | _ \<Rightarrow> Inl (JsError ''invalid discovery query''))
      | _ \<Rightarrow> Inl (JsError ''invalid discovery query''))"

text \<open>\<open>toLowerCase\<close> on code units below 256.\<close>

definition lower_char :: "char \<Rightarrow> char" where
  "lower_char c = (let n = of_char c :: nat in
     if 65 \<le> n \<and> n \<le> 90 \<or> 192 \<le> n \<and> n \<le> 222 \<and> n \<noteq> 215 then char_of (n + 32) else c)"

definition lower_case :: "string \<Rightarrow> string" where
  "lower_case s = map lower_char s"

definition granted_listed :: "listed_tool list \<Rightarrow> capability_grant list \<Rightarrow> listed_tool list" where
  "granted_listed tools grants =
     filter (\<lambda>t. list_ex (\<lambda>g. covers g (namespace_of (tl_action t)) (method_of (tl_action t))) grants) tools"

text \<open>The filter by mode, which throws for a work item with an unknown mode.\<close>

fun permitted_listed :: "jobj option \<Rightarrow> listed_tool list \<Rightarrow> os_error + listed_tool list" where
  "permitted_listed meta [] = Inr []"
| "permitted_listed meta (t # ts) = bindR (permitsTool meta (tool.truncate t)) (\<lambda>ok.
     bindR (permitted_listed meta ts) (\<lambda>r. Inr (if ok then t # r else r)))"

definition matches_query :: "string \<Rightarrow> listed_tool \<Rightarrow> bool" where
  "matches_query q t = js_includes (lower_case (tl_name t @ '' '' @ tl_description t)) (lower_case q)"

text \<open>The directory a query pages through; \<open>cmp\<close> is \<open>localeCompare\<close>.\<close>

definition directory :: "(string \<Rightarrow> string \<Rightarrow> int) \<Rightarrow> jobj option \<Rightarrow> listed_tool list \<Rightarrow> capability_grant list \<Rightarrow> string
    \<Rightarrow> os_error + listed_tool list" where
  "directory cmp meta tools grants query = bindR (permitted_listed meta (granted_listed tools grants)) (\<lambda>ts.
     Inr (js_sort (\<lambda>a b. cmp (tl_name a) (tl_name b)) (filter (matches_query query) ts)))"

fun select_tools :: "json list \<Rightarrow> listed_tool list \<Rightarrow> os_error + json list" where
  "select_tools selected [] = Inr selected"
| "select_tools selected (t # ts) =
     (let n = toolSpecification t in
      if length (stringify (JArr (selected @ [n]))) > 12000
      then (if selected = [] then Inl (JsError ''tool schema exceeds discovery budget'') else Inr selected)
      else select_tools (selected @ [n]) ts)"

record discovery_page =
  dp_page_tools :: "json list"
  dp_page_next :: "int option"

definition discover_page :: "listed_tool list \<Rightarrow> int \<Rightarrow> os_error + discovery_page" where
  "discover_page available cursor =
     bindR (select_tools [] (take 8 (drop (nat cursor) available))) (\<lambda>selected.
       let n = cursor + int (length selected)
       in Inr \<lparr>dp_page_tools = selected, dp_page_next = if n < int (length available) then Some n else None\<rparr>)"

definition execute_discovery :: "(string \<Rightarrow> string \<Rightarrow> int) \<Rightarrow> jobj option \<Rightarrow> listed_tool list \<Rightarrow> capability_grant list
    \<Rightarrow> discovery_query \<Rightarrow> os_error + discovery_page" where
  "execute_discovery cmp meta tools grants input =
     bindR (directory cmp meta tools grants (dq_query input)) (\<lambda>available. discover_page available (dq_cursor input))"

text \<open>A repeated discovery is refused when one of the tools it returned is no longer available.\<close>

definition authorize_discovery :: "jobj option \<Rightarrow> listed_tool list \<Rightarrow> capability_grant list \<Rightarrow> string list option \<Rightarrow> os_error + unit" where
  "authorize_discovery meta tools grants prior =
     bindR (permitted_listed meta (granted_listed tools grants)) (\<lambda>available.
       if (case prior of None \<Rightarrow> False | Some actions \<Rightarrow> list_ex (\<lambda>a. \<not> list_ex (\<lambda>t. tl_action t = a) available) actions)
       then Inl (JsError ''discovered tool permission was revoked'') else Inr ())"

subsection \<open>Exposed schemas\<close>

text \<open>\<open>for (const x of v ?? [])\<close> over a parsed value; the characters of a text have no properties.\<close>

definition iterate_json :: "json option \<Rightarrow> os_error + json list" where
  "iterate_json v = (case v of None \<Rightarrow> Inr [] | Some JNull \<Rightarrow> Inr [] | Some (JArr vs) \<Rightarrow> Inr vs
     | Some (JStr s) \<Rightarrow> Inr (map (\<lambda>c. JStr [c]) s) | Some _ \<Rightarrow> Inl (JsError ''value is not iterable''))"

definition property_of :: "json \<Rightarrow> string \<Rightarrow> os_error + json option" where
  "property_of v k = (if v = JNull then Inl (JsError ''Cannot read properties of null'') else Inr (json_prop v k))"

text \<open>\<open>v?.k\<close>\<close>

definition maybe_prop :: "json option \<Rightarrow> string \<Rightarrow> json option" where
  "maybe_prop v k = (case v of None \<Rightarrow> None | Some w \<Rightarrow> json_prop w k)"

definition json_truthy :: "json option \<Rightarrow> bool" where
  "json_truthy v = (case v of None \<Rightarrow> False | Some JNull \<Rightarrow> False | Some (JBool b) \<Rightarrow> b | Some (JNum i) \<Rightarrow> i \<noteq> 0
     | Some (JStr s) \<Rightarrow> s \<noteq> [] | _ \<Rightarrow> True)"

fun tool_names :: "json list \<Rightarrow> os_error + string list" where
  "tool_names [] = Inr []"
| "tool_names (t # ts) = bindR (property_of t ''name'') (\<lambda>name. bindR (tool_names ts) (\<lambda>ns.
     Inr (case name of Some (JStr n) \<Rightarrow> n # ns | _ \<Rightarrow> ns)))"

fun receipt_names :: "json list \<Rightarrow> os_error + string list" where
  "receipt_names [] = Inr []"
| "receipt_names (r # rs) = bindR (property_of r ''action'') (\<lambda>action.
     bindR (if action = Some (JStr ''catalog.discover'') \<and> json_truthy (maybe_prop (json_prop r ''result'') ''ok'')
            then bindR (iterate_json (maybe_prop (maybe_prop (json_prop r ''result'') ''value'') ''tools'')) tool_names
            else Inr []) (\<lambda>ns.
     bindR (receipt_names rs) (\<lambda>ms. Inr (ns @ ms))))"

definition step_names :: "execution_step \<Rightarrow> os_error + string list" where
  "step_names step = (if xs_kind step \<noteq> ''catalog__discover'' then Inr []
     else case xs_output step of None \<Rightarrow> Inr []
       | Some out \<Rightarrow> if out = [] then Inr []
           else (case json_parse out of None \<Rightarrow> Inr []
             | Some v \<Rightarrow> bindR (property_of v ''receipts'') (\<lambda>receipts. bindR (iterate_json receipts) receipt_names)))"

fun discovered_names :: "execution_step list \<Rightarrow> os_error + string list" where
  "discovered_names [] = Inr []"
| "discovered_names (x # xs) = bindR (step_names x) (\<lambda>ns. bindR (discovered_names xs) (\<lambda>ms. Inr (ns @ ms)))"

definition exposedTools :: "listed_tool list \<Rightarrow> execution_step list \<Rightarrow> string list \<Rightarrow> os_error + listed_tool list" where
  "exposedTools tools steps discovered = bindR (discovered_names steps) (\<lambda>names.
     Inr (filter (\<lambda>t. \<not> tl_deferred t \<or> tl_name t \<in> set (discovered @ names)) tools))"

subsection \<open>Reading a persisted observation\<close>

record observation_range =
  or_actionKey :: string
  or_sha256 :: string
  or_start :: int
  or_length :: int

definition parse_observation :: "json \<Rightarrow> os_error + observation_range" where
  "parse_observation v =
     (let bad = Inl (JsError ''invalid observation range'') in
      case v of
        JObj kvs \<Rightarrow>
          (case (map_of kvs ''actionKey'', map_of kvs ''sha256'', map_of kvs ''start'', map_of kvs ''length'') of
             (Some (JStr k), Some (JStr h), Some (JNum a), Some (JNum n)) \<Rightarrow>
               if length kvs \<noteq> 4 \<or> length k > 4000 \<or> \<not> is_sha256 h \<or> \<not> safe_int a \<or> a < 0 \<or> \<not> safe_int n \<or> n < 1 \<or> n > 8000
               then bad else Inr \<lparr>or_actionKey = k, or_sha256 = h, or_start = a, or_length = n\<rparr>
           | _ \<Rightarrow> bad)
      | _ \<Rightarrow> bad)"

text \<open>
  What reading depends on: the current request, the tools, and their own parsers and authorisation.
  \<open>or_intent\<close> and \<open>or_result\<close> are the row of the ledger for the key.
\<close>

record observation_env =
  oe_work :: work_item
  oe_requestVersion :: "int option"
  oe_tools :: "tool list"
  oe_allowed :: "string \<Rightarrow> os_error + unit"
  oe_parse :: "string \<Rightarrow> jobj \<Rightarrow> os_error + jobj"
  oe_authorize :: "string \<Rightarrow> host_action \<Rightarrow> jobj \<Rightarrow> os_error + unit"

definition intent_of_request :: "observation_env \<Rightarrow> action_intent \<Rightarrow> bool" where
  "intent_of_request e i = (ai_workId i = wi_id (oe_work e) \<and> ai_tenantId i = wi_tenantId (oe_work e)
     \<and> ai_principalId i = wi_principalId (oe_work e) \<and> ai_agentId i = wi_agentId (oe_work e)
     \<and> ai_sessionId i = wi_sessionId (oe_work e) \<and> ai_threadId i = wi_threadId (oe_work e)
     \<and> ai_requestVersion i = oe_requestVersion e)"

definition readable_result :: "action_result \<Rightarrow> bool" where
  "readable_result r = (hr_ok r \<and> hr_approval r = None \<and> hr_directive r = None \<and> \<not> is_unknown r)"

definition read_observation :: "(string \<Rightarrow> string) \<Rightarrow> observation_env \<Rightarrow> ledger \<Rightarrow> observation_range
    \<Rightarrow> os_error + string \<times> observation_ref" where
  "read_observation hash e l input =
     (let missing = Inl (JsError ''observation expired or unavailable in this request'') in
      case (findIntent (or_actionKey input) l, effectiveResult l (or_actionKey input)) of
        (Some i, Some r) \<Rightarrow>
          (case List.find (\<lambda>t. tl_action t = ha_action (ai_action i)) (oe_tools e) of
             Some t \<Rightarrow>
               if \<not> intent_of_request e i \<or> ai_toolContractHash i \<noteq> Some (toolContractHash hash t) \<or> \<not> readable_result r then missing
               else bindR (oe_allowed e (tl_action t)) (\<lambda>_.
                 bindR (oe_parse e (tl_action t) (ha_args (ai_action i))) (\<lambda>args.
                 bindR (oe_authorize e (tl_action t) (ai_action i) args) (\<lambda>_.
                 let value = (case hr_value r of None \<Rightarrow> JNull | Some v \<Rightarrow> v); serialized = canonicalJson value in
                 if hash serialized \<noteq> or_sha256 input then Inl (JsError ''observation hash mismatch'')
                 else Inr (serialized, observationRef hash (ha_key (ai_action i)) value))))
           | None \<Rightarrow> missing)
      | _ \<Rightarrow> missing)"

record observation_slice =
  os_ref :: observation_ref
  os_start :: int
  os_end :: int
  os_text :: string
  os_next :: "int option"

definition execute_observation :: "(string \<Rightarrow> string) \<Rightarrow> observation_env \<Rightarrow> ledger \<Rightarrow> observation_range
    \<Rightarrow> os_error + observation_slice" where
  "execute_observation hash e l input = bindR (read_observation hash e l input) (\<lambda>(serialized, ref).
     let start = or_start input; n = int (length serialized); stop = min n (start + or_length input)
     in if start > n then Inl (JsError ''observation range exceeds its length'')
        else Inr \<lparr>os_ref = ref, os_start = start, os_end = stop,
          os_text = take (nat (stop - start)) (drop (nat start) serialized), os_next = if stop < n then Some stop else None\<rparr>)"

subsection \<open>The snapshot of a hop\<close>

text \<open>The hash by which the runtime compares the snapshots of two hops is left out.\<close>

definition RESPONSE_UPGRADE :: tool where
  "RESPONSE_UPGRADE = \<lparr>tl_name = ''response__upgrade'', tl_action = ''response.upgrade'',
     tl_description = ''Switch this request permanently to deep reasoning and the full authorized context and tools. Required for mathematical derivation, complex code, source-dependent answers, attachments, external operations, or any uncertain task needing verification. Call before answering; do not invent missing context.'',
     tl_properties = [], tl_required = None, tl_effect = ReadEffect, tl_approval = False, tl_timeoutMs = None, tl_execution = None,
     tl_semanticVersion = None, tl_readback = None, tl_observation = None, tl_preconditions = None\<rparr>"

record execution_snapshot =
  es_mode :: json
  es_codeExecution :: bool
  es_grants :: "capability_grant list"
  es_tools :: "listed_tool list"

text \<open>\<open>new Set\<close> of the namespaces, in order, and the methods of each.\<close>

definition namespaces :: "listed_tool list \<Rightarrow> string list" where
  "namespaces ts = rev (remdups (rev (map (\<lambda>t. namespace_of (tl_action t)) ts)))"

definition snapshot_grants :: "listed_tool list \<Rightarrow> capability_grant list" where
  "snapshot_grants ts = map (\<lambda>n. \<lparr>cg_name = n, cg_methods = Some (map (\<lambda>t. case method_of (tl_action t) of None \<Rightarrow> [] | Some m \<Rightarrow> m)
     (filter (\<lambda>t. starts_with (tl_action t) (n @ ''.'')) ts))\<rparr>) (namespaces ts)"

text \<open>\<open>proposed\<close> are the grants of the runtime policy and \<open>proposedCode\<close> its code execution mode.\<close>

definition executionSnapshot :: "jobj option \<Rightarrow> response_profile \<Rightarrow> listed_tool list option \<Rightarrow> capability_grant list \<Rightarrow> bool
    \<Rightarrow> os_error + execution_snapshot" where
  "executionSnapshot meta profile tools proposed proposedCode =
     bindR (executionMode meta) (\<lambda>mode.
     if profile = FastProfile
     then Inr \<lparr>es_mode = mode, es_codeExecution = False, es_grants = [], es_tools = [tool.extend RESPONSE_UPGRADE \<lparr>tl_deferred = False\<rparr>]\<rparr>
     else bindR (permitted_listed meta (granted_listed (case tools of None \<Rightarrow> [] | Some ts \<Rightarrow> ts) proposed)) (\<lambda>permitted.
       let grants = (if tools = None then (if mode = JStr ''execute'' then proposed else []) else snapshot_grants permitted);
           configured = prop_of meta ''codeExecution'';
           code = (prop_of meta ''executionClass'' \<noteq> Some (JStr ''conversation'') \<and> mode = JStr ''execute''
             \<and> (configured = None \<or> configured = Some (JStr ''enabled'')) \<and> proposedCode)
       in Inr \<lparr>es_mode = mode, es_codeExecution = code, es_grants = grants, es_tools = permitted\<rparr>))"

subsection \<open>Paging\<close>

lemma permitted_listed_set:
  "permitted_listed meta ts = Inr r \<Longrightarrow> set r = {t \<in> set ts. permitsTool meta (tool.truncate t) = Inr True}"
proof (induction ts arbitrary: r)
  case (Cons t ts)
  obtain ok where ok: "permitsTool meta (tool.truncate t) = Inr ok"
    "bindR (permitted_listed meta ts) (\<lambda>r. Inr (if ok then t # r else r)) = Inr r"
    using Cons.prems unfolding permitted_listed.simps(2) bindR_Inr by blast
  then obtain r' where r': "permitted_listed meta ts = Inr r'" "Inr (if ok then t # r' else r') = (Inr r :: os_error + listed_tool list)"
    unfolding bindR_Inr by blast
  then have "(if ok then t # r' else r') = r" by simp
  then have "set r = set (if ok then t # r' else r')" by (rule arg_cong [OF sym])
  then have r: "set r = (if ok then insert t (set r') else set r')" by (simp only: if_distrib [of set] list.set)
  define P where "P t \<longleftrightarrow> permitsTool meta (tool.truncate t) = Inr True" for t :: listed_tool
  have "P t \<longleftrightarrow> ok" using ok(1) by (simp add: P_def)
  moreover have "set r' = {t \<in> set ts. P t}" using Cons.IH [OF r'(1)] by (simp only: P_def)
  ultimately have "set r = {u \<in> set (t # ts). P u}" using r by (cases ok) (simp_all only: if_True if_False list.set simp_thms, blast+)
  then show ?case by (simp only: P_def)
qed simp

lemma select_tools_Inr:
  "select_tools acc ts = Inr r \<Longrightarrow> \<exists>us vs. r = acc @ map toolSpecification us \<and> ts = us @ vs
     \<and> (acc = [] \<and> ts \<noteq> [] \<longrightarrow> us \<noteq> []) \<and> (r = acc \<or> length (stringify (JArr r)) \<le> 12000)"
proof (induction ts arbitrary: acc)
  case (Cons t ts)
  show ?case
  proof (cases "length (stringify (JArr (acc @ [toolSpecification t]))) > 12000")
    case True
    then have "acc \<noteq> [] \<and> r = acc" using Cons.prems by (simp add: Let_def split: if_splits del: stringify.simps)
    then show ?thesis by auto
  next
    case False
    then have "select_tools (acc @ [toolSpecification t]) ts = Inr r" using Cons.prems by (simp add: Let_def del: stringify.simps)
    from Cons.IH [OF this] obtain us vs where u: "r = (acc @ [toolSpecification t]) @ map toolSpecification us" "ts = us @ vs"
      "r = acc @ [toolSpecification t] \<or> length (stringify (JArr r)) \<le> 12000" by blast
    have "length (stringify (JArr r)) \<le> 12000" using u(3) False by (metis not_less)
    then show ?thesis using u(1,2) by (intro exI [of _ "t # us"] exI [of _ vs]) simp
  qed
qed simp

lemma select_tools_returns:
  "\<forall>t\<in>set ts. length (stringify (JArr [toolSpecification t])) \<le> 12000 \<Longrightarrow> \<exists>r. select_tools acc ts = Inr r"
proof (induction ts arbitrary: acc)
  case (Cons t ts)
  show ?case
  proof (cases "length (stringify (JArr (acc @ [toolSpecification t]))) > 12000")
    case True
    then have "acc \<noteq> []" using Cons.prems by auto
    with True show ?thesis by (simp add: Let_def del: stringify.simps)
  next
    case False
    then show ?thesis using Cons.IH [of "acc @ [toolSpecification t]"] Cons.prems by (simp add: Let_def del: stringify.simps)
  qed
qed simp

text \<open>A model that follows \<open>next\<close> from the start.\<close>

fun browse :: "(string \<Rightarrow> string \<Rightarrow> int) \<Rightarrow> jobj option \<Rightarrow> listed_tool list \<Rightarrow> capability_grant list \<Rightarrow> string \<Rightarrow> nat \<Rightarrow> int
    \<Rightarrow> os_error + json list" where
  "browse cmp meta tools grants query 0 cursor = Inr []"
| "browse cmp meta tools grants query (Suc n) cursor =
     bindR (execute_discovery cmp meta tools grants \<lparr>dq_query = query, dq_cursor = cursor\<rparr>) (\<lambda>page.
       case dp_page_next page of None \<Rightarrow> Inr (dp_page_tools page)
       | Some c \<Rightarrow> bindR (browse cmp meta tools grants query n c) (\<lambda>rest. Inr (dp_page_tools page @ rest)))"

lemma discover_page_slice:
  assumes fit: "\<forall>t\<in>set av. length (stringify (JArr [toolSpecification t])) \<le> 12000" and c: "c \<le> length av"
  obtains k page where "discover_page av (int c) = Inr page" "dp_page_tools page = map toolSpecification (take k (drop c av))"
    "k \<le> length av - c" "c < length av \<Longrightarrow> 0 < k"
    "dp_page_next page = (if c + k < length av then Some (int (c + k)) else None)"
proof -
  have "\<forall>t\<in>set (take 8 (drop c av)). length (stringify (JArr [toolSpecification t])) \<le> 12000"
    using fit by (meson in_set_dropD in_set_takeD)
  then obtain r where r: "select_tools [] (take 8 (drop c av)) = Inr r" using select_tools_returns by blast
  from select_tools_Inr [OF r] obtain us vs where u: "r = map toolSpecification us" "take 8 (drop c av) = us @ vs"
    "take 8 (drop c av) \<noteq> [] \<longrightarrow> us \<noteq> []" unfolding append_Nil by blast
  have len: "length us \<le> length av - c" using arg_cong [OF u(2), of length] by auto
  have us: "us = take (length us) (drop c av)" using arg_cong [OF u(2), of "take (length us)"] arg_cong [OF u(2), of length]
    by (simp add: min_def split: if_splits)
  show thesis
  proof (rule that)
    show "discover_page av (int c) = Inr \<lparr>dp_page_tools = r, dp_page_next = if int c + int (length r) < int (length av) then Some (int c + int (length r)) else None\<rparr>"
      by (simp add: discover_page_def r bindR_def Let_def)
  qed (use u us len c in auto)
qed

lemma browse_from:
  assumes "directory cmp meta tools grants query = Inr av" "\<forall>t\<in>set av. length (stringify (JArr [toolSpecification t])) \<le> 12000"
  shows "c \<le> length av \<Longrightarrow> length av - c < n \<Longrightarrow> browse cmp meta tools grants query n (int c) = Inr (map toolSpecification (drop c av))"
proof (induction n arbitrary: c)
  case (Suc n)
  obtain k page where p: "discover_page av (int c) = Inr page" "dp_page_tools page = map toolSpecification (take k (drop c av))"
    "k \<le> length av - c" "c < length av \<Longrightarrow> 0 < k" "dp_page_next page = (if c + k < length av then Some (int (c + k)) else None)"
    using discover_page_slice [OF assms(2) Suc.prems(1)] by blast
  have run: "execute_discovery cmp meta tools grants \<lparr>dq_query = query, dq_cursor = int c\<rparr> = Inr page"
    using assms(1) p(1) by (simp add: execute_discovery_def bindR_def)
  show ?case
  proof (cases "c + k < length av")
    case True
    then have "browse cmp meta tools grants query n (int (c + k)) = Inr (map toolSpecification (drop (c + k) av))"
      using Suc.IH [of "c + k"] Suc.prems p(4) by linarith
    moreover have "take k (drop c av) @ drop (c + k) av = drop c av" by (metis append_take_drop_id drop_drop add.commute)
    ultimately show ?thesis using run p(2,5) True by (simp add: bindR_def flip: map_append)
  next
    case False
    then have "take k (drop c av) = drop c av" using p(3) by simp
    then show ?thesis using run p(2,5) False by (simp add: bindR_def)
  qed
qed simp


text \<open>A directory of two tools, one deferred.\<close>

definition sample_listed :: "string \<Rightarrow> bool \<Rightarrow> listed_tool" where
  "sample_listed n d = \<lparr>tl_name = ''files__'' @ n, tl_action = ''files.'' @ n, tl_description = ''Files'', tl_properties = [],
     tl_required = None, tl_effect = ReadEffect, tl_approval = False, tl_timeoutMs = None, tl_execution = None,
     tl_semanticVersion = None, tl_readback = None, tl_observation = None, tl_preconditions = None, tl_deferred = d\<rparr>"

definition files_grant :: capability_grant where
  "files_grant = \<lparr>cg_name = ''files'', cg_methods = None\<rparr>"

lemma sample_directory:
  "directory (\<lambda>a b. int (length a) - int (length b)) None [sample_listed ''search'' True, sample_listed ''read'' False] [files_grant] ''FILES''
    = Inr [sample_listed ''read'' False, sample_listed ''search'' True]"
  by code_simp

lemma sample_specification_length:
  "length (stringify (JArr [toolSpecification (sample_listed ''read'' False)])) \<le> 12000"
  "length (stringify (JArr [toolSpecification (sample_listed ''search'' True)])) \<le> 12000"
  by (simp_all add: toolSpecification_def sample_listed_def tool_parameters_def truthy_text_def opt_prop_def tool.defs
      quote_def esc_def esc_char_def)


subsection \<open>Snapshots narrow\<close>

lemma split_on_prefix:
  "d \<notin> set n \<Longrightarrow> split_on d (n @ d # r) = n # split_on d r"
  by (induction n) auto

lemma split_on_plain: "d \<notin> set (hd (split_on d s))"
  by (induction s) (auto split: list.split)

lemma namespace_dot: "CHR ''.'' \<notin> set (namespace_of a)"
  by (simp add: namespace_of_def split_on_plain)

lemma starts_with_namespace:
  assumes "starts_with a (n @ ''.'')" "CHR ''.'' \<notin> set n"
  shows "namespace_of a = n \<and> (\<exists>m. method_of a = Some m)"
proof -
  obtain r where "a = n @ CHR ''.'' # r" using assms(1) by (auto simp: starts_with_iff)
  then have "split_on (CHR ''.'') a = n # split_on (CHR ''.'') r" using split_on_prefix [OF assms(2)] by simp
  then show ?thesis by (cases "split_on (CHR ''.'') r") (auto simp: namespace_of_def method_of_def)
qed

lemma snapshot_grants_sound:
  assumes "covers g n (Some m)" "g \<in> set (snapshot_grants ts)"
  shows "\<exists>t\<in>set ts. namespace_of (tl_action t) = n \<and> method_of (tl_action t) = Some m"
proof -
  obtain k where k: "k \<in> set (namespaces ts)" "cg_name g = k" "cg_methods g = Some (map (\<lambda>t. case method_of (tl_action t) of None \<Rightarrow> [] | Some m \<Rightarrow> m)
      (filter (\<lambda>t. starts_with (tl_action t) (k @ ''.'')) ts))" using assms(2) unfolding snapshot_grants_def by force
  have dot: "CHR ''.'' \<notin> set k" using k(1) namespace_dot by (auto simp: namespaces_def)
  have "k = n" and "m \<in> set (map (\<lambda>t. case method_of (tl_action t) of None \<Rightarrow> [] | Some m \<Rightarrow> m)
      (filter (\<lambda>t. starts_with (tl_action t) (k @ ''.'')) ts))" using assms(1) k(2,3) by (auto simp: covers_def)
  then obtain t where t: "t \<in> set ts" "starts_with (tl_action t) (n @ ''.'')" "m = (case method_of (tl_action t) of None \<Rightarrow> [] | Some m \<Rightarrow> m)"
    by force
  from starts_with_namespace [OF t(2)] dot \<open>k = n\<close> t(3) have "namespace_of (tl_action t) = n \<and> method_of (tl_action t) = Some m" by auto
  with t(1) show ?thesis by blast
qed

text \<open>The execution snapshot of a hop only narrows what the control plane offered. With a catalog, every
  tool of the snapshot is a tool of the catalog that the policy granted and the mode of the work
  item permits, except for the one upgrade tool of the fast profile; every action its grants cover is
  the action of one of its tools; and code execution is on only in the mode execute, outside
  conversations, when neither the work item nor the policy switched it off.\<close>

theorem snapshot_narrows:
  assumes "executionSnapshot meta profile (Some catalog_tools) proposed code = Inr s"
  shows "(profile = DeepProfile \<longrightarrow> (\<forall>t\<in>set (es_tools s). t \<in> set catalog_tools
        \<and> list_ex (\<lambda>g. covers g (namespace_of (tl_action t)) (method_of (tl_action t))) proposed
        \<and> permitsTool meta (tool.truncate t) = Inr True))
    \<and> (profile = FastProfile \<longrightarrow> map tl_action (es_tools s) = [''response.upgrade''] \<and> es_grants s = [])
    \<and> (\<forall>g\<in>set (es_grants s). \<forall>n m. covers g n (Some m) \<longrightarrow> (\<exists>t\<in>set (es_tools s). namespace_of (tl_action t) = n \<and> method_of (tl_action t) = Some m))
    \<and> (es_codeExecution s \<longrightarrow> profile = DeepProfile \<and> executionMode meta = Inr (JStr ''execute'') \<and> code
        \<and> prop_of meta ''executionClass'' \<noteq> Some (JStr ''conversation'')
        \<and> (prop_of meta ''codeExecution'' = None \<or> prop_of meta ''codeExecution'' = Some (JStr ''enabled'')))"
proof -
  obtain mode where mode: "executionMode meta = Inr mode" using assms unfolding executionSnapshot_def bindR_Inr by blast
  show ?thesis
  proof (cases profile)
    case FastProfile
    then have s: "s = \<lparr>es_mode = mode, es_codeExecution = False, es_grants = [], es_tools = [tool.extend RESPONSE_UPGRADE \<lparr>tl_deferred = False\<rparr>]\<rparr>"
      using assms mode by (simp add: executionSnapshot_def bindR_def)
    then show ?thesis using FastProfile by (simp add: RESPONSE_UPGRADE_def tool.defs)
  next
    case DeepProfile
    then obtain ts where ts: "permitted_listed meta (granted_listed catalog_tools proposed) = Inr ts"
      "es_tools s = ts" "es_grants s = snapshot_grants ts"
      "es_codeExecution s \<longleftrightarrow> prop_of meta ''executionClass'' \<noteq> Some (JStr ''conversation'') \<and> mode = JStr ''execute''
             \<and> (prop_of meta ''codeExecution'' = None \<or> prop_of meta ''codeExecution'' = Some (JStr ''enabled'')) \<and> code"
      using assms mode unfolding executionSnapshot_def by (auto simp: bindR_Inr bindR_def [of "Inr mode"] Let_def)
    have "t \<in> set catalog_tools \<and> list_ex (\<lambda>g. covers g (namespace_of (tl_action t)) (method_of (tl_action t))) proposed
        \<and> permitsTool meta (tool.truncate t) = Inr True" if "t \<in> set ts" for t
      using that permitted_listed_set [OF ts(1)] by (simp add: granted_listed_def)
    moreover have "\<exists>t\<in>set ts. namespace_of (tl_action t) = n \<and> method_of (tl_action t) = Some m"
      if "g \<in> set (snapshot_grants ts)" "covers g n (Some m)" for g n m using snapshot_grants_sound that by blast
    ultimately show ?thesis using DeepProfile mode ts(2-4) by (simp add: response_profile.distinct)
  qed
qed

lemma sample_snapshot:
  "executionSnapshot None DeepProfile (Some [sample_listed ''read'' False]) [files_grant] True
    = Inr \<lparr>es_mode = JStr ''execute'', es_codeExecution = True, es_grants = [\<lparr>cg_name = ''files'', cg_methods = Some [''read'']\<rparr>],
        es_tools = [sample_listed ''read'' False]\<rparr>"
  by (simp add: executionSnapshot_def granted_listed_def covers_def namespace_of_def method_of_def files_grant_def sample_listed_def
      permitsTool_def executionMode_def prop_of_def bindR_def snapshot_grants_def namespaces_def tool.defs)

lemma snapshot_narrows_witness:
  "permitsTool None (tool.truncate (sample_listed ''read'' False)) = Inr True
    \<and> executionMode None = Inr (JStr ''execute'')"
  using snapshot_narrows [OF sample_snapshot] by simp

end
