(* ===== verification/NativeTools.thy ===== *)
theory NativeTools
  imports Discovery Access
begin

text \<open>
  The executor of native tools: tools/executor.ts with the contract and observation checks of
  tools/contracts.ts, the lock of control-plane/action-transaction.ts and the approval gate of
  control-plane/approvals.ts. The database is the record of the tables these statements read and write,
  with the data the tools themselves own as a parameter; a transaction works on a copy that is kept at COMMIT
  and dropped at ROLLBACK.
\<close>

subsection \<open>Tables and tools\<close>

record approval_row =
  av_actionKey :: string
  av_preview :: json
  av_toolContractHash :: "string option"
  av_decision :: "bool option"

record 'd native_db =
  nd_data :: 'd
  nd_ledger :: ledger
  nd_approvals :: "(string, approval_row) jsmap"
  nd_work :: "(string, work_row) jsmap"
  nd_conversations :: conversation_tables

record action_context =
  cx_work :: work_item
  cx_conversation :: "work_conversation option"
  cx_action :: host_action
  cx_requestVersion :: "int option"
  cx_approvedPreview :: "json option"

text \<open>A requirement names a persisted read: its action key, the resource and its current version.\<close>

record 'd native_tool = tool +
  nt_parse :: "jobj \<Rightarrow> os_error + jobj"
  nt_authorize :: "action_context \<Rightarrow> jobj \<Rightarrow> 'd \<Rightarrow> os_error + unit"
  nt_execute :: "action_context \<Rightarrow> jobj \<Rightarrow> 'd \<Rightarrow> (os_error + action_result) \<times> 'd"
  nt_preview :: "(action_context \<Rightarrow> jobj \<Rightarrow> 'd \<Rightarrow> os_error + json) option"
  nt_reconcile :: "(action_context \<Rightarrow> jobj \<Rightarrow> 'd \<Rightarrow> (os_error + action_result option) \<times> 'd) option"
  nt_observe :: "(action_context \<Rightarrow> jobj \<Rightarrow> json option \<Rightarrow> 'd \<Rightarrow> os_error + (string \<times> string) list) option"
  nt_requirement :: "(action_context \<Rightarrow> jobj \<Rightarrow> 'd \<Rightarrow> os_error + (string \<times> string \<times> string)) option"

definition no_effect :: "string \<Rightarrow> os_error" where
  "no_effect m = NoEffectError m ''native_rejected''"

subsection \<open>Definitions the executor accepts\<close>

definition valid_action_name :: "string \<Rightarrow> bool" where
  "valid_action_name a = (case split_on (CHR ''.'') a of
     [n, m] \<Rightarrow> n \<noteq> [] \<and> m \<noteq> [] \<and> is_lower (hd n) \<and> is_lower (hd m)
       \<and> list_all (\<lambda>c. is_lower c \<or> is_digit c \<or> c = CHR ''_'') (tl n @ tl m)
   | _ \<Rightarrow> False)"

text \<open>\<open>action.replace('.', '__')\<close>, the first dot only.\<close>

definition tool_name_of :: "string \<Rightarrow> string" where
  "tool_name_of a = (case split_on (CHR ''.'') a of n # m # r \<Rightarrow> n @ ''__'' @ join_with ''.'' (m # r) | _ \<Rightarrow> a)"

definition valid_execution :: "'d native_tool \<Rightarrow> json \<Rightarrow> bool" where
  "valid_execution t c = (tl_effect t \<noteq> TransactionEffect \<and> json_prop c ''class'' = Some (JStr ''operation'')
     \<and> (case json_prop c ''timeoutMs'' of Some (JNum n) \<Rightarrow> 1 \<le> n \<and> n \<le> 30000 | _ \<Rightarrow> False)
     \<and> json_prop c ''cancellation'' \<in> {Some (JStr ''signal''), Some (JStr ''reconcile'')}
     \<and> (json_prop c ''cancellation'' = Some (JStr ''reconcile'') \<longrightarrow> nt_reconcile t \<noteq> None))"

text \<open>The constructor of the quota of a long tool.\<close>

definition valid_capacity :: "json option \<Rightarrow> bool" where
  "valid_capacity v = (case v of Some (JNum n) \<Rightarrow> 1 \<le> n \<and> n \<le> 1024 | _ \<Rightarrow> False)"

fun check_definitions :: "'d native_tool list \<Rightarrow> 'd native_tool list \<Rightarrow> os_error + unit" where
  "check_definitions all [] = Inr ()"
| "check_definitions all (t # ts) =
     (if (case tl_execution t of None \<Rightarrow> False | Some c \<Rightarrow> \<not> valid_execution t c) then Inl (JsError ''invalid long-tool execution contract'')
      else if (case tl_execution t of None \<Rightarrow> False | Some c \<Rightarrow> \<not> valid_capacity (json_prop c ''maxConcurrency''))
      then Inl (JsError ''resource capacity must be 1-1024'')
      else if \<not> valid_action_name (tl_action t) \<or> tl_name t \<noteq> tool_name_of (tl_action t) then Inl (JsError ''invalid tool identity'')
      else if tl_approval t \<and> nt_preview t = None then Inl (JsError (tl_action t @ '' requires an approval preview''))
      else if (case tl_semanticVersion t of None \<Rightarrow> False | Some v \<Rightarrow> blank v \<or> length v > 128) then Inl (JsError ''invalid tool semantic version'')
      else if (case tl_observation t of None \<Rightarrow> False | Some (r, full) \<Rightarrow> tl_effect t \<noteq> ReadEffect \<or> nt_observe t = None \<or> r = [])
      then Inl (JsError ''invalid tool observation contract'')
      else if (case tl_preconditions t of None \<Rightarrow> False | Some (readAction, rtype) \<Rightarrow> nt_requirement t = None
             \<or> (case List.find (\<lambda>u. tl_action u = readAction) all of None \<Rightarrow> True
                | Some u \<Rightarrow> tl_effect u \<noteq> ReadEffect \<or> (case tl_observation u of None \<Rightarrow> True | Some (r, full) \<Rightarrow> r \<noteq> rtype)))
      then Inl (JsError ''invalid tool observation precondition'')
      else check_definitions all ts)"

definition tool_executor :: "'d native_tool list \<Rightarrow> os_error + 'd native_tool list" where
  "tool_executor definitions =
     (if \<not> distinct (map tl_action definitions) \<or> \<not> distinct (map tl_name definitions) then Inl (JsError ''duplicate tool definition'')
      else bindR (check_definitions definitions definitions) (\<lambda>_. Inr definitions))"

definition tool_definition :: "'d native_tool list \<Rightarrow> host_action \<Rightarrow> os_error + 'd native_tool" where
  "tool_definition tools a = (case List.find (\<lambda>t. tl_action t = ha_action a) tools of
     None \<Rightarrow> Inl (NoEffectError ''unknown native tool'' ''unknown_tool'') | Some t \<Rightarrow> Inr t)"

subsection \<open>Checks against the tables\<close>

text \<open>The rows the lock selects: the work item under this live lease, and the intent of exactly this action
  in the current version of the request.\<close>

definition lock_row :: "int \<Rightarrow> action_context \<Rightarrow> work_row \<Rightarrow> bool" where
  "lock_row now cx w = (let work = cx_work cx in
     row_fence w = wi_fence work \<and> row_status w = Leased
     \<and> (case row_leaseExpiresAt w of None \<Rightarrow> False | Some e \<Rightarrow> e > now)
     \<and> row_cancelRequestedAt w = None \<and> row_tenantId w = wi_tenantId work \<and> row_principalId w = wi_principalId work
     \<and> row_agentId w = wi_agentId work \<and> row_sessionId w = wi_sessionId work \<and> row_threadId w = wi_threadId work)"

definition lockAction :: "int \<Rightarrow> action_context \<Rightarrow> 'd native_db \<Rightarrow> os_error + unit" where
  "lockAction now cx db =
     (case (map_of (nd_work db) (wi_id (cx_work cx)), map_of (lg_details (nd_ledger db)) (ha_key (cx_action cx))) of
        (Some w, Some i) \<Rightarrow>
          if lock_row now cx w \<and> ai_workId i = wi_id (cx_work cx) \<and> action_eq (ai_action i) (cx_action cx)
             \<and> ai_requestVersion i = Some (int (length (row_steerInputs w)) + 1)
          then Inr () else Inl (JsError ''write requires the current live action intent'')
      | _ \<Rightarrow> Inl (JsError ''write requires the current live action intent''))"

definition tool_hash :: "(string \<Rightarrow> string) \<Rightarrow> 'd native_tool \<Rightarrow> string" where
  "tool_hash hash t = toolContractHash hash (tool.truncate t)"

definition assertToolContract :: "(string \<Rightarrow> string) \<Rightarrow> 'd native_tool \<Rightarrow> action_context \<Rightarrow> 'd native_db \<Rightarrow> os_error + unit" where
  "assertToolContract hash t cx db =
     (if (case map_of (lg_details (nd_ledger db)) (ha_key (cx_action cx)) of None \<Rightarrow> False
          | Some i \<Rightarrow> ai_toolContractHash i = Some (tool_hash hash t))
      then Inr ()
      else Inl (NoEffectError ''Tool contract is missing or changed; settle the old intent before executing'' ''tool_contract_changed''))"

definition observation_required :: "string \<Rightarrow> os_error" where
  "observation_required m = NoEffectError m ''observation_required''"

definition this_request :: "action_context \<Rightarrow> action_intent \<Rightarrow> bool" where
  "this_request cx i = (let w = cx_work cx in ai_workId i = wi_id w \<and> ai_tenantId i = wi_tenantId w \<and> ai_principalId i = wi_principalId w
     \<and> ai_agentId i = wi_agentId w \<and> ai_sessionId i = wi_sessionId w \<and> ai_threadId i = wi_threadId w
     \<and> ai_requestVersion i = cx_requestVersion cx)"

definition proves_version :: "string \<Rightarrow> string \<Rightarrow> string \<Rightarrow> action_result \<Rightarrow> bool" where
  "proves_version rtype rid version r = (readable_result r \<and> (case hr_observations r of None \<Rightarrow> False
     | Some os \<Rightarrow> list_ex (\<lambda>x. ob_resourceType x = rtype \<and> ob_resourceId x = rid \<and> ob_version x = version \<and> ob_full x) os))"

text \<open>A tool with a precondition runs only over a full, current, still authorised read of this request.\<close>

definition assertObservation :: "(string \<Rightarrow> string) \<Rightarrow> 'd native_tool list \<Rightarrow> 'd native_tool \<Rightarrow> action_context \<Rightarrow> jobj
    \<Rightarrow> 'd native_db \<Rightarrow> os_error + unit" where
  "assertObservation hash tools t cx input db =
     (case tl_preconditions t of None \<Rightarrow> Inr ()
      | Some (readAction, rtype) \<Rightarrow>
          (case (case nt_requirement t of None \<Rightarrow> Inl (JsError ''undefined'') | Some f \<Rightarrow> f cx input (nd_data db)) of
             Inl _ \<Rightarrow> Inl (observation_required ''Current resource version is unavailable'')
           | Inr (key, rid, version) \<Rightarrow>
               if \<not> list_all (\<lambda>v. v \<noteq> [] \<and> length v \<le> 4000) [key, rid, version]
               then Inl (observation_required ''Full resource observation and current version are required'')
               else (case (map_of (lg_details (nd_ledger db)) key, effectiveResult (nd_ledger db) key,
                        List.find (\<lambda>u. tl_action u = readAction) tools) of
                   (Some i, Some r, Some u) \<Rightarrow>
                     if this_request cx i \<and> ha_action (ai_action i) = readAction
                        \<and> ai_toolContractHash i = Some (tool_hash hash u) \<and> proves_version rtype rid version r
                     then bindR (nt_parse u (ha_args (ai_action i))) (\<lambda>args.
                       case nt_authorize u (cx\<lparr>cx_action := ai_action i\<rparr>) args (nd_data db) of
                         Inl _ \<Rightarrow> Inl (observation_required ''Resource observation permission was revoked'') | Inr _ \<Rightarrow> Inr ())
                     else Inl (observation_required ''Full resource observation is missing, stale or outside this request'')
                 | _ \<Rightarrow> Inl (observation_required ''Full resource observation is missing, stale or outside this request''))))"

definition observeResult :: "'d native_tool \<Rightarrow> action_context \<Rightarrow> jobj \<Rightarrow> action_result \<Rightarrow> 'd \<Rightarrow> os_error + action_result" where
  "observeResult t cx input r d =
     (case tl_observation t of
        None \<Rightarrow> Inr (r\<lparr>hr_observations := None\<rparr>)
      | Some (rtype, full) \<Rightarrow>
          if \<not> readable_result r then Inr (r\<lparr>hr_observations := None\<rparr>)
          else bindR (case nt_observe t of None \<Rightarrow> Inl (JsError ''undefined'') | Some f \<Rightarrow> f cx input (hr_value r) d) (\<lambda>resources.
            if length resources > 64 \<or> list_ex (\<lambda>(i, v). i = [] \<or> length i > 4000 \<or> v = [] \<or> length v > 4000) resources
            then Inl (no_effect ''Native read returned invalid resource observations'')
            else Inr (r\<lparr>hr_observations := Some (map (\<lambda>(i, v). \<lparr>ob_resourceType = rtype, ob_resourceId = i, ob_version = v, ob_full = full\<rparr>) resources)\<rparr>)))"

subsection \<open>Approval\<close>

definition pending_result :: "string \<Rightarrow> json \<Rightarrow> action_result" where
  "pending_result i preview = (empty_result False)\<lparr>hr_state := Some AwaitingApprovalState, hr_approval := Some i,
     hr_value := Some (JObj [(''preview'', preview)])\<rparr>"

definition rejected_result :: action_result where
  "rejected_result = (empty_result False)\<lparr>hr_state := Some NoEffect, hr_code := Some ''approval_rejected'',
     hr_error := Some ''The original principal rejected this action''\<rparr>"

text \<open>The preview is recorded once; afterwards only the recorded preview can be approved.\<close>

definition approvalGate :: "(string \<Rightarrow> string) \<Rightarrow> 'd native_tool \<Rightarrow> action_context \<Rightarrow> jobj \<Rightarrow> 'd native_db
    \<Rightarrow> (os_error + action_result option \<times> action_context) \<times> 'd native_db" where
  "approvalGate hash t cx input db =
     (if \<not> tl_approval t then (Inr (None, cx), db)
      else let i = hash (ha_key (cx_action cx)) in
        (case (case nt_preview t of None \<Rightarrow> Inl (JsError ''undefined'') | Some f \<Rightarrow> f cx input (nd_data db)) of
           Inl e \<Rightarrow> (Inl e, db)
         | Inr preview \<Rightarrow>
             if utf8_length (stringify preview) > 64000 then (Inl (no_effect ''approval preview exceeds 64 KB''), db)
             else let contract = tool_hash hash t;
                      fresh = \<lparr>av_actionKey = ha_key (cx_action cx), av_preview = preview, av_toolContractHash = Some contract, av_decision = None\<rparr>;
                      row = (case map_of (nd_approvals db) i of None \<Rightarrow> fresh | Some r \<Rightarrow> r);
                      db1 = (if jhas (nd_approvals db) i then db else db\<lparr>nd_approvals := AList.update i fresh (nd_approvals db)\<rparr>)
                  in if av_toolContractHash row \<noteq> Some contract
                     then (Inl (NoEffectError ''Tool semantics changed; request a new preview and approval'' ''tool_contract_changed''), db1)
                     else (case av_decision row of
                         None \<Rightarrow> (Inr (Some (pending_result i preview), cx), db1)
                       | Some False \<Rightarrow> (Inr (Some rejected_result, cx), db1)
                       | Some True \<Rightarrow>
                           if \<not> deep_eq (av_preview row) preview
                           then (Inl (NoEffectError ''approved resource changed; request a new preview'' ''approval_stale''), db1)
                           else (Inr (None, cx\<lparr>cx_approvedPreview := Some (av_preview row)\<rparr>), db1))))"

subsection \<open>Execution\<close>

text \<open>
  What the surroundings decide during one execution: the clock, whether the signal is aborted before the
  effect or before the commit, whether the acknowledgement of COMMIT is lost (and, if so, whether the
  database had applied it), and whether the quota of a long tool admits the call.
\<close>

record native_options =
  no_now :: int
  no_abortedBefore :: bool
  no_abortedAfter :: bool
  no_commitLost :: "bool option"
  no_quota :: "os_error option"

definition abort_error :: os_error where
  "abort_error = JsError ''This operation was aborted''"

text \<open>\<open>run\<close>: everything between the lock and the receipt.\<close>

definition run_native :: "(string \<Rightarrow> string) \<Rightarrow> 'd native_tool list \<Rightarrow> 'd native_tool \<Rightarrow> action_context \<Rightarrow> jobj \<Rightarrow> native_options
    \<Rightarrow> 'd native_db \<Rightarrow> (os_error + action_result) \<times> 'd native_db" where
  "run_native hash tools t cx input o1 db =
     (case bindR (authorizeConversationWork (nd_conversations db) (cx_work cx) (cx_conversation cx) OpExecute) (\<lambda>_.
        bindR (assertToolContract hash t cx db) (\<lambda>_. bindR (nt_authorize t cx input (nd_data db)) (\<lambda>_.
        bindR (assertObservation hash tools t cx input db) (\<lambda>_. if no_abortedBefore o1 then Inl abort_error else Inr ())))) of
       Inl e \<Rightarrow> (Inl e, db)
     | Inr _ \<Rightarrow> (case approvalGate hash t cx input db of
         (Inl e, db1) \<Rightarrow> (Inl e, db1)
       | (Inr (Some pending, _), db1) \<Rightarrow> (Inr pending, db1)
       | (Inr (None, cx1), db1) \<Rightarrow> (case nt_execute t cx1 input (nd_data db1) of (r, d) \<Rightarrow> (r, db1\<lparr>nd_data := d\<rparr>))))"

text \<open>\<open>INSERT ... ON CONFLICT DO UPDATE ... WHERE status = 'PENDING'\<close>\<close>

definition store_receipt :: "string \<Rightarrow> action_result \<Rightarrow> 'd native_db \<Rightarrow> 'd native_db" where
  "store_receipt key r db =
     (if (case map_of (lg_results (nd_ledger db)) key of None \<Rightarrow> False | Some p \<Rightarrow> hr_approval p = None) then db
      else db\<lparr>nd_ledger := (nd_ledger db)\<lparr>lg_results := AList.update key r (lg_results (nd_ledger db))\<rparr>\<rparr>)"

definition rolled_back :: "os_error \<Rightarrow> os_error" where
  "rolled_back e = (case e of NoEffectError m c \<Rightarrow> e | _ \<Rightarrow> NoEffectError (error_message e) ''transaction_rolled_back'')"

definition execute_transaction :: "(string \<Rightarrow> string) \<Rightarrow> 'd native_tool list \<Rightarrow> 'd native_tool \<Rightarrow> action_context \<Rightarrow> jobj \<Rightarrow> native_options
    \<Rightarrow> 'd native_db \<Rightarrow> (os_error + action_result) \<times> 'd native_db" where
  "execute_transaction hash tools t cx input o1 db =
     (let key = ha_key (cx_action cx) in
      case lockAction (no_now o1) cx db of
        Inl e \<Rightarrow> (Inl (rolled_back e), db)
      | Inr _ \<Rightarrow>
          (case (case map_of (lg_results (nd_ledger db)) key of
               Some previous \<Rightarrow> if hr_approval previous = None then (Inr previous, db) else run_native hash tools t cx input o1 db
             | None \<Rightarrow> run_native hash tools t cx input o1 db) of
             (Inl e, _) \<Rightarrow> (Inl (rolled_back e), db)
           | (Inr r, db1) \<Rightarrow>
               if no_abortedAfter o1 then (Inl (rolled_back abort_error), db)
               else if is_unknown r then (Inl (no_effect ''transactional tool must return a settled result''), db)
               else if \<not> hr_ok r \<and> hr_approval r = None then (Inr (r\<lparr>hr_state := Some NoEffect\<rparr>), db)
               else (case no_commitLost o1 of
                   None \<Rightarrow> (Inr r, store_receipt key r db1)
                 | Some applied \<Rightarrow> (Inl (JsError ''commit acknowledgement lost''), if applied then store_receipt key r db1 else db))))"

definition in_flight :: action_result where
  "in_flight = (empty_result False)\<lparr>hr_state := Some Unknown, hr_code := Some ''external_in_flight'',
     hr_error := Some ''Approved external operation is in flight; reconcile before retrying''\<rparr>"

definition update_result :: "(action_result \<Rightarrow> bool) \<Rightarrow> string \<Rightarrow> action_result \<Rightarrow> 'd native_db \<Rightarrow> 'd native_db" where
  "update_result P key r db =
     (case map_of (lg_results (nd_ledger db)) key of
        None \<Rightarrow> db
      | Some p \<Rightarrow> if P p then db\<lparr>nd_ledger := (nd_ledger db)\<lparr>lg_results := AList.update key r (lg_results (nd_ledger db))\<rparr>\<rparr> else db)"

text \<open>The transaction that takes the approval and marks the operation as in flight before it is sent.\<close>

definition take_approval :: "(string \<Rightarrow> string) \<Rightarrow> 'd native_tool \<Rightarrow> action_context \<Rightarrow> jobj \<Rightarrow> native_options \<Rightarrow> 'd native_db
    \<Rightarrow> (os_error + action_result option \<times> action_context) \<times> 'd native_db" where
  "take_approval hash t cx input o1 db =
     (case bindR (lockAction (no_now o1) cx db) (\<lambda>_. nt_authorize t cx input (nd_data db)) of
        Inl e \<Rightarrow> (Inl e, db)
      | Inr _ \<Rightarrow> (case approvalGate hash t cx input db of
            (Inl e, _) \<Rightarrow> (Inl e, db)
          | (Inr (Some pending, cx1), db1) \<Rightarrow> (Inr (Some pending, cx1), db1)
          | (Inr (None, cx1), db1) \<Rightarrow> (Inr (None, cx1), update_result (\<lambda>p. hr_approval p \<noteq> None) (ha_key (cx_action cx)) in_flight db1)))"

definition no_effect_result :: "string \<Rightarrow> string \<Rightarrow> action_result" where
  "no_effect_result m c = (empty_result False)\<lparr>hr_state := Some NoEffect, hr_code := Some c, hr_error := Some m\<rparr>"

text \<open>The call itself: a \<open>NoEffectError\<close> is a result, every other error leaves the outcome open.\<close>

definition call_external :: "'d native_tool \<Rightarrow> action_context \<Rightarrow> jobj \<Rightarrow> native_options \<Rightarrow> 'd native_db
    \<Rightarrow> (os_error + action_result) \<times> 'd native_db" where
  "call_external t cx input o1 db =
     (case no_quota o1 of
        Some e \<Rightarrow> (case e of NoEffectError m c \<Rightarrow> (Inr (no_effect_result m c), db) | _ \<Rightarrow> (Inl e, db))
      | None \<Rightarrow> (case nt_execute t cx input (nd_data db) of (r, d) \<Rightarrow>
          (case bindR r (\<lambda>v. observeResult t cx input v d) of
             Inl (NoEffectError m c) \<Rightarrow> (Inr (no_effect_result m c), db\<lparr>nd_data := d\<rparr>)
           | Inl e \<Rightarrow> (Inl e, db\<lparr>nd_data := d\<rparr>)
           | Inr v \<Rightarrow> (Inr v, db\<lparr>nd_data := d\<rparr>))))"

definition execute_external :: "(string \<Rightarrow> string) \<Rightarrow> 'd native_tool list \<Rightarrow> 'd native_tool \<Rightarrow> action_context \<Rightarrow> jobj \<Rightarrow> native_options
    \<Rightarrow> 'd native_db \<Rightarrow> (os_error + action_result) \<times> 'd native_db" where
  "execute_external hash tools t cx input o1 db =
     (case bindR (authorizeConversationWork (nd_conversations db) (cx_work cx) (cx_conversation cx) OpExecute) (\<lambda>_.
        bindR (assertToolContract hash t cx db) (\<lambda>_. bindR (nt_authorize t cx input (nd_data db)) (\<lambda>_.
        assertObservation hash tools t cx input db))) of
       Inl e \<Rightarrow> (Inl e, db)
     | Inr _ \<Rightarrow> (case (if tl_approval t then take_approval hash t cx input o1 db else (Inr (None, cx), db)) of
         (Inl e, db1) \<Rightarrow> (Inl e, db1)
       | (Inr (Some pending, _), db1) \<Rightarrow> (Inr pending, db1)
       | (Inr (None, cx1), db1) \<Rightarrow> (case call_external t cx1 input o1 db1 of
           (Inl e, db2) \<Rightarrow> (Inl e, db2)
         | (Inr r, db2) \<Rightarrow> (Inr r, if tl_approval t
             then update_result (\<lambda>p. hr_code p = Some ''external_in_flight'') (ha_key (cx_action cx)) r db2 else db2))))"

definition execute_tool :: "(string \<Rightarrow> string) \<Rightarrow> 'd native_tool list \<Rightarrow> action_context \<Rightarrow> native_options \<Rightarrow> 'd native_db
    \<Rightarrow> (os_error + action_result) \<times> 'd native_db" where
  "execute_tool hash tools cx o1 db =
     (case bindR (tool_definition tools (cx_action cx)) (\<lambda>t. bindR (nt_parse t (ha_args (cx_action cx))) (\<lambda>input. Inr (t, input))) of
        Inl e \<Rightarrow> (Inl e, db)
      | Inr (t, input) \<Rightarrow> if tl_effect t = TransactionEffect then execute_transaction hash tools t cx input o1 db
          else execute_external hash tools t cx input o1 db)"

subsection \<open>Preparation, reconciliation and resource reads\<close>

definition prepare_tool :: "'d native_tool list \<Rightarrow> action_context \<Rightarrow> 'd native_db \<Rightarrow> os_error + unit" where
  "prepare_tool tools cx db =
     bindR (authorizeConversationWork (nd_conversations db) (cx_work cx) (cx_conversation cx) OpExecute) (\<lambda>_.
     bindR (tool_definition tools (cx_action cx)) (\<lambda>t.
       case nt_parse t (ha_args (cx_action cx)) of
         Inl e \<Rightarrow> Inl (NoEffectError (error_message e) ''invalid_arguments'')
       | Inr input \<Rightarrow> (case nt_authorize t cx input (nd_data db) of
           Inl (NoEffectError m c) \<Rightarrow> Inl (NoEffectError m c)
         | Inl _ \<Rightarrow> Inl (NoEffectError ''Native authorization was unavailable'' ''authorization_unavailable'')
         | Inr _ \<Rightarrow> Inr ())))"

definition reconcile_tool :: "(string \<Rightarrow> string) \<Rightarrow> 'd native_tool list \<Rightarrow> action_context \<Rightarrow> 'd native_db
    \<Rightarrow> (os_error + action_result option) \<times> 'd native_db" where
  "reconcile_tool hash tools cx db =
     (case bindR (authorizeConversationWork (nd_conversations db) (cx_work cx) (cx_conversation cx) OpExecute)
         (\<lambda>_. tool_definition tools (cx_action cx)) of
        Inl e \<Rightarrow> (Inl e, db)
      | Inr t \<Rightarrow> (case nt_reconcile t of
          None \<Rightarrow> (Inr None, db)
        | Some f \<Rightarrow> (case bindR (nt_parse t (ha_args (cx_action cx))) (\<lambda>input. bindR (assertToolContract hash t cx db) (\<lambda>_.
              bindR (nt_authorize t cx input (nd_data db)) (\<lambda>_. Inr input))) of
            Inl e \<Rightarrow> (Inl e, db)
          | Inr input \<Rightarrow> (case f cx input (nd_data db) of (r, d) \<Rightarrow> (r, db\<lparr>nd_data := d\<rparr>)))))"

definition read_resource :: "'d native_tool list \<Rightarrow> action_context \<Rightarrow> 'd native_db \<Rightarrow> (os_error + json option) \<times> 'd native_db" where
  "read_resource tools cx db =
     (case bindR (authorizeConversationWork (nd_conversations db) (cx_work cx) (cx_conversation cx) OpRead) (\<lambda>_.
         bindR (tool_definition tools (cx_action cx)) (\<lambda>t.
         if tl_effect t \<noteq> ReadEffect then Inl (no_effect ''resource check requires a read tool'')
         else bindR (nt_parse t (ha_args (cx_action cx))) (\<lambda>input. bindR (nt_authorize t cx input (nd_data db)) (\<lambda>_. Inr (t, input))))) of
        Inl e \<Rightarrow> (Inl e, db)
      | Inr (t, input) \<Rightarrow> (case nt_execute t cx input (nd_data db) of
          (Inl e, d) \<Rightarrow> (Inl e, db\<lparr>nd_data := d\<rparr>)
        | (Inr r, d) \<Rightarrow> (if hr_ok r then Inr (hr_value r)
             else Inl (no_effect (case hr_error r of None \<Rightarrow> ''resource read failed'' | Some m \<Rightarrow> m)), db\<lparr>nd_data := d\<rparr>)))"

end
