(* ===== verification/NativeProps.thy ===== *)
theory NativeProps
  imports NativeTools
begin

text \<open>
  Native tools: a transactional effect and its receipt commit together and once, and an effect that needs an
  approval happens only under one for exactly what it is about to do.
\<close>

subsection \<open>The approval gate\<close>

definition approved :: "(string \<Rightarrow> string) \<Rightarrow> 'd native_tool \<Rightarrow> action_context \<Rightarrow> jobj \<Rightarrow> 'd native_db \<Rightarrow> bool" where
  "approved hash t cx input db = (\<exists>row f preview. map_of (nd_approvals db) (hash (ha_key (cx_action cx))) = Some row
     \<and> av_decision row = Some True \<and> av_toolContractHash row = Some (tool_hash hash t)
     \<and> nt_preview t = Some f \<and> f cx input (nd_data db) = Inr preview \<and> deep_eq (av_preview row) preview)"

lemma gate_frame:
  "approvalGate hash t cx input db = (res, db1) \<Longrightarrow> nd_data db1 = nd_data db \<and> nd_ledger db1 = nd_ledger db"
  by (auto simp: approvalGate_def Let_def split: if_splits sum.splits option.splits bool.splits)

lemma gate_opens:
  assumes "approvalGate hash t cx input db = (Inr (None, cx1), db1)"
  shows "(\<not> tl_approval t \<or> approved hash t cx input db) \<and> cx_action cx1 = cx_action cx"
proof (cases "tl_approval t")
  case True
  let ?i = "hash (ha_key (cx_action cx))"
  obtain f preview where f: "nt_preview t = Some f" "f cx input (nd_data db) = Inr preview"
    using assms True by (auto simp: approvalGate_def Let_def split: option.splits sum.splits)
  show ?thesis
  proof (cases "map_of (nd_approvals db) ?i")
    case None
    then show ?thesis using assms True f by (simp add: approvalGate_def Let_def split: if_splits)
  next
    case (Some row)
    then have "av_toolContractHash row = Some (tool_hash hash t)" "av_decision row = Some True" "deep_eq (av_preview row) preview"
      "cx1 = cx\<lparr>cx_approvedPreview := Some (av_preview row)\<rparr>"
      using assms True f by (auto simp: approvalGate_def Let_def split: if_splits option.splits bool.splits)
    then show ?thesis using Some f unfolding approved_def by auto
  qed
qed (use assms in \<open>simp add: approvalGate_def\<close>)

lemma run_native_ledger:
  "run_native hash tools t cx input o1 db = (res, db1) \<Longrightarrow> nd_ledger db1 = nd_ledger db"
  by (auto simp: run_native_def split: sum.splits option.splits prod.splits dest: gate_frame)

text \<open>A run that changes the data of the tools has passed the gate and is one execution on the current data.\<close>

lemma run_native_effect:
  assumes "run_native hash tools t cx input o1 db = (Inr r, db1)"
  shows "(\<exists>cx1. nt_execute t cx1 input (nd_data db) = (Inr r, nd_data db1) \<and> cx_action cx1 = cx_action cx
      \<and> (\<not> tl_approval t \<or> approved hash t cx input db))
    \<or> nd_data db1 = nd_data db \<and> \<not> hr_ok r \<and> tl_approval t"
proof -
  obtain g db2 where g: "approvalGate hash t cx input db = (g, db2)" by fastforce
  have frame: "nd_data db2 = nd_data db" using gate_frame [OF g] by simp
  from assms g consider cx1 pending where "g = Inr (Some pending, cx1)" "r = pending" "db1 = db2"
    | cx1 d where "g = Inr (None, cx1)" "nt_execute t cx1 input (nd_data db2) = (Inr r, d)" "db1 = db2\<lparr>nd_data := d\<rparr>"
    by (auto simp: run_native_def split: sum.splits option.splits prod.splits)
  then show ?thesis
  proof cases
    case 1
    then have "\<not> hr_ok r \<and> tl_approval t" using g
      by (auto simp: approvalGate_def Let_def pending_result_def rejected_result_def empty_result_def split: if_splits sum.splits option.splits bool.splits)
    then show ?thesis using 1 frame by simp
  next
    case 2
    then have "nt_execute t cx1 input (nd_data db) = (Inr r, nd_data db1)" using frame by simp
    moreover have "(\<not> tl_approval t \<or> approved hash t cx input db) \<and> cx_action cx1 = cx_action cx"
      using gate_opens g 2(1) by blast
    ultimately show ?thesis by blast
  qed
qed

subsection \<open>Transactions\<close>

abbreviation receipt :: "'d native_db \<Rightarrow> string \<Rightarrow> action_result option" where
  "receipt db key \<equiv> map_of (lg_results (nd_ledger db)) key"

definition final_receipt :: "action_result \<Rightarrow> bool" where
  "final_receipt r = (hr_approval r = None \<and> hr_code r \<noteq> Some ''external_in_flight'')"

lemma store_receipt_results:
  "receipt (store_receipt key r db) k = (if k = key \<and> (case receipt db key of None \<Rightarrow> True | Some p \<Rightarrow> hr_approval p \<noteq> None) then Some r else receipt db k)"
  "nd_data (store_receipt key r db) = nd_data db"
  by (auto simp: store_receipt_def split: option.splits)

lemma update_result_results:
  "receipt (update_result P key r db) k = (if k = key \<and> (case receipt db key of None \<Rightarrow> False | Some p \<Rightarrow> P p) then Some r else receipt db k)"
  "nd_data (update_result P key r db) = nd_data db"
  by (auto simp: update_result_def split: option.splits)

text \<open>The phases of a transaction: what \<open>execute_transaction\<close> commits.\<close>

lemma transaction_cases:
  assumes "execute_transaction hash tools t cx input o1 db = (res, db')"
  obtains (failed) e where "res = Inl e" "db' = db"
  | (settled) r where "res = Inr r" "db' = db" "\<not> hr_ok r"
  | (commit) r db1 where "(receipt db (ha_key (cx_action cx)) = Some r \<and> hr_approval r = None \<and> db1 = db)
      \<or> ((case receipt db (ha_key (cx_action cx)) of None \<Rightarrow> True | Some p \<Rightarrow> hr_approval p \<noteq> None)
          \<and> run_native hash tools t cx input o1 db = (Inr r, db1))"
      "hr_ok r \<or> hr_approval r \<noteq> None" "db' = store_receipt (ha_key (cx_action cx)) r db1"
      "res = Inr r \<and> no_commitLost o1 = None \<or> (\<exists>e. res = Inl e) \<and> no_commitLost o1 = Some True"
proof -
  let ?key = "ha_key (cx_action cx)"
  obtain m db1 where m: "(case receipt db ?key of
      Some previous \<Rightarrow> if hr_approval previous = None then (Inr previous, db) else run_native hash tools t cx input o1 db
    | None \<Rightarrow> run_native hash tools t cx input o1 db) = (m, db1)" by fastforce
  show thesis
  proof (cases "lockAction (no_now o1) cx db")
    case (Inl e)
    then have "res = Inl (rolled_back e)" "db' = db" using assms by (auto simp: execute_transaction_def Let_def)
    then show thesis by (rule failed)
  next
    case (Inr u)
    note locked = this
    show thesis
    proof (cases m)
      case (Inl e)
      then have "res = Inl (rolled_back e)" "db' = db" using assms m locked by (auto simp: execute_transaction_def Let_def)
      then show thesis by (rule failed)
    next
      case (Inr r)
      have from_: "(receipt db ?key = Some r \<and> hr_approval r = None \<and> db1 = db)
          \<or> ((case receipt db ?key of None \<Rightarrow> True | Some p \<Rightarrow> hr_approval p \<noteq> None) \<and> run_native hash tools t cx input o1 db = (Inr r, db1))"
        using m Inr by (auto split: option.splits if_splits)
      have run: "(res, db') = (if no_abortedAfter o1 then (Inl (rolled_back abort_error), db)
               else if is_unknown r then (Inl (no_effect ''transactional tool must return a settled result''), db)
               else if \<not> hr_ok r \<and> hr_approval r = None then (Inr (r\<lparr>hr_state := Some NoEffect\<rparr>), db)
               else (case no_commitLost o1 of None \<Rightarrow> (Inr r, store_receipt ?key r db1)
                 | Some applied \<Rightarrow> (Inl (JsError ''commit acknowledgement lost''), if applied then store_receipt ?key r db1 else db)))"
        using assms m Inr locked by (simp add: execute_transaction_def Let_def)
      show thesis
      proof (cases "no_abortedAfter o1 \<or> is_unknown r")
        case True
        then have "\<exists>e. res = Inl e" "db' = db" using run by (auto split: if_splits)
        then show thesis using failed by blast
      next
        case False
        then show thesis using run from_ failed settled commit
          by (cases "\<not> hr_ok r \<and> hr_approval r = None"; cases "no_commitLost o1") (auto split: if_splits)
      qed
    qed
  qed
qed

text \<open>What a committed transaction leaves: its receipt, and one execution on the data it found or the earlier
  receipt and nothing else.\<close>

definition committed :: "'d native_tool \<Rightarrow> action_context \<Rightarrow> jobj \<Rightarrow> 'd native_db \<Rightarrow> 'd native_db \<Rightarrow> action_result \<Rightarrow> bool" where
  "committed t cx input db db' r = (receipt db' (ha_key (cx_action cx)) = Some r
     \<and> (receipt db (ha_key (cx_action cx)) = Some r \<and> db' = db
        \<or> (case receipt db (ha_key (cx_action cx)) of None \<Rightarrow> True | Some p \<Rightarrow> hr_approval p \<noteq> None)
          \<and> (\<not> hr_ok r \<and> nd_data db' = nd_data db
             \<or> (\<exists>cx1. nt_execute t cx1 input (nd_data db) = (Inr r, nd_data db') \<and> cx_action cx1 = cx_action cx))))"

lemma commit_committed:
  assumes "(receipt db (ha_key (cx_action cx)) = Some r \<and> hr_approval r = None \<and> db1 = db)
      \<or> ((case receipt db (ha_key (cx_action cx)) of None \<Rightarrow> True | Some p \<Rightarrow> hr_approval p \<noteq> None)
          \<and> run_native hash tools t cx input o1 db = (Inr r, db1))"
  shows "committed t cx input db (store_receipt (ha_key (cx_action cx)) r db1) r"
  using assms
proof
  assume old: "receipt db (ha_key (cx_action cx)) = Some r \<and> hr_approval r = None \<and> db1 = db"
  then have "store_receipt (ha_key (cx_action cx)) r db1 = db" by (simp add: store_receipt_def)
  then show ?thesis using old by (simp add: committed_def)
next
  assume new: "(case receipt db (ha_key (cx_action cx)) of None \<Rightarrow> True | Some p \<Rightarrow> hr_approval p \<noteq> None)
    \<and> run_native hash tools t cx input o1 db = (Inr r, db1)"
  then have same: "receipt db1 = receipt db" using run_native_ledger by metis
  have "receipt (store_receipt (ha_key (cx_action cx)) r db1) (ha_key (cx_action cx)) = Some r"
    using new by (simp add: store_receipt_results same)
  moreover have "\<not> hr_ok r \<and> nd_data db1 = nd_data db \<or> (\<exists>cx1. nt_execute t cx1 input (nd_data db) = (Inr r, nd_data db1) \<and> cx_action cx1 = cx_action cx)"
    using new run_native_effect by blast
  ultimately show ?thesis using new unfolding committed_def store_receipt_results(2) by blast
qed

text \<open>C4: A transactional native tool and its receipt commit together. An execution either leaves the whole
  database unchanged (with an error or an unsuccessful result), or it commits the receipt of the result
  together with the effect of one run of the tool on the data it found (or, when the key already has a
  receipt, changes nothing and returns it). An error hides a committed effect only when the acknowledgement
  of the commit itself was lost, and then the receipt is in the database.\<close>

theorem native_atomic:
  assumes "execute_transaction hash tools t cx input o1 db = (res, db')"
  shows "case res of
      Inl e \<Rightarrow> db' = db \<or> no_commitLost o1 = Some True \<and> (\<exists>r. (hr_ok r \<or> hr_approval r \<noteq> None) \<and> committed t cx input db db' r)
    | Inr r \<Rightarrow> db' = db \<and> \<not> hr_ok r \<or> (hr_ok r \<or> hr_approval r \<noteq> None) \<and> committed t cx input db db' r"
  using assms
proof (cases rule: transaction_cases)
  case (failed e)
  then show ?thesis by simp
next
  case (settled r)
  then show ?thesis by simp
next
  case (commit r db1)
  then have "committed t cx input db db' r" using commit_committed [OF commit(1)] by simp
  then show ?thesis using commit(2,4) by fastforce
qed

subsection \<open>Once\<close>

text \<open>A later state: after any runs of the executor, and after any change by the rest of the system that keeps
  the receipts which are final.\<close>

inductive native_later :: "(string \<Rightarrow> string) \<Rightarrow> 'd native_tool list \<Rightarrow> 'd native_db \<Rightarrow> 'd native_db \<Rightarrow> bool"
  for hash tools db where
  here: "native_later hash tools db db"
| run: "native_later hash tools db db1 \<Longrightarrow> execute_tool hash tools cx o1 db1 = (res, db2) \<Longrightarrow> native_later hash tools db db2"
| others: "native_later hash tools db db1
    \<Longrightarrow> \<forall>k r. receipt db1 k = Some r \<and> final_receipt r \<longrightarrow> receipt db2 k = Some r \<Longrightarrow> native_later hash tools db db2"

lemma update_keeps:
  "receipt db k = Some r \<Longrightarrow> final_receipt r \<Longrightarrow> receipt (update_result (\<lambda>p. hr_approval p \<noteq> None) key v db) k = Some r"
  "receipt db k = Some r \<Longrightarrow> final_receipt r \<Longrightarrow> receipt (update_result (\<lambda>p. hr_code p = Some ''external_in_flight'') key v db) k = Some r"
  by (auto simp: update_result_results final_receipt_def)

lemma transaction_keeps:
  assumes "execute_transaction hash tools t cx input o1 db = (res, db')" "receipt db k = Some r" "final_receipt r"
  shows "receipt db' k = Some r"
  using assms(1)
proof (cases rule: transaction_cases)
  case (commit v db1)
  have "receipt db1 = receipt db" using commit(1) run_native_ledger by metis
  then show ?thesis using assms(2,3) commit(3) by (auto simp: store_receipt_results final_receipt_def)
qed (use assms in simp_all)

lemma call_external_ledger: "call_external t cx input o1 db = (res, db1) \<Longrightarrow> nd_ledger db1 = nd_ledger db"
  by (auto simp: call_external_def split: option.splits os_error.splits prod.splits sum.splits)

lemma take_approval_keeps:
  assumes "take_approval hash t cx input o1 db = (res, db1)" "receipt db k = Some r" "final_receipt r"
  shows "receipt db1 k = Some r"
proof -
  obtain g db2 where g: "approvalGate hash t cx input db = (g, db2)" by fastforce
  have "receipt db2 k = Some r" using gate_frame [OF g] assms(2) by simp
  then show ?thesis using assms g update_keeps(1)
    by (auto simp: take_approval_def split: sum.splits option.splits prod.splits)
qed

lemma external_keeps:
  assumes run: "execute_external hash tools t cx input o1 db = (res, db')" and r: "receipt db k = Some r" "final_receipt r"
  shows "receipt db' k = Some r"
proof -
  obtain m db1 where m: "(if tl_approval t then take_approval hash t cx input o1 db else (Inr (None, cx), db)) = (m, db1)" by fastforce
  have r1: "receipt db1 k = Some r" using m r take_approval_keeps by (auto split: if_splits)
  from run m consider "db' = db" | "db' = db1"
    | cx1 v db2 where "call_external t cx1 input o1 db1 = (v, db2)"
        "db' = db2 \<or> (\<exists>x. db' = update_result (\<lambda>p. hr_code p = Some ''external_in_flight'') (ha_key (cx_action cx)) x db2)"
    by (auto simp: execute_external_def split: sum.splits option.splits prod.splits if_splits)
  then show ?thesis
  proof cases
    case 3
    have "receipt db2 k = Some r" using call_external_ledger [OF 3(1)] r1 by simp
    then show ?thesis using 3(2) update_keeps(2) [OF _ r(2)] by blast
  qed (use r r1 in simp_all)
qed

lemma execute_tool_keeps:
  assumes "execute_tool hash tools cx o1 db = (res, db')" "receipt db k = Some r" "final_receipt r"
  shows "receipt db' k = Some r"
  using assms transaction_keeps external_keeps by (fastforce simp: execute_tool_def split: sum.splits prod.splits if_splits)

lemma later_keeps:
  "native_later hash tools db db2 \<Longrightarrow> receipt db k = Some r \<Longrightarrow> final_receipt r \<Longrightarrow> receipt db2 k = Some r"
  by (induction rule: native_later.induct) (auto dest: execute_tool_keeps)


subsection \<open>Approval before effect\<close>

lemma transaction_approved:
  assumes "execute_transaction hash tools t cx input o1 db = (res, db')" "tl_approval t" "nd_data db' \<noteq> nd_data db"
  shows "approved hash t cx input db \<and> lockAction (no_now o1) cx db = Inr ()"
proof -
  have lock: "lockAction (no_now o1) cx db = Inr ()"
    using assms by (cases "lockAction (no_now o1) cx db") (auto simp: execute_transaction_def Let_def)
  show ?thesis using assms(1)
  proof (cases rule: transaction_cases)
    case (commit r db1)
    then have "nd_data db1 \<noteq> nd_data db" using assms(3) store_receipt_results(2) by metis
    then have "run_native hash tools t cx input o1 db = (Inr r, db1)" using commit(1) by blast
    then show ?thesis using run_native_effect assms(2) \<open>nd_data db1 \<noteq> _\<close> lock by blast
  qed (use assms(3) in simp_all)
qed

lemma external_approved:
  assumes run: "execute_external hash tools t cx input o1 db = (res, db')" and t: "tl_approval t" and changed: "nd_data db' \<noteq> nd_data db"
  shows "approved hash t cx input db \<and> lockAction (no_now o1) cx db = Inr ()"
proof -
  obtain m db1 where m: "take_approval hash t cx input o1 db = (m, db1)" by fastforce
  obtain g db2 where g: "approvalGate hash t cx input db = (g, db2)" by fastforce
  have frame: "nd_data db1 = nd_data db" using m g gate_frame [OF g]
    by (auto simp: take_approval_def update_result_results(2) split: sum.splits option.splits prod.splits)
  have "\<exists>cx1. m = Inr (None, cx1)" using run m t changed frame
    by (auto simp: execute_external_def split: sum.splits option.splits prod.splits)
  then obtain cx1 where cx1: "m = Inr (None, cx1)" by blast
  then have "lockAction (no_now o1) cx db = Inr () \<and> g = Inr (None, cx1)"
    using m g by (cases "lockAction (no_now o1) cx db") (auto simp: take_approval_def split: sum.splits option.splits prod.splits)
  then show ?thesis using gate_opens g t by blast
qed

text \<open>C6: An effect that needs an approval happens only under one. When executing an action whose tool
  requires approval changes the data of the tools, the work item held its live lease on exactly this action,
  and the approval table held a positive decision for its key, taken under the current contract of the tool
  and for a preview deeply equal to the preview computed from the data the effect was applied to.\<close>

theorem approved_only:
  assumes "execute_tool hash tools cx o1 db = (res, db')"
    and "tool_definition tools (cx_action cx) = Inr t" "nt_parse t (ha_args (cx_action cx)) = Inr input"
    and "tl_approval t" "nd_data db' \<noteq> nd_data db"
  shows "approved hash t cx input db \<and> lockAction (no_now o1) cx db = Inr ()"
  using assms transaction_approved external_approved by (simp add: execute_tool_def split: if_splits) blast+

subsection \<open>A concrete execution\<close>

text \<open>A counter that an approved call increments: the approval was taken for the preview of its value.\<close>

definition counter_tool :: "int native_tool" where
  "counter_tool = \<lparr>tl_name = ''notes__send'', tl_action = ''notes.send'', tl_description = ''Send'', tl_properties = [],
     tl_required = None, tl_effect = TransactionEffect, tl_approval = True, tl_timeoutMs = None, tl_execution = None,
     tl_semanticVersion = None, tl_readback = None, tl_observation = None, tl_preconditions = None,
     nt_parse = Inr, nt_authorize = (\<lambda>_ _ _. Inr ()), nt_execute = (\<lambda>_ _ d. (Inr (empty_result True), d + 1)),
     nt_preview = Some (\<lambda>_ _ d. Inr (JNum d)), nt_reconcile = None, nt_observe = None, nt_requirement = None\<rparr>"

definition counter_action :: host_action where
  "counter_action = \<lparr>ha_runId = ''w'', ha_cellId = ''c'', ha_callIndex = 0, ha_action = ''notes.send'', ha_args = [], ha_key = ''k''\<rparr>"

definition counter_row :: work_row where
  "counter_row = (new_row 0 ''w'' \<lparr>eq_id = None, eq_tenantId = ''t'', eq_agentId = ''a'', eq_sessionId = ''s'', eq_threadId = None,
     eq_kind = ''chat'', eq_lane = Interactive, eq_triggerRef = ''r'', eq_principalId = None, eq_availableAt = None,
     eq_priority = None, eq_meta = None\<rparr>)\<lparr>row_status := Leased, row_fence := 1, row_leaseExpiresAt := Some 10\<rparr>"

definition counter_context :: action_context where
  "counter_context = \<lparr>cx_work = toWorkItem counter_row 0, cx_conversation = None, cx_action = counter_action,
     cx_requestVersion = Some 1, cx_approvedPreview = None\<rparr>"

definition counter_db :: "int native_db" where
  "counter_db = \<lparr>nd_data = 4,
     nd_ledger = empty_ledger\<lparr>lg_details := [(''k'', \<lparr>ai_toolContractHash = Some ''h'', ai_workId = ''w'', ai_tenantId = ''t'',
       ai_principalId = None, ai_agentId = ''a'', ai_sessionId = ''s'', ai_threadId = None, ai_requestVersion = Some 1,
       ai_action = counter_action\<rparr>)]\<rparr>,
     nd_approvals = [(''h'', \<lparr>av_actionKey = ''k'', av_preview = JNum 4, av_toolContractHash = Some ''h'', av_decision = Some True\<rparr>)],
     nd_work = [(''w'', counter_row)],
     nd_conversations = \<lparr>ct_policies = [], ct_threads = [], ct_slots = []\<rparr>\<rparr>"

definition calm :: native_options where
  "calm = \<lparr>no_now = 2, no_abortedBefore = False, no_abortedAfter = False, no_commitLost = None, no_quota = None\<rparr>"

definition counted_db :: "int native_db" where
  "counted_db = counter_db\<lparr>nd_data := 5, nd_ledger := (nd_ledger counter_db)\<lparr>lg_results := [(''k'', empty_result True)]\<rparr>\<rparr>"

lemmas counter_defs = counter_tool_def counter_action_def counter_row_def counter_context_def counter_db_def calm_def counted_db_def

lemma counter_runs:
  "execute_transaction (\<lambda>_. ''h'') [counter_tool] counter_tool counter_context [] calm counter_db = (Inr (empty_result True), counted_db)"
  by code_simp

lemma counter_executes:
  "execute_tool (\<lambda>_. ''h'') [counter_tool] counter_context calm counter_db = (Inr (empty_result True), counted_db)"
  by code_simp

lemma native_atomic_witness:
  "committed counter_tool counter_context [] counter_db counted_db (empty_result True)"
  using native_atomic [OF counter_runs] by (simp add: empty_result_def)


lemma approved_only_witness:
  "approved (\<lambda>_. ''h'') counter_tool counter_context [] counter_db \<and> lockAction 2 counter_context counter_db = Inr ()"
  using approved_only [OF counter_executes, of counter_tool "[]"]
  by (simp add: counter_defs tool_definition_def)

end
