(* ===== verification/Quota.thy ===== *)
theory Quota
  imports Prelude
begin

text \<open>
  Admission of expensive operations (resource-quota.ts): \<open>ResourceQuota\<close> holds a slot until the underlying
  operation settles and queues what does not fit; \<open>ByteBudget\<close> rejects what does not fit. The operations
  themselves, their signals and the moment they settle are the environment. The lemmas show that the
  limits hold along every run, that no admissible operation is left waiting, and that operations of
  a priority start in the order they came.
\<close>

subsection \<open>Slots\<close>

datatype resource_priority = Foreground | Background

record quota_limits =
  ql_capacity :: int
  ql_maxQueued :: int
  ql_reserved :: int

definition resource_quota :: "int \<Rightarrow> int \<Rightarrow> int \<Rightarrow> os_error + quota_limits" where
  "resource_quota capacity maxQueued reserved =
     (if capacity < 1 \<or> capacity > 1024 then Inl (JsError ''resource capacity must be 1-1024'')
      else if maxQueued < 0 \<or> maxQueued > 1024 then Inl (JsError ''invalid resource queue limit'')
      else if reserved < 0 \<or> reserved \<ge> capacity then Inl (JsError ''invalid foreground reservation'')
      else Inr \<lparr>ql_capacity = capacity, ql_maxQueued = maxQueued, ql_reserved = reserved\<rparr>)"

text \<open>
  A waiter is the number of the call and its priority. \<open>qt_held\<close> are the operations whose \<open>release\<close> has
  not run yet, \<open>qt_started\<close> lists the started operations in their order (both live in closures of the source).
\<close>

record waiter =
  wt_call :: nat
  wt_priority :: resource_priority

record quota =
  qt_active :: int
  qt_background :: int
  qt_waiters :: "waiter list"
  qt_held :: "waiter list"
  qt_started :: "waiter list"

definition new_quota :: quota where
  "new_quota = \<lparr>qt_active = 0, qt_background = 0, qt_waiters = [], qt_held = [], qt_started = []\<rparr>"

definition available :: "quota_limits \<Rightarrow> resource_priority \<Rightarrow> quota \<Rightarrow> bool" where
  "available l p q = (qt_active q < ql_capacity l \<and> (p = Foreground \<or> qt_background q < ql_capacity l - ql_reserved l))"

text \<open>\<open>findIndex\<close> and \<open>splice\<close> of the first waiter that is available.\<close>

fun take_first :: "('a \<Rightarrow> bool) \<Rightarrow> 'a list \<Rightarrow> ('a \<times> 'a list) option" where
  "take_first P [] = None"
| "take_first P (x # xs) = (if P x then Some (x, xs) else map_option (\<lambda>(y, ys). (y, x # ys)) (take_first P xs))"

definition start_operation :: "waiter \<Rightarrow> quota \<Rightarrow> quota" where
  "start_operation w q = q\<lparr>qt_active := qt_active q + 1,
     qt_background := qt_background q + (if wt_priority w = Background then 1 else 0),
     qt_held := qt_held q @ [w], qt_started := qt_started q @ [w]\<rparr>"

definition release_slot :: "waiter \<Rightarrow> quota \<Rightarrow> quota" where
  "release_slot w q = q\<lparr>qt_active := qt_active q - 1,
     qt_background := qt_background q - (if wt_priority w = Background then 1 else 0),
     qt_held := remove1 w (qt_held q)\<rparr>"

lemma take_first_Some:
  "take_first P xs = Some (x, ys) \<Longrightarrow> P x \<and> (\<exists>us vs. xs = us @ x # vs \<and> ys = us @ vs \<and> (\<forall>u\<in>set us. \<not> P u))"
proof (induction xs arbitrary: ys)
  case (Cons z xs)
  show ?case
  proof (cases "P z")
    case True
    then have "z # xs = [] @ x # xs \<and> ys = [] @ xs" "P x" using Cons.prems by auto
    then show ?thesis by (metis empty_iff list.set(1))
  next
    case False
    then obtain zs where zs: "take_first P xs = Some (x, zs)" "ys = z # zs" using Cons.prems by auto
    from Cons.IH [OF zs(1)] obtain us vs where "P x" "xs = us @ x # vs" "zs = us @ vs" "\<forall>u\<in>set us. \<not> P u" by blast
    then have "P x" "z # xs = (z # us) @ x # vs" "ys = (z # us) @ vs" "\<forall>u\<in>set (z # us). \<not> P u" using False zs(2) by auto
    then show ?thesis by blast
  qed
qed simp

lemma take_first_None: "take_first P xs = None \<longleftrightarrow> (\<forall>x\<in>set xs. \<not> P x)"
  by (induction xs) auto

text \<open>
  \<open>drain\<close>: an operation that throws at once (or whose signal is aborted by then, \<open>fails\<close>) is released inside
  its own start, which drains again before the outer loop goes on.
\<close>

function drain :: "quota_limits \<Rightarrow> (nat \<Rightarrow> bool) \<Rightarrow> quota \<Rightarrow> quota" where
  "drain l fails q =
     (case take_first (\<lambda>w. available l (wt_priority w) q) (qt_waiters q) of
        None \<Rightarrow> q
      | Some (w, ws) \<Rightarrow>
          drain l fails (if fails (wt_call w) then drain l fails (release_slot w (start_operation w (q\<lparr>qt_waiters := ws\<rparr>)))
            else start_operation w (q\<lparr>qt_waiters := ws\<rparr>)))"
  by pat_completeness auto

lemma take_first_length: "take_first P xs = Some (x, ys) \<Longrightarrow> length xs = Suc (length ys)"
  using take_first_Some by fastforce

lemma drain_waiters_le: "drain_dom (l, fails, q) \<Longrightarrow> length (qt_waiters (drain l fails q)) \<le> length (qt_waiters q)"
proof (induction l fails q rule: drain.pinduct)
  case (1 l fails q)
  show ?case
  proof (cases "take_first (\<lambda>w. available l (wt_priority w) q) (qt_waiters q)")
    case None
    then show ?thesis using drain.psimps [OF 1(1)] by simp
  next
    case (Some ww)
    obtain w ws where ww: "ww = (w, ws)" by fastforce
    note step = drain.psimps [OF 1(1)]
    have len: "length (qt_waiters q) = Suc (length ws)" using take_first_length Some ww by fast
    show ?thesis
    proof (cases "fails (wt_call w)")
      case True
      have "length (qt_waiters (drain l fails (release_slot w (start_operation w (q\<lparr>qt_waiters := ws\<rparr>))))) \<le> length ws"
        using 1(2) [OF Some ww [symmetric] True] by (simp add: release_slot_def start_operation_def)
      moreover have "length (qt_waiters (drain l fails q)) \<le> length (qt_waiters (drain l fails (release_slot w (start_operation w (q\<lparr>qt_waiters := ws\<rparr>)))))"
        using 1(3) [OF Some ww [symmetric]] True Some ww step by simp
      ultimately show ?thesis using len by simp
    next
      case False
      then show ?thesis using 1(3) [OF Some ww [symmetric]] Some ww step len by (simp add: start_operation_def)
    qed
  qed
qed

termination drain
proof (relation "measure (\<lambda>(l, fails, q). length (qt_waiters q))", goal_cases)
  case (2 l fails q x w ws)
  then show ?case using take_first_length by (fastforce simp: release_slot_def start_operation_def)
next
  case (3 l fails q x w ws)
  have len: "length (qt_waiters q) = Suc (length ws)" using 3(1,2) take_first_length by fast
  show ?case
  proof (cases "fails (wt_call w)")
    case True
    then have "length (qt_waiters (drain l fails (release_slot w (start_operation w (q\<lparr>qt_waiters := ws\<rparr>))))) \<le> length ws"
      using drain_waiters_le [OF 3(3)] by (simp add: release_slot_def start_operation_def)
    then show ?thesis using len True by simp
  qed (simp add: len start_operation_def)
qed simp

declare drain.simps [simp del]

lemma drain_rest: "take_first (\<lambda>w. available l (wt_priority w) q) (qt_waiters q) = None \<Longrightarrow> drain l fails q = q"
  by (simp add: drain.simps [of l fails q])

lemma drain_next: "take_first (\<lambda>w. available l (wt_priority w) q) (qt_waiters q) = Some (w, ws) \<Longrightarrow>
  drain l fails q = drain l fails (if fails (wt_call w) then drain l fails (release_slot w (start_operation w (q\<lparr>qt_waiters := ws\<rparr>)))
    else start_operation w (q\<lparr>qt_waiters := ws\<rparr>))"
  by (simp add: drain.simps [of l fails q])

text \<open>The outcome of \<open>run\<close>: refused because the signal is aborted or the queue is full, or started, or queued.\<close>

datatype admission = AbortedAdmission | QueueFull | StartedAdmission | QueuedAdmission

definition run_quota :: "quota_limits \<Rightarrow> (nat \<Rightarrow> bool) \<Rightarrow> bool \<Rightarrow> waiter \<Rightarrow> quota \<Rightarrow> admission \<times> quota" where
  "run_quota l fails aborted w q =
     (if aborted then (AbortedAdmission, q)
      else if available l (wt_priority w) q \<and> qt_waiters q = []
      then (StartedAdmission, if fails (wt_call w) then drain l fails (release_slot w (start_operation w q)) else start_operation w q)
      else if js_len (qt_waiters q) \<ge> ql_maxQueued l then (QueueFull, q)
      else (QueuedAdmission, drain l fails (q\<lparr>qt_waiters := qt_waiters q @ [w]\<rparr>)))"

text \<open>The operation settles; the signal of a waiting call is aborted.\<close>

definition settle_operation :: "quota_limits \<Rightarrow> (nat \<Rightarrow> bool) \<Rightarrow> waiter \<Rightarrow> quota \<Rightarrow> quota" where
  "settle_operation l fails w q = drain l fails (release_slot w q)"

definition cancel_waiter :: "waiter \<Rightarrow> quota \<Rightarrow> quota" where
  "cancel_waiter w q = q\<lparr>qt_waiters := remove1 w (qt_waiters q)\<rparr>"

subsection \<open>Runs\<close>

text \<open>What the callers and the operations do: call, settle, give up waiting. Calls are numbered as they come.\<close>

inductive quota_step :: "quota_limits \<Rightarrow> nat \<times> quota \<Rightarrow> nat \<times> quota \<Rightarrow> bool" for l where
  call: "quota_step l (n, q) (Suc n, snd (run_quota l fails aborted \<lparr>wt_call = n, wt_priority = p\<rparr> q))"
| settle: "w \<in> set (qt_held q) \<Longrightarrow> quota_step l (n, q) (n, settle_operation l fails w q)"
| cancel: "w \<in> set (qt_waiters q) \<Longrightarrow> quota_step l (n, q) (n, cancel_waiter w q)"

abbreviation of_priority :: "resource_priority \<Rightarrow> waiter list \<Rightarrow> waiter list" where
  "of_priority p \<equiv> filter (\<lambda>w. wt_priority w = p)"

text \<open>The invariant of the counters, the queue and the order; \<open>drained\<close> holds whenever the quota is at rest.\<close>

definition counted :: "quota_limits \<Rightarrow> nat \<Rightarrow> quota \<Rightarrow> bool" where
  "counted l n q = (qt_active q = js_len (qt_held q) \<and> qt_background q = js_len (of_priority Background (qt_held q))
     \<and> qt_active q \<le> ql_capacity l \<and> qt_background q \<le> ql_capacity l - ql_reserved l
     \<and> (\<forall>p. sorted_wrt (<) (map wt_call (of_priority p (qt_started q @ qt_waiters q))))
     \<and> (\<forall>w \<in> set (qt_started q @ qt_waiters q). wt_call w < n))"

definition drained :: "quota_limits \<Rightarrow> quota \<Rightarrow> bool" where
  "drained l q = (\<forall>w \<in> set (qt_waiters q). \<not> available l (wt_priority w) q)"

definition quota_ok :: "quota_limits \<Rightarrow> nat \<times> quota \<Rightarrow> bool" where
  "quota_ok l s = (case s of (n, q) \<Rightarrow> counted l n q \<and> drained l q \<and> js_len (qt_waiters q) \<le> ql_maxQueued l)"

lemma start_counted:
  assumes "counted l n q" and "take_first (\<lambda>w. available l (wt_priority w) q) (qt_waiters q) = Some (w, ws)"
  shows "counted l n (start_operation w (q\<lparr>qt_waiters := ws\<rparr>))"
proof -
  obtain us vs where av: "available l (wt_priority w) q" and q: "qt_waiters q = us @ w # vs" "ws = us @ vs"
    and us: "\<forall>u\<in>set us. \<not> available l (wt_priority u) q" using take_first_Some [OF assms(2)] by blast
  have none: "of_priority (wt_priority w) us = []" using av us by (auto simp: filter_empty_conv)
  have order: "of_priority p (qt_started q @ [w] @ us @ vs) = of_priority p (qt_started q @ qt_waiters q)" for p
    using none by (cases "p = wt_priority w") (simp_all add: q(1))
  have "sorted_wrt (<) (map wt_call (of_priority p (qt_started q @ [w] @ us @ vs)))" for p
    using assms(1) unfolding order counted_def by blast
  moreover have "\<forall>x \<in> set (qt_started q @ [w] @ us @ vs). wt_call x < n" using assms(1) q(1) by (auto simp: counted_def)
  moreover have "qt_active q + 1 \<le> ql_capacity l" "wt_priority w = Background \<Longrightarrow> qt_background q + 1 \<le> ql_capacity l - ql_reserved l"
    using av by (auto simp: available_def)
  ultimately show ?thesis using assms(1) unfolding counted_def start_operation_def q(2) by (simp add: sorted_wrt_append)
qed

lemma length_remove: "w \<in> set xs \<Longrightarrow> js_len (remove1 w xs) = js_len xs - 1"
  by (induction xs) auto

lemma release_counted:
  assumes "counted l n q" and "w \<in> set (qt_held q)"
  shows "counted l n (release_slot w q)"
proof -
  have "of_priority Background (remove1 w (qt_held q)) = remove1 w (of_priority Background (qt_held q))" by (simp add: filter_remove1)
  moreover have "js_len (remove1 w (qt_held q)) = js_len (qt_held q) - 1" using assms(2) by (rule length_remove)
  moreover have "wt_priority w = Background \<Longrightarrow> js_len (remove1 w (of_priority Background (qt_held q))) = js_len (of_priority Background (qt_held q)) - 1"
    using assms(2) by (intro length_remove) simp
  moreover have "wt_priority w \<noteq> Background \<Longrightarrow> remove1 w (of_priority Background (qt_held q)) = of_priority Background (qt_held q)"
    by (simp add: remove1_idem)
  ultimately show ?thesis using assms(1) by (simp add: counted_def release_slot_def)
qed

text \<open>What a drain leaves, and that it only moves waiters to the started operations.\<close>

lemma drain_counted: "counted l n q \<Longrightarrow> counted l n (drain l fails q) \<and> drained l (drain l fails q)"
proof (induction l fails q rule: drain.induct)
  case (1 l fails q)
  show ?case
  proof (cases "take_first (\<lambda>w. available l (wt_priority w) q) (qt_waiters q)")
    case None
    then show ?thesis using 1(3) drain_rest [OF None] by (auto simp: drained_def take_first_None)
  next
    case (Some ww)
    obtain w ws where ww: "ww = (w, ws)" by fastforce
    let ?s = "start_operation w (q\<lparr>qt_waiters := ws\<rparr>)"
    have s: "counted l n ?s" using start_counted [OF 1(3)] Some ww by simp
    have "w \<in> set (qt_held ?s)" by (simp add: start_operation_def)
    then have r: "counted l n (release_slot w ?s)" using release_counted s by blast
    let ?next = "if fails (wt_call w) then drain l fails (release_slot w ?s) else ?s"
    have "counted l n ?next" using s r 1(1) [OF Some ww [symmetric]] by simp
    then show ?thesis using 1(2) [OF Some ww [symmetric]] drain_next [of l q w ws fails] Some ww by simp
  qed
qed

definition moves_to :: "quota \<Rightarrow> quota \<Rightarrow> bool" where
  "moves_to q q' = (length (qt_held q') + length (qt_waiters q') \<le> length (qt_held q) + length (qt_waiters q)
     \<and> length (qt_waiters q') \<le> length (qt_waiters q) \<and> set (qt_started q) \<subseteq> set (qt_started q')
     \<and> set (qt_waiters q) \<subseteq> set (qt_waiters q') \<union> set (qt_started q'))"

lemma moves_trans: "moves_to q q1 \<Longrightarrow> moves_to q1 q2 \<Longrightarrow> moves_to q q2"
  by (auto simp: moves_to_def)

lemma drain_moves: "moves_to q (drain l fails q)"
proof (induction l fails q rule: drain.induct)
  case (1 l fails q)
  show ?case
  proof (cases "take_first (\<lambda>w. available l (wt_priority w) q) (qt_waiters q)")
    case None
    then show ?thesis using drain_rest [OF None] by (simp add: moves_to_def)
  next
    case (Some ww)
    obtain w ws where ww: "ww = (w, ws)" by fastforce
    let ?s = "start_operation w (q\<lparr>qt_waiters := ws\<rparr>)"
    have s: "moves_to q ?s" using Some ww take_first_Some
      by (fastforce simp: moves_to_def start_operation_def)
    have "moves_to q (release_slot w ?s)" using Some ww take_first_Some
      by (fastforce simp: moves_to_def start_operation_def release_slot_def length_remove1)
    then have "moves_to q (if fails (wt_call w) then drain l fails (release_slot w ?s) else ?s)"
      using s 1(1) [OF Some ww [symmetric]] moves_trans by auto
    then have "moves_to q (drain l fails (if fails (wt_call w) then drain l fails (release_slot w ?s) else ?s))"
      using 1(2) [OF Some ww [symmetric]] moves_trans by blast
    then show ?thesis using drain_next [of l q w ws fails] Some ww by simp
  qed
qed

lemma counted_more: "counted l n q \<Longrightarrow> counted l (Suc n) q"
  by (auto simp: counted_def less_Suc_eq)

lemma call_started:
  assumes "counted l n q" "available l p q" "qt_waiters q = []"
  shows "counted l (Suc n) (start_operation \<lparr>wt_call = n, wt_priority = p\<rparr> q)"
  using assms by (auto simp: counted_def start_operation_def available_def sorted_wrt_append less_Suc_eq)

lemma call_queued: "counted l n q \<Longrightarrow> counted l (Suc n) (q\<lparr>qt_waiters := qt_waiters q @ [\<lparr>wt_call = n, wt_priority = p\<rparr>]\<rparr>)"
  by (auto simp: counted_def sorted_wrt_append less_Suc_eq)

lemma run_quota_ok:
  assumes ok: "quota_ok l (n, q)"
  shows "quota_ok l (Suc n, snd (run_quota l fails aborted \<lparr>wt_call = n, wt_priority = p\<rparr> q))"
proof -
  let ?w = "\<lparr>wt_call = n, wt_priority = p\<rparr>"
  have c: "counted l n q" "drained l q" "js_len (qt_waiters q) \<le> ql_maxQueued l" using ok by (auto simp: quota_ok_def)
  consider (same) "snd (run_quota l fails aborted ?w q) = q"
    | (held) "available l p q" "qt_waiters q = []" "snd (run_quota l fails aborted ?w q) = start_operation ?w q"
    | (failed) "available l p q" "qt_waiters q = []" "snd (run_quota l fails aborted ?w q) = drain l fails (release_slot ?w (start_operation ?w q))"
    | (queued) "js_len (qt_waiters q) < ql_maxQueued l" "snd (run_quota l fails aborted ?w q) = drain l fails (q\<lparr>qt_waiters := qt_waiters q @ [?w]\<rparr>)"
    by (cases aborted; cases "available l p q \<and> qt_waiters q = []"; cases "fails n"; cases "js_len (qt_waiters q) < ql_maxQueued l")
      (auto simp: run_quota_def)
  then show ?thesis
  proof cases
    case same
    then show ?thesis using c counted_more by (simp add: quota_ok_def)
  next
    case held
    then show ?thesis using c call_started [OF c(1) held(1,2)] by (simp add: quota_ok_def drained_def start_operation_def)
  next
    case failed
    have s: "counted l (Suc n) (start_operation ?w q)" using call_started [OF c(1) failed(1,2)] .
    have r: "counted l (Suc n) (release_slot ?w (start_operation ?w q))" using release_counted [OF s] by (simp add: start_operation_def)
    have "moves_to (release_slot ?w (start_operation ?w q)) (drain l fails (release_slot ?w (start_operation ?w q)))" by (rule drain_moves)
    then have "qt_waiters (drain l fails (release_slot ?w (start_operation ?w q))) = []"
      using failed(2) by (simp add: moves_to_def release_slot_def start_operation_def)
    then show ?thesis using drain_counted [OF r] failed(3) c(3) by (simp add: quota_ok_def)
  next
    case queued
    have "moves_to (q\<lparr>qt_waiters := qt_waiters q @ [?w]\<rparr>) (drain l fails (q\<lparr>qt_waiters := qt_waiters q @ [?w]\<rparr>))" by (rule drain_moves)
    then have "js_len (qt_waiters (drain l fails (q\<lparr>qt_waiters := qt_waiters q @ [?w]\<rparr>))) \<le> ql_maxQueued l"
      using queued(1) by (simp add: moves_to_def)
    then show ?thesis using drain_counted [OF call_queued [OF c(1)]] queued(2) by (simp add: quota_ok_def)
  qed
qed

lemma settle_ok:
  assumes "quota_ok l (n, q)" "w \<in> set (qt_held q)"
  shows "quota_ok l (n, settle_operation l fails w q)"
proof -
  have "moves_to (release_slot w q) (settle_operation l fails w q)" unfolding settle_operation_def by (rule drain_moves)
  then have "length (qt_waiters (settle_operation l fails w q)) \<le> length (qt_waiters q)" by (simp add: moves_to_def release_slot_def)
  moreover have "counted l n (release_slot w q)" using release_counted assms by (simp add: quota_ok_def)
  ultimately show ?thesis using drain_counted assms(1) unfolding quota_ok_def settle_operation_def by fastforce
qed

lemma sorted_remove1: "sorted_wrt (<) (map wt_call xs) \<Longrightarrow> sorted_wrt (<) (map wt_call (remove1 w xs))"
proof (induction xs)
  case (Cons x xs)
  have "set (remove1 w xs) \<subseteq> set xs" by (rule set_remove1_subset)
  then show ?case using Cons by auto
qed simp

lemma cancel_ok:
  assumes "quota_ok l (n, q)"
  shows "quota_ok l (n, cancel_waiter w q)"
proof -
  have sub: "set (remove1 w (qt_waiters q)) \<subseteq> set (qt_waiters q)" by (rule set_remove1_subset)
  have "sorted_wrt (<) (map wt_call (of_priority p (qt_started q @ remove1 w (qt_waiters q))))" for p
  proof -
    have "sorted_wrt (<) (map wt_call (of_priority p (qt_started q @ qt_waiters q)))"
      using assms by (auto simp: quota_ok_def counted_def)
    moreover have "set (remove1 w (of_priority p (qt_waiters q))) \<subseteq> set (of_priority p (qt_waiters q))" by (rule set_remove1_subset)
    ultimately show ?thesis by (auto simp: sorted_wrt_append filter_remove1 intro: sorted_remove1)
  qed
  moreover have "length (remove1 w (qt_waiters q)) \<le> length (qt_waiters q)" by (simp add: length_remove1)
  ultimately show ?thesis using assms sub
    by (fastforce simp: quota_ok_def counted_def drained_def cancel_waiter_def available_def)
qed

lemma quota_step_ok: "quota_step l s s' \<Longrightarrow> quota_ok l s \<Longrightarrow> quota_ok l s'"
  by (induction rule: quota_step.induct) (auto intro: run_quota_ok settle_ok cancel_ok)

lemma new_quota_ok: "resource_quota c m r = Inr l \<Longrightarrow> quota_ok l (0, new_quota)"
  by (auto simp: resource_quota_def quota_ok_def counted_def drained_def new_quota_def split: if_splits)

interpretation quota_run: transition_system "\<lambda>s. s = (0, new_quota) \<and> (\<exists>c m r. resource_quota c m r = Inr l)" "quota_step l" "quota_ok l" for l
  by unfold_locales (auto intro: new_quota_ok quota_step_ok)

subsection \<open>Guarantees\<close>

text \<open>C36: the limits of a resource hold and its slots are not wasted. In every reachable state the running
  operations are at most the capacity, the background ones leave the reserved slots free, the queue keeps
  its limit, and an operation waits only while its class has no slot: all slots are taken, or it is a
  background operation and the unreserved ones are.\<close>

theorem quota_bounds:
  assumes "resource_quota c m r = Inr l" and "(quota_step l)\<^sup>*\<^sup>* (0, new_quota) (n, q)"
  shows "qt_active q = js_len (qt_held q) \<and> qt_active q \<le> c \<and> js_len (of_priority Background (qt_held q)) \<le> c - r
    \<and> js_len (qt_waiters q) \<le> m
    \<and> (\<forall>w\<in>set (qt_waiters q). qt_active q = c
        \<or> wt_priority w = Background \<and> js_len (of_priority Background (qt_held q)) = c - r)"
proof -
  have "quota_ok l (n, q)" using quota_run.reachable_inv assms by blast
  moreover have "ql_capacity l = c" "ql_maxQueued l = m" "ql_reserved l = r"
    using assms(1) by (auto simp: resource_quota_def split: if_splits)
  moreover have "qt_active q = c \<or> wt_priority w = Background \<and> js_len (of_priority Background (qt_held q)) = c - r"
    if "w \<in> set (qt_waiters q)" for w
  proof -
    have "\<not> available l (wt_priority w) q" using calculation(1) that by (simp add: quota_ok_def drained_def)
    then show ?thesis using calculation by (cases "wt_priority w") (auto simp: available_def quota_ok_def counted_def)
  qed
  ultimately show ?thesis by (simp add: quota_ok_def counted_def)
qed

text \<open>A run of settlements and nothing else, with its number of steps.\<close>

inductive settling :: "quota_limits \<Rightarrow> nat \<Rightarrow> quota \<Rightarrow> quota \<Rightarrow> bool" for l where
  none: "settling l 0 q q"
| more: "settling l k q q1 \<Longrightarrow> w \<in> set (qt_held q1) \<Longrightarrow> settling l (Suc k) q (settle_operation l fails w q1)"

lemma settle_moves:
  assumes "w \<in> set (qt_held q)"
  shows "set (qt_started q) \<subseteq> set (qt_started (settle_operation l fails w q))
    \<and> set (qt_waiters q) \<subseteq> set (qt_waiters (settle_operation l fails w q)) \<union> set (qt_started (settle_operation l fails w q))
    \<and> length (qt_held (settle_operation l fails w q)) + length (qt_waiters (settle_operation l fails w q)) < length (qt_held q) + length (qt_waiters q)"
proof -
  have "moves_to (release_slot w q) (settle_operation l fails w q)" unfolding settle_operation_def by (rule drain_moves)
  moreover have "length (qt_held (release_slot w q)) < length (qt_held q)"
    using assms length_pos_if_in_set [OF assms] by (simp add: release_slot_def length_remove1)
  ultimately show ?thesis by (auto simp: moves_to_def release_slot_def)
qed

lemma settling_moves:
  "settling l k q q' \<Longrightarrow> quota_ok l (n, q) \<Longrightarrow> quota_ok l (n, q') \<and> set (qt_started q) \<subseteq> set (qt_started q')
    \<and> set (qt_waiters q) \<subseteq> set (qt_waiters q') \<union> set (qt_started q')
    \<and> k + length (qt_held q') + length (qt_waiters q') \<le> length (qt_held q) + length (qt_waiters q)"
proof (induction rule: settling.induct)
  case (more k q q1 w fails)
  then show ?case using settle_moves [OF more(2), of l fails] settle_ok [of l n q1 w fails] by auto
qed simp

lemma idle_drained:
  assumes "resource_quota c m r = Inr l" "quota_ok l (n, q)" "qt_held q = []"
  shows "qt_waiters q = []"
proof (rule ccontr)
  assume "qt_waiters q \<noteq> []"
  then obtain w where "w \<in> set (qt_waiters q)" by (meson list.set_sel(1))
  then have "\<not> available l (wt_priority w) q" using assms(2) by (simp add: quota_ok_def drained_def)
  moreover have "qt_active q = 0" "qt_background q = 0" using assms(2,3) by (auto simp: quota_ok_def counted_def)
  ultimately show False using assms(1) by (auto simp: available_def resource_quota_def split: if_splits)
qed

text \<open>No waiting operation is forgotten or overtaken. From every reachable state at most as many settlements
  can follow as operations run and wait; when nothing runs any more, every operation that waited has been
  started; and of each priority the operations were always started in the order in which they were called.\<close>

theorem quota_progress:
  assumes "resource_quota c m r = Inr l" and "(quota_step l)\<^sup>*\<^sup>* (0, new_quota) (n, q)" and "settling l k q q'"
  shows "k \<le> length (qt_held q) + length (qt_waiters q)
    \<and> (qt_held q' = [] \<longrightarrow> qt_waiters q' = [] \<and> set (qt_waiters q) \<subseteq> set (qt_started q'))
    \<and> (\<forall>p. sorted_wrt (<) (map wt_call (of_priority p (qt_started q'))))"
proof -
  have "quota_ok l (n, q)" using quota_run.reachable_inv assms by blast
  then have q': "quota_ok l (n, q')" "set (qt_waiters q) \<subseteq> set (qt_waiters q') \<union> set (qt_started q')"
    "k + length (qt_held q') + length (qt_waiters q') \<le> length (qt_held q) + length (qt_waiters q)"
    using settling_moves [OF assms(3)] by auto
  have "qt_held q' = [] \<Longrightarrow> qt_waiters q' = []" using idle_drained [OF assms(1) q'(1)] .
  moreover have "sorted_wrt (<) (map wt_call (of_priority p (qt_started q')))" for p
    using q'(1) by (auto simp: quota_ok_def counted_def sorted_wrt_append)
  ultimately show ?thesis using q'(2,3) by auto
qed

text \<open>One slot; the second call waits until the first one settles.\<close>

definition busy_quota :: quota where
  "busy_quota = snd (run_quota \<lparr>ql_capacity = 1, ql_maxQueued = 4, ql_reserved = 0\<rparr> (\<lambda>_. False) False \<lparr>wt_call = 1, wt_priority = Background\<rparr>
     (snd (run_quota \<lparr>ql_capacity = 1, ql_maxQueued = 4, ql_reserved = 0\<rparr> (\<lambda>_. False) False \<lparr>wt_call = 0, wt_priority = Foreground\<rparr> new_quota)))"

lemma sample_limits: "resource_quota 1 4 0 = Inr \<lparr>ql_capacity = 1, ql_maxQueued = 4, ql_reserved = 0\<rparr>"
  by (simp add: resource_quota_def)

lemma busy_reached: "(quota_step \<lparr>ql_capacity = 1, ql_maxQueued = 4, ql_reserved = 0\<rparr>)\<^sup>*\<^sup>* (0, new_quota) (2, busy_quota)"
proof -
  let ?l = "\<lparr>ql_capacity = 1, ql_maxQueued = 4, ql_reserved = 0\<rparr>"
  let ?q = "snd (run_quota ?l (\<lambda>_. False) False \<lparr>wt_call = 0, wt_priority = Foreground\<rparr> new_quota)"
  have "quota_step ?l (0, new_quota) (Suc 0, ?q)" by (rule quota_step.call)
  moreover have "quota_step ?l (Suc 0, ?q) (2, busy_quota)"
    using quota_step.call [of ?l "Suc 0" ?q "\<lambda>_. False" False Background] by (simp add: busy_quota_def numeral_2_eq_2)
  ultimately show ?thesis by auto
qed

lemma busy_value: "busy_quota = \<lparr>qt_active = 1, qt_background = 0, qt_waiters = [\<lparr>wt_call = 1, wt_priority = Background\<rparr>],
    qt_held = [\<lparr>wt_call = 0, wt_priority = Foreground\<rparr>], qt_started = [\<lparr>wt_call = 0, wt_priority = Foreground\<rparr>]\<rparr>"
  by (simp add: busy_quota_def run_quota_def new_quota_def available_def start_operation_def drain_rest take_first_None)

lemma quota_bounds_witness: "qt_active busy_quota = 1 \<and> js_len (qt_waiters busy_quota) \<le> 4"
  using quota_bounds [OF sample_limits busy_reached] by (simp add: busy_value)

lemma quota_progress_witness:
  "set (qt_waiters busy_quota) \<subseteq> set (qt_started (settle_operation \<lparr>ql_capacity = 1, ql_maxQueued = 4, ql_reserved = 0\<rparr> (\<lambda>n. n = 1)
     \<lparr>wt_call = 0, wt_priority = Foreground\<rparr> busy_quota))"
  using quota_progress [OF sample_limits busy_reached settling.more [OF settling.none, where fails = "\<lambda>n. n = 1" and w = "\<lparr>wt_call = 0, wt_priority = Foreground\<rparr>"]]
  by (simp add: busy_value settle_operation_def release_slot_def drain_next drain_rest available_def start_operation_def)

subsection \<open>Bytes in flight\<close>

text \<open>A closure that \<open>acquire\<close> returned: its tenant, its bytes and its \<open>released\<close> flag.\<close>

record byte_lease =
  bl_tenant :: string
  bl_bytes :: int
  bl_released :: bool

record byte_budget =
  bb_active :: int
  bb_tenants :: "(string, int) jsmap"
  bb_leases :: "byte_lease list"

definition new_byte_budget :: byte_budget where
  "new_byte_budget = \<lparr>bb_active = 0, bb_tenants = [], bb_leases = []\<rparr>"

definition used_bytes :: "string \<Rightarrow> byte_budget \<Rightarrow> int" where
  "used_bytes t b = (case map_of (bb_tenants b) t of None \<Rightarrow> 0 | Some n \<Rightarrow> n)"

definition acquire_bytes :: "int \<Rightarrow> int \<Rightarrow> string \<Rightarrow> int \<Rightarrow> byte_budget \<Rightarrow> (os_error + nat) \<times> byte_budget" where
  "acquire_bytes limit perTenant t n b =
     (if n < 0 \<or> bb_active b + n > limit \<or> used_bytes t b + n > perTenant then (Inl (JsError ''in-flight byte budget exceeded''), b)
      else (Inr (length (bb_leases b)), b\<lparr>bb_active := bb_active b + n, bb_tenants := AList.update t (used_bytes t b + n) (bb_tenants b),
             bb_leases := bb_leases b @ [\<lparr>bl_tenant = t, bl_bytes = n, bl_released = False\<rparr>]\<rparr>))"

text \<open>An entry that is gone gives \<open>NaN\<close>, which deletes it again.\<close>

definition release_bytes :: "nat \<Rightarrow> byte_budget \<Rightarrow> byte_budget" where
  "release_bytes i b =
     (if i \<ge> length (bb_leases b) \<or> bl_released (bb_leases b ! i) then b
      else let c = bb_leases b ! i; t = bl_tenant c in
        b\<lparr>bb_active := bb_active b - bl_bytes c,
          bb_tenants := (case map_of (bb_tenants b) t of
              None \<Rightarrow> AList.delete t (bb_tenants b)
            | Some u \<Rightarrow> if u - bl_bytes c \<noteq> 0 then AList.update t (u - bl_bytes c) (bb_tenants b) else AList.delete t (bb_tenants b)),
          bb_leases := (bb_leases b)[i := c\<lparr>bl_released := True\<rparr>]\<rparr>)"

inductive byte_step :: "int \<Rightarrow> int \<Rightarrow> byte_budget \<Rightarrow> byte_budget \<Rightarrow> bool" for limit perTenant where
  acquire: "byte_step limit perTenant b (snd (acquire_bytes limit perTenant t n b))"
| release: "byte_step limit perTenant b (release_bytes i b)"

text \<open>The bytes of the leases that satisfy \<open>P\<close> and are not released.\<close>

definition open_bytes :: "(byte_lease \<Rightarrow> bool) \<Rightarrow> byte_lease list \<Rightarrow> int" where
  "open_bytes P ls = sum_list (map (\<lambda>c. if \<not> bl_released c \<and> P c then bl_bytes c else 0) ls)"

definition bytes_ok :: "int \<Rightarrow> int \<Rightarrow> byte_budget \<Rightarrow> bool" where
  "bytes_ok limit perTenant b = (bb_active b = open_bytes (\<lambda>_. True) (bb_leases b) \<and> bb_active b \<le> limit
     \<and> (\<forall>t. used_bytes t b = open_bytes (\<lambda>c. bl_tenant c = t) (bb_leases b)) \<and> (\<forall>t. used_bytes t b \<le> perTenant)
     \<and> (\<forall>c\<in>set (bb_leases b). 0 \<le> bl_bytes c))"

lemma open_bytes_append: "open_bytes P (ls @ [c]) = open_bytes P ls + (if \<not> bl_released c \<and> P c then bl_bytes c else 0)"
  by (simp add: open_bytes_def)

lemma open_bytes_release:
  assumes "i < length ls" "\<not> bl_released (ls ! i)" "P ((ls ! i)\<lparr>bl_released := True\<rparr>) = P (ls ! i)"
  shows "open_bytes P (ls[i := (ls ! i)\<lparr>bl_released := True\<rparr>]) = open_bytes P ls - (if P (ls ! i) then bl_bytes (ls ! i) else 0)"
  using assms
proof (induction ls arbitrary: i)
  case (Cons c ls)
  then show ?case by (cases i) (auto simp: open_bytes_def)
qed simp

lemma acquire_ok:
  assumes "bytes_ok limit perTenant b"
  shows "bytes_ok limit perTenant (snd (acquire_bytes limit perTenant t n b))"
proof (cases "n < 0 \<or> bb_active b + n > limit \<or> used_bytes t b + n > perTenant")
  case True
  then show ?thesis using assms by (simp add: acquire_bytes_def)
next
  case False
  let ?b = "snd (acquire_bytes limit perTenant t n b)"
  have used: "used_bytes t' ?b = (if t' = t then used_bytes t b + n else used_bytes t' b)" for t'
    using False by (simp add: acquire_bytes_def used_bytes_def)
  have ls: "bb_leases ?b = bb_leases b @ [\<lparr>bl_tenant = t, bl_bytes = n, bl_released = False\<rparr>]" "bb_active ?b = bb_active b + n"
    using False by (simp_all add: acquire_bytes_def)
  have "used_bytes t b = open_bytes (\<lambda>c. bl_tenant c = t) (bb_leases b)" using assms unfolding bytes_ok_def by blast
  then show ?thesis using assms False unfolding bytes_ok_def used ls by (auto simp: open_bytes_append)
qed

lemma open_bytes_nonneg: "\<forall>c\<in>set ls. 0 \<le> bl_bytes c \<Longrightarrow> 0 \<le> open_bytes P ls"
  unfolding open_bytes_def by (rule sum_list_nonneg) auto

lemma release_ok:
  assumes ok: "bytes_ok limit perTenant b"
  shows "bytes_ok limit perTenant (release_bytes i b)"
proof (cases "i \<ge> length (bb_leases b) \<or> bl_released (bb_leases b ! i)")
  case True
  then show ?thesis using assms by (auto simp: release_bytes_def)
next
  case False
  let ?c = "bb_leases b ! i" and ?b = "release_bytes i b"
  have c: "i < length (bb_leases b)" "\<not> bl_released ?c" "0 \<le> bl_bytes ?c"
    using False ok by (auto simp: bytes_ok_def)
  have ls: "bb_leases ?b = (bb_leases b)[i := ?c\<lparr>bl_released := True\<rparr>]" "bb_active ?b = bb_active b - bl_bytes ?c"
    using False by (auto simp: release_bytes_def Let_def)
  have mine: "used_bytes (bl_tenant ?c) b \<ge> bl_bytes ?c"
  proof -
    have "0 \<le> open_bytes (\<lambda>c. bl_tenant c = bl_tenant ?c) ((bb_leases b)[i := ?c\<lparr>bl_released := True\<rparr>])"
      using ok c(1,3) by (intro open_bytes_nonneg) (auto simp: bytes_ok_def dest!: set_update_subset_insert [THEN subsetD])
    then show ?thesis using open_bytes_release [OF c(1,2), of "\<lambda>c. bl_tenant c = bl_tenant ?c"] ok by (simp add: bytes_ok_def)
  qed
  have used: "used_bytes t ?b = (if t = bl_tenant ?c then used_bytes t b - bl_bytes ?c else used_bytes t b)" for t
    using False mine c(3) by (auto simp: release_bytes_def Let_def used_bytes_def split: option.splits)
  have kept: "\<forall>c\<in>set (bb_leases ?b). 0 \<le> bl_bytes c"
    using ok c(1,3) unfolding ls by (auto simp: bytes_ok_def dest!: set_update_subset_insert [THEN subsetD])
  have "open_bytes (\<lambda>c. bl_tenant c = t) (bb_leases ?b) = open_bytes (\<lambda>c. bl_tenant c = t) (bb_leases b)
      - (if bl_tenant ?c = t then bl_bytes ?c else 0)" for t
    unfolding ls by (rule open_bytes_release [OF c(1,2)]) simp
  moreover have "open_bytes (\<lambda>_. True) (bb_leases ?b) = open_bytes (\<lambda>_. True) (bb_leases b) - bl_bytes ?c"
    unfolding ls using open_bytes_release [OF c(1,2), of "\<lambda>_. True"] by simp
  moreover have "used_bytes t b \<le> perTenant" for t using ok unfolding bytes_ok_def by blast
  then have "used_bytes t b - bl_bytes ?c \<le> perTenant" for t using c(3) by (smt (verit))
  ultimately show ?thesis using ok kept c(3) \<open>\<And>t. used_bytes t b \<le> perTenant\<close> unfolding bytes_ok_def used ls(2) by auto
qed

lemma byte_step_ok: "byte_step limit perTenant b b' \<Longrightarrow> bytes_ok limit perTenant b \<Longrightarrow> bytes_ok limit perTenant b'"
  by (induction rule: byte_step.induct) (auto intro: acquire_ok release_ok)

lemma new_bytes_ok: "0 \<le> limit \<Longrightarrow> 0 \<le> perTenant \<Longrightarrow> bytes_ok limit perTenant new_byte_budget"
  by (simp add: bytes_ok_def new_byte_budget_def open_bytes_def used_bytes_def)

interpretation byte_run: transition_system "\<lambda>b. b = new_byte_budget \<and> 0 \<le> limit \<and> 0 \<le> perTenant"
  "byte_step limit perTenant" "bytes_ok limit perTenant" for limit perTenant
  by unfold_locales (auto intro: new_bytes_ok byte_step_ok)

text \<open>Bytes in flight are accounted for exactly. In every reachable state the counters of the budget and
  of each tenant are the bytes of the acquisitions that have not been released, however often a release is
  called, and neither exceeds its limit.\<close>

theorem byte_budget_exact:
  assumes "0 \<le> limit" "0 \<le> perTenant" and "(byte_step limit perTenant)\<^sup>*\<^sup>* new_byte_budget b"
  shows "bb_active b = open_bytes (\<lambda>_. True) (bb_leases b) \<and> bb_active b \<le> limit
    \<and> (\<forall>t. used_bytes t b = open_bytes (\<lambda>c. bl_tenant c = t) (bb_leases b)) \<and> (\<forall>t. used_bytes t b \<le> perTenant)"
proof -
  have "bytes_ok limit perTenant b" using byte_run.reachable_inv assms by blast
  then show ?thesis unfolding bytes_ok_def by blast
qed

lemma byte_budget_exact_witness:
  "used_bytes ''t'' (release_bytes 0 (release_bytes 0 (snd (acquire_bytes 10 5 ''t'' 4 new_byte_budget)))) = 0"
proof -
  let ?b = "snd (acquire_bytes 10 5 ''t'' 4 new_byte_budget)"
  have "byte_step 10 5 new_byte_budget ?b" "byte_step 10 5 ?b (release_bytes 0 ?b)"
    "byte_step 10 5 (release_bytes 0 ?b) (release_bytes 0 (release_bytes 0 ?b))"
    by (rule byte_step.acquire byte_step.release)+
  then have "(byte_step 10 5)\<^sup>*\<^sup>* new_byte_budget (release_bytes 0 (release_bytes 0 ?b))" by (simp add: rtranclp.rtrancl_into_rtrancl)
  from byte_budget_exact [OF _ _ this] show ?thesis
    by (simp add: acquire_bytes_def release_bytes_def new_byte_budget_def used_bytes_def open_bytes_def)
qed

end
