(* ===== verification/Restore.thy ===== *)
theory Restore
  imports Compaction ToolOutput PlaneSteps
begin

text \<open>
  How an attempt takes up the session of its predecessor (\<open>restoreSession\<close> of runtime/runtime.ts): every tool
  call left without an output is answered from the journal, from the durable receipts of its cell, or by
  running the same action again under its old identity, and never when its effect might be repeated. The
  host is a parameter, the control plane of the other theories one instance of it. A journaled output is
  JSON the program reads through a type assertion; \<open>journal\<close> is that view of it.
\<close>

subsection \<open>The host\<close>

record 'w restore_host =
  rh_load :: "('w, session option) prog"
  rh_step :: "string \<Rightarrow> ('w, (string \<times> artifact list) option) prog"
  rh_cell :: "string \<Rightarrow> ('w, recovered_action list option) prog"
  rh_execute :: "host_action \<Rightarrow> ('w, action_result) prog"

text \<open>What the restoration reads of the turn context and the policy.\<close>

record approval_resolution =
  rv_approvalId :: string
  rv_approved :: bool
  rv_result :: "json option"
  rv_error :: "string option"

record restore_context =
  xc_work :: work_item
  xc_session :: "session option option"
  xc_tools :: "tool list"
  xc_messages :: "context_message list"
  xc_evidence :: "evidence_item list"
  xc_parentRequest :: "request_snapshot option"
  xc_pendingApproval :: "approval_resolution option"
  xc_turnInput :: "bool \<Rightarrow> json list"
  xc_promptContext :: json
  xc_journal :: "string \<Rightarrow> os_error + recovered_action list"

definition MAX_TOOL_OUTPUT_CHARS :: int where
  "MAX_TOOL_OUTPUT_CHARS = 8000"

subsection \<open>Calls without an output\<close>

definition pending_calls :: "json list \<Rightarrow> (json option, json) jsmap" where
  "pending_calls history = foldl (\<lambda>m v. if is_call v then AList.update (call_id v) v m
     else if is_output v then AList.delete (call_id v) m else m) [] history"

definition str_prop :: "json \<Rightarrow> string \<Rightarrow> string option" where
  "str_prop v k = (case json_prop v k of Some (JStr s) \<Rightarrow> Some s | _ \<Rightarrow> None)"

text \<open>\<open>call.stepId ?? callId\<close>\<close>

definition cell_of :: "json \<Rightarrow> string" where
  "cell_of call = (case str_prop call ''stepId'' of Some s \<Rightarrow> s
     | None \<Rightarrow> (case str_prop call ''callId'' of Some c \<Rightarrow> c | None \<Rightarrow> ''undefined''))"

definition output_item :: "json option \<Rightarrow> string \<Rightarrow> json" where
  "output_item cid out = JObj ([(''type'', JStr ''function_call_output'')] @ opt_prop ''callId'' cid @ [(''output'', JStr out)])"

lemma output_item_simps [simp]: "is_output (output_item cid out)" "\<not> is_call (output_item cid out)" "call_id (output_item cid out) = cid"
  by (cases cid; simp add: output_item_def is_output_def is_call_def item_type_def call_id_def opt_prop_def)+

text \<open>What a recorded receipt adds to the request.\<close>

definition draft_object :: "jobj option \<Rightarrow> json" where
  "draft_object d = JObj (concat (map (\<lambda>f. opt_prop f (prop_of d f)) contract_fields))"

definition with_evidence :: "(string \<Rightarrow> string) \<Rightarrow> recovered_action \<Rightarrow> request_snapshot \<Rightarrow> os_error + request_snapshot" where
  "with_evidence hash r q = (case rq_evidence q of None \<Rightarrow> Inr q
     | Some ev \<Rightarrow> bindR (appendReadEvidence hash ev (ra_key r) (ra_result r) (ra_action r)) (\<lambda>ev1. Inr (q\<lparr>rq_evidence := Some ev1\<rparr>)))"

definition contract_directive :: "action_result \<Rightarrow> jobj option option" where
  "contract_directive r = (case hr_directive r of
      Some dv \<Rightarrow> if hr_ok r \<and> dv_type dv = TaskContractDirective then Some (dv_data dv) else None | None \<Rightarrow> None)"

definition apply_receipt :: "(string \<Rightarrow> string) \<Rightarrow> recovered_action \<Rightarrow> request_snapshot \<Rightarrow> os_error + request_snapshot" where
  "apply_receipt hash r q = bindR (with_evidence hash r q) (\<lambda>q1.
     if ra_action r = ''task.check_resource''
     then bindR (appendResourceCheck (opt_list (rq_resourceChecks q1)) (ra_key r) (ra_result r) (request_version q1))
       (\<lambda>cs. Inr (q1\<lparr>rq_resourceChecks := Some cs\<rparr>))
     else if ra_action r = ''task.contract''
     then (case contract_directive (ra_result r) of None \<Rightarrow> Inr q1
       | Some draft \<Rightarrow> bindR (createTaskContract hash (rq_originalText q1) (request_version q1) (draft_object draft))
           (\<lambda>c. Inr (q1\<lparr>rq_contract := Some c\<rparr>)))
     else Inr q1)"

fun apply_receipts :: "(string \<Rightarrow> string) \<Rightarrow> recovered_action list \<Rightarrow> request_snapshot option \<Rightarrow> os_error + request_snapshot option" where
  "apply_receipts hash [] q = Inr q"
| "apply_receipts hash (r # rs) None = apply_receipts hash rs None"
| "apply_receipts hash (r # rs) (Some q) = bindR (apply_receipt hash r q) (\<lambda>q1. apply_receipts hash rs (Some q1))"

subsection \<open>Recovering a call\<close>

definition receipt_json :: "recovered_action \<Rightarrow> json" where
  "receipt_json r = JObj [(''action'', JStr (ra_action r)), (''idempotencyKey'', JStr (ra_key r)), (''result'', result_json (ra_result r))]"

definition recovered_output :: "(string \<Rightarrow> string) \<Rightarrow> bool \<Rightarrow> recovered_action list \<Rightarrow> os_error + string" where
  "recovered_output hash readable rs = boundedToolOutput
     (Some (JObj [(''recovered'', JBool True), (''localExecutionOutput'', JStr ''not_recovered''), (''receipts'', JArr (map receipt_json rs))]))
     MAX_TOOL_OUTPUT_CHARS (if readable then receiptReferences hash (map (\<lambda>r. (ra_action r, ra_key r, ra_result r)) rs) else [])"

text \<open>A cell that went on after a terminal action and has an open outcome.\<close>

definition continued_unknown :: "recovered_action list \<Rightarrow> bool" where
  "continued_unknown rs = (list_ex (\<lambda>r. is_unknown (ra_result r)) rs
     \<and> list_ex (\<lambda>r. case hr_directive (ra_result r) of Some dv \<Rightarrow> dv_type dv = Defer | None \<Rightarrow> False) rs)"

text \<open>The tool of a call whose action may run again under the identity it had.\<close>

definition repeatable_tool :: "restore_context \<Rightarrow> json \<Rightarrow> tool option" where
  "repeatable_tool xc call = (case List.find (\<lambda>t. str_prop call ''name'' = Some (tl_name t)) (xc_tools xc) of
      Some t \<Rightarrow> if tl_effect t \<in> {ReadEffect, TransactionEffect, IdempotentEffect} then Some t else None
    | None \<Rightarrow> None)"

text \<open>The host refuses arguments that are not an object.\<close>

definition repeated_action :: "restore_context \<Rightarrow> json \<Rightarrow> tool \<Rightarrow> os_error + host_action" where
  "repeated_action xc call t =
     (case map_option json_parse (str_prop call ''arguments'') of
        Some (Some (JObj args)) \<Rightarrow> Inr \<lparr>ha_runId = wi_id (xc_work xc), ha_cellId = cell_of call, ha_callIndex = 0, ha_action = tl_action t,
           ha_args = args, ha_key = actionKeyOf (wi_id (xc_work xc)) (cell_of call) 0\<rparr>
      | Some (Some _) \<Rightarrow> Inl (fail 400 ''invalid host action envelope'')
      | _ \<Rightarrow> Inl (JsError ''invalid JSON''))"

definition receipts_of :: "'w restore_host \<Rightarrow> restore_context \<Rightarrow> json \<Rightarrow> ('w, recovered_action list) prog" where
  "receipts_of h xc call =
     andThen (rh_cell h (cell_of call)) (\<lambda>found.
     if found \<noteq> None \<and> found \<noteq> Some [] then ret (opt_list found)
     else (case repeatable_tool xc call of
         None \<Rightarrow> ret []
       | Some t \<Rightarrow> andThen (liftR (repeated_action xc call t)) (\<lambda>a. andThen (rh_execute h a) (\<lambda>r.
           ret [\<lparr>ra_action = tl_action t, ra_key = ha_key a, ra_result = r\<rparr>]))))"

definition recover_call :: "(string \<Rightarrow> string) \<Rightarrow> 'w restore_host \<Rightarrow> restore_context \<Rightarrow> json option \<times> json
    \<Rightarrow> session \<times> artifact list \<Rightarrow> ('w, session \<times> artifact list) prog" where
  "recover_call hash h xc = (\<lambda>(cid, call) (s, prior).
     andThen (rh_step h (cell_of call)) (\<lambda>step. case step of
        Some (out, arts) \<Rightarrow>
          andThen (liftR (xc_journal xc out)) (\<lambda>rs.
          andThen (liftR (apply_receipts hash rs (ss_request s))) (\<lambda>q.
          ret (s\<lparr>ss_history := ss_history s @ [output_item cid out], ss_request := q\<rparr>, prior @ arts)))
      | None \<Rightarrow>
          andThen (receipts_of h xc call) (\<lambda>rs.
          if rs = [] then throw (JsError ''unresolved tool execution checkpoint; reconcile before continuing'')
          else if continued_unknown rs
          then throw (JsError ''cell continued after a terminal action with an unknown outcome; reconcile before continuing'')
          else andThen (liftR (recovered_output hash (list_ex (\<lambda>t. tl_action t = ''observations.read'') (xc_tools xc)) rs)) (\<lambda>out.
            ret (s\<lparr>ss_history := ss_history s @ [output_item cid out]\<rparr>,
              prior @ concat (map (\<lambda>r. if hr_ok (ra_result r) then opt_list (hr_artifacts (ra_result r)) else []) rs))))))"

fun recover_calls :: "(string \<Rightarrow> string) \<Rightarrow> 'w restore_host \<Rightarrow> restore_context \<Rightarrow> (json option, json) jsmap
    \<Rightarrow> session \<times> artifact list \<Rightarrow> ('w, session \<times> artifact list) prog" where
  "recover_calls hash h xc [] st = ret st"
| "recover_calls hash h xc (c # cs) st = andThen (recover_call hash h xc c st) (recover_calls hash h xc cs)"

subsection \<open>The request and the turn input\<close>

definition revision_json :: "revision \<Rightarrow> json" where
  "revision_json r = JObj ([(''id'', JStr (rv_id r)), (''text'', JStr (rv_text r)), (''createdAt'', JNum (rv_createdAt r))]
     @ opt_prop ''author'' (map_option (\<lambda>(i, k). JObj [(''id'', JStr i), (''kind'', JStr (case k of HumanAuthor \<Rightarrow> ''human'' | AgentAuthor \<Rightarrow> ''agent''))]) (rv_author r))
     @ opt_prop ''attachments'' (map_option JArr (rv_attachments r)))"

text \<open>The request of an earlier work item stays readable as untrusted history.\<close>

definition request_history_item :: "request_snapshot \<Rightarrow> json" where
  "request_history_item q = message_item ''user'' (stringify (JObj
     [(''source'', JStr (''history:request:'' @ rq_workId q)), (''version'', JStr (show_int (request_version q))),
      (''trust'', JStr ''observation''), (''truncated'', JBool False),
      (''content'', JStr (stringify (JObj [(''originalText'', JStr (rq_originalText q)),
         (''revisions'', JArr (map revision_json (rq_revisions q)))])))]))"

definition take_request :: "restore_context \<Rightarrow> session \<Rightarrow> os_error + session" where
  "take_request xc s =
     (case ss_request s of
        Some q \<Rightarrow> if rq_workId q = wi_id (xc_work xc) then Inr s
          else bindR (snapshotRequest (xc_work xc) (xc_parentRequest xc) (xc_messages xc) (xc_evidence xc))
            (\<lambda>q1. Inr (s\<lparr>ss_history := ss_history s @ [request_history_item q], ss_request := Some q1\<rparr>))
      | None \<Rightarrow> bindR (snapshotRequest (xc_work xc) (xc_parentRequest xc) (xc_messages xc) (xc_evidence xc))
            (\<lambda>q1. Inr (s\<lparr>ss_request := Some q1\<rparr>)))"

definition approval_item :: "approval_resolution \<Rightarrow> os_error + json" where
  "approval_item a = bindR (case rv_result a of None \<Rightarrow> Inr []
       | Some v \<Rightarrow> bindR (boundedToolOutput (Some v) MAX_TOOL_OUTPUT_CHARS []) (\<lambda>out. Inr ('' Recorded action result: '' @ out))) (\<lambda>recorded.
     Inr (message_item ''user'' (''Approval '' @ rv_approvalId a @ '' was '' @ (if rv_approved a then ''approved'' else ''rejected'') @ ''.''
       @ '' The approval decision alone does not establish execution or resource changes.'' @ recorded
       @ (case rv_error a of None \<Rightarrow> [] | Some e \<Rightarrow> if e = [] then [] else '' Error: '' @ e))))"

definition fold_turn_input :: "restore_context \<Rightarrow> session \<Rightarrow> os_error + session" where
  "fold_turn_input xc s =
     (if wi_id (xc_work xc) \<in> set (ss_appliedWorkIds s) then Inr s
      else bindR (case xc_pendingApproval xc of None \<Rightarrow> Inr [] | Some a \<Rightarrow> bindR (approval_item a) (\<lambda>v. Inr [v])) (\<lambda>approval.
        let ids = ss_appliedWorkIds s @ [wi_id (xc_work xc)] in
        Inr (s\<lparr>ss_history := ss_history s @ xc_turnInput xc (ss_history s \<noteq> []) @ approval,
          ss_appliedWorkIds := drop (length ids - 200) ids\<rparr>)))"

definition fresh_session :: "work_item \<Rightarrow> session" where
  "fresh_session w = \<lparr>ss_request = None, ss_key = work_session_key w, ss_tenantId = wi_tenantId w, ss_agentId = wi_agentId w,
     ss_sessionId = wi_sessionId w, ss_threadId = wi_threadId w, ss_summary = None, ss_history = [], ss_appliedWorkIds = [],
     ss_revision = 0, ss_compactionEpoch = 0, ss_promptContext = None\<rparr>"

definition restoreSession :: "(string \<Rightarrow> string) \<Rightarrow> 'w restore_host \<Rightarrow> restore_context \<Rightarrow> artifact list \<Rightarrow> ('w, session \<times> artifact list) prog" where
  "restoreSession hash h xc prior =
     andThen (case xc_session xc of None \<Rightarrow> rh_load h | Some s \<Rightarrow> ret s) (\<lambda>stored.
     if (case stored of None \<Rightarrow> False | Some s \<Rightarrow> ss_key s \<noteq> work_session_key (xc_work xc) \<or> \<not> session_matches (xc_work xc) s)
     then throw (JsError ''stored session identity does not match the work'')
     else let s0 = (case stored of None \<Rightarrow> fresh_session (xc_work xc) | Some s \<Rightarrow> s) in
       andThen (recover_calls hash h xc (pending_calls (ss_history s0)) (s0, prior)) (\<lambda>(s1, prior1).
       andThen (liftR (take_request xc s1)) (\<lambda>s2.
       andThen (liftR (fold_turn_input xc (s2\<lparr>ss_promptContext := Some (xc_promptContext xc)\<rparr>))) (\<lambda>s3.
       ret (s3, prior1)))))"

end
