(* ===== verification/RestoreProps.thy ===== *)
theory RestoreProps
  imports Restore
begin

text \<open>
  What a restored session guarantees: every tool call has its output, an action is repeated only under its
  old identity and only when its effect can be repeated, and on the modelled control plane the whole
  restoration is a run of service operations.
\<close>

subsection \<open>Every call is answered\<close>

lemma pending_append: "pending_calls (h @ [v]) = (if is_call v then AList.update (call_id v) v (pending_calls h)
    else if is_output v then AList.delete (call_id v) (pending_calls h) else pending_calls h)"
  by (simp add: pending_calls_def)

lemma pending_other: "\<forall>v\<in>set vs. \<not> is_call v \<and> \<not> is_output v \<Longrightarrow> pending_calls (h @ vs) = pending_calls h"
  by (induction vs rule: rev_induct) (simp_all add: pending_append flip: append_assoc)

text \<open>The outputs a list of pairs of call id and text appends.\<close>

abbreviation outputs_of :: "json option list \<Rightarrow> string list \<Rightarrow> json list" where
  "outputs_of cids outs \<equiv> map2 output_item cids outs"

lemma pending_outputs:
  "length outs = length cids \<Longrightarrow> pending_calls (h @ outputs_of cids outs) = foldl (\<lambda>m c. AList.delete c m) (pending_calls h) cids"
proof (induction cids outs arbitrary: h rule: list_induct2')
  case (4 c cs out outs)
  have "pending_calls (h @ outputs_of (c # cs) (out # outs)) = pending_calls ((h @ [output_item c out]) @ outputs_of cs outs)" by simp
  also have "\<dots> = foldl (\<lambda>m c. AList.delete c m) (pending_calls (h @ [output_item c out])) cs" using 4 by (intro 4) simp
  finally show ?case by (simp add: pending_append)
qed simp_all

lemma delete_keys: "set (map fst m) \<subseteq> set cids \<Longrightarrow> foldl (\<lambda>m c. AList.delete c m) m cids = []"
proof (induction cids arbitrary: m)
  case (Cons c cs)
  have "set (map fst (AList.delete c m)) \<subseteq> set cs" using Cons.prems by (auto simp: delete_keys)
  then show ?case using Cons.IH by simp
qed simp

lemma recover_call_appends:
  assumes "recover_call hash h xc c st w = (Inr st', w')"
  shows "\<exists>out. ss_history (fst st') = ss_history (fst st) @ [output_item (fst c) out]
    \<and> ss_appliedWorkIds (fst st') = ss_appliedWorkIds (fst st)"
proof -
  obtain cid call s prior where [simp]: "c = (cid, call)" "st = (s, prior)" by (cases c; cases st) blast
  from assms obtain step w1 where step: "rh_step h (cell_of call) w = (Inr step, w1)"
    by (auto simp: recover_call_def elim!: andThen_InrE)
  show ?thesis
  proof (cases step)
    case (Some x)
    then show ?thesis using assms step
      by (cases x) (auto simp: recover_call_def andThen_def ret_def liftR_def split: prod.splits sum.splits)
  next
    case None
    then show ?thesis using assms step
      by (auto simp: recover_call_def andThen_def ret_def liftR_def throw_def split: prod.splits sum.splits if_splits)
  qed
qed

lemma recover_calls_appends:
  "recover_calls hash h xc cs st w = (Inr st', w') \<Longrightarrow>
   \<exists>outs. length outs = length cs \<and> ss_history (fst st') = ss_history (fst st) @ outputs_of (map fst cs) outs
     \<and> ss_appliedWorkIds (fst st') = ss_appliedWorkIds (fst st)"
proof (induction cs arbitrary: st w)
  case Nil
  then show ?case by (simp add: ret_def)
next
  case (Cons c cs)
  from Cons.prems obtain st1 w1 where 1: "recover_call hash h xc c st w = (Inr st1, w1)" and 2: "recover_calls hash h xc cs st1 w1 = (Inr st', w')"
    by (auto elim!: andThen_InrE)
  from recover_call_appends [OF 1] obtain out where "ss_history (fst st1) = ss_history (fst st) @ [output_item (fst c) out]"
    "ss_appliedWorkIds (fst st1) = ss_appliedWorkIds (fst st)" by blast
  moreover from Cons.IH [OF 2] obtain outs where "length outs = length cs"
    "ss_history (fst st') = ss_history (fst st1) @ outputs_of (map fst cs) outs" "ss_appliedWorkIds (fst st') = ss_appliedWorkIds (fst st1)" by blast
  ultimately show ?case by (intro exI [of _ "out # outs"]) simp
qed

lemma message_item_simps [simp]: "\<not> is_call (message_item r c)" "\<not> is_output (message_item r c)"
  by (simp_all add: message_item_def is_call_def is_output_def item_type_def)

lemma delegated_workId: "rq_workId (delegated_request w m parent mode obligations) = wi_id w"
  by (simp add: delegated_request_def Let_def)

lemma snapshot_workId:
  assumes "snapshotRequest w p ms ev = Inr q"
  shows "rq_workId q = wi_id w"
proof (cases p)
  case None
  then show ?thesis using assms
    by (auto simp: snapshotRequest_def bindR_Inr Let_def split: list.splits if_split_asm)
next
  case (Some parent)
  then obtain m mode obligations where "q = delegated_request w m parent mode obligations" using assms
    by (auto simp: snapshotRequest_def bindR_Inr Let_def split: list.splits if_split_asm)
  then show ?thesis by (simp add: delegated_workId)
qed

lemma take_request_Inr:
  assumes "take_request xc s = Inr s'"
  shows "\<exists>vs. ss_history s' = ss_history s @ vs \<and> (\<forall>v\<in>set vs. \<not> is_call v \<and> \<not> is_output v)
    \<and> (\<exists>q. ss_request s' = Some q \<and> rq_workId q = wi_id (xc_work xc)) \<and> ss_appliedWorkIds s' = ss_appliedWorkIds s"
  using assms snapshot_workId
  by (auto simp: take_request_def bindR_Inr request_history_item_def split: option.splits if_splits)

lemma fold_turn_input_Inr:
  assumes "fold_turn_input xc s = Inr s'" and "\<forall>b. \<forall>v\<in>set (xc_turnInput xc b). \<not> is_call v \<and> \<not> is_output v"
  shows "\<exists>vs. ss_history s' = ss_history s @ vs \<and> (\<forall>v\<in>set vs. \<not> is_call v \<and> \<not> is_output v)
    \<and> ss_request s' = ss_request s \<and> wi_id (xc_work xc) \<in> set (ss_appliedWorkIds s')"
proof (cases "wi_id (xc_work xc) \<in> set (ss_appliedWorkIds s)")
  case True
  then show ?thesis using assms(1) by (simp add: fold_turn_input_def)
next
  case False
  obtain approval where a: "(case xc_pendingApproval xc of None \<Rightarrow> Inr [] | Some a \<Rightarrow> bindR (approval_item a) (\<lambda>v. Inr [v])) = Inr approval"
    and s': "s' = s\<lparr>ss_history := ss_history s @ xc_turnInput xc (ss_history s \<noteq> []) @ approval,
      ss_appliedWorkIds := drop (length (ss_appliedWorkIds s @ [wi_id (xc_work xc)]) - 200) (ss_appliedWorkIds s @ [wi_id (xc_work xc)])\<rparr>"
    using assms(1) False by (auto simp: fold_turn_input_def bindR_Inr Let_def)
  have "\<forall>v\<in>set approval. \<not> is_call v \<and> \<not> is_output v"
    using a by (auto simp: bindR_Inr approval_item_def split: option.splits)
  moreover have "wi_id (xc_work xc) \<in> set (drop (length (ss_appliedWorkIds s @ [wi_id (xc_work xc)]) - 200) (ss_appliedWorkIds s @ [wi_id (xc_work xc)]))"
    by simp
  ultimately show ?thesis using assms(2) s' by (intro exI [of _ "xc_turnInput xc (ss_history s \<noteq> []) @ approval"]) auto
qed

definition stored_history :: "session option \<Rightarrow> json list" where
  "stored_history stored = (case stored of None \<Rightarrow> [] | Some s \<Rightarrow> ss_history s)"


subsection \<open>Repeated actions\<close>

text \<open>A host that writes down what it is asked: whether the journal and the receipts of a cell were found, and the
  actions it runs.\<close>

datatype host_query = JournalAsked string bool | ReceiptsAsked string bool | Repeated host_action

definition noting :: "(os_error + 'a \<Rightarrow> host_query) \<Rightarrow> ('w, 'a) prog \<Rightarrow> ('w \<times> host_query list, 'a) prog" where
  "noting e m = (\<lambda>(w, log). case m w of (r, w1) \<Rightarrow> (r, (w1, log @ [e r])))"

definition logged_host :: "'w restore_host \<Rightarrow> ('w \<times> host_query list) restore_host" where
  "logged_host h = \<lparr>rh_load = (\<lambda>(w, log). case rh_load h w of (r, w1) \<Rightarrow> (r, (w1, log))),
     rh_step = (\<lambda>c. noting (\<lambda>r. JournalAsked c (case r of Inr (Some _) \<Rightarrow> True | _ \<Rightarrow> False)) (rh_step h c)),
     rh_cell = (\<lambda>c. noting (\<lambda>r. ReceiptsAsked c (case r of Inr (Some (x # xs)) \<Rightarrow> True | _ \<Rightarrow> False)) (rh_cell h c)),
     rh_execute = (\<lambda>a. noting (\<lambda>r. Repeated a) (rh_execute h a))\<rparr>"

definition repeats :: "restore_context \<Rightarrow> json \<Rightarrow> host_action \<Rightarrow> bool" where
  "repeats xc call a = (\<exists>t\<in>set (xc_tools xc). str_prop call ''name'' = Some (tl_name t) \<and> tl_effect t \<noteq> UncertainEffect
     \<and> ha_action a = tl_action t \<and> ha_runId a = wi_id (xc_work xc) \<and> ha_cellId a = cell_of call \<and> ha_callIndex a = 0
     \<and> ha_key a = actionKeyOf (wi_id (xc_work xc)) (cell_of call) 0
     \<and> map_option json_parse (str_prop call ''arguments'') = Some (Some (JObj (ha_args a))))"

lemma repeatable_repeats:
  assumes "repeatable_tool xc call = Some t" and "repeated_action xc call t = Inr a"
  shows "repeats xc call a"
proof -
  have "t \<in> set (xc_tools xc)" "str_prop call ''name'' = Some (tl_name t)" "tl_effect t \<noteq> UncertainEffect"
    using assms(1) by (auto simp: repeatable_tool_def find_Some_iff split: option.splits if_splits)
  moreover have "ha_action a = tl_action t \<and> ha_runId a = wi_id (xc_work xc) \<and> ha_cellId a = cell_of call \<and> ha_callIndex a = 0
     \<and> ha_key a = actionKeyOf (wi_id (xc_work xc)) (cell_of call) 0
     \<and> map_option json_parse (str_prop call ''arguments'') = Some (Some (JObj (ha_args a)))"
    using assms(2) by (auto simp: repeated_action_def split: option.splits json.splits)
  ultimately show ?thesis unfolding repeats_def by blast
qed

text \<open>What one call may ask of the host, in this order.\<close>

definition call_trace :: "restore_context \<Rightarrow> json \<Rightarrow> host_query list \<Rightarrow> bool" where
  "call_trace xc call es = (let c = cell_of call in
     (\<exists>b. es = [JournalAsked c b]) \<or> (\<exists>b. es = [JournalAsked c False, ReceiptsAsked c b])
     \<or> (\<exists>a. repeats xc call a \<and> es = [JournalAsked c False, ReceiptsAsked c False, Repeated a]))"

lemma receipts_trace:
  assumes "receipts_of (logged_host h) xc call (w, log) = (res, (w', log'))"
  shows "\<exists>es. log' = log @ es \<and> ((\<exists>b. es = [ReceiptsAsked (cell_of call) b])
    \<or> (\<exists>a. repeats xc call a \<and> es = [ReceiptsAsked (cell_of call) False, Repeated a]))"
proof -
  obtain r w1 where cell: "rh_cell h (cell_of call) w = (r, w1)" by fastforce
  let ?b = "case r of Inr (Some (x # xs)) \<Rightarrow> True | _ \<Rightarrow> False"
  let ?l1 = "log @ [ReceiptsAsked (cell_of call) ?b]"
  have asked: "rh_cell (logged_host h) (cell_of call) (w, log) = (r, (w1, ?l1))"
    using cell by (simp add: logged_host_def noting_def)
  show ?thesis
  proof (cases "\<exists>t a. r \<in> {Inr None, Inr (Some [])} \<and> repeatable_tool xc call = Some t \<and> repeated_action xc call t = Inr a")
    case True
    then obtain t a where t: "r \<in> {Inr None, Inr (Some [])}" "repeatable_tool xc call = Some t" "repeated_action xc call t = Inr a" by blast
    obtain v w2 where "rh_execute h a w1 = (v, w2)" by fastforce
    then have "log' = ?l1 @ [Repeated a]" using assms asked t
      by (auto simp: receipts_of_def andThen_def ret_def liftR_def opt_list_def logged_host_def noting_def split: sum.splits)
    moreover have "\<not> ?b" using t(1) by auto
    ultimately show ?thesis using repeatable_repeats [OF t(2,3)] by auto
  next
    case False
    then have "log' = ?l1" using assms asked
      by (auto simp: receipts_of_def andThen_def ret_def liftR_def throw_def split: sum.splits option.splits if_splits list.splits)
    then show ?thesis by blast
  qed
qed

lemma recover_call_trace:
  assumes "recover_call hash (logged_host h) xc c st (w, log) = (res, (w', log'))"
  shows "\<exists>es. log' = log @ es \<and> call_trace xc (snd c) es"
proof -
  obtain cid call s prior where [simp]: "c = (cid, call)" "st = (s, prior)" by (cases c; cases st) blast
  obtain r w1 where step: "rh_step h (cell_of call) w = (r, w1)" by fastforce
  let ?b = "case r of Inr (Some _) \<Rightarrow> True | _ \<Rightarrow> False"
  let ?l1 = "log @ [JournalAsked (cell_of call) ?b]"
  have asked: "rh_step (logged_host h) (cell_of call) (w, log) = (r, (w1, ?l1))"
    using step by (simp add: logged_host_def noting_def)
  show ?thesis
  proof (cases "r = Inr None")
    case True
    obtain v w2 l2 where v: "receipts_of (logged_host h) xc call (w1, ?l1) = (v, (w2, l2))" by (metis prod.exhaust)
    have "log' = l2" using assms asked True v
      by (auto simp: recover_call_def andThen_def ret_def liftR_def throw_def split: sum.splits if_splits)
    then show ?thesis using receipts_trace [OF v] True by (auto simp: call_trace_def Let_def)
  next
    case False
    then have "log' = ?l1" using assms asked
      by (auto simp: recover_call_def andThen_def ret_def liftR_def throw_def split: sum.splits option.splits prod.splits)
    then show ?thesis by (auto simp: call_trace_def Let_def)
  qed
qed

definition is_repeated :: "host_query \<Rightarrow> bool" where
  "is_repeated e = (case e of Repeated _ \<Rightarrow> True | _ \<Rightarrow> False)"

text \<open>The repetitions in a log: each directly follows the two questions about its cell, found empty.\<close>

definition repeats_ok :: "restore_context \<Rightarrow> json list \<Rightarrow> host_query list \<Rightarrow> bool" where
  "repeats_ok xc calls log = (\<forall>a. Repeated a \<in> set log \<longrightarrow> (\<exists>call\<in>set calls. repeats xc call a
     \<and> (\<exists>us vs. log = us @ [JournalAsked (cell_of call) False, ReceiptsAsked (cell_of call) False, Repeated a] @ vs)))"

lemma repeats_ok_append: "repeats_ok xc calls l1 \<Longrightarrow> repeats_ok xc calls l2 \<Longrightarrow> repeats_ok xc calls (l1 @ l2)"
  unfolding repeats_ok_def set_append by (smt (verit) UnE append.assoc)

lemma trace_repeats: "call_trace xc call es \<Longrightarrow> call \<in> set calls \<Longrightarrow> repeats_ok xc calls es \<and> length (filter is_repeated es) \<le> 1"
  unfolding call_trace_def Let_def repeats_ok_def
  by (elim disjE exE conjE) (auto simp: is_repeated_def intro!: bexI [of _ call] exI [of _ "[]"])

lemma recover_calls_trace:
  "recover_calls hash (logged_host h) xc cs st (w, log) = (res, (w', log')) \<Longrightarrow> set (map snd cs) \<subseteq> set calls \<Longrightarrow>
   \<exists>es. log' = log @ es \<and> repeats_ok xc calls es \<and> length (filter is_repeated es) \<le> length cs"
proof (induction cs arbitrary: st w log)
  case Nil
  then show ?case by (simp add: ret_def repeats_ok_def)
next
  case (Cons c cs)
  obtain r w1 l1 where 1: "recover_call hash (logged_host h) xc c st (w, log) = (r, (w1, l1))" by (metis prod.exhaust)
  from recover_call_trace [OF 1] obtain es where es: "l1 = log @ es" "call_trace xc (snd c) es" by blast
  have ok: "repeats_ok xc calls es" "length (filter is_repeated es) \<le> 1" using trace_repeats [OF es(2)] Cons.prems(2) by auto
  show ?case
  proof (cases r)
    case (Inl e)
    then have "log' = l1" using Cons.prems(1) 1 by (simp add: andThen_def)
    then show ?thesis using es(1) ok by auto
  next
    case (Inr st1)
    then have "recover_calls hash (logged_host h) xc cs st1 (w1, l1) = (res, (w', log'))" using Cons.prems(1) 1 by (simp add: andThen_def)
    from Cons.IH [OF this] Cons.prems(2) obtain fs where "log' = l1 @ fs" "repeats_ok xc calls fs" "length (filter is_repeated fs) \<le> length cs" by auto
    then show ?thesis using es(1) ok repeats_ok_append by (intro exI [of _ "es @ fs"]) auto
  qed
qed

text \<open>C32: recovery never repeats an effect that may not be repeated. Whatever the host answers and however the
  restoration ends, it runs at most one action per pending call, each for a tool of the turn whose effect is a
  read, a transaction or idempotent, with the identity and the arguments the call had, and only directly after
  the journal and the receipts of that cell were found empty.\<close>

theorem restore_repeats_safely:
  assumes "restoreSession hash (logged_host h) xc prior (w, []) = (res, (w', log))" and "xc_session xc = Some stored"
  shows "length (filter is_repeated log) \<le> length (pending_calls (stored_history stored))
    \<and> (\<forall>a. Repeated a \<in> set log \<longrightarrow> (\<exists>call\<in>snd ` set (pending_calls (stored_history stored)). repeats xc call a
        \<and> (\<exists>us vs. log = us @ [JournalAsked (cell_of call) False, ReceiptsAsked (cell_of call) False, Repeated a] @ vs)))"
proof -
  let ?s0 = "case stored of None \<Rightarrow> fresh_session (xc_work xc) | Some s \<Rightarrow> s"
  let ?pending = "pending_calls (stored_history stored)"
  have h0: "ss_history ?s0 = stored_history stored" by (simp add: stored_history_def fresh_session_def split: option.split)
  obtain r w1 l1 where 1: "recover_calls hash (logged_host h) xc ?pending (?s0, prior) (w, []) = (r, (w1, l1))" by (metis prod.exhaust)
  have "log = [] \<or> log = l1" using assms 1 unfolding h0 [symmetric]
    by (auto simp: restoreSession_def andThen_def ret_def liftR_def throw_def Let_def split: if_splits sum.splits prod.splits)
  moreover obtain es where "l1 = es" "repeats_ok xc (map snd ?pending) es" "length (filter is_repeated es) \<le> length ?pending"
    using recover_calls_trace [OF 1, of "map snd ?pending"] by auto
  ultimately show ?thesis by (auto simp: repeats_ok_def)
qed

subsection \<open>On the modelled control plane\<close>

definition plane_host :: "deps \<Rightarrow> int \<Rightarrow> lease_proof \<Rightarrow> work_item \<Rightarrow> plane restore_host" where
  "plane_host d now proof work = \<lparr>rh_load = getSession d now proof (work_session_key work),
     rh_step = recoverStep d now proof, rh_cell = recoverCell d now proof, rh_execute = executeAction d now proof\<rparr>"

interpretation plane_run: plane_rel "\<lambda>s s'. (plane_step hash)\<^sup>*\<^sup>* (now, s) (now, s')" for hash now
  by unfold_locales (auto intro: rtranclp_trans)

lemma plane_op_keeps: "service_op hash now (effect f) \<Longrightarrow> keeps (\<lambda>s s'. (plane_step hash)\<^sup>*\<^sup>* (now, s) (now, s')) f"
  unfolding keeps_def using p_op [of now now hash "effect f"] by blast

lemma plane_host_keeps:
  assumes "dp_hash d = hash"
  shows "keeps (\<lambda>s s'. (plane_step hash)\<^sup>*\<^sup>* (now, s) (now, s')) (rh_step (plane_host d now proof work) cell)"
    "keeps (\<lambda>s s'. (plane_step hash)\<^sup>*\<^sup>* (now, s) (now, s')) (rh_cell (plane_host d now proof work) cell)"
    "keeps (\<lambda>s s'. (plane_step hash)\<^sup>*\<^sup>* (now, s) (now, s')) (rh_execute (plane_host d now proof work) a)"
  using plane_op_keeps [OF o_recover_step [OF assms]] p_execute [OF _ assms] p_recover [OF _ assms]
  by (auto simp: plane_host_def keeps_def)

lemma requireLease_same: "requireLease d now pf b s = (x, s') \<Longrightarrow> s' = s"
  by (auto simp: requireLease_def split: option.splits prod.splits if_splits)

lemma getSession_same: "snd (getSession d now pf key s) = s"
  by (auto simp: getSession_def andThen_def asks_def ret_def liftR_def guardE_def
      split: prod.split sum.split option.split dest!: requireLease_same)

lemmas restore_keeps = plane_run.keeps_basic plane_run.keeps_andThen plane_host_keeps

lemma receipts_keeps:
  "dp_hash d = hash \<Longrightarrow> keeps (\<lambda>s s'. (plane_step hash)\<^sup>*\<^sup>* (now, s) (now, s')) (receipts_of (plane_host d now proof work) xc call)"
  unfolding receipts_of_def by (auto intro!: restore_keeps split: option.split)

lemma recover_call_keeps:
  "dp_hash d = hash \<Longrightarrow> keeps (\<lambda>s s'. (plane_step hash)\<^sup>*\<^sup>* (now, s) (now, s')) (recover_call h1 (plane_host d now proof work) xc c st)"
  unfolding recover_call_def by (auto intro!: restore_keeps receipts_keeps split: option.split prod.split)

lemma recover_calls_keeps:
  "dp_hash d = hash \<Longrightarrow> keeps (\<lambda>s s'. (plane_step hash)\<^sup>*\<^sup>* (now, s) (now, s')) (recover_calls h1 (plane_host d now proof work) xc cs st)"
  by (induction cs arbitrary: st) (auto intro!: restore_keeps recover_call_keeps)

text \<open>Recovery goes through the control plane. With the control plane as its host, restoring a session is a
  run of its service operations, so every theorem about runs of the service (single execution, leases,
  frozen histories, final receipts) holds across recoveries.\<close>

theorem restore_through_service:
  assumes "dp_hash d = hash"
  shows "(plane_step hash)\<^sup>*\<^sup>* (now, s) (now, effect (restoreSession h1 (plane_host d now proof work) xc prior) s)"
proof -
  let ?R = "\<lambda>s s'. (plane_step hash)\<^sup>*\<^sup>* (now, s) (now, s')"
  have load: "keeps ?R (rh_load (plane_host d now proof work))"
    using getSession_same by (auto simp: plane_host_def keeps_def)
  have "keeps ?R (restoreSession h1 (plane_host d now proof work) xc prior)"
    unfolding restoreSession_def by (auto intro!: restore_keeps load recover_calls_keeps [OF assms] simp: Let_def split: option.split prod.split)
  then show ?thesis by (simp add: keeps_def)
qed

subsection \<open>Concrete restorations\<close>

definition open_call_item :: json where
  "open_call_item = JObj [(''type'', JStr ''function_call''), (''callId'', JStr ''c1''), (''name'', JStr ''notes__read''),
     (''arguments'', JStr ''{}''), (''stepId'', JStr ''step:1'')]"

definition notes_read :: tool where
  "notes_read = \<lparr>tl_name = ''notes__read'', tl_action = ''notes.read'', tl_description = [], tl_properties = [], tl_required = None,
     tl_effect = ReadEffect, tl_approval = False, tl_timeoutMs = None, tl_execution = None, tl_semanticVersion = None,
     tl_readback = None, tl_observation = None, tl_preconditions = None\<rparr>"

definition restored_work :: work_item where
  "restored_work = toWorkItem (new_row 0 ''x'' (sample_input ''x'' ''s1'')) 0"

definition restored_context :: restore_context where
  "restored_context = \<lparr>xc_work = restored_work,
     xc_session = Some (Some ((fresh_session restored_work)\<lparr>ss_history := [open_call_item]\<rparr>)), xc_tools = [notes_read],
     xc_messages = [\<lparr>cm_ref = wi_triggerRef restored_work, cm_authorId = ''u'', cm_body = ''Hello''\<rparr>], xc_evidence = [],
     xc_parentRequest = None, xc_pendingApproval = None, xc_turnInput = (\<lambda>b. []), xc_promptContext = JNull, xc_journal = (\<lambda>s. Inr [])\<rparr>"

definition quiet_host :: "unit restore_host" where
  "quiet_host = \<lparr>rh_load = ret None, rh_step = (\<lambda>c. ret None), rh_cell = (\<lambda>c. ret None), rh_execute = (\<lambda>a. ret (empty_result True))\<rparr>"

lemma restored_run:
  "map_sum id (\<lambda>x. ()) (fst (restoreSession id quiet_host restored_context [] ())) = Inr ()"
  by code_simp

lemma restored_log:
  "snd (snd (restoreSession id (logged_host quiet_host) restored_context [] ((), [])))
     = [JournalAsked ''step:1'' False, ReceiptsAsked ''step:1'' False, Repeated \<lparr>ha_runId = ''x'', ha_cellId = ''step:1'', ha_callIndex = 0,
         ha_action = ''notes.read'', ha_args = [], ha_key = actionKeyOf ''x'' ''step:1'' 0\<rparr>]"
  by code_simp

lemma restored_stored: "xc_session restored_context = Some (Some ((fresh_session restored_work)\<lparr>ss_history := [open_call_item]\<rparr>))"
  "xc_turnInput restored_context = (\<lambda>b. [])"
  by (simp_all add: restored_context_def)


lemma restore_repeats_safely_witness:
  "\<exists>us vs. snd (snd (restoreSession id (logged_host quiet_host) restored_context [] ((), [])))
     = us @ [JournalAsked ''step:1'' False, ReceiptsAsked ''step:1'' False, Repeated \<lparr>ha_runId = ''x'', ha_cellId = ''step:1'', ha_callIndex = 0,
         ha_action = ''notes.read'', ha_args = [], ha_key = actionKeyOf ''x'' ''step:1'' 0\<rparr>] @ vs"
proof -
  obtain res w' log where run: "restoreSession id (logged_host quiet_host) restored_context [] ((), []) = (res, (w', log))" by (metis prod.exhaust)
  let ?a = "\<lparr>ha_runId = ''x'', ha_cellId = ''step:1'', ha_callIndex = 0, ha_action = ''notes.read'', ha_args = [], ha_key = actionKeyOf ''x'' ''step:1'' 0\<rparr>"
  have "Repeated ?a \<in> set log" using restored_log run by simp
  then obtain call us vs where "repeats restored_context call ?a"
      "log = us @ [JournalAsked (cell_of call) False, ReceiptsAsked (cell_of call) False, Repeated ?a] @ vs"
    using restore_repeats_safely [OF run restored_stored(1)] by blast
  moreover have "cell_of call = ''step:1''" using calculation(1) by (auto simp: repeats_def)
  ultimately show ?thesis using run by auto
qed

lemma restore_through_service_witness:
  "(plane_step id)\<^sup>*\<^sup>* (2, leased_plane) (2, effect (restoreSession id (plane_host sample_deps 2 sample_proof restored_work) restored_context []) leased_plane)"
  by (rule restore_through_service) (simp add: sample_deps_def)

end
