(* ===== verification/Attempt.thy ===== *)
theory Attempt
  imports Corrections Restore
begin

text \<open>
  The control of one execution attempt (runtime/runtime.ts): the signals a heartbeat brings back, the steering
  inputs that become revisions of the request, the numbering of its events, and how an attempt that fails
  leaves the work item. Heartbeats, aborts and the turn itself interleave with these operations; every one
  of them is one step here, as their bodies contain no await.
\<close>

subsection \<open>Signals\<close>

datatype abort_reason = CallerAbort | LeaseLostAbort | UserCancelAbort | PreemptedAbort

record heartbeat_result =
  ht_ok :: bool
  ht_cancelRequested :: bool
  ht_preemptRequested :: bool
  ht_steer :: "steer list"

record attempt_signals =
  at_aborted :: "abort_reason option"
  at_leaseLost :: bool
  at_preempt :: bool
  at_queue :: "steer list"
  at_seen :: "string list"
  at_generationAborted :: bool

text \<open>An abort controller keeps its first reason.\<close>

definition abort_attempt :: "abort_reason \<Rightarrow> attempt_signals \<Rightarrow> attempt_signals" where
  "abort_attempt r s = (if at_aborted s = None then s\<lparr>at_aborted := Some r\<rparr> else s)"

definition start_signals :: "bool \<Rightarrow> attempt_signals" where
  "start_signals externalAborted =
     (let s = \<lparr>at_aborted = None, at_leaseLost = False, at_preempt = False, at_queue = [], at_seen = [], at_generationAborted = False\<rparr>
      in if externalAborted then abort_attempt CallerAbort s else s)"

fun take_steer :: "steer list \<Rightarrow> attempt_signals \<Rightarrow> attempt_signals" where
  "take_steer [] s = s"
| "take_steer (x # xs) s = take_steer xs (if st_id x \<in> set (at_seen s) then s
     else s\<lparr>at_seen := at_seen s @ [st_id x], at_queue := at_queue s @ [x], at_generationAborted := True\<rparr>)"

text \<open>\<open>refresh\<close>: a heartbeat that fails counts as a lost lease.\<close>

definition apply_heartbeat :: "os_error + heartbeat_result \<Rightarrow> attempt_signals \<Rightarrow> attempt_signals" where
  "apply_heartbeat r s = (case r of
       Inl e \<Rightarrow> abort_attempt LeaseLostAbort (s\<lparr>at_leaseLost := True\<rparr>)
     | Inr h \<Rightarrow>
         let s1 = (if ht_ok h then s else abort_attempt LeaseLostAbort (s\<lparr>at_leaseLost := True\<rparr>));
             s2 = (if ht_cancelRequested h then abort_attempt UserCancelAbort s1 else s1);
             s3 = (if ht_preemptRequested h then abort_attempt PreemptedAbort (s2\<lparr>at_preempt := True\<rparr>) else s2)
         in take_steer (ht_steer h) s3)"

definition has_steer :: "attempt_signals \<Rightarrow> bool" where
  "has_steer s = (at_queue s \<noteq> [])"

definition drain_steer :: "attempt_signals \<Rightarrow> steer list \<times> attempt_signals" where
  "drain_steer s = (at_queue s, s\<lparr>at_queue := [], at_generationAborted := (if at_queue s \<noteq> [] then False else at_generationAborted s)\<rparr>)"

subsection \<open>Steering the request\<close>

text \<open>The local variables of the turn that a revision resets.\<close>

record turn_state =
  tn_session :: session
  tn_budget :: correction_budget
  tn_lastGood :: "(string \<times> envelope) option"
  tn_terminalError :: "os_error option"
  tn_acceptanceGaps :: "string list"

definition add_revision :: "steer \<Rightarrow> request_snapshot \<Rightarrow> request_snapshot" where
  "add_revision x q = (if list_ex (\<lambda>r. rv_id r = st_id x) (rq_revisions q) then q
     else q\<lparr>rq_revisions := rq_revisions q @ [revision_of x], rq_contract := None\<rparr>)"

definition steering_text :: "steer list \<Rightarrow> string" where
  "steering_text xs = ''Highest-priority human steering:'' @ [CHR 0x0A] @ join_with [CHR 0x0A] (map st_text xs)"

definition steer_json :: "steer \<Rightarrow> json" where
  "steer_json x = JObj [(''id'', JStr (st_id x)), (''text'', JStr (st_text x)), (''createdAt'', JNum (st_createdAt x))]"

text \<open>The flag says whether the session is saved afterwards.\<close>

definition applySteering :: "(string \<Rightarrow> string) \<Rightarrow> (string \<Rightarrow> string \<Rightarrow> int) \<Rightarrow> turn_state \<Rightarrow> attempt_signals
    \<Rightarrow> turn_state \<times> attempt_signals \<times> bool" where
  "applySteering hash cmp t s = (case drain_steer s of (steers, s1) \<Rightarrow>
     if steers = [] then (t, s1, False)
     else let t1 = t\<lparr>tn_budget := observe hash cmp (JObj [(''revisions'', JArr (map steer_json steers))]) (tn_budget t),
            tn_lastGood := None, tn_terminalError := None, tn_acceptanceGaps := []\<rparr>
       in (case ss_request (tn_session t) of
           Some q \<Rightarrow> (t1\<lparr>tn_session := (tn_session t)\<lparr>ss_request := Some (fold add_revision steers q)\<rparr>\<rparr>, s1, True)
         | None \<Rightarrow> (t1\<lparr>tn_session := (tn_session t)\<lparr>ss_history := ss_history (tn_session t)
             @ [message_item ''user'' (steering_text steers)]\<rparr>\<rparr>, s1, False)))"

subsection \<open>Events\<close>

text \<open>\<open>eventSeqByRun\<close>, set when the attempt starts and counted up by every event.\<close>

definition first_seq :: "work_item \<Rightarrow> int" where
  "first_seq w = max 0 (wi_fence w - 1) * RUN_SEQUENCE_SPAN"

text \<open>The first hundred thousand events of an attempt lie in the range the control plane accepts for its fence.\<close>

lemma attempt_numbers_accepted:
  "1 \<le> wi_fence w \<Longrightarrow> first_seq w \<le> n \<Longrightarrow> n < first_seq w + RUN_SEQUENCE_SPAN \<Longrightarrow> range_start w < n + 1 \<and> n + 1 \<le> range_end w"
  by (simp add: first_seq_def range_start_def range_end_def algebra_simps)

subsection \<open>How an attempt ends\<close>

datatype runtime_error =
    AgentOSFailure string string
  | ModelBudgetExceeded string
  | ModelContextBudget
  | LeaseLostFailure string
  | RunCancelledFailure string string
  | KernelExecutionFailure string string
  | KernelTimeoutFailure int string
  | KernelCancelledFailure string
  | KernelProtocolFailure string
  | ApprovalPendingFailure string string
  | CapabilityDeniedFailure string
  | ModelDriverFailure string "string option" "int option"
  | ConfigFailure string
  | PlainFailure string

fun error_code :: "runtime_error \<Rightarrow> string option" where
  "error_code (AgentOSFailure code m) = Some code"
| "error_code (ModelBudgetExceeded m) = Some ''model_budget_exhausted''"
| "error_code ModelContextBudget = Some ''model_context_budget''"
| "error_code (LeaseLostFailure m) = Some ''lease_lost''"
| "error_code (RunCancelledFailure scope m) = Some ''run_cancelled''"
| "error_code (KernelExecutionFailure m cell) = Some ''kernel_execution_failed''"
| "error_code (KernelTimeoutFailure ms cell) = Some ''kernel_timeout''"
| "error_code (KernelCancelledFailure cell) = Some ''kernel_cancelled''"
| "error_code (KernelProtocolFailure m) = Some ''kernel_protocol''"
| "error_code (ApprovalPendingFailure i cell) = Some ''approval_pending''"
| "error_code (CapabilityDeniedFailure a) = Some ''capability_denied''"
| "error_code (ModelDriverFailure m kind status) = Some ''model_driver''"
| "error_code (ConfigFailure m) = Some ''config''"
| "error_code (PlainFailure m) = None"

fun runtime_message :: "runtime_error \<Rightarrow> string" where
  "runtime_message (AgentOSFailure code m) = m"
| "runtime_message (ModelBudgetExceeded m) = m"
| "runtime_message ModelContextBudget = ''model call exceeds its context budget; original input was not truncated''"
| "runtime_message (LeaseLostFailure m) = m"
| "runtime_message (RunCancelledFailure scope m) = m"
| "runtime_message (KernelExecutionFailure m cell) = m"
| "runtime_message (KernelTimeoutFailure ms cell) = ''kernel cell exceeded '' @ show_int ms @ ''ms and was terminated''"
| "runtime_message (KernelCancelledFailure cell) = ''kernel cell cancelled''"
| "runtime_message (KernelProtocolFailure m) = m"
| "runtime_message (ApprovalPendingFailure i cell) = ''approval pending: '' @ i"
| "runtime_message (CapabilityDeniedFailure a) = ''action not covered by this work item'' @ [CHR 0x27] @ ''s capability grant: '' @ a"
| "runtime_message (ModelDriverFailure m kind status) = m"
| "runtime_message (ConfigFailure m) = m"
| "runtime_message (PlainFailure m) = m"

definition public_texts :: "(string \<times> string) list" where
  "public_texts =
     [(''model_budget_exhausted'', ''Model call, token, cost or execution-time budget exhausted''),
      (''content_acceptance_exhausted'', ''Content acceptance correction budget exhausted''),
      (''response_protocol_exhausted'', ''Final assessment protocol correction exhausted''),
      (''tool_protocol_exhausted'', ''Tool protocol correction exhausted''),
      (''kernel_error_exhausted'', ''Tool execution failed after bounded correction''),
      (''kernel_execution_failed'', ''Tool execution failed after bounded correction''),
      (''kernel_timeout'', ''Tool execution timed out''),
      (''no_valid_response'', ''No valid answer was produced for the current request'')]"

definition publicFailure :: "runtime_error \<Rightarrow> string" where
  "publicFailure e = (case e of
       ModelDriverFailure m kind status \<Rightarrow>
         if kind = Some ''protocol'' then ''Model returned an invalid response format''
         else ''Model provider request failed'' @ (case status of None \<Rightarrow> [] | Some n \<Rightarrow> if n = 0 then [] else '' (HTTP '' @ show_int n @ '')'')
     | _ \<Rightarrow> (case error_code e of None \<Rightarrow> runtime_message e
         | Some code \<Rightarrow> (case map_of public_texts code of Some t \<Rightarrow> t | None \<Rightarrow> runtime_message e)))"

text \<open>What an attempt calls of its host at the end, in order, and what the host answers to it. The number in
  \<open>EmitEvent\<close> is the sequence number of the event.\<close>

datatype attempt_call = SaveSessionCall session | EmitEvent int string run_stage | CompleteCall completion | YieldCall

record attempt_log =
  al_seq :: int
  al_calls :: "attempt_call list"

type_synonym attempt_host = "attempt_call list \<Rightarrow> attempt_call \<Rightarrow> os_error + unit"

definition call_host :: "attempt_host \<Rightarrow> attempt_call \<Rightarrow> (attempt_log, unit) prog" where
  "call_host h c = (\<lambda>l. (h (al_calls l) c, l\<lparr>al_calls := al_calls l @ [c]\<rparr>))"

definition emit_event :: "attempt_host \<Rightarrow> string \<Rightarrow> run_stage \<Rightarrow> (attempt_log, unit) prog" where
  "emit_event h kind stage = (\<lambda>l. call_host h (EmitEvent (al_seq l + 1) kind stage) (l\<lparr>al_seq := al_seq l + 1\<rparr>))"

definition ignoring :: "('s, unit) prog \<Rightarrow> ('s, unit) prog" where
  "ignoring m = catchE m (\<lambda>_. ret ())"

definition save_if :: "attempt_host \<Rightarrow> session option \<Rightarrow> (attempt_log, unit) prog" where
  "save_if h session = (case session of None \<Rightarrow> ret () | Some q \<Rightarrow> ignoring (call_host h (SaveSessionCall q)))"

definition failed_outcome :: "session option \<Rightarrow> string \<Rightarrow> goal_outcome" where
  "failed_outcome session gap = \<lparr>go_status = BlockedGoal, go_verification = Inconclusive,
     go_requestVersion = (case session of None \<Rightarrow> 1 | Some q \<Rightarrow> (case ss_request q of None \<Rightarrow> 1 | Some r \<Rightarrow> request_version r)),
     go_gaps = Some [gap], go_question = None\<rparr>"

definition is_cancellation :: "attempt_signals \<Rightarrow> runtime_error \<Rightarrow> bool" where
  "is_cancellation s e = (at_aborted s \<noteq> None \<or> (case e of RunCancelledFailure _ _ \<Rightarrow> True | KernelCancelledFailure _ \<Rightarrow> True | _ \<Rightarrow> False))"

definition finishWithError :: "attempt_host \<Rightarrow> attempt_signals \<Rightarrow> session option \<Rightarrow> runtime_error \<Rightarrow> (attempt_log, unit) prog" where
  "finishWithError h s session e =
     (if at_preempt s
      then andThen (save_if h session) (\<lambda>_. andThen (ignoring (emit_event h ''run.preempted'' StCancelled)) (\<lambda>_. call_host h YieldCall))
      else if at_leaseLost s then ret ()
      else let cancelled = is_cancellation s e in
        andThen (ignoring (emit_event h (if cancelled then ''run.cancelled'' else ''run.failed'') (if cancelled then StCancelled else StFailed)))
          (\<lambda>_. ignoring (call_host h (CompleteCall \<lparr>cp_status = (if cancelled then CompCancelled else CompFailed),
             cp_goalOutcome = Some (failed_outcome session (if cancelled then ''Execution was cancelled'' else publicFailure e)),
             cp_error = Some (publicFailure e)\<rparr>))))"

text \<open>The \<open>catch\<close> of \<open>runWork\<close>: a worker that shuts down gives the work back.\<close>

definition handle_failure :: "attempt_host \<Rightarrow> bool \<Rightarrow> attempt_signals \<Rightarrow> session option \<Rightarrow> runtime_error \<Rightarrow> (attempt_log, unit) prog" where
  "handle_failure h externalAborted s session e =
     (if externalAborted \<and> \<not> at_leaseLost s
      then andThen (save_if h session) (\<lambda>_. ignoring (call_host h YieldCall))
      else finishWithError h s session e)"

subsection \<open>Steering is applied once and in order\<close>

text \<open>
  The control plane and the attempt together: inputs arrive at the work item under fresh ids, heartbeats
  return all of them, the turn takes what the attempt has not seen.
\<close>

record steering_system =
  sg_inputs :: "steer list"
  sg_signals :: attempt_signals
  sg_turn :: turn_state

inductive steering_step :: "(string \<Rightarrow> string) \<Rightarrow> (string \<Rightarrow> string \<Rightarrow> int) \<Rightarrow> steering_system \<Rightarrow> steering_system \<Rightarrow> bool"
  for hash cmp where
  arrive: "st_id x \<notin> set (map st_id (sg_inputs y)) \<Longrightarrow> steering_step hash cmp y (y\<lparr>sg_inputs := sg_inputs y @ [x]\<rparr>)"
| heartbeat: "ht_steer h = sg_inputs y \<Longrightarrow> steering_step hash cmp y (y\<lparr>sg_signals := apply_heartbeat (Inr h) (sg_signals y)\<rparr>)"
| failure: "steering_step hash cmp y (y\<lparr>sg_signals := apply_heartbeat (Inl e) (sg_signals y)\<rparr>)"
| steer: "applySteering hash cmp (sg_turn y) (sg_signals y) = (t, s, saved) \<Longrightarrow>
    steering_step hash cmp y (y\<lparr>sg_turn := t, sg_signals := s\<rparr>)"

text \<open>An attempt starts with a request that has the first \<open>k\<close> inputs as its revisions.\<close>

definition steering_start :: "nat \<Rightarrow> steering_system \<Rightarrow> bool" where
  "steering_start k y = (k \<le> length (sg_inputs y) \<and> distinct (map st_id (sg_inputs y))
     \<and> (\<exists>b. sg_signals y = start_signals b)
     \<and> (\<exists>q. ss_request (tn_session (sg_turn y)) = Some q \<and> rq_revisions q = map revision_of (take k (sg_inputs y))))"

definition steering_ok :: "steering_system \<Rightarrow> bool" where
  "steering_ok y = (distinct (map st_id (sg_inputs y)) \<and>
     (\<exists>d m j. j \<le> d \<and> j \<le> m \<and> d \<le> length (sg_inputs y) \<and> m \<le> length (sg_inputs y)
       \<and> at_seen (sg_signals y) = map st_id (take d (sg_inputs y))
       \<and> at_queue (sg_signals y) = drop j (take d (sg_inputs y))
       \<and> at_generationAborted (sg_signals y) = (at_queue (sg_signals y) \<noteq> [])
       \<and> (\<exists>q. ss_request (tn_session (sg_turn y)) = Some q \<and> rq_revisions q = map revision_of (take m (sg_inputs y)))))"

lemma abort_frame [simp]:
  "at_queue (abort_attempt r s) = at_queue s" "at_seen (abort_attempt r s) = at_seen s"
  "at_generationAborted (abort_attempt r s) = at_generationAborted s"
  by (simp_all add: abort_attempt_def)

lemma take_steer_seen: "set (map st_id xs) \<subseteq> set (at_seen s) \<Longrightarrow> take_steer xs s = s"
  by (induction xs) auto

lemma take_steer_new:
  "distinct (map st_id xs) \<Longrightarrow> set (map st_id xs) \<inter> set (at_seen s) = {} \<Longrightarrow>
   take_steer xs s = s\<lparr>at_seen := at_seen s @ map st_id xs, at_queue := at_queue s @ xs,
     at_generationAborted := (at_generationAborted s \<or> xs \<noteq> [])\<rparr>"
proof (induction xs arbitrary: s)
  case (Cons x xs)
  let ?s = "s\<lparr>at_seen := at_seen s @ [st_id x], at_queue := at_queue s @ [x], at_generationAborted := True\<rparr>"
  have "take_steer (x # xs) s = take_steer xs ?s" using Cons.prems by simp
  also have "\<dots> = ?s\<lparr>at_seen := at_seen ?s @ map st_id xs, at_queue := at_queue ?s @ xs,
     at_generationAborted := (at_generationAborted ?s \<or> xs \<noteq> [])\<rparr>" using Cons.prems by (intro Cons.IH) auto
  finally show ?case by simp
qed simp

lemma take_steer_append: "take_steer (xs @ ys) s = take_steer ys (take_steer xs s)"
  by (induction xs arbitrary: s) auto

text \<open>A heartbeat that returns all inputs queues exactly the unseen rest.\<close>

lemma take_steer_all:
  assumes "distinct (map st_id l)" "d \<le> length l" "at_seen s = map st_id (take d l)"
  shows "take_steer l s = s\<lparr>at_seen := map st_id l, at_queue := at_queue s @ drop d l,
    at_generationAborted := (at_generationAborted s \<or> drop d l \<noteq> [])\<rparr>"
proof -
  have "take_steer l s = take_steer (drop d l) (take_steer (take d l) s)"
    by (simp flip: take_steer_append)
  also have "take_steer (take d l) s = s" using assms(3) by (intro take_steer_seen) auto
  also have "take_steer (drop d l) s = s\<lparr>at_seen := at_seen s @ map st_id (drop d l), at_queue := at_queue s @ drop d l,
    at_generationAborted := (at_generationAborted s \<or> drop d l \<noteq> [])\<rparr>"
  proof (rule take_steer_new)
    have "distinct (map st_id (take d l) @ map st_id (drop d l))" using assms(1) by (metis append_take_drop_id map_append)
    then show "distinct (map st_id (drop d l))" "set (map st_id (drop d l)) \<inter> set (at_seen s) = {}"
      using assms(3) by auto
  qed
  also have "at_seen s @ map st_id (drop d l) = map st_id l" using assms(3) by (metis append_take_drop_id map_append)
  finally show ?thesis .
qed

text \<open>Adding a queued range of inputs to a prefix of them extends the prefix.\<close>

lemma add_range:
  "distinct (map st_id l) \<Longrightarrow> j \<le> m \<Longrightarrow> j \<le> d \<Longrightarrow> d \<le> length l \<Longrightarrow> rq_revisions q = map revision_of (take m l)
   \<Longrightarrow> rq_revisions (fold add_revision (drop j (take d l)) q) = map revision_of (take (max m d) l)"
proof (induction "d - j" arbitrary: j m q)
  case 0
  then show ?case by (simp add: max_def)
next
  case (Suc n)
  then have jd: "j < d" "j < length l" by auto
  have split: "drop j (take d l) = l ! j # drop (Suc j) (take d l)"
    using jd by (metis Cons_nth_drop_Suc length_take min_less_iff_conj nth_take)
  show ?case
  proof (cases "j < m")
    case True
    have "l ! j \<in> set (take m l)" using True jd by (metis in_set_conv_nth length_take min_less_iff_conj nth_take)
    then have "add_revision (l ! j) q = q" using Suc.prems(5) by (auto simp: add_revision_def list_ex_iff revision_of_def)
    then show ?thesis using Suc.hyps(1) [of "Suc j" m q] Suc.hyps(2) Suc.prems True jd split by simp
  next
    case False
    then have m: "m = j" using Suc.prems(2) by simp
    have "st_id (l ! j) \<notin> set (map st_id (take j l))"
    proof -
      have "distinct (map st_id (take (Suc j) l))" using Suc.prems(1) by (metis distinct_take take_map)
      then show ?thesis using jd by (simp add: take_Suc_conv_app_nth)
    qed
    then have new: "\<not> list_ex (\<lambda>r. rv_id r = st_id (l ! j)) (rq_revisions q)"
      using Suc.prems(5) m by (force simp: list_ex_iff revision_of_def image_iff)
    have "rq_revisions (add_revision (l ! j) q) = map revision_of (take (Suc j) l)"
      using new Suc.prems(5) m jd by (simp add: add_revision_def take_Suc_conv_app_nth)
    then have "rq_revisions (fold add_revision (drop (Suc j) (take d l)) (add_revision (l ! j) q)) = map revision_of (take (max (Suc j) d) l)"
      using Suc.hyps(1) [of "Suc j" "Suc j"] Suc.hyps(2) Suc.prems jd by simp
    then show ?thesis using split jd m by (simp add: max_def)
  qed
qed

lemma apply_heartbeat_ok:
  assumes "ht_steer h = l" "distinct (map st_id l)" "d \<le> length l" "at_seen s = map st_id (take d l)"
  shows "at_seen (apply_heartbeat (Inr h) s) = map st_id l" "at_queue (apply_heartbeat (Inr h) s) = at_queue s @ drop d l"
    "at_generationAborted (apply_heartbeat (Inr h) s) = (at_generationAborted s \<or> drop d l \<noteq> [])"
proof -
  let ?s1 = "if ht_ok h then s else abort_attempt LeaseLostAbort (s\<lparr>at_leaseLost := True\<rparr>)"
  let ?s2 = "if ht_cancelRequested h then abort_attempt UserCancelAbort ?s1 else ?s1"
  let ?s3 = "if ht_preemptRequested h then abort_attempt PreemptedAbort (?s2\<lparr>at_preempt := True\<rparr>) else ?s2"
  have same: "at_seen ?s3 = at_seen s" "at_queue ?s3 = at_queue s" "at_generationAborted ?s3 = at_generationAborted s" by simp_all
  have hb: "apply_heartbeat (Inr h) s = take_steer l ?s3" using assms(1) by (simp add: apply_heartbeat_def Let_def)
  show "at_seen (apply_heartbeat (Inr h) s) = map st_id l" "at_queue (apply_heartbeat (Inr h) s) = at_queue s @ drop d l"
    "at_generationAborted (apply_heartbeat (Inr h) s) = (at_generationAborted s \<or> drop d l \<noteq> [])"
    unfolding hb take_steer_all [OF assms(2,3), of ?s3, unfolded same, OF assms(4)] by simp_all
qed

lemma failed_heartbeat [simp]:
  "at_seen (apply_heartbeat (Inl e) s) = at_seen s" "at_queue (apply_heartbeat (Inl e) s) = at_queue s"
  "at_generationAborted (apply_heartbeat (Inl e) s) = at_generationAborted s"
  by (simp_all add: apply_heartbeat_def)

lemma applySteering_effect:
  assumes "applySteering hash cmp t s = (t', s', saved)" and "ss_request (tn_session t) = Some q"
  shows "at_seen s' = at_seen s \<and> at_queue s' = [] \<and> at_generationAborted s' = (at_generationAborted s \<and> at_queue s = [])
    \<and> ss_request (tn_session t') = Some (fold add_revision (at_queue s) q)"
  using assms by (auto simp: applySteering_def drain_steer_def Let_def split: if_splits)

lemma queue_rest: "j \<le> d \<Longrightarrow> d \<le> length l \<Longrightarrow> drop j (take d l) @ drop d l = drop j l"
  by (subst (3) append_take_drop_id [of d, symmetric], subst drop_append) simp

lemma steering_step_ok:
  assumes "steering_step hash cmp y y'" "steering_ok y"
  shows "steering_ok y'"
proof -
  obtain d m j q where dist: "distinct (map st_id (sg_inputs y))"
    and r: "j \<le> d" "j \<le> m" "d \<le> length (sg_inputs y)" "m \<le> length (sg_inputs y)"
      "at_seen (sg_signals y) = map st_id (take d (sg_inputs y))" "at_queue (sg_signals y) = drop j (take d (sg_inputs y))"
      "at_generationAborted (sg_signals y) = (at_queue (sg_signals y) \<noteq> [])"
    and q: "ss_request (tn_session (sg_turn y)) = Some q" "rq_revisions q = map revision_of (take m (sg_inputs y))"
    using assms(2) unfolding steering_ok_def by blast
  show ?thesis using assms(1)
  proof cases
    case (arrive x)
    then show ?thesis using dist r q unfolding steering_ok_def
      by (intro conjI exI [of _ d] exI [of _ m] exI [of _ j] exI [of _ q]) auto
  next
    case (heartbeat h)
    note hb = apply_heartbeat_ok [OF heartbeat(2) dist r(3,5)]
    have "drop j (take d (sg_inputs y)) @ drop d (sg_inputs y) = drop j (sg_inputs y)"
      by (rule queue_rest [OF r(1,3)])
    then show ?thesis using dist r q hb heartbeat(1) unfolding steering_ok_def
      by (intro conjI exI [of _ "length (sg_inputs y)"] exI [of _ m] exI [of _ j] exI [of _ q]) auto
  next
    case (failure e)
    then show ?thesis using dist r q unfolding steering_ok_def
      by (intro conjI exI [of _ d] exI [of _ m] exI [of _ j] exI [of _ q]) auto
  next
    case (steer t s saved)
    note eff = applySteering_effect [OF steer(2) q(1)]
    have "rq_revisions (fold add_revision (at_queue (sg_signals y)) q) = map revision_of (take (max m d) (sg_inputs y))"
      unfolding r(6) by (rule add_range [OF dist r(2,1,3) q(2)])
    then show ?thesis using dist r eff steer(1) unfolding steering_ok_def
      by (intro conjI exI [of _ d] exI [of _ "max m d"] exI [of _ d] exI [of _ "fold add_revision (at_queue (sg_signals y)) q"]) auto
  qed
qed

lemma steering_start_ok: "steering_start k y \<Longrightarrow> steering_ok y"
  unfolding steering_start_def steering_ok_def start_signals_def
  by (elim conjE exE) (intro conjI exI [of _ 0] exI [of _ k]; auto simp: Let_def)

interpretation steering_run: transition_system "steering_start k" "steering_step hash cmp" steering_ok for k hash cmp
  by unfold_locales (auto intro: steering_start_ok steering_step_ok)

text \<open>C34: steering is neither lost, doubled nor reordered. At every moment of an attempt the revisions of its
  request are an initial part of the inputs the control plane has recorded, a generation is aborted exactly
  while an unseen input waits, and applying what a heartbeat brought back makes them all the inputs, so that
  the request version of the attempt is the one the control plane checks.\<close>

theorem steering_complete:
  assumes "steering_start k y0" and "(steering_step hash cmp)\<^sup>*\<^sup>* y0 y"
    and "ht_steer h = sg_inputs y"
    and "applySteering hash cmp (sg_turn y) (apply_heartbeat (Inr h) (sg_signals y)) = (t, s, saved)"
  shows "(\<exists>q m. ss_request (tn_session (sg_turn y)) = Some q \<and> rq_revisions q = map revision_of (take m (sg_inputs y)))
    \<and> (at_generationAborted (sg_signals y) \<longleftrightarrow> has_steer (sg_signals y))
    \<and> (\<exists>q. ss_request (tn_session t) = Some q \<and> rq_revisions q = map revision_of (sg_inputs y)
        \<and> request_version q = js_len (sg_inputs y) + 1) \<and> \<not> has_steer s"
proof -
  have "steering_ok y" using steering_run.reachable_inv assms(1,2) by blast
  then obtain d m j q where dist: "distinct (map st_id (sg_inputs y))"
    and r: "j \<le> d" "j \<le> m" "d \<le> length (sg_inputs y)" "m \<le> length (sg_inputs y)"
      "at_seen (sg_signals y) = map st_id (take d (sg_inputs y))" "at_queue (sg_signals y) = drop j (take d (sg_inputs y))"
      "at_generationAborted (sg_signals y) = (at_queue (sg_signals y) \<noteq> [])"
    and q: "ss_request (tn_session (sg_turn y)) = Some q" "rq_revisions q = map revision_of (take m (sg_inputs y))"
    unfolding steering_ok_def by blast
  let ?l = "sg_inputs y"
  note hb = apply_heartbeat_ok [OF assms(3) dist r(3,5)]
  have queue: "at_queue (apply_heartbeat (Inr h) (sg_signals y)) = drop j (take (length ?l) ?l)"
    unfolding hb(2) r(6) by (simp add: queue_rest [OF r(1,3)])
  note eff = applySteering_effect [OF assms(4) q(1)]
  have "rq_revisions (fold add_revision (drop j (take (length ?l) ?l)) q) = map revision_of (take (max m (length ?l)) ?l)"
    by (rule add_range [OF dist r(2) _ _ q(2)]) (use r in auto)
  then have "rq_revisions (fold add_revision (at_queue (apply_heartbeat (Inr h) (sg_signals y))) q) = map revision_of ?l"
    unfolding queue by simp
  then show ?thesis using eff q r(7) by (auto simp: has_steer_def request_version_def)
qed

subsection \<open>An attempt that fails ends once\<close>

definition ends_attempt :: "attempt_call \<Rightarrow> bool" where
  "ends_attempt c = (case c of YieldCall \<Rightarrow> True | CompleteCall _ \<Rightarrow> True | _ \<Rightarrow> False)"

definition failed_completion :: "attempt_signals \<Rightarrow> session option \<Rightarrow> runtime_error \<Rightarrow> completion" where
  "failed_completion s session e =
     \<lparr>cp_status = (if is_cancellation s e then CompCancelled else CompFailed),
      cp_goalOutcome = Some (failed_outcome session (if is_cancellation s e then ''Execution was cancelled'' else publicFailure e)),
      cp_error = Some (publicFailure e)\<rparr>"

lemma call_host_log: "call_host h c l = (r, l') \<Longrightarrow> l' = l\<lparr>al_calls := al_calls l @ [c]\<rparr>"
  by (simp add: call_host_def)

lemma ignoring_call [simp]: "ignoring (call_host h c) l = (Inr (), l\<lparr>al_calls := al_calls l @ [c]\<rparr>)"
  by (simp add: ignoring_def catchE_def call_host_def split: sum.splits)

lemma ignoring_emit [simp]:
  "ignoring (emit_event h k st) l = (Inr (), l\<lparr>al_seq := al_seq l + 1, al_calls := al_calls l @ [EmitEvent (al_seq l + 1) k st]\<rparr>)"
  by (simp add: ignoring_def catchE_def emit_event_def call_host_def split: sum.splits)

lemma save_if_log: "save_if h session l = (Inr (), l\<lparr>al_calls := al_calls l @ (case session of None \<Rightarrow> [] | Some q \<Rightarrow> [SaveSessionCall q])\<rparr>)"
  by (cases session) (simp_all add: save_if_def)

lemma save_calls_quiet: "list_all (\<lambda>x. \<not> ends_attempt x) (case session of None \<Rightarrow> [] | Some q \<Rightarrow> [SaveSessionCall q])"
  by (cases session) (simp_all add: ends_attempt_def)

lemma finished_log:
  "\<not> at_preempt s \<Longrightarrow> \<not> at_leaseLost s \<Longrightarrow> finishWithError h s session e l = (Inr (), l\<lparr>al_seq := al_seq l + 1,
     al_calls := al_calls l @ [EmitEvent (al_seq l + 1) (if is_cancellation s e then ''run.cancelled'' else ''run.failed'')
       (if is_cancellation s e then StCancelled else StFailed), CompleteCall (failed_completion s session e)]\<rparr>)"
  by (simp add: finishWithError_def Let_def andThen_run(2) [OF ignoring_emit] failed_completion_def)

lemma preempted_log:
  "at_preempt s \<Longrightarrow> finishWithError h s session e l = (r, l') \<Longrightarrow> al_calls l' = al_calls l
     @ (case session of None \<Rightarrow> [] | Some q \<Rightarrow> [SaveSessionCall q]) @ [EmitEvent (al_seq l + 1) ''run.preempted'' StCancelled, YieldCall]"
  by (simp add: finishWithError_def andThen_run(2) [OF save_if_log] andThen_run(2) [OF ignoring_emit]) (auto dest: call_host_log)

lemma yielded_log:
  "ext \<Longrightarrow> \<not> at_leaseLost s \<Longrightarrow> handle_failure h ext s session e l = (Inr (), l\<lparr>al_calls := al_calls l
     @ (case session of None \<Rightarrow> [] | Some q \<Rightarrow> [SaveSessionCall q]) @ [YieldCall]\<rparr>)"
  by (simp add: handle_failure_def andThen_run(2) [OF save_if_log])

text \<open>C35: a failing attempt ends once and never as a success. Whatever its host answers, even when every call
  fails: an attempt whose lease is lost calls nothing, unless a preemption asked for the work; every other
  one makes exactly one ending call, and makes it last. It yields when the worker shuts down or the work is
  preempted, and else completes the work as cancelled or failed with a blocked outcome for the request
  version of its session. Only a yield after a preemption can fail the attempt itself.\<close>

theorem failed_attempt_ends_once:
  assumes "handle_failure h ext s session e l = (r, l')"
  shows "if at_leaseLost s \<and> \<not> at_preempt s then l' = l \<and> r = Inr ()
    else (\<exists>pre c. al_calls l' = al_calls l @ pre @ [c] \<and> ends_attempt c \<and> list_all (\<lambda>x. \<not> ends_attempt x) pre
      \<and> c = (if ext \<and> \<not> at_leaseLost s \<or> at_preempt s then YieldCall else CompleteCall (failed_completion s session e)))
      \<and> (r = Inr () \<or> at_preempt s)"
proof -
  consider (lost) "at_leaseLost s" "\<not> at_preempt s" | (shutdown) "ext" "\<not> at_leaseLost s"
    | (preempted) "\<not> (ext \<and> \<not> at_leaseLost s)" "at_preempt s"
    | (plain) "\<not> ext" "\<not> at_leaseLost s" "\<not> at_preempt s" by blast
  then show ?thesis
  proof cases
    case lost
    then show ?thesis using assms by (simp add: handle_failure_def finishWithError_def)
  next
    case shutdown
    then show ?thesis using assms save_calls_quiet [of session] by (simp add: yielded_log) (auto simp: ends_attempt_def)
  next
    case preempted
    then have run: "finishWithError h s session e l = (r, l')" using assms by (auto simp: handle_failure_def)
    let ?pre = "(case session of None \<Rightarrow> [] | Some q \<Rightarrow> [SaveSessionCall q]) @ [EmitEvent (al_seq l + 1) ''run.preempted'' StCancelled]"
    have "al_calls l' = al_calls l @ ?pre @ [YieldCall] \<and> list_all (\<lambda>x. \<not> ends_attempt x) ?pre"
      using preempted_log [OF preempted(2) run] save_calls_quiet [of session] by (simp add: ends_attempt_def)
    then show ?thesis using preempted(2) by (auto simp: ends_attempt_def simp del: append_assoc)
  next
    case plain
    let ?pre = "[EmitEvent (al_seq l + 1) (if is_cancellation s e then ''run.cancelled'' else ''run.failed'')
       (if is_cancellation s e then StCancelled else StFailed)]"
    have "al_calls l' = al_calls l @ ?pre @ [CompleteCall (failed_completion s session e)] \<and> r = Inr ()"
      using assms plain by (auto simp: handle_failure_def finished_log)
    moreover have "list_all (\<lambda>x. \<not> ends_attempt x) ?pre" by (simp add: ends_attempt_def)
    ultimately have "\<exists>pre c. al_calls l' = al_calls l @ pre @ [c] \<and> ends_attempt c \<and> list_all (\<lambda>x. \<not> ends_attempt x) pre
      \<and> c = CompleteCall (failed_completion s session e)" "r = Inr ()"
      by (auto intro!: exI [of _ ?pre] simp: ends_attempt_def)
    then show ?thesis using plain by simp
  qed
qed

lemma failed_attempt_ends_once_witness:
  "\<exists>l'. handle_failure (\<lambda>_ _. Inl (JsError ''down'')) False (start_signals False) None (AgentOSFailure ''kernel_timeout'' ''x'') \<lparr>al_seq = 100000, al_calls = []\<rparr> = (Inr (), l')
     \<and> (\<exists>pre cp. al_calls l' = pre @ [CompleteCall cp] \<and> cp_status cp = CompFailed \<and> cp_error cp = Some ''Tool execution timed out'')"
proof -
  let ?s = "start_signals False" and ?e = "AgentOSFailure ''kernel_timeout'' ''x''"
  obtain r l' where run: "handle_failure (\<lambda>_ _. Inl (JsError ''down'')) False ?s None ?e \<lparr>al_seq = 100000, al_calls = []\<rparr> = (r, l')"
    by (metis prod.exhaust)
  have s: "\<not> at_leaseLost ?s" "\<not> at_preempt ?s" "at_aborted ?s = None" by (simp_all add: start_signals_def)
  have "cp_status (failed_completion ?s None ?e) = CompFailed \<and> cp_error (failed_completion ?s None ?e) = Some ''Tool execution timed out''"
    using s(3) by (simp add: failed_completion_def is_cancellation_def publicFailure_def public_texts_def)
  then show ?thesis using failed_attempt_ends_once [OF run] s(1,2) run by auto
qed

definition sample_steer :: steer where
  "sample_steer = \<lparr>st_id = ''s1'', st_text = ''shorter'', st_createdAt = 3\<rparr>"

definition steered_request :: request_snapshot where
  "steered_request = \<lparr>rq_workId = ''w1'', rq_tenantId = ''t1'', rq_sessionId = ''s1'', rq_authorId = ''u1'', rq_sourceRef = ''m1'',
     rq_originalText = ''Write a report'', rq_revisions = [], rq_codeExecution = None, rq_deliveryMode = None, rq_mode = None,
     rq_obligations = None, rq_inheritedRevisions = None, rq_attachments = [], rq_evidence = None, rq_contract = None, rq_resourceChecks = None,
     rq_parentWorkId = None, rq_rootWorkId = None, rq_parentRequestVersion = None, rq_instructionAuthor = None,
     rq_delegatedAssignment = None, rq_conversation = None\<rparr>"

definition steered_system :: steering_system where
  "steered_system = \<lparr>sg_inputs = [], sg_signals = start_signals False,
     sg_turn = \<lparr>tn_session = sample_session\<lparr>ss_request := Some steered_request\<rparr>, tn_budget = new_budget, tn_lastGood = None,
       tn_terminalError = None, tn_acceptanceGaps = [''late'']\<rparr>\<rparr>"

lemma steering_complete_witness:
  "\<exists>t s saved q. applySteering id (\<lambda>_ _. 0) (sg_turn steered_system) (apply_heartbeat (Inr \<lparr>ht_ok = True, ht_cancelRequested = False,
       ht_preemptRequested = False, ht_steer = [sample_steer]\<rparr>) (sg_signals steered_system)) = (t, s, saved)
     \<and> ss_request (tn_session t) = Some q \<and> rq_revisions q = [revision_of sample_steer] \<and> request_version q = 2 \<and> \<not> has_steer s"
proof -
  let ?h = "\<lparr>ht_ok = True, ht_cancelRequested = False, ht_preemptRequested = False, ht_steer = [sample_steer]\<rparr>"
  let ?y = "steered_system\<lparr>sg_inputs := [sample_steer]\<rparr>"
  have start: "steering_start 0 steered_system"
    by (auto simp: steering_start_def steered_system_def steered_request_def sample_session_def)
  have "steering_step id (\<lambda>_ _. 0) steered_system ?y"
    using steering_step.arrive [of sample_steer steered_system id "\<lambda>_ _. 0"] by (simp add: steered_system_def)
  then have steps: "(steering_step id (\<lambda>_ _. 0))\<^sup>*\<^sup>* steered_system ?y" by blast
  have same: "sg_turn ?y = sg_turn steered_system" "sg_signals ?y = sg_signals steered_system" by simp_all
  obtain t s saved where run: "applySteering id (\<lambda>_ _. 0) (sg_turn ?y) (apply_heartbeat (Inr ?h) (sg_signals ?y)) = (t, s, saved)"
    by (metis prod.exhaust)
  have "ht_steer ?h = sg_inputs ?y" by simp
  from steering_complete [OF start steps this run]
  obtain q where "ss_request (tn_session t) = Some q" "rq_revisions q = map revision_of (sg_inputs ?y)"
    "request_version q = js_len (sg_inputs ?y) + 1" "\<not> has_steer s" by blast
  then show ?thesis using run unfolding same by auto
qed

end
