(* ===== verification/ToolRound.thy ===== *)
theory ToolRound
  imports Attempt "HOL-Library.Multiset"
begin

text \<open>
  The tool round of a turn (runtime/runtime.ts: \<open>executeCall\<close>, \<open>executeDirect\<close> and the loop of \<open>runTurn\<close> over the
  calls of one model output). The host, the kernel and the signals are the environment: what each of them
  answers may depend on everything called before. Event data, the transfer of workspace files and metrics
  are left out; saving a step stands for \<open>saveExecutionStep\<close> with its workspace capture. The reads of a batch
  run one after the other, in an order the environment chooses.
\<close>

subsection \<open>Programs that fail with a runtime error\<close>

type_synonym ('s, 'a) attempt_prog = "'s \<Rightarrow> (runtime_error + 'a) \<times> 's"

definition give :: "'a \<Rightarrow> ('s, 'a) attempt_prog" where
  "give x = (\<lambda>s. (Inr x, s))"

definition fails :: "runtime_error \<Rightarrow> ('s, 'a) attempt_prog" where
  "fails e = (\<lambda>s. (Inl e, s))"

definition andNext :: "('s, 'a) attempt_prog \<Rightarrow> ('a \<Rightarrow> ('s, 'b) attempt_prog) \<Rightarrow> ('s, 'b) attempt_prog" where
  "andNext m f = (\<lambda>s. case m s of (Inl e, s') \<Rightarrow> (Inl e, s') | (Inr x, s') \<Rightarrow> f x s')"

definition rescue :: "('s, 'a) attempt_prog \<Rightarrow> (runtime_error \<Rightarrow> ('s, 'a) attempt_prog) \<Rightarrow> ('s, 'a) attempt_prog" where
  "rescue m h = (\<lambda>s. case m s of (Inl e, s') \<Rightarrow> h e s' | (Inr x, s') \<Rightarrow> (Inr x, s'))"

definition look :: "('s \<Rightarrow> 'a) \<Rightarrow> ('s, 'a) attempt_prog" where
  "look f = (\<lambda>s. (Inr (f s), s))"

definition change :: "('s \<Rightarrow> 's) \<Rightarrow> ('s, unit) attempt_prog" where
  "change f = (\<lambda>s. (Inr (), f s))"

text \<open>The helpers of the other modules throw plain errors.\<close>

definition plain_failure :: "os_error \<Rightarrow> runtime_error" where
  "plain_failure e = PlainFailure (case e of JsError m \<Rightarrow> m | ControlPlaneError st m c \<Rightarrow> m | NoEffectError m c \<Rightarrow> m)"

definition plainly :: "os_error + 'a \<Rightarrow> ('s, 'a) attempt_prog" where
  "plainly r = (case r of Inl e \<Rightarrow> fails (plain_failure e) | Inr x \<Rightarrow> give x)"

subsection \<open>The environment\<close>

datatype notice = ActionStarted host_action | ActionCompleted host_action "action_result option"

record kernel_execution =
  ke_stdout :: string
  ke_stderr :: string
  ke_result :: "json option"
  ke_truncated :: bool
  ke_artifacts :: "artifact list"
  ke_directives :: "directive list"

datatype round_call =
    EmitCall string run_stage
  | SaveStepCall execution_step
  | SaveRunCall session
  | PrepareCall
  | RunCellCall string string
  | RunActionCall host_action
  | StageCall artifact
  | WaitCall goal_outcome
  | FinishCall completion

text \<open>A call of the host fails with a lost lease or with an error of the transport; actions and cells with any error.\<close>

datatype host_failure = HostLeaseLost string | HostFailed string

definition host_error :: "host_failure \<Rightarrow> runtime_error" where
  "host_error e = (case e of HostLeaseLost m \<Rightarrow> LeaseLostFailure m | HostFailed m \<Rightarrow> PlainFailure m)"

record round_host =
  rn_call :: "round_call list \<Rightarrow> round_call \<Rightarrow> host_failure + unit"
  rn_action :: "round_call list \<Rightarrow> host_action \<Rightarrow> runtime_error + action_result"
  rn_cell :: "round_call list \<Rightarrow> string \<Rightarrow> string \<Rightarrow> notice list \<times> (runtime_error + kernel_execution)"
  rn_signals :: "round_call list \<Rightarrow> attempt_signals"
  rn_order :: "round_call list \<Rightarrow> nat \<Rightarrow> nat list"
  rn_stages :: bool

text \<open>The locals of the turn, and those of the call that runs: its receipts and the parts of its actions.\<close>

record round_state =
  ro_session :: session
  ro_budget :: correction_budget
  ro_artifacts :: "artifact list"
  ro_correction :: "json option"
  ro_part :: int
  ro_receipts :: "recovered_action list"
  ro_parts :: "(string, int) jsmap"
  ro_log :: "round_call list"

type_synonym 'a round = "(round_state, 'a) attempt_prog"

definition call_env :: "round_host \<Rightarrow> round_call \<Rightarrow> unit round" where
  "call_env h c = (\<lambda>s. (case rn_call h (ro_log s) c of Inl e \<Rightarrow> Inl (host_error e) | Inr u \<Rightarrow> Inr u, s\<lparr>ro_log := ro_log s @ [c]\<rparr>))"

definition push_item :: "json \<Rightarrow> unit round" where
  "push_item v = change (\<lambda>s. s\<lparr>ro_session := (ro_session s)\<lparr>ss_history := ss_history (ro_session s) @ [v]\<rparr>\<rparr>)"

definition current_version :: "round_state \<Rightarrow> int" where
  "current_version s = (case ss_request (ro_session s) of None \<Rightarrow> 1 | Some q \<Rightarrow> request_version q)"

definition set_request :: "request_snapshot \<Rightarrow> unit round" where
  "set_request q = change (\<lambda>s. s\<lparr>ro_session := (ro_session s)\<lparr>ss_request := Some q\<rparr>\<rparr>)"

definition saveSession_now :: "round_host \<Rightarrow> unit round" where
  "saveSession_now h = andNext (look ro_session) (\<lambda>q. call_env h (SaveRunCall q))"

definition spend :: "(string \<Rightarrow> string) \<Rightarrow> correction_category \<Rightarrow> string \<Rightarrow> bool round" where
  "spend hash c failure = (\<lambda>s. case consume hash c failure (ro_budget s) of (ok, b) \<Rightarrow> (Inr ok, s\<lparr>ro_budget := b\<rparr>))"

definition correctionOrThrow :: "(string \<Rightarrow> string) \<Rightarrow> correction_category \<Rightarrow> string \<Rightarrow> string \<Rightarrow> json round" where
  "correctionOrThrow hash c content failure = andNext (spend hash c failure) (\<lambda>ok.
     if \<not> ok then fails (AgentOSFailure (category_name c @ ''_exhausted'') (category_name c @ '' correction exhausted''))
     else andNext (look (\<lambda>s. rediagnose (ro_budget s))) (\<lambda>again.
       give (message_item ''user'' ((if again then ''The same operation has failed three times without new evidence. Diagnose the cause and change the approach before retrying. '' else []) @ content))))"

subsection \<open>Host actions of a call\<close>

text \<open>\<open>executionOptions.onHostAction\<close>\<close>

definition shown_result :: "action_result \<Rightarrow> unit round" where
  "shown_result r = (if hr_approval r = None \<and> hr_ok r
     then andNext (plainly (boundedToolOutput (Some (case hr_value r of None \<Rightarrow> JNull | Some v \<Rightarrow> v)) MAX_TOOL_OUTPUT_CHARS [])) (\<lambda>_. give ())
     else give ())"

definition note_resource_check :: "host_action \<Rightarrow> action_result \<Rightarrow> unit round" where
  "note_resource_check a r = andNext (look (\<lambda>s. ss_request (ro_session s))) (\<lambda>req. case req of
       Some q \<Rightarrow> if ha_action a = ''task.check_resource''
         then andNext (plainly (appendResourceCheck (opt_list (rq_resourceChecks q)) (ha_key a) r (request_version q)))
           (\<lambda>cs. set_request (q\<lparr>rq_resourceChecks := Some cs\<rparr>))
         else give ()
     | None \<Rightarrow> give ())"

fun on_notice :: "round_host \<Rightarrow> notice \<Rightarrow> unit round" where
  "on_notice h (ActionStarted a) =
     andNext (change (\<lambda>s. s\<lparr>ro_parts := AList.update (ha_key a) (ro_part s) (ro_parts s), ro_part := ro_part s + 1\<rparr>)) (\<lambda>_.
     call_env h (EmitCall ''tool.started'' StStarted))"
| "on_notice h (ActionCompleted a result) =
     andNext (look (\<lambda>s. map_of (ro_parts s) (ha_key a))) (\<lambda>part. case (part, result) of
         (Some p, Some r) \<Rightarrow>
           andNext (change (\<lambda>s. s\<lparr>ro_receipts := ro_receipts s @ [\<lparr>ra_action = ha_action a, ra_key = ha_key a, ra_result = r\<rparr>]\<rparr>)) (\<lambda>_.
           andNext (note_resource_check a r) (\<lambda>_.
           andNext (shown_result r) (\<lambda>_.
           call_env h (EmitCall ''tool.completed'' (if hr_ok r \<or> hr_approval r \<noteq> None then StCompleted else StFailed)))))
       | _ \<Rightarrow> fails (PlainFailure ''host action completed without a matching start''))"

fun on_notices :: "round_host \<Rightarrow> notice list \<Rightarrow> unit round" where
  "on_notices h [] = give ()"
| "on_notices h (n # ns) = andNext (on_notice h n) (\<lambda>_. on_notices h ns)"

text \<open>A notice that fails ends the kernel and with it the cell.\<close>

definition run_cell :: "round_host \<Rightarrow> string \<Rightarrow> string \<Rightarrow> kernel_execution round" where
  "run_cell h cell code = (\<lambda>s. case rn_cell h (ro_log s) cell code of (ns, res) \<Rightarrow>
     andNext (on_notices h ns) (\<lambda>_ s1. (res, s1)) (s\<lparr>ro_log := ro_log s @ [RunCellCall cell code]\<rparr>))"

definition run_host_action :: "round_host \<Rightarrow> host_action \<Rightarrow> action_result round" where
  "run_host_action h a = (\<lambda>s. (rn_action h (ro_log s) a, s\<lparr>ro_log := ro_log s @ [RunActionCall a]\<rparr>))"

text \<open>\<open>call.name.replace('__', '.')\<close>\<close>

fun dotted :: "string \<Rightarrow> string" where
  "dotted (a # b # xs) = (if a = CHR ''_'' \<and> b = CHR ''_'' then CHR ''.'' # xs else a # dotted (b # xs))"
| "dotted xs = xs"

definition call_text :: "json \<Rightarrow> string \<Rightarrow> string" where
  "call_text call k = (case str_prop call k of Some s \<Rightarrow> s | None \<Rightarrow> [])"

definition direct_action :: "work_item \<Rightarrow> json \<Rightarrow> jobj \<Rightarrow> host_action" where
  "direct_action work call args = \<lparr>ha_runId = wi_id work, ha_cellId = cell_of call, ha_callIndex = 0,
     ha_action = dotted (call_text call ''name''), ha_args = args, ha_key = actionKeyOf (wi_id work) (cell_of call) 0\<rparr>"

definition executeDirect :: "round_host \<Rightarrow> work_item \<Rightarrow> json \<Rightarrow> jobj \<Rightarrow> kernel_execution round" where
  "executeDirect h work call args = (let a = direct_action work call args in
     andNext (on_notice h (ActionStarted a)) (\<lambda>_.
     andNext (run_host_action h a) (\<lambda>r.
     andNext (on_notice h (ActionCompleted a (Some r))) (\<lambda>_. case hr_approval r of
         Some i \<Rightarrow> fails (ApprovalPendingFailure i (cell_of call))
       | None \<Rightarrow> give \<lparr>ke_stdout = [], ke_stderr = [], ke_result = Some (result_json r), ke_truncated = False,
           ke_artifacts = [], ke_directives = (case hr_directive r of None \<Rightarrow> [] | Some dv \<Rightarrow> [dv])\<rparr>))))"

subsection \<open>One call\<close>

record call_outcome =
  oc_terminal :: bool
  oc_correction :: "json option"

definition goes_on :: "json option \<Rightarrow> call_outcome" where
  "goes_on c = \<lparr>oc_terminal = False, oc_correction = c\<rparr>"

definition ends_turn :: call_outcome where
  "ends_turn = \<lparr>oc_terminal = True, oc_correction = None\<rparr>"

definition push_output :: "json \<Rightarrow> string \<Rightarrow> unit round" where
  "push_output call out = push_item (output_item (call_id call) out)"

definition bounded_output :: "json \<Rightarrow> observation_ref list \<Rightarrow> string round" where
  "bounded_output v refs = plainly (boundedToolOutput (Some v) MAX_TOOL_OUTPUT_CHARS refs)"

definition round_references :: "(string \<Rightarrow> string) \<Rightarrow> recovered_action list \<Rightarrow> observation_ref list" where
  "round_references hash rs = receiptReferences hash (map (\<lambda>r. (ra_action r, ra_key r, ra_result r)) rs)"

text \<open>A call that does not follow the protocol is answered with the error and corrected.\<close>

definition refuse_call :: "round_host \<Rightarrow> (string \<Rightarrow> string) \<Rightarrow> json \<Rightarrow> string \<Rightarrow> (string \<times> json) list \<Rightarrow> string \<Rightarrow> call_outcome round" where
  "refuse_call h hash call message extra content =
     andNext (bounded_output (JObj ([(''error'', JStr message), (''protocolError'', JBool True)] @ extra)) []) (\<lambda>out.
     andNext (push_output call out) (\<lambda>_.
     andNext (call_env h (EmitCall ''ipython.failed'' StFailed)) (\<lambda>_.
     andNext (correctionOrThrow hash ToolProtocol content (''tool protocol correction exhausted: '' @ content)) (\<lambda>c.
     give (goes_on (Some c))))))"

text \<open>What a call runs: a cell, or one action of the host.\<close>

datatype call_body = CellBody string | DirectBody jobj

definition os_message :: "os_error \<Rightarrow> string" where
  "os_message e = runtime_message (plain_failure e)"

definition parse_call :: "json \<Rightarrow> string + call_body" where
  "parse_call call =
     (if call_text call ''name'' = ''ipython''
      then (case parseIPythonArguments (call_text call ''arguments'') of Inl e \<Rightarrow> Inl (os_message e) | Inr code \<Rightarrow> Inr (CellBody code))
      else (case json_parse (call_text call ''arguments'') of
          None \<Rightarrow> Inl ''invalid JSON''
        | Some (JObj args) \<Rightarrow> Inr (DirectBody args)
        | Some _ \<Rightarrow> Inl ''tool arguments must be a JSON object''))"

definition step_of_call :: "json \<Rightarrow> call_body \<Rightarrow> int \<Rightarrow> execution_step" where
  "step_of_call call b version = \<lparr>xs_id = cell_of call, xs_requestVersion = version, xs_kind = call_text call ''name'',
     xs_input = opt_prop ''callId'' (call_id call) @ (case b of CellBody code \<Rightarrow> [(''code'', JStr code)]
       | DirectBody args \<Rightarrow> [(''arguments'', JStr (call_text call ''arguments''))]),
     xs_output = None, xs_artifacts = [], xs_workspace = None\<rparr>"

definition run_body :: "round_host \<Rightarrow> work_item \<Rightarrow> json \<Rightarrow> call_body \<Rightarrow> kernel_execution round" where
  "run_body h work call b = (case b of
       CellBody code \<Rightarrow> andNext (call_env h PrepareCall) (\<lambda>_. run_cell h (cell_of call) code)
     | DirectBody args \<Rightarrow> executeDirect h work call args)"

fun stage_artifacts :: "round_host \<Rightarrow> artifact list \<Rightarrow> unit round" where
  "stage_artifacts h [] = give ()"
| "stage_artifacts h (a # xs) = andNext (call_env h (StageCall a)) (\<lambda>_. stage_artifacts h xs)"

definition receipts_json :: "recovered_action list \<Rightarrow> json" where
  "receipts_json rs = JArr (map receipt_json rs)"

definition execution_output :: "kernel_execution \<Rightarrow> artifact list \<Rightarrow> recovered_action list \<Rightarrow> json" where
  "execution_output x arts rs = JObj ([(''stdout'', JStr (ke_stdout x)), (''stderr'', JStr (ke_stderr x))] @ opt_prop ''result'' (ke_result x)
     @ [(''truncated'', JBool (ke_truncated x)), (''artifacts'', JArr (map artifact_json arts)), (''receipts'', receipts_json rs)])"

definition failed_receipts :: "recovered_action list \<Rightarrow> recovered_action list" where
  "failed_receipts rs = filter (\<lambda>r. \<not> hr_ok (ra_result r) \<and> hr_approval (ra_result r) = None) rs"

definition failure_key :: "recovered_action list \<Rightarrow> string" where
  "failure_key rs = stringify (JArr (map (\<lambda>r. JArr [JStr (ra_action r), case hr_code (ra_result r) of Some c \<Rightarrow> JStr c
     | None \<Rightarrow> (case hr_state (ra_result r) of Some st \<Rightarrow> state_json st | None \<Rightarrow> JStr ''tool_error'')]) rs))"

definition facts_of :: "artifact list \<Rightarrow> recovered_action list \<Rightarrow> json" where
  "facts_of arts rs = (case progressFacts (JObj [(''artifacts'', JArr (map artifact_json arts)),
       (''observations'', JArr (map (\<lambda>r. JObj [(''action'', JStr (ra_action r)), (''result'', result_json (ra_result r))]) rs))]) of
     Some f \<Rightarrow> f | None \<Rightarrow> JNull)"

text \<open>The budget after a run: failures spend a correction, facts observed refresh it.\<close>

definition settle_budget :: "(string \<Rightarrow> string) \<Rightarrow> (string \<Rightarrow> string \<Rightarrow> int) \<Rightarrow> artifact list \<Rightarrow> recovered_action list \<Rightarrow> json option round" where
  "settle_budget hash cmp arts rs = (if failed_receipts rs \<noteq> []
     then andNext (spend hash KernelError (failure_key (failed_receipts rs))) (\<lambda>ok.
       if \<not> ok then fails (AgentOSFailure ''kernel_error_exhausted'' ''Tool execution failed andNext bounded correction'')
       else give (Some (message_item ''user'' ''Inspect the recorded failures before proceeding. Reconcile unknown effects; do not repeat them under a new identity.'')))
     else if stringify (facts_of arts rs) \<noteq> ''{}''
     then andNext (change (\<lambda>s. s\<lparr>ro_budget := observe hash cmp (facts_of arts rs) (ro_budget s)\<rparr>)) (\<lambda>_. give None)
     else give None)"

definition direct_result :: "recovered_action list \<Rightarrow> json" where
  "direct_result rs = (case rs of [] \<Rightarrow> JObj [(''ok'', JBool False)] | r # _ \<Rightarrow> result_json ((ra_result r)\<lparr>hr_evidence := None\<rparr>))"

text \<open>Evidence and contract of one receipt, after the call has been answered.\<close>

definition take_evidence :: "(string \<Rightarrow> string) \<Rightarrow> recovered_action \<Rightarrow> unit round" where
  "take_evidence hash r = andNext (look (\<lambda>s. ss_request (ro_session s))) (\<lambda>req. case req of
       None \<Rightarrow> give () | Some q \<Rightarrow> andNext (plainly (with_evidence hash r q)) set_request)"

definition stale_draft :: "jobj option \<Rightarrow> request_snapshot option \<Rightarrow> bool" where
  "stale_draft draft req = (case (draft, req) of
       (Some kvs, Some q) \<Rightarrow> map_of kvs ''requestVersion'' \<noteq> Some (JNum (request_version q)) | _ \<Rightarrow> True)"

definition take_contract :: "round_host \<Rightarrow> (string \<Rightarrow> string) \<Rightarrow> recovered_action \<Rightarrow> unit round" where
  "take_contract h hash r = (if ra_action r \<noteq> ''task.contract'' then give () else (case contract_directive (ra_result r) of
       None \<Rightarrow> give ()
     | Some draft \<Rightarrow> andNext (look (\<lambda>s. ss_request (ro_session s))) (\<lambda>req.
         if stale_draft draft req then fails (PlainFailure ''stale task contract receipt'')
         else (case req of None \<Rightarrow> give () | Some q \<Rightarrow>
           andNext (plainly (createTaskContract hash (rq_originalText q) (request_version q) (draft_object draft))) (\<lambda>c.
           andNext (set_request (q\<lparr>rq_contract := Some c\<rparr>)) (\<lambda>_. saveSession_now h))))))"

fun take_receipts :: "round_host \<Rightarrow> (string \<Rightarrow> string) \<Rightarrow> recovered_action list \<Rightarrow> unit round" where
  "take_receipts h hash [] = give ()"
| "take_receipts h hash (r # rs) = andNext (take_evidence hash r) (\<lambda>_. andNext (take_contract h hash r) (\<lambda>_. take_receipts h hash rs))"

text \<open>A deferring directive ends the turn: the work waits, or completes as blocked.\<close>

definition text_datum :: "directive \<Rightarrow> string \<Rightarrow> string option" where
  "text_datum dv k = (case dv_data dv of Some kvs \<Rightarrow> (case map_of kvs k of Some (JStr t) \<Rightarrow> Some t | _ \<Rightarrow> None) | None \<Rightarrow> None)"

definition defer_outcome :: "directive \<Rightarrow> int \<Rightarrow> goal_outcome" where
  "defer_outcome dv version = \<lparr>
     go_status = (case (dv_reason dv = Some ''child'', text_datum dv ''taskRef'') of (True, Some t) \<Rightarrow> Delegated t
       | _ \<Rightarrow> if dv_reason dv = Some ''user'' then AwaitingInput else BlockedGoal),
     go_verification = NotRun, go_requestVersion = version,
     go_gaps = (if dv_reason dv \<in> {Some ''user'', Some ''child''} then None else Some [''Deferred action has no verified resumable task reference'']),
     go_question = (if dv_reason dv = Some ''user'' then text_datum dv ''question'' else None)\<rparr>"

definition park :: "round_host \<Rightarrow> directive \<Rightarrow> call_outcome round" where
  "park h dv = andNext (look (\<lambda>s. defer_outcome dv (current_version s))) (\<lambda>g.
     andNext (saveSession_now h) (\<lambda>_.
     andNext (call_env h (EmitCall ''goal.waiting'' StCompleted)) (\<lambda>_.
     andNext (call_env h (if go_status g = BlockedGoal then FinishCall \<lparr>cp_status = CompCompleted, cp_goalOutcome = Some g, cp_error = None\<rparr> else WaitCall g)) (\<lambda>_.
     give ends_turn))))"

text \<open>The part of the \<open>try\<close> block after the execution.\<close>

definition finish_call :: "round_host \<Rightarrow> (string \<Rightarrow> string) \<Rightarrow> (string \<Rightarrow> string \<Rightarrow> int) \<Rightarrow> bool \<Rightarrow> json \<Rightarrow> execution_step
    \<Rightarrow> kernel_execution \<Rightarrow> call_outcome round" where
  "finish_call h hash cmp readable call step x =
     andNext (if rn_stages h then stage_artifacts h (ke_artifacts x) else give ()) (\<lambda>_.
     andNext (look ro_receipts) (\<lambda>rs.
     let arts = ke_artifacts x @ concat (map (\<lambda>r. if hr_ok (ra_result r) then opt_list (hr_artifacts (ra_result r)) else []) rs) in
     andNext (change (\<lambda>s. s\<lparr>ro_artifacts := ro_artifacts s @ arts\<rparr>)) (\<lambda>_.
     andNext (look (\<lambda>s. length (ro_artifacts s))) (\<lambda>n.
     if n > 512 then fails (PlainFailure ''artifact count exceeds the per-run limit'')
     else andNext (bounded_output (execution_output x arts rs) (if readable then round_references hash rs else [])) (\<lambda>out.
       andNext (call_env h (SaveStepCall (step\<lparr>xs_output := Some out, xs_artifacts := arts\<rparr>))) (\<lambda>_.
       andNext (settle_budget hash cmp arts rs) (\<lambda>correction.
       andNext (if call_text call ''name'' = ''ipython'' then give out else bounded_output (direct_result rs) (round_references hash rs)) (\<lambda>answer.
       andNext (push_output call answer) (\<lambda>_.
       andNext (call_env h (EmitCall ''ipython.completed'' StCompleted)) (\<lambda>_.
       andNext (take_receipts h hash rs) (\<lambda>_.
       case List.find (\<lambda>dv. dv_type dv = Defer) (ke_directives x) of
         Some dv \<Rightarrow> park h dv | None \<Rightarrow> give (goes_on correction))))))))))))"

text \<open>The \<open>catch\<close> block.\<close>

definition recoverable :: "runtime_error \<Rightarrow> bool" where
  "recoverable e = (case e of ApprovalPendingFailure _ _ \<Rightarrow> True | KernelTimeoutFailure _ _ \<Rightarrow> True | KernelExecutionFailure _ _ \<Rightarrow> True | _ \<Rightarrow> False)"

definition save_failed_step :: "round_host \<Rightarrow> execution_step \<Rightarrow> runtime_error \<Rightarrow> unit round" where
  "save_failed_step h step e = andNext (look ro_receipts) (\<lambda>rs.
     andNext (bounded_output (JObj ([(''error'', JStr (runtime_message e)), (''receipts'', receipts_json rs)]
       @ (case e of ApprovalPendingFailure i _ \<Rightarrow> [(''approvalPending'', JStr i)] | _ \<Rightarrow> []))) []) (\<lambda>out.
     call_env h (SaveStepCall (step\<lparr>xs_output := Some out\<rparr>))))"

definition answer_failure :: "round_host \<Rightarrow> (string \<Rightarrow> string) \<Rightarrow> json \<Rightarrow> runtime_error \<Rightarrow> call_outcome round" where
  "answer_failure h hash call e = andNext (look ro_receipts) (\<lambda>rs. case e of
       ApprovalPendingFailure i _ \<Rightarrow>
         andNext (look (\<lambda>s. \<lparr>go_status = AwaitingApproval i, go_verification = NotRun, go_requestVersion = current_version s, go_gaps = None, go_question = None\<rparr>)) (\<lambda>g.
         andNext (call_env h (EmitCall ''approval.pending'' StCompleted)) (\<lambda>_.
         andNext (bounded_output (JObj [(''approvalPending'', JStr i), (''receipts'', receipts_json rs)]) []) (\<lambda>out.
         andNext (push_output call out) (\<lambda>_.
         andNext (saveSession_now h) (\<lambda>_.
         andNext (call_env h (WaitCall g)) (\<lambda>_. give ends_turn))))))
     | KernelTimeoutFailure ms _ \<Rightarrow>
         andNext (bounded_output (JObj [(''error'', JStr (runtime_message e)), (''kernelRestarted'', JBool True), (''receipts'', receipts_json rs)]) []) (\<lambda>out.
         andNext (push_output call out) (\<lambda>_.
         andNext (call_env h (EmitCall ''ipython.timeout'' StFailed)) (\<lambda>_. give (goes_on None))))
     | KernelExecutionFailure m _ \<Rightarrow>
         andNext (bounded_output (JObj [(''error'', JStr m), (''receipts'', receipts_json rs)]) []) (\<lambda>out.
         andNext (push_output call out) (\<lambda>_.
         andNext (call_env h (EmitCall ''ipython.failed'' StFailed)) (\<lambda>_.
         andNext (correctionOrThrow hash KernelError ''The previous Python raised an error. Inspect the cause and correct it; do not blindly repeat the same cell.''
           (''kernel failure: '' @ call_text call ''arguments'' @ '': '' @ m)) (\<lambda>c. give (goes_on (Some c))))))
     | _ \<Rightarrow> fails e)"

definition disabled_text :: string where
  "disabled_text = ''Python execution is disabled by trusted runtime authorization for this request''"

definition executeCall :: "round_host \<Rightarrow> (string \<Rightarrow> string) \<Rightarrow> (string \<Rightarrow> string \<Rightarrow> int) \<Rightarrow> work_item \<Rightarrow> bool \<Rightarrow> bool \<Rightarrow> json \<Rightarrow> call_outcome round" where
  "executeCall h hash cmp work codeEnabled readable call =
     andNext (change (\<lambda>s. s\<lparr>ro_receipts := [], ro_parts := []\<rparr>)) (\<lambda>_.
     if call_text call ''name'' = ''ipython'' \<and> \<not> codeEnabled
     then refuse_call h hash call disabled_text [(''executionState'', JStr ''not_started'')]
       ''Protocol correction: Python execution is disabled for this request. Do not call ipython; use only exposed direct tools or provide a non-executing answer.''
     else (case parse_call call of
         Inl message \<Rightarrow> refuse_call h hash call message [] (if call_text call ''name'' = ''ipython''
           then ''Protocol correction: '' @ message @ ''. Call ipython once with strict JSON containing exactly one non-empty code string.''
           else ''Protocol correction: '' @ message @ ''. Call '' @ call_text call ''name'' @ '' with one valid JSON object matching its exposed schema.'')
       | Inr b \<Rightarrow>
           andNext (call_env h (EmitCall ''ipython.started'' StStarted)) (\<lambda>_.
           andNext (look (\<lambda>s. step_of_call call b (current_version s))) (\<lambda>step.
           rescue
             (andNext (call_env h (SaveStepCall step)) (\<lambda>_. andNext (run_body h work call b) (finish_call h hash cmp readable call step)))
             (\<lambda>e. if recoverable e then andNext (save_failed_step h step e) (\<lambda>_. answer_failure h hash call e) else fails e)))))"

subsection \<open>The calls of one model output\<close>

text \<open>\<open>call.stepId ??= ...\<close>, on the items of the output itself.\<close>

definition with_step_id :: "string \<Rightarrow> json \<Rightarrow> json" where
  "with_step_id i call = (case call of JObj kvs \<Rightarrow> if map_of kvs ''stepId'' = None then JObj (kvs @ [(''stepId'', JStr i)]) else call | _ \<Rightarrow> call)"

fun number_calls :: "(nat \<Rightarrow> string) \<Rightarrow> nat \<Rightarrow> json list \<Rightarrow> json list" where
  "number_calls ids n [] = []"
| "number_calls ids n (v # vs) = (if is_call v then with_step_id (ids n) v # number_calls ids (n + 1) vs else v # number_calls ids n vs)"

definition only_reads :: "bool \<Rightarrow> tool list \<Rightarrow> json list \<Rightarrow> bool" where
  "only_reads parallelTools tools calls = (parallelTools \<and> list_all (\<lambda>c. list_ex (\<lambda>t. str_prop c ''name'' = Some (tl_name t) \<and> tl_effect t = ReadEffect) tools) calls)"

text \<open>The lease and the cancellation are checked before every batch; the answer says whether steering waits.\<close>

definition check_signals :: "round_host \<Rightarrow> bool round" where
  "check_signals h = andNext (look (\<lambda>s. rn_signals h (ro_log s))) (\<lambda>sg.
     if at_leaseLost sg then fails (LeaseLostFailure ''work lease lost or expired'')
     else if at_aborted sg \<noteq> None then fails (RunCancelledFailure ''lifecycle'' ''run cancelled (lifecycle)'')
     else give (has_steer sg))"

fun skip_calls :: "json list \<Rightarrow> unit round" where
  "skip_calls [] = give ()"
| "skip_calls (c # cs) = andNext (bounded_output (JObj [(''state'', JStr ''not_started''), (''reason'', JStr ''request was revised'')]) []) (\<lambda>out.
     andNext (push_output c out) (\<lambda>_. skip_calls cs))"

definition settled :: "'a round \<Rightarrow> (runtime_error + 'a) round" where
  "settled m = (\<lambda>s. case m s of (r, s') \<Rightarrow> (Inr r, s'))"

definition settle_order :: "round_host \<Rightarrow> round_call list \<Rightarrow> nat \<Rightarrow> nat list" where
  "settle_order h l n = (if mset (rn_order h l n) = mset [0..<n] then rn_order h l n else [0..<n])"

text \<open>\<open>Promise.allSettled\<close>: every call of the batch runs; \<open>step\<close> is the distance of their stream parts.\<close>

fun run_settled :: "(json \<Rightarrow> call_outcome round) \<Rightarrow> json list \<Rightarrow> int \<Rightarrow> int \<Rightarrow> nat list \<Rightarrow> (nat \<times> (runtime_error + call_outcome) \<times> int) list round" where
  "run_settled run batch base d [] = give []"
| "run_settled run batch base d (i # is) =
     andNext (change (\<lambda>s. s\<lparr>ro_part := base + d * int i\<rparr>)) (\<lambda>_.
     andNext (settled (run (batch ! i))) (\<lambda>r.
     andNext (look ro_part) (\<lambda>p.
     andNext (run_settled run batch base d is) (\<lambda>rs. give ((i, r, p) # rs)))))"

definition batch_results :: "nat \<Rightarrow> (nat \<times> (runtime_error + call_outcome) \<times> int) list \<Rightarrow> ((runtime_error + call_outcome) \<times> int) list" where
  "batch_results n rs = map (\<lambda>i. case map_of rs i of Some x \<Rightarrow> x | None \<Rightarrow> (Inr (goes_on None), 0)) [0..<n]"

fun take_outcome :: "(runtime_error + call_outcome) \<times> int \<Rightarrow> round_state \<Rightarrow> round_state" where
  "take_outcome (r, p) s = s\<lparr>ro_part := max (ro_part s) p,
     ro_correction := (case r of Inr oc \<Rightarrow> (case oc_correction oc of Some c \<Rightarrow> Some c | None \<Rightarrow> ro_correction s) | Inl e \<Rightarrow> ro_correction s)\<rparr>"

fun is_terminal :: "(runtime_error + call_outcome) \<times> int \<Rightarrow> bool" where
  "is_terminal (r, p) = (case r of Inr oc \<Rightarrow> oc_terminal oc | Inl e \<Rightarrow> False)"

definition first_failure :: "((runtime_error + call_outcome) \<times> int) list \<Rightarrow> runtime_error option" where
  "first_failure rs = (case List.find (\<lambda>x. isl (fst x)) rs of Some (Inl e, p) \<Rightarrow> Some e | _ \<Rightarrow> None)"

definition run_batch :: "round_host \<Rightarrow> (json \<Rightarrow> call_outcome round) \<Rightarrow> bool \<Rightarrow> json list \<Rightarrow> bool round" where
  "run_batch h run parallel batch =
     andNext (look (\<lambda>s. (ro_part s, settle_order h (ro_log s) (length batch)))) (\<lambda>(base, order).
     andNext (run_settled run batch base (if parallel then 2 else 0) order) (\<lambda>rs.
     let results = batch_results (length batch) rs in
     (case first_failure results of
       Some e \<Rightarrow> fails e
     | None \<Rightarrow>
         andNext (change (\<lambda>s. fold take_outcome results (s\<lparr>ro_part := base + (if parallel then 2 * int (length batch) else 0)\<rparr>))) (\<lambda>_.
         give (list_ex is_terminal results)))))"

datatype round_end = RoundDone | RoundTerminal | RoundBroken runtime_error

text \<open>An error that the retained candidate outlives ends the loop; losing the lease or being cancelled ends the attempt.\<close>

definition keep_candidate :: "bool \<Rightarrow> bool round \<Rightarrow> (runtime_error + bool) round" where
  "keep_candidate kept m = andNext (settled m) (\<lambda>r. case r of
       Inr b \<Rightarrow> give (Inr b)
     | Inl e \<Rightarrow>
         if error_code e = None \<and> \<not> kept then fails e
         else (case e of LeaseLostFailure _ \<Rightarrow> fails e | RunCancelledFailure _ _ \<Rightarrow> fails e | KernelCancelledFailure _ \<Rightarrow> fails e
           | _ \<Rightarrow> give (Inl e)))"

function run_calls :: "round_host \<Rightarrow> (json \<Rightarrow> call_outcome round) \<Rightarrow> bool \<Rightarrow> bool \<Rightarrow> json list \<Rightarrow> round_end round" where
  "run_calls h run parallel kept [] = give RoundDone"
| "run_calls h run parallel kept (c # cs) =
     andNext (check_signals h) (\<lambda>steer.
     if steer then andNext (skip_calls (c # cs)) (\<lambda>_. give RoundDone)
     else andNext (keep_candidate kept (run_batch h run parallel (take (if parallel then 4 else 1) (c # cs)))) (\<lambda>r. case r of
         Inl e \<Rightarrow> give (RoundBroken e)
       | Inr stop \<Rightarrow> if stop then give RoundTerminal
           else run_calls h run parallel kept (drop (if parallel then 4 else 1) (c # cs))))"
  by pat_completeness auto

termination run_calls
  by (relation "measure (\<lambda>(h, run, parallel, kept, cs). length cs)") auto

definition push_items :: "json list \<Rightarrow> unit round" where
  "push_items vs = change (\<lambda>s. s\<lparr>ro_session := (ro_session s)\<lparr>ss_history := ss_history (ro_session s) @ vs\<rparr>\<rparr>)"

text \<open>From the calls of a model output to the end of its hop.\<close>

definition tool_round :: "round_host \<Rightarrow> (string \<Rightarrow> string) \<Rightarrow> (string \<Rightarrow> string \<Rightarrow> int) \<Rightarrow> work_item \<Rightarrow> bool \<Rightarrow> bool \<Rightarrow> bool
    \<Rightarrow> tool list \<Rightarrow> bool \<Rightarrow> (nat \<Rightarrow> string) \<Rightarrow> json list \<Rightarrow> round_end round" where
  "tool_round h hash cmp work codeEnabled readable parallelTools tools kept ids items =
     (let numbered = number_calls ids 0 items; calls = filter is_call numbered in
      andNext (push_items numbered) (\<lambda>_.
      andNext (saveSession_now h) (\<lambda>_.
      andNext (run_calls h (executeCall h hash cmp work codeEnabled readable) (only_reads parallelTools tools calls) kept calls) (\<lambda>r. case r of
          RoundDone \<Rightarrow> andNext (saveSession_now h) (\<lambda>_. give RoundDone)
        | _ \<Rightarrow> give r))))"

subsection \<open>Rules for successful runs\<close>

lemma after_InrE:
  assumes "andNext m f s = (Inr y, s')"
  obtains x s1 where "m s = (Inr x, s1)" and "f x s1 = (Inr y, s')"
  using assms by (auto simp: andNext_def split: prod.splits sum.splits)

lemma basic_Inr:
  "give x s = (Inr y, s') \<longleftrightarrow> y = x \<and> s' = s" "look f s = (Inr z, s') \<longleftrightarrow> z = f s \<and> s' = s"
  "change g s = (Inr u, s') \<longleftrightarrow> s' = g s" "fails e s = (Inr y, s') \<longleftrightarrow> False"
  by (auto simp: give_def look_def change_def fails_def)

lemma settled_Inr: "settled m s = (Inr r, s') \<longleftrightarrow> m s = (r, s')"
  by (auto simp: settled_def split: prod.splits)

end
