(* ===== verification/ToolRoundProps.thy ===== *)
theory ToolRoundProps
  imports ToolRound
begin

text \<open>
  What a tool round guarantees, whatever its environment answers: a round that ends leaves no call open, a call
  is journaled before it runs and runs at most once, and a call that parks the work leaves nothing unsaved.
  One locale states what the parts of a round may do to the state; it is interpreted for the history
  and for the log of calls.
\<close>

subsection \<open>Reasoning about rounds\<close>

definition tracks :: "(round_state \<Rightarrow> round_state \<Rightarrow> bool) \<Rightarrow> 'a round \<Rightarrow> bool" where
  "tracks R m = (\<forall>s r s'. m s = (r, s') \<longrightarrow> R s s')"

lemma tracksD: "tracks R m \<Longrightarrow> m s = (r, s') \<Longrightarrow> R s s'"
  by (simp add: tracks_def)

definition base_call :: "round_call \<Rightarrow> bool" where
  "base_call c = (case c of RunCellCall _ _ \<Rightarrow> False | RunActionCall _ \<Rightarrow> False | WaitCall _ \<Rightarrow> False | FinishCall _ \<Rightarrow> False | _ \<Rightarrow> True)"

lemma base_call_simps [simp]:
  "base_call (EmitCall k st)" "base_call (SaveStepCall x)" "base_call (SaveRunCall q)" "base_call PrepareCall" "base_call (StageCall a)"
  "\<not> base_call (RunCellCall i code)" "\<not> base_call (RunActionCall b)" "\<not> base_call (WaitCall g)" "\<not> base_call (FinishCall d)"
  by (simp_all add: base_call_def)

text \<open>What may happen to the state in the parts of a round: a reflexive and transitive relation that holds
  for changes of the locals and for the calls \<open>P\<close> allows.\<close>

locale round_frame =
  fixes R :: "round_state \<Rightarrow> round_state \<Rightarrow> bool" and P :: "round_call \<Rightarrow> bool"
  assumes locals_ok: "ss_history (ro_session s') = ss_history (ro_session s) \<Longrightarrow> ro_log s' = ro_log s \<Longrightarrow> R s s'"
    and chain: "R s s1 \<Longrightarrow> R s1 s2 \<Longrightarrow> R s s2"
    and call_ok: "P c \<Longrightarrow> R s (s\<lparr>ro_log := ro_log s @ [c]\<rparr>)"
    and base_ok: "base_call c \<Longrightarrow> P c"
begin

lemma basic_tracks: "tracks R (give x)" "tracks R (fails e)" "tracks R (look f)"
  by (simp_all add: tracks_def give_def fails_def look_def locals_ok)

lemma after_tracks: "tracks R m \<Longrightarrow> (\<And>x. tracks R (f x)) \<Longrightarrow> tracks R (andNext m f)"
  unfolding tracks_def andNext_def by (fastforce split: prod.splits sum.splits intro: chain)

lemma plainly_tracks: "tracks R (plainly r)"
  by (simp add: plainly_def basic_tracks split: sum.split)

lemma change_tracks: "(\<And>s. ss_history (ro_session (f s)) = ss_history (ro_session s) \<and> ro_log (f s) = ro_log s) \<Longrightarrow> tracks R (change f)"
  by (simp add: tracks_def change_def locals_ok)

lemma call_env_tracks: "P c \<Longrightarrow> tracks R (call_env h c)"
  by (simp add: tracks_def call_env_def call_ok)

lemmas step_tracks = basic_tracks after_tracks plainly_tracks change_tracks call_env_tracks base_ok

lemma set_request_tracks: "tracks R (set_request q)"
  unfolding set_request_def by (rule change_tracks) simp

lemma saveSession_tracks: "tracks R (saveSession_now h)"
  unfolding saveSession_now_def by (intro step_tracks base_call_simps)

lemma spend_tracks: "tracks R (spend hash c f)"
  unfolding spend_def tracks_def by (auto split: prod.splits intro: locals_ok)

lemma bounded_tracks: "tracks R (bounded_output v refs)"
  by (simp add: bounded_output_def plainly_tracks)

lemma correction_tracks: "tracks R (correctionOrThrow hash c content failure)"
  unfolding correctionOrThrow_def by (intro after_tracks spend_tracks) (simp add: basic_tracks after_tracks split: if_split)

lemma notice_tracks: "tracks R (on_notice h n)"
proof (cases n)
  case (ActionStarted a)
  then show ?thesis by (auto intro!: step_tracks)
next
  case (ActionCompleted a result)
  have check: "tracks R (note_resource_check a r)" for r
    unfolding note_resource_check_def by (auto intro!: step_tracks set_request_tracks split: option.split)
  have shown: "tracks R (shown_result r)" for r
    unfolding shown_result_def by (auto intro!: step_tracks)
  show ?thesis using ActionCompleted by (auto intro!: step_tracks check shown split: option.split)
qed

lemma notices_tracks: "tracks R (on_notices h ns)"
  by (induction ns) (auto intro!: step_tracks notice_tracks)

lemma run_cell_tracks:
  assumes "P (RunCellCall cell code)"
  shows "tracks R (run_cell h cell code)"
  unfolding tracks_def
proof (intro allI impI)
  fix s r s'
  assume run: "run_cell h cell code s = (r, s')"
  obtain ns res where x: "rn_cell h (ro_log s) cell code = (ns, res)" by fastforce
  have "tracks R (andNext (on_notices h ns) (\<lambda>_ s1. (res, s1)))"
    by (rule after_tracks [OF notices_tracks]) (simp add: tracks_def locals_ok)
  moreover have "andNext (on_notices h ns) (\<lambda>_ s1. (res, s1)) (s\<lparr>ro_log := ro_log s @ [RunCellCall cell code]\<rparr>) = (r, s')"
    using run x by (simp add: run_cell_def)
  ultimately show "R s s'" using call_ok [OF assms] chain tracksD by blast
qed

lemma run_host_action_tracks: "P (RunActionCall a) \<Longrightarrow> tracks R (run_host_action h a)"
  by (simp add: tracks_def run_host_action_def call_ok)

lemma executeDirect_tracks: "P (RunActionCall (direct_action work call args)) \<Longrightarrow> tracks R (executeDirect h work call args)"
  unfolding executeDirect_def Let_def
  by (intro after_tracks notice_tracks run_host_action_tracks) (auto intro: basic_tracks split: option.split)

lemma stage_tracks: "tracks R (stage_artifacts h xs)"
  by (induction xs) (auto intro!: step_tracks)

lemma settle_tracks: "tracks R (settle_budget hash cmp arts rs)"
  unfolding settle_budget_def by (auto intro!: step_tracks spend_tracks)

lemma receipts_tracks: "tracks R (take_receipts h hash rs)"
proof (induction rs)
  case (Cons r rs)
  have "tracks R (take_evidence hash r)" unfolding take_evidence_def
    by (auto intro!: step_tracks set_request_tracks split: option.split)
  moreover have "tracks R (take_contract h hash r)" unfolding take_contract_def
    by (auto intro!: step_tracks set_request_tracks saveSession_tracks split: option.split)
  ultimately show ?case using Cons.IH by (auto intro!: after_tracks)
qed (simp add: basic_tracks)

lemma failed_step_tracks: "tracks R (save_failed_step h step e)"
  unfolding save_failed_step_def by (intro step_tracks bounded_tracks base_call_simps)

lemma body_tracks:
  "(\<And>code. b = CellBody code \<Longrightarrow> P (RunCellCall (cell_of call) code)) \<Longrightarrow>
   (\<And>args. b = DirectBody args \<Longrightarrow> P (RunActionCall (direct_action work call args))) \<Longrightarrow> tracks R (run_body h work call b)"
  unfolding run_body_def by (cases b) (auto intro!: after_tracks call_env_tracks base_ok run_cell_tracks executeDirect_tracks)

end

text \<open>The history is kept by everything but an answer; the calls made extend the log.\<close>

definition same_history :: "round_state \<Rightarrow> round_state \<Rightarrow> bool" where
  "same_history s s' = (ss_history (ro_session s') = ss_history (ro_session s))"

definition calls_in :: "round_call set \<Rightarrow> round_state \<Rightarrow> round_state \<Rightarrow> bool" where
  "calls_in A s s' = (\<exists>ls. ro_log s' = ro_log s @ ls \<and> (\<forall>c\<in>set ls. base_call c \<or> c \<in> A))"

interpretation history: round_frame same_history "\<lambda>_. True"
  by unfold_locales (auto simp: same_history_def)

interpretation logged: round_frame "calls_in A" "\<lambda>c. base_call c \<or> c \<in> A" for A
proof (unfold_locales, goal_cases)
  case (2 s s1 s2)
  then obtain l1 l2 where "ro_log s1 = ro_log s @ l1" "ro_log s2 = ro_log s1 @ l2" "\<forall>c\<in>set l1. base_call c \<or> c \<in> A"
    "\<forall>c\<in>set l2. base_call c \<or> c \<in> A" unfolding calls_in_def by blast
  then show ?case unfolding calls_in_def by (intro exI [of _ "l1 @ l2"]) auto
qed (auto simp: calls_in_def)

subsection \<open>Every call is answered once\<close>

definition answered :: "json option \<Rightarrow> 'a round \<Rightarrow> bool" where
  "answered cid m = (\<forall>s x s'. m s = (Inr x, s') \<longrightarrow>
     (\<exists>out. ss_history (ro_session s') = ss_history (ro_session s) @ [output_item cid out]))"

text \<open>An error the \<open>catch\<close> block handles leaves the history as it was.\<close>

definition unanswered :: "'a round \<Rightarrow> bool" where
  "unanswered m = (\<forall>s e s'. m s = (Inl e, s') \<longrightarrow> recoverable e \<longrightarrow> same_history s s')"

definition plain_errors :: "'a round \<Rightarrow> bool" where
  "plain_errors m = (\<forall>s e s'. m s = (Inl e, s') \<longrightarrow> \<not> recoverable e)"

lemma answered_after: "tracks same_history m \<Longrightarrow> (\<And>x. answered cid (f x)) \<Longrightarrow> answered cid (andNext m f)"
  unfolding answered_def tracks_def same_history_def andNext_def by (fastforce split: prod.splits sum.splits)

lemma answered_push:
  assumes "\<And>u. tracks same_history (f u)"
  shows "answered (call_id call) (andNext (push_output call out) f)"
proof -
  have "same_history s s'" if "f u s = (r, s')" for u s r s' using assms that tracksD by blast
  then show ?thesis unfolding answered_def same_history_def
    by (fastforce simp: andNext_def push_output_def push_item_def change_def)
qed

lemma answered_fails [simp]: "answered cid (fails e)"
  by (simp add: answered_def fails_def)

lemma plain_basic [simp]: "plain_errors (give x)" "plain_errors (look f)" "plain_errors (change g)" "plain_errors (push_output call out)"
  "plain_errors (plainly r)" "plain_errors (call_env h c)" "plain_errors (fails e) = (\<not> recoverable e)"
  by (auto simp: plain_errors_def give_def look_def change_def push_output_def push_item_def plainly_def fails_def recoverable_def
    plain_failure_def call_env_def host_error_def split: sum.splits host_failure.splits)

lemma plain_after: "plain_errors m \<Longrightarrow> (\<And>x. plain_errors (f x)) \<Longrightarrow> plain_errors (andNext m f)"
  unfolding plain_errors_def andNext_def by (fastforce split: prod.splits sum.splits)

lemma unanswered_after: "tracks same_history m \<Longrightarrow> unanswered m \<Longrightarrow> (\<And>x. unanswered (f x)) \<Longrightarrow> unanswered (andNext m f)"
  unfolding unanswered_def tracks_def same_history_def andNext_def by (fastforce split: prod.splits sum.splits)

lemma unanswered_tracks: "tracks same_history m \<Longrightarrow> unanswered m"
  by (simp add: unanswered_def tracks_def)

lemma unanswered_plain: "plain_errors m \<Longrightarrow> unanswered m"
  unfolding unanswered_def plain_errors_def by blast

lemma plain_set [simp]: "plain_errors (set_request q)" "plain_errors (saveSession_now h)" "plain_errors (bounded_output v refs)"
  "plain_errors (spend hash c f)"
  by (auto simp: set_request_def saveSession_now_def bounded_output_def intro!: plain_after)
    (auto simp: spend_def plain_errors_def split: prod.splits)

lemma plain_settle: "plain_errors (settle_budget hash cmp arts rs)"
  unfolding settle_budget_def by (auto intro!: plain_after simp: recoverable_def)

lemma plain_receipts: "plain_errors (take_receipts h hash rs)"
proof (induction rs)
  case (Cons r rs)
  have "plain_errors (take_evidence hash r)" unfolding take_evidence_def by (auto intro!: plain_after split: option.split)
  moreover have "plain_errors (take_contract h hash r)" unfolding take_contract_def
    by (auto intro!: plain_after simp: recoverable_def split: option.split)
  ultimately show ?case using Cons.IH by (auto intro!: plain_after)
qed simp

lemma plain_stage: "plain_errors (stage_artifacts h xs)"
  by (induction xs) (auto intro!: plain_after)

lemma plain_park: "plain_errors (park h dv)"
  unfolding park_def by (auto intro!: plain_after)

lemma plain_finish: "plain_errors (finish_call h hash cmp readable call step x)"
  unfolding finish_call_def Let_def
  by (auto intro!: plain_after plain_stage plain_settle plain_receipts plain_park simp: recoverable_def split: option.split)

lemma park_history: "tracks same_history (park h dv)"
  unfolding park_def by (intro history.step_tracks history.saveSession_tracks TrueI)

lemma answered_finish: "answered (call_id call) (finish_call h hash cmp readable call step x)"
  unfolding finish_call_def Let_def
  by (auto intro!: answered_after answered_push history.step_tracks history.stage_tracks history.bounded_tracks history.settle_tracks
    history.receipts_tracks park_history split: option.split)

lemma answered_failure: "answered (call_id call) (answer_failure h hash call e)"
  unfolding answer_failure_def
  by (cases e) (auto intro!: answered_after answered_push history.step_tracks history.saveSession_tracks history.bounded_tracks history.correction_tracks)

lemma answered_refusal: "answered (call_id call) (refuse_call h hash call message extra content)"
  unfolding refuse_call_def
  by (auto intro!: answered_after answered_push history.step_tracks history.bounded_tracks history.correction_tracks)

lemma answered_rescue:
  assumes "answered cid m" and "unanswered m" and "\<And>e. answered cid (f e)"
  shows "answered cid (rescue m (\<lambda>e. if recoverable e then f e else fails e))"
  unfolding answered_def
proof (intro allI impI)
  fix s x s'
  assume run: "rescue m (\<lambda>e. if recoverable e then f e else fails e) s = (Inr x, s')"
  obtain r s1 where m: "m s = (r, s1)" by fastforce
  show "\<exists>out. ss_history (ro_session s') = ss_history (ro_session s) @ [output_item cid out]"
  proof (cases r)
    case (Inl e)
    then have "recoverable e" "f e s1 = (Inr x, s')" using run m by (auto simp: rescue_def fails_def split: if_splits)
    then show ?thesis using assms(2,3) m Inl unfolding unanswered_def answered_def same_history_def by fastforce
  next
    case (Inr y)
    then show ?thesis using run m assms(1) unfolding answered_def rescue_def by auto
  qed
qed

lemma executeCall_answers: "answered (call_id call) (executeCall h hash cmp work codeEnabled readable call)"
proof -
  have body: "tracks same_history (run_body h work call b)" for b by (rule history.body_tracks) auto
  have tried: "answered (call_id call) (andNext (call_env h (SaveStepCall step)) (\<lambda>_. andNext (run_body h work call b) (finish_call h hash cmp readable call step)))"
    "unanswered (andNext (call_env h (SaveStepCall step)) (\<lambda>_. andNext (run_body h work call b) (finish_call h hash cmp readable call step)))" for step b
    by (intro answered_after answered_finish body history.call_env_tracks TrueI)
      (intro unanswered_after unanswered_plain [OF plain_finish] unanswered_tracks body history.call_env_tracks TrueI)
  have handled: "answered (call_id call) (andNext (save_failed_step h step e) (\<lambda>_. answer_failure h hash call e))" for step e
    by (intro answered_after answered_failure history.failed_step_tracks)
  show ?thesis unfolding executeCall_def
    by (auto intro!: answered_after answered_refusal history.step_tracks answered_rescue tried handled split: sum.split)
qed

text \<open>Answers to several calls, by their ids.\<close>

definition adds_answers :: "json option list \<Rightarrow> round_state \<Rightarrow> round_state \<Rightarrow> bool" where
  "adds_answers ids s s' = (\<exists>outs. ss_history (ro_session s') = ss_history (ro_session s) @ outs
     \<and> list_all is_output outs \<and> map call_id outs = ids)"

lemma adds_nil: "same_history s s' \<Longrightarrow> adds_answers [] s s'"
  by (simp add: adds_answers_def same_history_def)

lemma adds_append: "adds_answers xs s s1 \<Longrightarrow> adds_answers ys s1 s2 \<Longrightarrow> adds_answers (xs @ ys) s s2"
  unfolding adds_answers_def by (metis append.assoc list_all_append map_append)

lemma answered_adds: "answered cid m \<Longrightarrow> m s = (Inr x, s') \<Longrightarrow> adds_answers [cid] s s'"
  unfolding answered_def adds_answers_def by (fastforce intro: exI [of _ "[output_item cid out]" for out])

declare basic_Inr [simp] settled_Inr [simp]

lemma skip_answers: "skip_calls cs s = (Inr u, s') \<Longrightarrow> adds_answers (map call_id cs) s s'"
proof (induction cs arbitrary: s)
  case Nil
  then show ?case by (simp add: adds_nil same_history_def)
next
  case (Cons c cs)
  then obtain out s1 s2 where "bounded_output (JObj [(''state'', JStr ''not_started''), (''reason'', JStr ''request was revised'')]) [] s = (Inr out, s1)"
    and "push_output c out s1 = (Inr (), s2)" and rest: "skip_calls cs s2 = (Inr u, s')"
    by (auto elim!: after_InrE)
  then have "adds_answers [] s s1" "adds_answers [call_id c] s1 s2"
    using tracksD [OF history.bounded_tracks] by (auto simp: push_output_def push_item_def adds_nil) (auto simp: adds_answers_def)
  from adds_append [OF adds_append [OF this] Cons.IH [OF rest]] show ?case by simp
qed

lemma settled_answers:
  "(\<And>c. answered (call_id c) (run c)) \<Longrightarrow> run_settled run batch base d is s = (Inr rs, s') \<Longrightarrow> \<forall>x\<in>set rs. \<not> isl (fst (snd x)) \<Longrightarrow>
   map fst rs = is \<and> adds_answers (map (\<lambda>i. call_id (batch ! i)) is) s s'"
proof (induction "is" arbitrary: s rs)
  case Nil
  then show ?case by (simp add: adds_nil same_history_def)
next
  case (Cons i "is")
  from Cons.prems(2) obtain r s2 rs1 where r: "run (batch ! i) (s\<lparr>ro_part := base + d * int i\<rparr>) = (r, s2)"
    and rest: "run_settled run batch base d is s2 = (Inr rs1, s')" and rs: "rs = (i, r, ro_part s2) # rs1"
    by (auto elim!: after_InrE)
  have "\<not> isl r" using Cons.prems(3) rs by simp
  then obtain oc where "r = Inr oc" by (cases r) auto
  then have "adds_answers [call_id (batch ! i)] (s\<lparr>ro_part := base + d * int i\<rparr>) s2" using answered_adds [OF Cons.prems(1)] r by blast
  then have one: "adds_answers [call_id (batch ! i)] s s2" by (simp add: adds_answers_def)
  have "map fst rs1 = is \<and> adds_answers (map (\<lambda>i. call_id (batch ! i)) is) s2 s'"
    using Cons.IH [OF Cons.prems(1) rest] Cons.prems(3) rs by simp
  then show ?case using adds_append [OF one] rs by simp
qed

text \<open>The ids of the answers are those of the calls, in order unless reads ran side by side.\<close>

definition answers_calls :: "bool \<Rightarrow> json option list \<Rightarrow> round_state \<Rightarrow> round_state \<Rightarrow> bool" where
  "answers_calls parallel ids s s' = (\<exists>xs. adds_answers xs s s' \<and> mset xs = mset ids \<and> (\<not> parallel \<longrightarrow> xs = ids))"

lemma settle_order_perm: "mset (settle_order h l n) = mset [0..<n]"
  by (simp add: settle_order_def)

lemma batch_results_ok:
  assumes "map fst rs = order" and "mset order = mset [0..<n]" and "first_failure (batch_results n rs) = None"
  shows "\<forall>x\<in>set rs. \<not> isl (fst (snd x))"
proof
  fix x assume x: "x \<in> set rs"
  have "distinct order" "set order = {0..<n}" using assms(2) mset_eq_imp_distinct_iff mset_eq_setD by fastforce+
  then have "map_of rs (fst x) = Some (snd x)" "fst x < n" using x assms(1) by (auto intro!: map_of_is_SomeI)
  then have mem: "snd x \<in> set (batch_results n rs)" unfolding batch_results_def by (force simp: image_iff)
  show "\<not> isl (fst (snd x))"
  proof
    assume "isl (fst (snd x))"
    then have "List.find (\<lambda>y. isl (fst y)) (batch_results n rs) \<noteq> None" using mem unfolding find_None_iff by blast
    then obtain y where y: "List.find (\<lambda>y. isl (fst y)) (batch_results n rs) = Some y" by blast
    then have "isl (fst y)" by (auto simp: find_Some_iff)
    then show False using assms(3) y by (cases y; cases "fst y") (auto simp: first_failure_def)
  qed
qed

lemma take_outcomes_history: "same_history s (fold take_outcome rs (s\<lparr>ro_part := p\<rparr>))"
proof -
  have "ss_history (ro_session (fold take_outcome rs t)) = ss_history (ro_session t)" for t
    by (induction rs arbitrary: t) auto
  then show ?thesis by (simp add: same_history_def)
qed

lemma run_settled_keys: "run_settled run batch base d is s = (Inr rs, s') \<Longrightarrow> map fst rs = is"
  by (induction "is" arbitrary: s rs) (auto elim!: after_InrE)

lemma batch_answers:
  assumes "\<And>c. answered (call_id c) (run c)" and "run_batch h run parallel batch s = (Inr stop, s')" and "parallel \<or> length batch \<le> 1"
  shows "answers_calls parallel (map call_id batch) s s'"
proof -
  let ?n = "length batch" and ?order = "settle_order h (ro_log s) (length batch)"
  obtain rs s1 where rs: "run_settled run batch (ro_part s) (if parallel then 2 else 0) ?order s = (Inr rs, s1)"
    and ok: "first_failure (batch_results ?n rs) = None" and s': "s' = fold take_outcome (batch_results ?n rs) (s1\<lparr>ro_part := ro_part s + (if parallel then 2 * int ?n else 0)\<rparr>)"
    using assms(2) unfolding run_batch_def Let_def by (auto elim!: after_InrE split: option.splits)
  have keys: "map fst rs = ?order" by (rule run_settled_keys [OF rs])
  have "\<forall>x\<in>set rs. \<not> isl (fst (snd x))" by (rule batch_results_ok [OF keys settle_order_perm ok])
  then have "adds_answers (map (\<lambda>i. call_id (batch ! i)) ?order) s s1" using settled_answers [OF assms(1) rs] by blast
  moreover have "same_history s1 s'" using s' take_outcomes_history by blast
  ultimately have adds: "adds_answers (map (\<lambda>i. call_id (batch ! i)) ?order) s s'" using adds_append adds_nil by fastforce
  have ids: "map (\<lambda>i. call_id (batch ! i)) [0..<?n] = map call_id batch" by (rule nth_equalityI) auto
  have "mset (map (\<lambda>i. call_id (batch ! i)) ?order) = image_mset (\<lambda>i. call_id (batch ! i)) (mset [0..<?n])"
    using settle_order_perm [of h "ro_log s" ?n] by (metis mset_map)
  then have perm: "mset (map (\<lambda>i. call_id (batch ! i)) ?order) = mset (map call_id batch)" by (metis ids mset_map)
  have "?order = [0..<?n]" if "?n \<le> 1"
  proof (cases "?n = 0")
    case True
    then show ?thesis using settle_order_perm [of h "ro_log s" ?n] by simp
  next
    case False
    then have "?n = 1" using that by (cases batch) auto
    then show ?thesis using settle_order_perm [of h "ro_log s" ?n] by simp
  qed
  then show ?thesis unfolding answers_calls_def using adds perm assms(3) ids by metis
qed

lemma answers_append: "answers_calls p xs s s1 \<Longrightarrow> answers_calls p ys s1 s2 \<Longrightarrow> answers_calls p (xs @ ys) s s2"
  unfolding answers_calls_def using adds_append by fastforce

lemma answers_same: "same_history s s1 \<Longrightarrow> answers_calls p ids s1 s2 \<Longrightarrow> answers_calls p ids s s2"
  unfolding answers_calls_def adds_answers_def same_history_def by auto

lemma keep_candidate_Inr: "keep_candidate kept m s = (Inr (Inr b), s') \<Longrightarrow> m s = (Inr b, s')"
  unfolding keep_candidate_def by (auto elim!: after_InrE split: sum.splits if_splits runtime_error.splits)

lemma check_signals_tracks: "tracks same_history (check_signals h)"
  unfolding check_signals_def by (auto intro!: history.step_tracks)

lemma run_calls_answers:
  assumes run: "\<And>c. answered (call_id c) (run c)"
  shows "run_calls h run parallel kept cs s = (Inr RoundDone, s') \<Longrightarrow> answers_calls parallel (map call_id cs) s s'"
proof (induction "length cs" arbitrary: cs s rule: less_induct)
  case less
  show ?case
  proof (cases cs)
    case Nil
    then show ?thesis using less.prems by (auto simp: answers_calls_def intro!: adds_nil) (simp add: same_history_def)
  next
    case (Cons c ds)
    let ?k = "if parallel then 4 else 1 :: nat"
    obtain steer s1 where s1: "check_signals h s = (Inr steer, s1)"
      and rest: "(if steer then andNext (skip_calls cs) (\<lambda>_. give RoundDone)
        else andNext (keep_candidate kept (run_batch h run parallel (take ?k cs))) (\<lambda>r. case r of Inl e \<Rightarrow> give (RoundBroken e)
          | Inr stop \<Rightarrow> if stop then give RoundTerminal else run_calls h run parallel kept (drop ?k cs))) s1 = (Inr RoundDone, s')"
      using less.prems unfolding Cons run_calls.simps by (elim after_InrE) blast
    have same: "same_history s s1" by (rule tracksD [OF check_signals_tracks s1])
    show ?thesis
    proof (cases steer)
      case True
      then have "skip_calls cs s1 = (Inr (), s')" using rest by (auto elim!: after_InrE)
      from skip_answers [OF this] show ?thesis by (intro answers_same [OF same]) (auto simp: answers_calls_def)
    next
      case False
      then obtain s2 where "keep_candidate kept (run_batch h run parallel (take ?k cs)) s1 = (Inr (Inr False), s2)"
        and go: "run_calls h run parallel kept (drop ?k cs) s2 = (Inr RoundDone, s')"
        using rest by (auto elim!: after_InrE split: sum.splits if_splits)
      from keep_candidate_Inr [OF this(1)] have "answers_calls parallel (map call_id (take ?k cs)) s1 s2"
        by (rule batch_answers [OF run]) auto
      moreover have "answers_calls parallel (map call_id (drop ?k cs)) s2 s'" using go Cons by (intro less.hyps) auto
      ultimately have "answers_calls parallel (map call_id (take ?k cs @ drop ?k cs)) s1 s'" unfolding map_append by (rule answers_append)
      then show ?thesis unfolding append_take_drop_id by (rule answers_same [OF same])
    qed
  qed
qed

lemma pending_answered:
  "list_all is_output outs \<Longrightarrow> fst ` set (pending_calls (h @ outs)) = fst ` set (pending_calls h) - set (map call_id outs)"
proof (induction outs arbitrary: h)
  case (Cons v outs)
  then have "\<not> is_call v" by (simp add: is_call_def is_output_def)
  then have "pending_calls (h @ [v]) = AList.delete (call_id v) (pending_calls h)" using Cons.prems by (simp add: pending_calls_def)
  then have "fst ` set (pending_calls (h @ [v])) = fst ` set (pending_calls h) - {call_id v}" by (auto simp: AList.delete_eq)
  then show ?case using Cons.IH [of "h @ [v]"] Cons.prems by auto
qed simp

text \<open>C37: a round leaves no call open. When a round ends and the turn goes on, the history is the old one, the
  items of the model output and exactly one output for each of its calls, in the order of the calls unless they
  are reads that ran side by side; none of these calls is pending any more, and the last call of the host saves
  the session in this state. It holds whatever the host, the kernel and the signals do: refused, failed,
  timed-out and skipped calls are answered as well.\<close>

theorem round_answers_calls:
  assumes "tool_round h hash cmp work codeEnabled readable parallelTools tools kept ids items s = (Inr RoundDone, s')"
    and "calls = filter is_call (number_calls ids 0 items)"
  shows "\<exists>outs. ss_history (ro_session s') = ss_history (ro_session s) @ number_calls ids 0 items @ outs
    \<and> list_all is_output outs \<and> mset (map call_id outs) = mset (map call_id calls)
    \<and> (only_reads parallelTools tools calls \<or> map call_id outs = map call_id calls)
    \<and> (\<forall>c\<in>set calls. call_id c \<notin> fst ` set (pending_calls (ss_history (ro_session s'))))
    \<and> ro_log s' \<noteq> [] \<and> last (ro_log s') = SaveRunCall (ro_session s')"
proof -
  let ?numbered = "number_calls ids 0 items"
  let ?run = "executeCall h hash cmp work codeEnabled readable" and ?par = "only_reads parallelTools tools calls"
  obtain s1 s2 s3 where push: "s1 = s\<lparr>ro_session := (ro_session s)\<lparr>ss_history := ss_history (ro_session s) @ ?numbered\<rparr>\<rparr>"
    and save: "saveSession_now h s1 = (Inr (), s2)" and round: "run_calls h ?run ?par kept calls s2 = (Inr RoundDone, s3)"
    and final: "saveSession_now h s3 = (Inr (), s')"
    using assms by (auto simp: tool_round_def Let_def push_items_def elim!: after_InrE split: round_end.splits)
  have "same_history s1 s2" "same_history s3 s'"
    using tracksD [OF history.saveSession_tracks] save final by blast+
  moreover have "answers_calls ?par (map call_id calls) s2 s3" by (rule run_calls_answers [OF executeCall_answers round])
  ultimately obtain outs where "ss_history (ro_session s') = ss_history (ro_session s) @ ?numbered @ outs" and out: "list_all is_output outs"
      and "mset (map call_id outs) = mset (map call_id calls) \<and> (?par \<or> map call_id outs = map call_id calls)"
    using push unfolding answers_calls_def adds_answers_def same_history_def by (auto simp flip: mset_map)
  then have outs: "ss_history (ro_session s') = ss_history (ro_session s) @ ?numbered @ outs"
      "mset (map call_id outs) = mset (map call_id calls)" "?par \<or> map call_id outs = map call_id calls" by blast+
  have "fst ` set (pending_calls (ss_history (ro_session s'))) =
      fst ` set (pending_calls (ss_history (ro_session s) @ ?numbered)) - set (map call_id outs)"
    using pending_answered [OF out, of "ss_history (ro_session s) @ ?numbered"] outs(1) by simp
  moreover have "set (map call_id outs) = set (map call_id calls)" using outs(2) by (metis set_mset_mset)
  ultimately have "\<forall>c\<in>set calls. call_id c \<notin> fst ` set (pending_calls (ss_history (ro_session s')))" by auto
  moreover have "ro_log s' \<noteq> []" "last (ro_log s') = SaveRunCall (ro_session s')"
    using final by (auto simp: saveSession_now_def call_env_def andNext_def look_def split: sum.splits)
  ultimately show ?thesis using outs out by blast
qed

subsection \<open>A call is journaled before it runs\<close>

definition is_run :: "round_call \<Rightarrow> bool" where
  "is_run c = (case c of RunCellCall _ _ \<Rightarrow> True | RunActionCall _ \<Rightarrow> True | _ \<Rightarrow> False)"

definition parks :: "round_call \<Rightarrow> bool" where
  "parks c = (case c of WaitCall _ \<Rightarrow> True | FinishCall _ \<Rightarrow> True | _ \<Rightarrow> False)"

definition body_call :: "work_item \<Rightarrow> json \<Rightarrow> call_body \<Rightarrow> round_call" where
  "body_call work call b = (case b of CellBody code \<Rightarrow> RunCellCall (cell_of call) code | DirectBody args \<Rightarrow> RunActionCall (direct_action work call args))"

lemma base_quiet: "base_call c \<Longrightarrow> \<not> is_run c \<and> \<not> parks c"
  by (cases c) (simp_all add: is_run_def parks_def)

lemma parks_not_run: "parks c \<Longrightarrow> \<not> is_run c"
  by (cases c) (simp_all add: is_run_def parks_def)

text \<open>No call that runs anything.\<close>

definition runs_nothing :: "round_state \<Rightarrow> round_state \<Rightarrow> bool" where
  "runs_nothing s s' = (\<exists>ls. ro_log s' = ro_log s @ ls \<and> \<not> list_ex is_run ls)"

definition runs_once :: "round_call \<Rightarrow> round_state \<Rightarrow> round_state \<Rightarrow> bool" where
  "runs_once c s s' = (\<exists>us vs. ro_log s' = ro_log s @ us @ c # vs \<and> \<not> list_ex is_run (us @ vs))"

lemma calls_run_nothing: "calls_in (Collect parks) s s' \<Longrightarrow> runs_nothing s s'"
  unfolding calls_in_def runs_nothing_def list_ex_iff using base_quiet parks_not_run by blast

lemma base_run_nothing: "calls_in {} s s' \<Longrightarrow> runs_nothing s s'"
  unfolding calls_in_def runs_nothing_def list_ex_iff using base_quiet by blast

lemma runs_nothing_trans: "runs_nothing s s1 \<Longrightarrow> runs_nothing s1 s2 \<Longrightarrow> runs_nothing s s2"
  unfolding runs_nothing_def by (elim exE conjE) (auto intro!: exI [of _ "_ @ _"])

lemma runs_once_trans:
  "runs_nothing s s1 \<Longrightarrow> runs_once c s1 s2 \<Longrightarrow> runs_once c s s2" "runs_once c s s1 \<Longrightarrow> runs_nothing s1 s2 \<Longrightarrow> runs_once c s s2"
  unfolding runs_nothing_def runs_once_def by (elim exE conjE, intro exI [of _ "_ @ _"] exI, force)+

lemma after_cases:
  assumes "andNext m f s = (r, s')"
  obtains (failed) e where "m s = (Inl e, s')" "r = Inl e" | (ok) x s1 where "m s = (Inr x, s1)" "f x s1 = (r, s')"
  using assms by (auto simp: andNext_def split: prod.splits sum.splits)

lemma after_look: "andNext (look f) g s = g (f s) s"
  by (simp add: andNext_def look_def)

lemma body_once:
  assumes "run_body h work call b s = (r, s')"
  shows "runs_nothing s s' \<or> runs_once (body_call work call b) s s'"
proof (cases b)
  case (CellBody code)
  then have run: "andNext (call_env h PrepareCall) (\<lambda>_. run_cell h (cell_of call) code) s = (r, s')" using assms by (simp add: run_body_def)
  have prep: "runs_nothing s s1" if "call_env h PrepareCall s = (x, s1)" for x s1
    using tracksD [OF logged.call_env_tracks that, of "{}"] base_run_nothing by simp
  from run show ?thesis
  proof (cases rule: after_cases)
    case (failed e)
    then show ?thesis using prep by blast
  next
    case (ok x s1)
    obtain ns res where x: "rn_cell h (ro_log s1) (cell_of call) code = (ns, res)" by fastforce
    let ?s2 = "s1\<lparr>ro_log := ro_log s1 @ [RunCellCall (cell_of call) code]\<rparr>"
    have "tracks (calls_in {}) (andNext (on_notices h ns) (\<lambda>_ s1. (res, s1)))"
      by (rule logged.after_tracks [OF logged.notices_tracks]) (simp add: tracks_def logged.locals_ok)
    moreover have "andNext (on_notices h ns) (\<lambda>_ s1. (res, s1)) ?s2 = (r, s')" using ok(2) x by (simp add: run_cell_def)
    ultimately have "runs_nothing ?s2 s'" using tracksD base_run_nothing by blast
    moreover have "runs_once (body_call work call b) s1 ?s2" using CellBody
      unfolding runs_once_def by (intro exI [of _ "[]"]) (simp add: body_call_def)
    ultimately show ?thesis using runs_once_trans prep ok(1) by blast
  qed
next
  case (DirectBody args)
  let ?a = "direct_action work call args"
  have quiet: "runs_nothing s1 s2" if "on_notice h n s1 = (x, s2)" for n x s1 s2
    using tracksD [OF logged.notice_tracks that] base_run_nothing by blast
  have run: "andNext (on_notice h (ActionStarted ?a)) (\<lambda>_. andNext (run_host_action h ?a) (\<lambda>r. andNext (on_notice h (ActionCompleted ?a (Some r))) (\<lambda>_. case hr_approval r of
         Some i \<Rightarrow> fails (ApprovalPendingFailure i (cell_of call))
       | None \<Rightarrow> give \<lparr>ke_stdout = [], ke_stderr = [], ke_result = Some (result_json r), ke_truncated = False,
           ke_artifacts = [], ke_directives = (case hr_directive r of None \<Rightarrow> [] | Some dv \<Rightarrow> [dv])\<rparr>))) s = (r, s')"
    using assms unfolding run_body_def executeDirect_def Let_def DirectBody call_body.case .
  from run show ?thesis
  proof (cases rule: after_cases)
    case (failed e)
    then show ?thesis using quiet by blast
  next
    case (ok x s1)
    let ?s2 = "s1\<lparr>ro_log := ro_log s1 @ [RunActionCall ?a]\<rparr>"
    have once: "runs_once (body_call work call b) s1 ?s2" using DirectBody
      unfolding runs_once_def by (intro exI [of _ "[]"]) (simp add: body_call_def)
    have rest: "tracks (calls_in {}) (andNext (on_notice h (ActionCompleted ?a (Some r))) (\<lambda>_. case hr_approval r of
         Some i \<Rightarrow> fails (ApprovalPendingFailure i (cell_of call))
       | None \<Rightarrow> give \<lparr>ke_stdout = [], ke_stderr = [], ke_result = Some (result_json r), ke_truncated = False,
           ke_artifacts = [], ke_directives = (case hr_directive r of None \<Rightarrow> [] | Some dv \<Rightarrow> [dv])\<rparr>))" for r
      by (intro logged.after_tracks logged.notice_tracks) (auto intro: logged.basic_tracks split: option.split)
    have "runs_nothing ?s2 s'" using ok(2)
    proof (cases rule: after_cases)
      case (failed e)
      then have "s' = ?s2" by (simp add: run_host_action_def)
      then show ?thesis by (simp add: runs_nothing_def)
    next
      case (ok r1 s3)
      then have "s3 = ?s2" by (simp add: run_host_action_def)
      then show ?thesis using tracksD [OF rest ok(2)] base_run_nothing by blast
    qed
    then show ?thesis using runs_once_trans once quiet ok(1) by blast
  qed
qed

lemma parks_calls [simp]: "parks (WaitCall g)" "parks (FinishCall c)"
  by (simp_all add: parks_def)

lemma park_tracks: "tracks (calls_in (Collect parks)) (park h dv)"
  unfolding park_def by (auto intro!: logged.basic_tracks logged.after_tracks logged.call_env_tracks logged.saveSession_tracks)

lemma push_tracks: "tracks (calls_in A) (push_output call out)"
  by (simp add: tracks_def push_output_def push_item_def change_def calls_in_def)

lemma finish_tracks: "tracks (calls_in (Collect parks)) (finish_call h hash cmp readable call step x)"
  unfolding finish_call_def Let_def
  by (auto intro!: logged.step_tracks logged.stage_tracks logged.bounded_tracks logged.settle_tracks logged.receipts_tracks
    park_tracks push_tracks split: option.split)

lemma failure_tracks: "tracks (calls_in (Collect parks)) (answer_failure h hash call e)"
  unfolding answer_failure_def
  by (cases e) (auto intro!: logged.basic_tracks logged.after_tracks logged.call_env_tracks logged.saveSession_tracks logged.bounded_tracks
    logged.correction_tracks push_tracks)

lemma refusal_tracks: "tracks (calls_in A) (refuse_call h hash call message extra content)"
  unfolding refuse_call_def by (auto intro!: logged.step_tracks logged.bounded_tracks logged.correction_tracks push_tracks)

text \<open>The \<open>try\<close> statement saves the step first.\<close>

lemma tried_log:
  fixes h work call b step hash cmp readable
  defines "m \<equiv> andNext (call_env h (SaveStepCall step)) (\<lambda>_. andNext (run_body h work call b) (finish_call h hash cmp readable call step))"
  assumes "rescue m (\<lambda>e. if recoverable e then andNext (save_failed_step h step e) (\<lambda>_. answer_failure h hash call e) else fails e) s = (r, s')"
  shows "\<exists>s1. ro_log s1 = ro_log s @ [SaveStepCall step] \<and> (runs_nothing s1 s' \<or> runs_once (body_call work call b) s1 s')"
proof -
  let ?s1 = "s\<lparr>ro_log := ro_log s @ [SaveStepCall step]\<rparr>"
  obtain x s2 where m: "m s = (x, s2)" by fastforce
  have body: "runs_nothing ?s1 s2 \<or> runs_once (body_call work call b) ?s1 s2" using m unfolding m_def
  proof (cases rule: after_cases)
    case (failed e)
    then show ?thesis by (simp add: call_env_def runs_nothing_def split: sum.splits)
  next
    case (ok u s3)
    then have "s3 = ?s1" by (simp add: call_env_def split: sum.splits)
    from ok(2) show ?thesis unfolding \<open>s3 = ?s1\<close>
    proof (cases rule: after_cases)
      case (failed e)
      then show ?thesis using body_once by blast
    next
      case (ok y s4)
      have "runs_nothing s4 s2" using tracksD [OF finish_tracks ok(2)] calls_run_nothing by blast
      then show ?thesis using body_once [OF ok(1)] runs_nothing_trans runs_once_trans by blast
    qed
  qed
  have "runs_nothing s2 s'"
  proof (cases x)
    case (Inl e)
    then have run: "(if recoverable e then andNext (save_failed_step h step e) (\<lambda>_. answer_failure h hash call e) else fails e) s2 = (r, s')"
      using assms(2) m by (simp add: rescue_def)
    have "tracks (calls_in (Collect parks)) (if recoverable e then andNext (save_failed_step h step e) (\<lambda>_. answer_failure h hash call e) else fails e)"
      by (simp add: logged.basic_tracks logged.after_tracks logged.failed_step_tracks failure_tracks)
    from tracksD [OF this run] show ?thesis by (rule calls_run_nothing)
  next
    case (Inr y)
    then show ?thesis using assms(2) m by (auto simp: rescue_def runs_nothing_def)
  qed
  then have "runs_nothing ?s1 s' \<or> runs_once (body_call work call b) ?s1 s'" using body runs_nothing_trans runs_once_trans by blast
  then show ?thesis by (intro exI [of _ ?s1]) simp
qed

lemma once_split:
  assumes "runs_once b s s'" and "ro_log s' = ro_log s @ us @ c # vs" and "is_run c" and "is_run b"
  shows "c = b \<and> \<not> list_ex is_run us \<and> \<not> list_ex is_run vs"
proof -
  obtain xs ys where ls: "us @ c # vs = xs @ b # ys" and none: "\<not> list_ex is_run (xs @ ys)"
    using assms(1,2) unfolding runs_once_def by auto
  have "filter is_run (us @ c # vs) = [b]" using ls none assms(4) by (auto simp: list_ex_iff filter_empty_conv)
  then have "filter is_run us @ c # filter is_run vs = [b]" using assms(3) by simp
  then show ?thesis by (cases "filter is_run us") (auto simp: list_ex_iff filter_empty_conv)
qed

lemma json_parse_nothing: "json_parse [] = None"
  by code_simp

lemma repeated_direct:
  assumes "parse_call call = Inr (DirectBody args)" and "tl_action t = dotted (call_text call ''name'')"
  shows "repeated_action xc call t = Inr (direct_action (xc_work xc) call args)"
proof -
  have "json_parse (call_text call ''arguments'') = Some (JObj args)"
    using assms(1) by (auto simp: parse_call_def split: if_splits sum.splits option.splits json.splits)
  then obtain z where "str_prop call ''arguments'' = Some z" "json_parse z = Some (JObj args)"
    using json_parse_nothing by (cases "str_prop call ''arguments''") (simp_all add: call_text_def)
  then show ?thesis using assms(2) by (simp add: repeated_action_def direct_action_def)
qed

text \<open>C38: a call is journaled before it runs, and runs at most once. However a call ends, it runs its cell or its
  action at most once, and only after the step with its input has been saved under the identity the execution
  has: the cell id of the call, or the action key derived from it. Recovery repeats a direct action under
  exactly this identity, so a repetition is the same action for the ledger.\<close>

theorem call_journaled_first:
  assumes "executeCall h hash cmp work codeEnabled readable call s = (r, s')"
  shows "\<exists>ls. ro_log s' = ro_log s @ ls \<and>
    (\<forall>us c vs. ls = us @ c # vs \<and> is_run c \<longrightarrow>
      (\<exists>b. parse_call call = Inr b \<and> c = body_call work call b \<and> SaveStepCall (step_of_call call b (current_version s)) \<in> set us
        \<and> (\<forall>xc t args. b = DirectBody args \<and> xc_work xc = work \<and> tl_action t = dotted (call_text call ''name'')
            \<longrightarrow> map_sum id RunActionCall (repeated_action xc call t) = Inr c))
      \<and> \<not> list_ex is_run us \<and> \<not> list_ex is_run vs)"
proof -
  let ?s0 = "s\<lparr>ro_receipts := [], ro_parts := []\<rparr>"
  have idle: ?thesis if "runs_nothing ?s0 s'"
    using that unfolding runs_nothing_def by (auto simp: list_ex_iff)
  show ?thesis
  proof (cases "call_text call ''name'' = ''ipython'' \<and> \<not> codeEnabled \<or> isl (parse_call call)")
    case True
    have "\<exists>message extra content. refuse_call h hash call message extra content ?s0 = (r, s')"
    proof (cases "call_text call ''name'' = ''ipython'' \<and> \<not> codeEnabled")
      case False
      then obtain m where "parse_call call = Inl m" using True by (cases "parse_call call") auto
      then show ?thesis using assms False unfolding executeCall_def andNext_def change_def by (simp only: if_False sum.case split_conv) (intro exI)
    next
      case True
      then show ?thesis using assms unfolding executeCall_def andNext_def change_def by (simp only: if_True split_conv sum.case simp_thms) (intro exI)
    qed
    then obtain message extra content where "refuse_call h hash call message extra content ?s0 = (r, s')" by blast
    from tracksD [OF refusal_tracks this, of "{}"] have quiet: "runs_nothing ?s0 s'" by (rule base_run_nothing)
    show ?thesis by (rule idle [OF quiet])
  next
    case False
    then obtain b where b: "parse_call call = Inr b" by (cases "parse_call call") auto
    let ?step = "step_of_call call b (current_version s)"
    let ?tried = "rescue (andNext (call_env h (SaveStepCall ?step)) (\<lambda>_. andNext (run_body h work call b) (finish_call h hash cmp readable call ?step)))
             (\<lambda>e. if recoverable e then andNext (save_failed_step h ?step e) (\<lambda>_. answer_failure h hash call e) else fails e)"
    have run: "andNext (call_env h (EmitCall ''ipython.started'' StStarted)) (\<lambda>_. andNext (look (\<lambda>s. step_of_call call b (current_version s))) (\<lambda>step.
           rescue
             (andNext (call_env h (SaveStepCall step)) (\<lambda>_. andNext (run_body h work call b) (finish_call h hash cmp readable call step)))
             (\<lambda>e. if recoverable e then andNext (save_failed_step h step e) (\<lambda>_. answer_failure h hash call e) else fails e))) ?s0 = (r, s')"
      using assms False b by (auto simp: executeCall_def andNext_def change_def)
    from run show ?thesis
    proof (cases rule: after_cases)
      case (failed e)
      then have "runs_nothing ?s0 s'" using tracksD [OF logged.call_env_tracks failed(1), of "{}"] base_run_nothing by simp
      then show ?thesis by (rule idle)
    next
      case (ok u s1)
      then have s1: "s1 = ?s0\<lparr>ro_log := ro_log s @ [EmitCall ''ipython.started'' StStarted]\<rparr>" by (simp add: call_env_def split: sum.splits)
      then have "current_version s1 = current_version s" by (simp add: current_version_def)
      then have "?tried s1 = (r, s')" using ok(2) by (simp only: after_look)
      from tried_log [OF this] obtain s2 where s2: "ro_log s2 = ro_log s @ [EmitCall ''ipython.started'' StStarted, SaveStepCall ?step]"
        and runs: "runs_nothing s2 s' \<or> runs_once (body_call work call b) s2 s'" using s1 by auto
      from runs show ?thesis
      proof
        assume "runs_nothing s2 s'"
        then have "runs_nothing ?s0 s'" using s2 unfolding runs_nothing_def by (auto simp: is_run_def)
        then show ?thesis by (rule idle)
      next
        assume once: "runs_once (body_call work call b) s2 s'"
        then obtain ls where ls: "ro_log s' = ro_log s2 @ ls" unfolding runs_once_def by blast
        have isrun: "is_run (body_call work call b)" by (cases b) (simp_all add: body_call_def is_run_def)
        let ?pre = "[EmitCall ''ipython.started'' StStarted, SaveStepCall ?step]"
        have "(\<exists>b. parse_call call = Inr b \<and> c = body_call work call b \<and> SaveStepCall (step_of_call call b (current_version s)) \<in> set us
            \<and> (\<forall>xc t args. b = DirectBody args \<and> xc_work xc = work \<and> tl_action t = dotted (call_text call ''name'')
                \<longrightarrow> map_sum id RunActionCall (repeated_action xc call t) = Inr c))
          \<and> \<not> list_ex is_run us \<and> \<not> list_ex is_run vs" if split: "?pre @ ls = us @ c # vs" and c: "is_run c" for us c vs
        proof -
          have "us \<noteq> []" "length us \<noteq> 1" using split c by (auto simp: is_run_def length_Suc_conv)
          then obtain us1 where us: "us = ?pre @ us1" and ls1: "ls = us1 @ c # vs" using split
            by (cases us; cases "tl us") auto
          have "c = body_call work call b \<and> \<not> list_ex is_run us1 \<and> \<not> list_ex is_run vs"
            by (rule once_split [OF once _ c isrun]) (simp add: ls ls1)
          then show ?thesis using us b repeated_direct [of call] by (auto simp: body_call_def is_run_def)
        qed
        then show ?thesis using ls s2 by (intro exI [of _ "?pre @ ls"]) auto
      qed
    qed
  qed
qed

subsection \<open>A call that parks the work\<close>

definition parked_outcome :: "round_call \<Rightarrow> goal_outcome option" where
  "parked_outcome c = (case c of WaitCall g \<Rightarrow> Some g | FinishCall d \<Rightarrow> cp_goalOutcome d | _ \<Rightarrow> None)"

text \<open>A terminal outcome follows one parking call, made last and after the session was saved as it is now.\<close>

definition parked_saved :: "round_state \<Rightarrow> round_state \<Rightarrow> bool" where
  "parked_saved s s' = (\<exists>pre mid c g. ro_log s' = ro_log s @ pre @ [SaveRunCall (ro_session s')] @ mid @ [c]
     \<and> \<not> list_ex parks (pre @ mid) \<and> parks c \<and> parked_outcome c = Some g \<and> go_requestVersion g = current_version s')"

definition parks_nothing :: "round_state \<Rightarrow> round_state \<Rightarrow> bool" where
  "parks_nothing s s' = (\<exists>ls. ro_log s' = ro_log s @ ls \<and> \<not> list_ex parks ls)"

definition parks_right :: "call_outcome round \<Rightarrow> bool" where
  "parks_right m = (\<forall>s oc s'. m s = (Inr oc, s') \<longrightarrow> (if oc_terminal oc then parked_saved s s' else parks_nothing s s'))"

lemma runs_park_nothing: "calls_in (Collect is_run) s s' \<Longrightarrow> parks_nothing s s'"
  unfolding calls_in_def parks_nothing_def list_ex_iff using base_quiet parks_not_run by blast

lemma parks_nothing_trans: "parks_nothing s s1 \<Longrightarrow> parks_nothing s1 s2 \<Longrightarrow> parks_nothing s s2"
  unfolding parks_nothing_def by (elim exE conjE) (auto intro!: exI [of _ "_ @ _"])

lemma parked_saved_after: "parks_nothing s s1 \<Longrightarrow> parked_saved s1 s2 \<Longrightarrow> parked_saved s s2"
  unfolding parks_nothing_def parked_saved_def
  by (elim exE conjE, intro exI [of _ "_ @ _"] exI) force

lemma parks_right_after:
  assumes "tracks (calls_in (Collect is_run)) m" and "\<And>x. parks_right (f x)"
  shows "parks_right (andNext m f)"
  unfolding parks_right_def
proof (intro allI impI)
  fix s oc s'
  assume "andNext m f s = (Inr oc, s')"
  then obtain x s1 where 1: "m s = (Inr x, s1)" "f x s1 = (Inr oc, s')" by (rule after_InrE)
  have "parks_nothing s s1" using tracksD [OF assms(1) 1(1)] by (rule runs_park_nothing)
  then show "if oc_terminal oc then parked_saved s s' else parks_nothing s s'"
    using assms(2) [of x] 1(2) parked_saved_after parks_nothing_trans unfolding parks_right_def by (cases "oc_terminal oc") fastforce+
qed

lemma parks_right_fails [simp]: "parks_right (fails e)" "parks_right (give (goes_on c))"
  by (auto simp: parks_right_def goes_on_def parks_nothing_def)

text \<open>The two ends that park.\<close>

definition park_with :: "round_host \<Rightarrow> string \<Rightarrow> round_call \<Rightarrow> call_outcome round" where
  "park_with h kind c = andNext (saveSession_now h) (\<lambda>_. andNext (if kind = [] then give () else call_env h (EmitCall kind StCompleted)) (\<lambda>_.
     andNext (call_env h c) (\<lambda>_. give ends_turn)))"

lemma park_with_saved:
  assumes "park_with h kind c s = (Inr oc, s')" and "parks c" and "parked_outcome c = Some g" and "go_requestVersion g = current_version s"
  shows "oc_terminal oc \<and> parked_saved s s'"
proof -
  let ?mid = "if kind = [] then [] else [EmitCall kind StCompleted]"
  have "oc = ends_turn \<and> s' = s\<lparr>ro_log := ro_log s @ [SaveRunCall (ro_session s)] @ ?mid @ [c]\<rparr>"
    using assms(1) by (auto simp: park_with_def saveSession_now_def call_env_def andNext_def look_def give_def split: sum.splits if_splits)
  moreover have "\<not> list_ex parks ([] @ ?mid)" by (simp add: parks_def)
  ultimately show ?thesis using assms(2-4) unfolding parked_saved_def
    by (intro conjI exI [of _ "[]"] exI [of _ ?mid] exI [of _ c] exI [of _ g]) (auto simp: ends_turn_def current_version_def)
qed

lemma parks_right_park: "parks_right (park h dv)"
  unfolding parks_right_def
proof (intro allI impI)
  fix s oc s'
  assume run: "park h dv s = (Inr oc, s')"
  let ?g = "defer_outcome dv (current_version s)"
  let ?c = "if go_status ?g = BlockedGoal then FinishCall \<lparr>cp_status = CompCompleted, cp_goalOutcome = Some ?g, cp_error = None\<rparr> else WaitCall ?g"
  have "park_with h ''goal.waiting'' ?c s = (Inr oc, s')" using run by (simp add: park_def park_with_def andNext_def look_def)
  from park_with_saved [OF this, of ?g] show "if oc_terminal oc then parked_saved s s' else parks_nothing s s'"
    by (simp add: parked_outcome_def defer_outcome_def)
qed

lemma bounded_Inr: "bounded_output v refs s = (Inr out, s') \<Longrightarrow> s' = s"
  by (simp add: bounded_output_def plainly_def split: sum.splits)

lemma call_env_Inr: "call_env h c s = (Inr u, s') \<Longrightarrow> s' = s\<lparr>ro_log := ro_log s @ [c]\<rparr>"
  by (simp add: call_env_def split: sum.splits)

lemma approval_parks: "parks_right (answer_failure h hash call (ApprovalPendingFailure i cell))"
  unfolding parks_right_def
proof (intro allI impI)
  fix s oc s'
  assume run: "answer_failure h hash call (ApprovalPendingFailure i cell) s = (Inr oc, s')"
  let ?g = "\<lparr>go_status = AwaitingApproval i, go_verification = NotRun, go_requestVersion = current_version s, go_gaps = None, go_question = None\<rparr>"
  have r0: "andNext (call_env h (EmitCall ''approval.pending'' StCompleted)) (\<lambda>_.
      andNext (bounded_output (JObj [(''approvalPending'', JStr i), (''receipts'', receipts_json (ro_receipts s))]) []) (\<lambda>out.
      andNext (push_output call out) (\<lambda>_. andNext (saveSession_now h) (\<lambda>_. andNext (call_env h (WaitCall ?g)) (\<lambda>_. give ends_turn))))) s = (Inr oc, s')"
    using run by (simp add: answer_failure_def andNext_def look_def)
  from r0 obtain s1 where 1: "call_env h (EmitCall ''approval.pending'' StCompleted) s = (Inr (), s1)"
    and r1: "andNext (bounded_output (JObj [(''approvalPending'', JStr i), (''receipts'', receipts_json (ro_receipts s))]) []) (\<lambda>out.
      andNext (push_output call out) (\<lambda>_. andNext (saveSession_now h) (\<lambda>_. andNext (call_env h (WaitCall ?g)) (\<lambda>_. give ends_turn)))) s1 = (Inr oc, s')"
    by (rule after_InrE) simp
  from r1 obtain out s2 where 2: "bounded_output (JObj [(''approvalPending'', JStr i), (''receipts'', receipts_json (ro_receipts s))]) [] s1 = (Inr out, s2)"
    and r2: "andNext (push_output call out) (\<lambda>_. andNext (saveSession_now h) (\<lambda>_. andNext (call_env h (WaitCall ?g)) (\<lambda>_. give ends_turn))) s2 = (Inr oc, s')"
    by (rule after_InrE)
  from r2 obtain s3 where 3: "push_output call out s2 = (Inr (), s3)"
    and 4: "andNext (saveSession_now h) (\<lambda>_. andNext (call_env h (WaitCall ?g)) (\<lambda>_. give ends_turn)) s3 = (Inr oc, s')"
    by (rule after_InrE) simp
  have s3: "s3 = s\<lparr>ro_log := ro_log s @ [EmitCall ''approval.pending'' StCompleted],
      ro_session := (ro_session s)\<lparr>ss_history := ss_history (ro_session s) @ [output_item (call_id call) out]\<rparr>\<rparr>"
    using call_env_Inr [OF 1] bounded_Inr [OF 2] 3 by (simp add: push_output_def push_item_def)
  have "park_with h [] (WaitCall ?g) s3 = (Inr oc, s')" using 4 by (simp add: park_with_def andNext_def give_def)
  from park_with_saved [OF this, of ?g] have "oc_terminal oc \<and> parked_saved s3 s'"
    using s3 by (simp add: parked_outcome_def current_version_def)
  moreover have "parks_nothing s s3" unfolding parks_nothing_def s3 by (simp add: parks_def)
  ultimately show "if oc_terminal oc then parked_saved s s' else parks_nothing s s'" using parked_saved_after by auto
qed

lemma parks_right_failure: "parks_right (answer_failure h hash call e)"
proof (cases "\<exists>i cell. e = ApprovalPendingFailure i cell")
  case True
  then show ?thesis using approval_parks by blast
next
  case False
  then show ?thesis unfolding answer_failure_def
    by (cases e) (auto intro!: parks_right_after logged.step_tracks logged.bounded_tracks logged.correction_tracks push_tracks)
qed

lemma parks_right_finish: "parks_right (finish_call h hash cmp readable call step x)"
  unfolding finish_call_def Let_def
  by (auto intro!: parks_right_after logged.step_tracks logged.stage_tracks logged.bounded_tracks logged.settle_tracks logged.receipts_tracks
    push_tracks parks_right_park split: option.split)

lemma parks_right_refusal: "parks_right (refuse_call h hash call message extra content)"
  unfolding refuse_call_def
  by (auto intro!: parks_right_after logged.step_tracks logged.bounded_tracks logged.correction_tracks push_tracks)

lemma parks_right_body: "tracks (calls_in (Collect is_run)) (run_body h work call b)"
  by (rule logged.body_tracks) (auto simp: is_run_def)

lemma parks_right_rescue:
  assumes "parks_right m" and "\<And>s e s'. m s = (Inl e, s') \<Longrightarrow> recoverable e \<Longrightarrow> parks_nothing s s'" and "\<And>e. parks_right (f e)"
  shows "parks_right (rescue m (\<lambda>e. if recoverable e then f e else fails e))"
  unfolding parks_right_def
proof (intro allI impI)
  fix s oc s'
  assume run: "rescue m (\<lambda>e. if recoverable e then f e else fails e) s = (Inr oc, s')"
  obtain r s1 where m: "m s = (r, s1)" by fastforce
  show "if oc_terminal oc then parked_saved s s' else parks_nothing s s'"
  proof (cases r)
    case (Inl e)
    then have "recoverable e" "f e s1 = (Inr oc, s')" using run m by (auto simp: rescue_def split: if_splits)
    moreover have "parks_nothing s s1" using assms(2) m Inl calculation(1) by blast
    ultimately show ?thesis using assms(3) [of e] parked_saved_after parks_nothing_trans unfolding parks_right_def by (cases "oc_terminal oc") fastforce+
  next
    case (Inr y)
    then show ?thesis using run m assms(1) unfolding parks_right_def rescue_def by auto
  qed
qed

lemma executeCall_parks: "parks_right (executeCall h hash cmp work codeEnabled readable call)"
proof -
  have tried: "parks_right (andNext (call_env h (SaveStepCall step)) (\<lambda>_. andNext (run_body h work call b) (finish_call h hash cmp readable call step)))" for step b
    by (intro parks_right_after parks_right_finish parks_right_body logged.call_env_tracks) simp
  have quiet: "parks_nothing s s'"
    if m: "andNext (call_env h (SaveStepCall step)) (\<lambda>_. andNext (run_body h work call b) (finish_call h hash cmp readable call step)) s = (Inl e, s')"
      and e: "recoverable e" for step b s e s'
  proof -
    have save: "tracks (calls_in (Collect is_run)) (call_env h (SaveStepCall step))" by (rule logged.call_env_tracks) simp
    from m show ?thesis
    proof (cases rule: after_cases)
      case (failed e1)
      then show ?thesis using tracksD [OF save] runs_park_nothing by blast
    next
      case (ok u s1)
      have first: "parks_nothing s s1" using tracksD [OF save ok(1)] by (rule runs_park_nothing)
      from ok(2) show ?thesis
      proof (cases rule: after_cases)
        case (failed e1)
        then have "parks_nothing s1 s'" using tracksD [OF parks_right_body] runs_park_nothing by blast
        then show ?thesis using first parks_nothing_trans by blast
      next
        case (ok x s2)
        then show ?thesis using plain_finish e unfolding plain_errors_def by blast
      qed
    qed
  qed
  have handled: "parks_right (andNext (save_failed_step h step e) (\<lambda>_. answer_failure h hash call e))" for step e
    by (intro parks_right_after parks_right_failure logged.failed_step_tracks)
  show ?thesis unfolding executeCall_def
    by (auto intro!: parks_right_after parks_right_refusal logged.step_tracks parks_right_rescue tried handled quiet split: sum.split)
qed

text \<open>C40: a call that parks the work leaves nothing unsaved. A call that ends the turn makes exactly one call that
  waits or completes the work, makes it last, for the current request version, and after the session has been
  saved exactly as it is then; that session already holds the output of the call. A call after which the turn
  goes on neither waits nor completes.\<close>

theorem parking_call_saved:
  assumes "executeCall h hash cmp work codeEnabled readable call s = (Inr oc, s')"
  shows "(\<exists>out. ss_history (ro_session s') = ss_history (ro_session s) @ [output_item (call_id call) out]) \<and>
    (if oc_terminal oc then \<exists>pre mid c g. ro_log s' = ro_log s @ pre @ [SaveRunCall (ro_session s')] @ mid @ [c]
        \<and> \<not> list_ex parks (pre @ mid) \<and> parks c \<and> parked_outcome c = Some g \<and> go_requestVersion g = current_version s'
     else \<exists>ls. ro_log s' = ro_log s @ ls \<and> \<not> list_ex parks ls)"
  using executeCall_answers executeCall_parks assms
  unfolding answered_def parks_right_def parked_saved_def parks_nothing_def by blast

subsection \<open>Instances\<close>

definition sample_round_host :: round_host where
  "sample_round_host = \<lparr>rn_call = (\<lambda>l c. Inr ()), rn_action = (\<lambda>l a. Inr ((empty_result True)\<lparr>hr_approval := if ha_action a = ''mail.send'' then Some ''ap1'' else None\<rparr>)),
     rn_cell = (\<lambda>l cell code. ([], Inl (KernelTimeoutFailure 9 cell))), rn_signals = (\<lambda>l. start_signals False), rn_order = (\<lambda>l n. []), rn_stages = False\<rparr>"

definition round_call_item :: "string \<Rightarrow> string \<Rightarrow> string \<Rightarrow> json" where
  "round_call_item i name args = JObj [(''type'', JStr ''function_call''), (''callId'', JStr i), (''name'', JStr name), (''arguments'', JStr args)]"

definition sample_round_state :: round_state where
  "sample_round_state = \<lparr>ro_session = sample_session, ro_budget = new_budget, ro_artifacts = [], ro_correction = None, ro_part = 0,
     ro_receipts = [], ro_parts = [], ro_log = []\<rparr>"

definition round_work :: work_item where
  "round_work = toWorkItem (new_row 0 ''x'' (sample_input ''x'' ''s1'')) 0"

definition sample_items :: "json list" where
  "sample_items = [round_call_item ''a'' ''ipython'' ''{\"code\":\"x\"}'', round_call_item ''b'' ''notes__read'' ''{}'', round_call_item ''c'' ''ipython'' ''no'']"

definition sample_ids :: "nat \<Rightarrow> string" where
  "sample_ids n = replicate (n + 1) (CHR ''s'')"

lemma sample_round_run:
  "fst (tool_round sample_round_host id (\<lambda>_ _. 0) round_work True False False [] False sample_ids sample_items sample_round_state) = Inr RoundDone"
  by code_simp

lemma sample_calls: "map call_id (filter is_call (number_calls sample_ids 0 sample_items)) = map (Some \<circ> JStr) [''a'', ''b'', ''c'']"
  by code_simp

lemma sample_reads: "\<not> only_reads False [] calls"
  by (simp add: only_reads_def)

lemma round_answers_calls_witness:
  "\<exists>s' outs. tool_round sample_round_host id (\<lambda>_ _. 0) round_work True False False [] False sample_ids sample_items sample_round_state = (Inr RoundDone, s')
     \<and> ss_history (ro_session s') = number_calls sample_ids 0 sample_items @ outs \<and> map call_id outs = map (Some \<circ> JStr) [''a'', ''b'', ''c'']"
proof -
  obtain s' where run: "tool_round sample_round_host id (\<lambda>_ _. 0) round_work True False False [] False sample_ids sample_items sample_round_state = (Inr RoundDone, s')"
    using sample_round_run by (metis fst_conv surj_pair)
  from round_answers_calls [OF run refl] obtain outs where
    "ss_history (ro_session s') = ss_history (ro_session sample_round_state) @ number_calls sample_ids 0 sample_items @ outs"
    "map call_id outs = map call_id (filter is_call (number_calls sample_ids 0 sample_items))" using sample_reads by blast
  then show ?thesis using run sample_calls by (auto simp: sample_round_state_def sample_session_def)
qed

definition mail_call :: json where
  "mail_call = round_call_item ''m'' ''mail__send'' ''{}''"

lemma mail_run:
  "fst (executeCall sample_round_host id (\<lambda>_ _. 0) round_work True False mail_call sample_round_state) = Inr ends_turn"
  by code_simp

lemma mail_log:
  "filter is_run (ro_log (snd (executeCall sample_round_host id (\<lambda>_ _. 0) round_work True False mail_call sample_round_state)))
     = [RunActionCall (direct_action round_work mail_call [])]"
  by code_simp

lemma call_journaled_first_witness:
  "\<exists>r s' us vs b. executeCall sample_round_host id (\<lambda>_ _. 0) round_work True False mail_call sample_round_state = (r, s')
     \<and> ro_log s' = us @ RunActionCall (direct_action round_work mail_call []) # vs
     \<and> SaveStepCall (step_of_call mail_call b (current_version sample_round_state)) \<in> set us"
proof -
  let ?c = "RunActionCall (direct_action round_work mail_call [])"
  obtain r s' where run: "executeCall sample_round_host id (\<lambda>_ _. 0) round_work True False mail_call sample_round_state = (r, s')"
    by (metis surj_pair)
  then have "?c \<in> set (filter is_run (ro_log s'))" using mail_log by simp
  then have "?c \<in> set (ro_log s')" "is_run ?c" by simp_all
  from call_journaled_first [OF run] show ?thesis
    apply (elim exE conjE)
    subgoal premises journaled for ls
    proof -
      from \<open>?c \<in> set (ro_log s')\<close> obtain us vs where split: "ls = us @ ?c # vs" using journaled(1) by (auto simp: sample_round_state_def dest: split_list)
      from journaled(2) [rule_format, OF conjI [OF split \<open>is_run ?c\<close>]]
      obtain b where "SaveStepCall (step_of_call mail_call b (current_version sample_round_state)) \<in> set us" by (elim conjE exE)
      then show ?thesis using split run journaled(1) by (auto simp: sample_round_state_def)
    qed
    done
qed

lemma parking_call_saved_witness:
  "\<exists>s' pre mid c g. executeCall sample_round_host id (\<lambda>_ _. 0) round_work True False mail_call sample_round_state = (Inr ends_turn, s')
     \<and> ro_log s' = pre @ [SaveRunCall (ro_session s')] @ mid @ [c] \<and> parked_outcome c = Some g \<and> go_requestVersion g = current_version s'"
proof -
  obtain s' where run: "executeCall sample_round_host id (\<lambda>_ _. 0) round_work True False mail_call sample_round_state = (Inr ends_turn, s')"
    using mail_run by (metis fst_conv surj_pair)
  have "oc_terminal ends_turn" "ro_log sample_round_state = []" by (simp_all add: ends_turn_def sample_round_state_def)
  with parking_call_saved [OF run] run show ?thesis by auto
qed

subsection \<open>Calls behind a parking call\<close>

text \<open>
  A call that parks the work ends the round at once; unlike a revision of the request it leaves the calls after
  it without an output.
\<close>

lemma terminal_prefix:
  assumes run: "\<And>c. answered (call_id c) (run c)"
  shows "run_calls h run False kept cs s = (Inr RoundTerminal, s') \<Longrightarrow>
    \<exists>k. 0 < k \<and> k \<le> length cs \<and> adds_answers (map call_id (take k cs)) s s'"
proof (induction cs arbitrary: s)
  case (Cons c ds)
  obtain steer s1 where s1: "check_signals h s = (Inr steer, s1)"
    and rest: "(if steer then andNext (skip_calls (c # ds)) (\<lambda>_. give RoundDone)
        else andNext (keep_candidate kept (run_batch h run False [c])) (\<lambda>r. case r of Inl e \<Rightarrow> give (RoundBroken e)
          | Inr stop \<Rightarrow> if stop then give RoundTerminal else run_calls h run False kept ds)) s1 = (Inr RoundTerminal, s')"
    using Cons.prems unfolding run_calls.simps if_False One_nat_def take_Suc_Cons take_0 drop_Suc_Cons drop_0 by (elim after_InrE) blast
  have same: "adds_answers [] s s1" using tracksD [OF check_signals_tracks s1] by (rule adds_nil)
  have "\<not> steer" using rest by (auto elim!: after_InrE)
  then obtain stop s2 where "keep_candidate kept (run_batch h run False [c]) s1 = (Inr (Inr stop), s2)"
    and go: "(if stop then give RoundTerminal else run_calls h run False kept ds) s2 = (Inr RoundTerminal, s')"
    using rest by (auto elim!: after_InrE split: sum.splits)
  from keep_candidate_Inr [OF this(1)] have "answers_calls False (map call_id [c]) s1 s2" by (rule batch_answers [OF run]) auto
  then have first: "adds_answers [call_id c] s s2" using adds_append [OF same] unfolding answers_calls_def by fastforce
  show ?case
  proof (cases stop)
    case True
    then show ?thesis using go first by (intro exI [of _ 1]) simp
  next
    case False
    then obtain k where "0 < k" "k \<le> length ds" "adds_answers (map call_id (take k ds)) s2 s'" using go Cons.IH by auto
    then show ?thesis using adds_append [OF first] by (intro exI [of _ "Suc k"]) simp
  qed
qed simp

lemma pending_opened:
  "list_all (\<lambda>v. \<not> is_output v) vs \<Longrightarrow> fst ` set (pending_calls (h @ vs)) = fst ` set (pending_calls h) \<union> set (map call_id (filter is_call vs))"
proof (induction vs arbitrary: h)
  case (Cons v vs)
  have "fst ` set (pending_calls (h @ [v])) = fst ` set (pending_calls h) \<union> (if is_call v then {call_id v} else {})"
  proof -
    have "fst ` set (AList.update (call_id v) v m) = insert (call_id v) (fst ` set m)" for m :: "(json option, json) jsmap"
      by (simp add: dom_update)
    then show ?thesis using Cons.prems by (simp add: pending_calls_def)
  qed
  then show ?case using Cons.IH [of "h @ [v]"] Cons.prems by auto
qed simp


definition resumed_state :: round_state where
  "resumed_state = sample_round_state\<lparr>ro_session := fresh_session round_work\<rparr>"

definition parked_items :: "json list" where
  "parked_items = [mail_call, round_call_item ''n'' ''ipython'' ''{\"code\":\"x\"}'']"

definition silent_host :: "unit restore_host" where
  "silent_host = \<lparr>rh_load = ret None, rh_step = (\<lambda>c. ret None), rh_cell = (\<lambda>c. ret None), rh_execute = (\<lambda>a. ret (empty_result True))\<rparr>"

definition resumed_context :: "session \<Rightarrow> restore_context" where
  "resumed_context q = \<lparr>xc_work = round_work, xc_session = Some (Some q), xc_tools = [], xc_messages = [], xc_evidence = [],
     xc_parentRequest = None, xc_pendingApproval = None, xc_turnInput = (\<lambda>b. []), xc_promptContext = JNull, xc_journal = (\<lambda>s. Inr [])\<rparr>"

definition parked_round :: "(runtime_error + round_end) \<times> round_state" where
  "parked_round = tool_round sample_round_host id (\<lambda>_ _. 0) round_work True False False [] False sample_ids parked_items resumed_state"

lemma parked_sample:
  "fst parked_round = Inr RoundTerminal" "map call_id (filter is_call (number_calls sample_ids 0 parked_items)) = [Some (JStr ''m''), Some (JStr ''n'')]"
  "list_all (\<lambda>v. \<not> is_output v) (number_calls sample_ids 0 parked_items)"
  unfolding parked_round_def by code_simp+


text \<open>In this instance the call behind the parking one never ran, and the attempt that resumes the work refuses
  to continue because of it.\<close>

lemma parked_round_runs_first:
  "fst parked_round = Inr RoundTerminal \<and> filter is_run (ro_log (snd parked_round)) = [RunActionCall (direct_action round_work (with_step_id ''s'' mail_call) [])]"
  unfolding parked_round_def by code_simp

lemma parked_round_blocks_resume:
  "fst (restoreSession id silent_host (resumed_context (ro_session (snd parked_round))) [] ())
     = Inl (JsError ''unresolved tool execution checkpoint; reconcile before continuing'')"
  unfolding parked_round_def by code_simp

end
