(* ===== verification/CandidateProps.thy ===== *)
theory CandidateProps
  imports Candidate
begin

text \<open>
  What the judgement of a candidate and the end of a turn guarantee, whatever the environment answers: an answer
  is delivered as satisfied only when every check was asked and answered in its favour, an answer that
  was only retained is delivered as partial with all known gaps, and the delivery is the last call, made
  after the session was saved. One relation states what a part of the judgement asked and whether the
  answers allow a satisfied outcome; a locale gathers the rules for the parts that ask nothing.
\<close>

declare basic_Inr [simp]

subsection \<open>What a part of a review asked\<close>

definition all_confirmed :: "action_result \<Rightarrow> bool" where
  "all_confirmed r = (hr_ok r \<and> (\<exists>v. hr_value r = Some v \<and> json_prop v ''pending'' = Some (JArr []) \<and> truthy_json (json_prop v ''truncated'') = None))"

text \<open>The answers that speak for the candidate; the other calls decide nothing.\<close>

definition favourable :: "review_host \<Rightarrow> review_call list \<Rightarrow> review_call \<Rightarrow> bool" where
  "favourable h l c = (case c of
       VerifyCall k \<Rightarrow> (\<exists>rs. vh_verify h l k = Inr rs \<and> list_all (\<lambda>r. vr_status r = VerdictPassed) rs)
     | ObserveCall a \<Rightarrow> (\<exists>r. vh_action h l a = Inr r \<and> (if ha_action a = ''task.inspect'' then all_confirmed r else \<not> unconfirmed r))
     | ReviewCall b gs \<Rightarrow> (\<exists>k. vh_review h l b gs = Inr k \<and> objection (ck_error k) = None \<and> ck_missing k = [] \<and> ck_limitations k = [])
     | CommitCall m \<Rightarrow> False
     | _ \<Rightarrow> True)"

fun all_favourable :: "review_host \<Rightarrow> review_call list \<Rightarrow> review_call list \<Rightarrow> bool" where
  "all_favourable h l [] = True"
| "all_favourable h l (c # cs) = (favourable h l c \<and> all_favourable h (l @ [c]) cs)"

definition commits :: "review_call \<Rightarrow> bool" where
  "commits c = (case c of CommitCall _ \<Rightarrow> True | _ \<Rightarrow> False)"

definition neutral :: "review_call \<Rightarrow> bool" where
  "neutral c = (case c of VerifyCall _ \<Rightarrow> False | ObserveCall _ \<Rightarrow> False | ReviewCall _ _ \<Rightarrow> False | CommitCall _ \<Rightarrow> False | _ \<Rightarrow> True)"

lemma neutral_simps [simp]: "neutral (NoteCall k st)" "neutral (KeepCall e)" "neutral (StoreReviewCall c)" "neutral (StoreCall q)"
  "neutral LoadCall" "neutral (DeltaCall t n)" "\<not> neutral (CommitCall m)"
  "commits (CommitCall m)" "\<not> commits (VerifyCall ca)" "\<not> commits (ObserveCall a)" "\<not> commits (ReviewCall b gs)"
  by (simp_all add: neutral_def commits_def)

lemma neutral_favourable: "neutral c \<Longrightarrow> favourable h l c \<and> \<not> commits c"
  by (cases c) (simp_all add: neutral_def favourable_def commits_def)

lemma all_favourable_append: "all_favourable h l (xs @ ys) = (all_favourable h l xs \<and> all_favourable h (l @ xs) ys)"
  by (induction xs arbitrary: l) auto

text \<open>What a review leaves alone, and the relation: it asked at least \<open>cs\<close>, and when \<open>ok\<close> holds every answer was
  favourable.\<close>

definition fixed_part :: "review_state \<Rightarrow> int \<times> artifact list \<times> bool" where
  "fixed_part s = (turn_version s, vs_artifacts s, ss_request (vs_session s) = None)"

definition reviewed :: "review_host \<Rightarrow> bool \<Rightarrow> review_call set \<Rightarrow> review_state \<Rightarrow> review_state \<Rightarrow> bool" where
  "reviewed h ok cs s s' = (fixed_part s' = fixed_part s \<and> (\<exists>ls. vs_log s' = vs_log s @ ls \<and> cs \<subseteq> set ls
     \<and> \<not> list_ex commits ls \<and> (ok \<longrightarrow> all_favourable h (vs_log s) ls)))"

lemma reviewed_chain:
  assumes "reviewed h ok A s s1" and "reviewed h ok B s1 s2"
  shows "reviewed h ok (A \<union> B) s s2"
proof -
  obtain l1 where l1: "vs_log s1 = vs_log s @ l1" "A \<subseteq> set l1" "\<not> list_ex commits l1" "ok \<longrightarrow> all_favourable h (vs_log s) l1"
    using assms(1) unfolding reviewed_def by blast
  obtain l2 where l2: "vs_log s2 = vs_log s1 @ l2" "B \<subseteq> set l2" "\<not> list_ex commits l2" "ok \<longrightarrow> all_favourable h (vs_log s1) l2"
    using assms(2) unfolding reviewed_def by blast
  have "fixed_part s2 = fixed_part s" using assms unfolding reviewed_def by simp
  moreover have "vs_log s2 = vs_log s @ l1 @ l2" "\<not> list_ex commits (l1 @ l2)" "ok \<longrightarrow> all_favourable h (vs_log s) (l1 @ l2)"
    using l1 l2 by (simp_all add: all_favourable_append)
  moreover have "A \<union> B \<subseteq> set (l1 @ l2)" using l1(2) l2(2) by auto
  ultimately show ?thesis unfolding reviewed_def by blast
qed

lemma reviewed_weaken: "reviewed h ok A s s' \<Longrightarrow> (ok' \<Longrightarrow> ok) \<Longrightarrow> B \<subseteq> A \<Longrightarrow> reviewed h ok' B s s'"
  unfolding reviewed_def by blast

text \<open>The rules the proofs below chain.\<close>

lemma reviewed_then: "reviewed h ok A s s1 \<Longrightarrow> reviewed h ok {} s1 s2 \<Longrightarrow> reviewed h ok A s s2"
  using reviewed_chain [of h ok A s s1 "{}"] by simp

lemma then_reviewed: "reviewed h ok {} s s1 \<Longrightarrow> reviewed h ok A s1 s2 \<Longrightarrow> reviewed h ok A s s2"
  using reviewed_chain [of h ok "{}" s s1 A] by simp

lemma reviewed_refl: "fixed_part s' = fixed_part s \<Longrightarrow> vs_log s' = vs_log s \<Longrightarrow> reviewed h ok {} s s'"
  by (simp add: reviewed_def)

lemma reviewed_same [simp]: "reviewed h ok {} s s"
  by (simp add: reviewed_refl)

subsection \<open>The parts that ask nothing\<close>

definition obeys :: "(review_state \<Rightarrow> review_state \<Rightarrow> bool) \<Rightarrow> 'a review \<Rightarrow> bool" where
  "obeys R m = (\<forall>s r s'. m s = (r, s') \<longrightarrow> R s s')"

lemma obeysD: "obeys R m \<Longrightarrow> m s = (r, s') \<Longrightarrow> R s s'"
  by (simp add: obeys_def)

locale review_frame =
  fixes R :: "review_state \<Rightarrow> review_state \<Rightarrow> bool"
  assumes locals_ok: "fixed_part s' = fixed_part s \<Longrightarrow> vs_log s' = vs_log s \<Longrightarrow> R s s'"
    and chain: "R s s1 \<Longrightarrow> R s1 s2 \<Longrightarrow> R s s2"
    and call_ok: "neutral c \<Longrightarrow> R s (s\<lparr>vs_log := vs_log s @ [c]\<rparr>)"
begin

lemma basic_obeys: "obeys R (give x)" "obeys R (fails e)" "obeys R (look f)"
  by (simp_all add: obeys_def give_def fails_def look_def locals_ok)

lemma andNext_obeys: "obeys R m \<Longrightarrow> (\<And>x. obeys R (f x)) \<Longrightarrow> obeys R (andNext m f)"
  unfolding obeys_def andNext_def by (fastforce split: prod.splits sum.splits intro: chain)

lemma change_obeys: "(\<And>s. fixed_part (f s) = fixed_part s \<and> vs_log (f s) = vs_log s) \<Longrightarrow> obeys R (change f)"
  by (simp add: obeys_def change_def locals_ok)

lemma tell_obeys: "neutral c \<Longrightarrow> obeys R (tell h c)"
  by (simp add: obeys_def tell_def ask_def call_ok)

lemma store_obeys: "obeys R (store_turn h)"
  unfolding store_turn_def by (intro andNext_obeys basic_obeys tell_obeys) simp

lemma append_obeys: "obeys R (append_items vs)"
  unfolding append_items_def by (rule change_obeys) (simp add: fixed_part_def turn_version_def)

lemma correct_obeys: "obeys R (correct m)"
  unfolding correct_def by (rule change_obeys) (simp add: fixed_part_def turn_version_def)

lemma gaps_obeys: "obeys R (set_gaps gs)"
  unfolding set_gaps_def by (rule change_obeys) (simp add: fixed_part_def turn_version_def)

lemma checks_obeys: "obeys R (set_checks cs)"
  unfolding set_checks_def
  by (rule change_obeys) (auto simp: fixed_part_def turn_version_def request_version_def split: option.split)

lemma consume_obeys: "obeys R (consume_turn hash c f)"
  unfolding consume_turn_def obeys_def by (auto split: prod.splits intro!: locals_ok simp: fixed_part_def turn_version_def)

lemma plainly_obeys: "obeys R (plainly r)"
  by (simp add: plainly_def basic_obeys split: sum.split)

lemma signals_obeys: "obeys R (turn_signals h)"
  unfolding turn_signals_def by (intro andNext_obeys basic_obeys) (simp add: basic_obeys)

lemma steered_obeys: "obeys R (unless_steered h)"
  unfolding unless_steered_def by (intro andNext_obeys basic_obeys signals_obeys)

lemma remember_obeys: "obeys R (rememberCandidate hash h work ctx body gaps)"
  unfolding rememberCandidate_def Let_def
  by (auto intro!: andNext_obeys basic_obeys tell_obeys change_obeys simp: fixed_part_def turn_version_def split: sum.split)

lemma phase_obeys: "obeys R m \<Longrightarrow> (\<And>x. obeys R (f x)) \<Longrightarrow> obeys R (phase m f)"
  unfolding phase_def by (intro andNext_obeys) (auto intro: basic_obeys split: phase.split)

lemma parse_obeys: "obeys R (parse_candidate hash h work ctx t)"
  unfolding parse_candidate_def
  by (auto intro!: andNext_obeys basic_obeys tell_obeys append_obeys store_obeys remember_obeys consume_obeys change_obeys correct_obeys
    simp: fixed_part_def turn_version_def split: option.split sum.split)

lemma push_obeys: "obeys R (push_partial hash h work ctx t a)"
  unfolding push_partial_def
  by (auto intro!: andNext_obeys basic_obeys tell_obeys append_obeys store_obeys remember_obeys consume_obeys correct_obeys split: option.split)

lemmas quiet = basic_obeys change_obeys tell_obeys store_obeys append_obeys correct_obeys gaps_obeys checks_obeys consume_obeys
  plainly_obeys signals_obeys steered_obeys remember_obeys parse_obeys push_obeys

end

interpretation asks: review_frame "reviewed h ok {}" for h ok
proof unfold_locales
  fix c s assume "neutral c"
  then show "reviewed h ok {} s (s\<lparr>vs_log := vs_log s @ [c]\<rparr>)"
    using neutral_favourable [of c h "vs_log s"] by (simp add: reviewed_def fixed_part_def turn_version_def)
qed (auto intro: reviewed_refl reviewed_then)

lemmas asked = asks.quiet [THEN obeysD]

subsection \<open>The checks\<close>

lemma phase_GoE:
  assumes "phase m f s = (Inr (Go y), s')"
  obtains x s1 where "m s = (Inr (Go x), s1)" and "f x s1 = (Inr (Go y), s')"
  using assms unfolding phase_def by (auto elim!: after_InrE split: phase.splits)

lemma andNext_look: "andNext (look f) g s = g (f s) s"
  by (simp add: andNext_def look_def)

lemma ask_Inr: "ask c f s = (Inr x, s') \<longleftrightarrow> f (vs_log s) = Inr x \<and> s' = s\<lparr>vs_log := vs_log s @ [c]\<rparr>"
  by (auto simp: ask_def)

lemma of_host_Inr: "of_host r = Inr x \<longleftrightarrow> r = Inr x"
  by (cases r) (simp_all add: of_host_def)

lemma asked_one: "(ok \<Longrightarrow> favourable h (vs_log s) c) \<Longrightarrow> \<not> commits c \<Longrightarrow> reviewed h ok {c} s (s\<lparr>vs_log := vs_log s @ [c]\<rparr>)"
  by (simp add: reviewed_def fixed_part_def turn_version_def)

text \<open>The verifiers.\<close>

lemma verified:
  assumes "verify_phase hash h body p s = (Inr (Go x), s')"
  defines "c \<equiv> \<lparr>ca_body = js_trim body, ca_requestVersion = turn_version s, ca_artifacts = vs_artifacts s\<rparr>"
  shows "(pg_gaps x = [] \<longrightarrow> pg_gaps p = []) \<and> (pg_needs p \<longrightarrow> pg_needs x) \<and> reviewed h (pg_gaps x = []) {VerifyCall c} s s'"
proof -
  let ?p = "\<lambda>rs. \<lparr>pg_gaps = pg_gaps p @ map record_gap (filter (\<lambda>r. vr_status r \<noteq> VerdictPassed) rs), pg_needs = (pg_needs p \<or> rs \<noteq> [])\<rparr>"
  let ?s1 = "s\<lparr>vs_log := vs_log s @ [VerifyCall c]\<rparr>"
  obtain rs where rs: "vh_verify h (vs_log s) c = Inr rs"
    using assms(1) unfolding verify_phase_def Let_def c_def by (auto elim!: after_InrE simp: ask_Inr of_host_Inr)
  note run = assms(1) [unfolded verify_phase_def Let_def]
  have x: "x = ?p rs" and step: "s' = ?s1 \<or> (\<exists>f r. consume_turn hash ContentAcceptance f ?s1 = (r, s'))"
    using run rs by (auto elim!: after_InrE simp: ask_Inr of_host_Inr c_def split: if_splits)
  have rest: "reviewed h (pg_gaps x = []) {} ?s1 s'" using step by (elim disjE exE) (simp, rule asks.consume_obeys [THEN obeysD])
  have "reviewed h (pg_gaps x = []) {VerifyCall c} s ?s1"
    using rs by (intro asked_one) (auto simp: x favourable_def filter_empty_conv list_all_iff)
  then have "reviewed h (pg_gaps x = []) {VerifyCall c} s s'" using rest by (rule reviewed_then)
  then show ?thesis by (simp add: x)
qed

text \<open>The resource checks.\<close>

lemma checks_run:
  assumes "run_checks h work hop i cs s = (Inr gaps, s')"
  shows "reviewed h (gaps = []) {} s s'"
  using assms
proof (induction cs arbitrary: i s gaps s')
  case Nil
  then show ?case by (simp add: reviewed_refl)
next
  case (Cons c cs)
  let ?a = "review_action work ''resource-review'' hop i ''task.check_resource'' (planned_json c)"
  let ?s1 = "s\<lparr>vs_log := vs_log s @ [ObserveCall ?a]\<rparr>"
  obtain r checks s2 gs where r: "vh_action h (vs_log s) ?a = Inr r" and set: "set_checks checks ?s1 = (Inr (), s2)"
    and more: "run_checks h work hop (i + 1) cs s2 = (Inr gs, s')"
    and gaps: "gaps = (if unconfirmed r then [''Resource check '' @ pc_action c @ '' did not confirm the expected fields at candidate review''] else []) @ gs"
    using Cons.prems unfolding run_checks.simps Let_def
    by (auto elim!: after_InrE simp: ask_Inr plainly_def split: option.splits sum.splits)
  have "reviewed h (gaps = []) {ObserveCall ?a} s ?s1"
    using r gaps by (intro asked_one) (auto simp: favourable_def review_action_def Let_def)
  then have "reviewed h (gaps = []) {} s ?s1" by (rule reviewed_weaken) simp_all
  moreover have "reviewed h (gaps = []) {} ?s1 s2" by (rule asks.checks_obeys [THEN obeysD, OF set])
  moreover have "reviewed h (gaps = []) {} s2 s'" using Cons.IH [OF more] gaps by (auto intro: reviewed_weaken)
  ultimately show ?case by (blast intro: reviewed_then)
qed

lemma checks_refreshed:
  assumes "refreshResourceChecks h work hop s = (Inr gaps, s')"
  shows "reviewed h (gaps = []) {} s s'"
proof -
  have "gaps = [] \<longrightarrow> (\<exists>cs. run_checks h work hop 0 cs s = (Inr gaps, s'))" and "s' = s \<or> (\<exists>cs. run_checks h work hop 0 cs s = (Inr gaps, s'))"
    using assms unfolding refreshResourceChecks_def by (auto elim!: after_InrE split: option.splits if_splits)
  then show ?thesis using checks_run by (metis reviewed_same)
qed

lemma resources_reviewed:
  assumes "resource_phase h work ctx p s = (Inr (Go x), s')"
  shows "(pg_gaps x = [] \<longrightarrow> pg_gaps p = []) \<and> (pg_needs p \<longrightarrow> pg_needs x) \<and> reviewed h (pg_gaps x = []) {} s s'"
proof (cases "request_checks s = []")
  case True
  then have "x = p" "s' = s" using assms unfolding resource_phase_def by (auto elim!: after_InrE)
  then show ?thesis by simp
next
  case False
  let ?tail = "\<lambda>gaps. andNext (store_turn h) (\<lambda>_. phase (unless_steered h) (\<lambda>_. let p1 = p\<lparr>pg_gaps := pg_gaps p @ gaps\<rparr> in
     andNext (set_gaps (pg_gaps p1)) (\<lambda>_. andNext (tell h (NoteCall ''response.resources_checked'' StCompleted)) (\<lambda>_. give (Go p1)))))"
  obtain gaps s1 where gaps: "refreshResourceChecks h work (hc_hop ctx) s = (Inr gaps, s1)" and tail: "?tail gaps s1 = (Inr (Go x), s')"
  proof (rule after_InrE)
    show "andNext (refreshResourceChecks h work (hc_hop ctx)) ?tail s = (Inr (Go x), s')"
      using assms False by (simp add: resource_phase_def andNext_look)
  qed
  have x: "x = p\<lparr>pg_gaps := pg_gaps p @ gaps\<rparr>" using tail unfolding Let_def by (auto elim!: after_InrE phase_GoE)
  have "reviewed h (pg_gaps x = []) {} s s1" using checks_refreshed [OF gaps] by (rule reviewed_weaken) (simp_all add: x)
  moreover have "obeys (reviewed h (pg_gaps x = []) {}) (?tail gaps)" unfolding Let_def
    by (intro asks.andNext_obeys asks.phase_obeys asks.quiet neutral_simps)
  then have "reviewed h (pg_gaps x = []) {} s1 s'" using tail by (rule obeysD)
  ultimately have "reviewed h (pg_gaps x = []) {} s s'" by (rule reviewed_then)
  then show ?thesis by (simp add: x)
qed

text \<open>The business actions.\<close>

lemma inspection_clear: "inspection_gaps q art r = [] \<Longrightarrow> all_confirmed r"
  unfolding inspection_gaps_def pending_gaps_def all_confirmed_def
  by (auto split: option.splits json.splits if_splits)

lemma actions_inspected:
  assumes "inspect_phase h work ctx p s = (Inr (Go x), s')"
  defines "a \<equiv> review_action work ''completion-inspect'' (hc_hop ctx) 0 ''task.inspect'' []"
  shows "(pg_gaps x = [] \<longrightarrow> pg_gaps p = []) \<and> (pg_needs p \<longrightarrow> pg_needs x)
    \<and> reviewed h (pg_gaps x = []) (if ss_request (vs_session s) = None then {} else {ObserveCall a}) s s'"
proof (cases "ss_request (vs_session s)")
  case None
  then have "x = p" "s' = s" using assms unfolding inspect_phase_def by (auto elim!: after_InrE)
  then show ?thesis using None by simp
next
  case (Some q)
  let ?gaps = "\<lambda>art r. pg_gaps p @ inspection_gaps q art r"
  let ?tail = "\<lambda>r. andNext (look (\<lambda>s. vs_artifacts s \<noteq> [])) (\<lambda>art. andNext (set_gaps (?gaps art r)) (\<lambda>_.
     phase (unless_steered h) (\<lambda>_. give (Go \<lparr>pg_gaps = ?gaps art r, pg_needs = (pg_needs p \<or> ?gaps art r \<noteq> [])\<rparr>))))"
  let ?s1 = "s\<lparr>vs_log := vs_log s @ [ObserveCall a]\<rparr>"
  obtain r where r: "vh_action h (vs_log s) a = Inr r" and tail: "?tail r ?s1 = (Inr (Go x), s')"
  proof (rule after_InrE)
    show "andNext (ask (ObserveCall a) (\<lambda>l. vh_action h l a)) ?tail s = (Inr (Go x), s')"
      using assms Some by (simp add: inspect_phase_def andNext_look Let_def)
  qed (simp add: ask_Inr)
  obtain art where x: "x = \<lparr>pg_gaps = ?gaps art r, pg_needs = (pg_needs p \<or> ?gaps art r \<noteq> [])\<rparr>"
    using tail by (auto elim!: after_InrE phase_GoE)
  have "obeys (reviewed h (pg_gaps x = []) {}) (?tail r)"
    by (intro asks.andNext_obeys asks.phase_obeys asks.quiet neutral_simps)
  then have rest: "reviewed h (pg_gaps x = []) {} ?s1 s'" using tail by (rule obeysD)
  have "reviewed h (pg_gaps x = []) {ObserveCall a} s ?s1"
    using r by (intro asked_one) (auto simp: x favourable_def a_def review_action_def Let_def dest: inspection_clear)
  then have "reviewed h (pg_gaps x = []) {ObserveCall a} s s'" using rest by (rule reviewed_then)
  then show ?thesis using Some by (simp add: x)
qed

text \<open>The independent review.\<close>

lemma after_review_obeys: "obeys (reviewed h ok {}) (after_review hash h work ctx body a p c)"
  unfolding after_review_def Let_def
  by (intro asks.phase_obeys asks.andNext_obeys asks.quiet neutral_simps)
    (auto simp: fixed_part_def turn_version_def intro!: asks.andNext_obeys asks.quiet)

lemma after_review_Go:
  assumes "after_review hash h work ctx body a p c s = (Inr (Go (x, err)), s')"
  shows "x = p\<lparr>pg_gaps := pg_gaps p @ review_gaps c\<rparr> \<and> err = ck_error c \<and> filter (\<lambda>f. objection (cf_blockedBy f) = None) (ck_missing c) = []"
  using assms unfolding after_review_def Let_def by (auto elim!: after_InrE phase_GoE split: if_splits)

lemma no_missing:
  assumes "review_gaps c = []" and "filter (\<lambda>f. objection (cf_blockedBy f) = None) (ck_missing c) = []"
  shows "ck_missing c = [] \<and> ck_limitations c = []"
proof -
  have blocked: "objection (cf_blockedBy f) \<noteq> None" if "f \<in> set (ck_missing c)" for f :: content_finding
    using assms(2) that by (auto simp: filter_empty_conv)
  have told: "(case objection (cf_blockedBy f) of None \<Rightarrow> [] | Some b \<Rightarrow>
      [''Unfulfilled result for '' @ quoted (cf_quote f) @ '': '' @ cf_reason f @ ''; request constraint: '' @ quoted b]) = []" if "f \<in> set (ck_missing c)" for f :: content_finding
    using assms(1) that by (auto simp: review_gaps_def)
  have "ck_missing c = []"
  proof (cases "ck_missing c")
    case (Cons f fs)
    then show ?thesis using blocked [of f] told [of f] by (cases "objection (cf_blockedBy f)") auto
  qed
  then show ?thesis using assms(1) by (simp add: review_gaps_def)
qed

lemma content_reviewed:
  assumes "review_phase hash h work ctx body a p s = (Inr (Go (x, err)), s')"
  defines "ok \<equiv> pg_gaps x = [] \<and> objection err = None"
  shows "(pg_gaps x = [] \<longrightarrow> pg_gaps p = []) \<and> pg_needs x = pg_needs p
    \<and> (\<exists>gs. reviewed h ok (if pg_needs p \<and> ss_request (vs_session s) \<noteq> None then {ReviewCall (js_trim body) gs} else {}) s s')"
proof (cases "pg_needs p \<and> ss_request (vs_session s) \<noteq> None")
  case False
  then have "x = p" "s' = s" using assms by (auto simp: review_phase_def andNext_look)
  then show ?thesis using False by auto
next
  case True
  let ?c = "ReviewCall (js_trim body) (pg_gaps p)"
  obtain c where c: "vh_review h (vs_log s) (js_trim body) (pg_gaps p) = Inr c"
    and tail: "after_review hash h work ctx body a p c (s\<lparr>vs_log := vs_log s @ [?c]\<rparr>) = (Inr (Go (x, err)), s')"
  proof (rule after_InrE)
    show "andNext (ask ?c (\<lambda>l. vh_review h l (js_trim body) (pg_gaps p))) (after_review hash h work ctx body a p) s = (Inr (Go (x, err)), s')"
      using assms True by (simp add: review_phase_def andNext_look)
  qed (simp add: ask_Inr)
  note x = after_review_Go [OF tail]
  have "reviewed h ok {?c} s (s\<lparr>vs_log := vs_log s @ [?c]\<rparr>)"
    using c x no_missing [of c] by (intro asked_one) (auto simp: ok_def favourable_def)
  then have "reviewed h ok {?c} s s'" using obeysD [OF after_review_obeys tail] by (rule reviewed_then)
  then show ?thesis using True x by auto
qed

text \<open>All checks, and the answer.\<close>

lemma reviewed_fixed: "reviewed h ok A s s' \<Longrightarrow> fixed_part s' = fixed_part s"
  by (simp add: reviewed_def)

lemma checks_reviewed:
  assumes "check_phases hash h work ctx body a s = (Inr (Go (x, err)), s')"
  defines "c \<equiv> \<lparr>ca_body = js_trim body, ca_requestVersion = turn_version s, ca_artifacts = vs_artifacts s\<rparr>"
    and "k \<equiv> review_action work ''completion-inspect'' (hc_hop ctx) 0 ''task.inspect'' []"
    and "hasReq \<equiv> ss_request (vs_session s) \<noteq> None"
  shows "\<exists>gs. reviewed h (pg_gaps x = [] \<and> objection err = None)
    ({VerifyCall c} \<union> (if hasReq then {ObserveCall k} else {}) \<union> (if pg_needs x \<and> hasReq then {ReviewCall (js_trim body) gs} else {})) s s'"
proof -
  let ?ok = "pg_gaps x = [] \<and> objection err = None"
  note run = assms(1) [unfolded check_phases_def]
  obtain s0 where remember: "rememberCandidate hash h work ctx body (assessed_gaps a) s = (Inr (), s0)"
    and run0: "phase (verify_phase hash h body (first_progress ctx s0)) (\<lambda>p1. phase (resource_phase h work ctx p1) (\<lambda>p2.
      phase (inspect_phase h work ctx p2) (review_phase hash h work ctx body a))) s0 = (Inr (Go (x, err)), s')"
    using run by (rule after_InrE) (simp add: andNext_look)
  obtain p1 s1 where one: "verify_phase hash h body (first_progress ctx s0) s0 = (Inr (Go p1), s1)"
    and run1: "phase (resource_phase h work ctx p1) (\<lambda>p2. phase (inspect_phase h work ctx p2) (review_phase hash h work ctx body a)) s1 = (Inr (Go (x, err)), s')"
    using run0 by (rule phase_GoE)
  obtain p2 s2 where two: "resource_phase h work ctx p1 s1 = (Inr (Go p2), s2)"
    and run2: "phase (inspect_phase h work ctx p2) (review_phase hash h work ctx body a) s2 = (Inr (Go (x, err)), s')"
    using run1 by (rule phase_GoE)
  obtain p3 s3 where three: "inspect_phase h work ctx p2 s2 = (Inr (Go p3), s3)"
    and four: "review_phase hash h work ctx body a p3 s3 = (Inr (Go (x, err)), s')"
    using run2 by (rule phase_GoE)
  have r0: "reviewed h ?ok {} s s0" using remember by (rule asks.remember_obeys [THEN obeysD])
  have c0: "c = \<lparr>ca_body = js_trim body, ca_requestVersion = turn_version s0, ca_artifacts = vs_artifacts s0\<rparr>"
    using reviewed_fixed [OF r0] by (simp add: c_def fixed_part_def)
  have r1: "reviewed h (pg_gaps p1 = []) {VerifyCall c} s0 s1" using verified [OF one] c0 by simp
  have r2: "reviewed h (pg_gaps p2 = []) {} s1 s2" using resources_reviewed [OF two] by simp
  have "hasReq = (ss_request (vs_session s2) \<noteq> None)" "hasReq = (ss_request (vs_session s3) \<noteq> None)"
    using reviewed_fixed [OF r0] reviewed_fixed [OF r1] reviewed_fixed [OF r2] actions_inspected [OF three, THEN conjunct2, THEN conjunct2, THEN reviewed_fixed]
    by (simp_all add: hasReq_def fixed_part_def)
  note asked = this
  have r3: "reviewed h (pg_gaps p3 = []) (if hasReq then {ObserveCall k} else {}) s2 s3"
    using actions_inspected [OF three, folded k_def] asked by (auto split: if_splits)
  obtain gs where r4: "reviewed h ?ok (if pg_needs x \<and> hasReq then {ReviewCall (js_trim body) gs} else {}) s3 s'"
    using content_reviewed [OF four] asked by auto
  have gaps: "pg_gaps x = [] \<longrightarrow> pg_gaps p3 = [] \<and> pg_gaps p2 = [] \<and> pg_gaps p1 = []"
    using content_reviewed [OF four] actions_inspected [OF three] resources_reviewed [OF two] by blast
  have "reviewed h ?ok {VerifyCall c} s s1" using r0 r1 gaps by (blast intro: then_reviewed reviewed_weaken)
  moreover have "reviewed h ?ok {} s1 s2" using r2 gaps by (blast intro: reviewed_weaken)
  ultimately have "reviewed h ?ok {VerifyCall c} s s2" by (rule reviewed_then)
  moreover have "reviewed h ?ok (if hasReq then {ObserveCall k} else {}) s2 s3" using r3 gaps by (blast intro: reviewed_weaken)
  ultimately have "reviewed h ?ok ({VerifyCall c} \<union> (if hasReq then {ObserveCall k} else {})) s s3" by (rule reviewed_chain)
  then show ?thesis using r4 by (blast intro: reviewed_chain)
qed

lemma envelope_parts:
  assumes "createResponseEnvelope hash body g evidence arts contract checks a = Inr env"
  shows "en_body env = body \<and> \<not> blank body \<and> en_requestVersion env = go_requestVersion g \<and> en_goalOutcome env = g"
  using assms unfolding createResponseEnvelope_def bindR_def by (auto split: if_splits sum.splits)

text \<open>What is made of an envelope, or of the error it met.\<close>

lemma withheld: "withhold hash h v s = (Inr (Go x), s') \<Longrightarrow> False"
  unfolding withhold_def by (auto elim!: after_InrE split: if_splits)

lemma withheld_stop: "withhold hash h v s = (Inr (Stop (HopAnswers text env)), s') \<Longrightarrow> False"
  unfolding withhold_def by (auto elim!: after_InrE split: if_splits)

lemma withhold_obeys: "obeys (reviewed h ok {}) (withhold hash h v)"
  unfolding withhold_def
  by (intro asks.andNext_obeys asks.quiet neutral_simps) (auto simp: fixed_part_def turn_version_def intro!: asks.andNext_obeys asks.quiet)

lemma rescue_obeys:
  assumes "obeys (reviewed h ok {}) m" and "\<And>e. obeys (reviewed h ok {}) (g e)"
  shows "obeys (reviewed h ok {}) (rescue m g)"
  using assms unfolding obeys_def rescue_def by (fastforce split: prod.splits sum.splits intro: reviewed_then)

lemma deliver_obeys: "obeys (reviewed h ok {}) (deliver_phase hash h work t a needs gaps)"
proof -
  have "obeys (reviewed h ok {}) (assess_envelope h a r)" for r
    unfolding assess_envelope_def by (auto intro!: asks.andNext_obeys asks.quiet rescue_obeys split: sum.split option.split)
  moreover have "obeys (reviewed h ok {}) (publish hash h t made)" for made
    unfolding publish_def by (auto simp: fixed_part_def turn_version_def intro!: asks.andNext_obeys asks.quiet withhold_obeys split: sum.split)
  ultimately show ?thesis unfolding deliver_phase_def by (intro asks.andNext_obeys asks.quiet)
qed

lemma assess_envelope_Inr: "assess_envelope h a r s = (Inr (Inr env), s') \<Longrightarrow> r = Inr env"
  unfolding assess_envelope_def by (auto simp: rescue_def elim!: after_InrE split: sum.splits option.splits prod.splits if_splits)

lemma publish_stops: "publish hash h t made s = (Inr (Stop (HopAnswers text env)), s') \<Longrightarrow> False"
  unfolding publish_def by (auto elim!: after_InrE split: sum.splits dest: withheld_stop)

lemma publish_goes:
  "publish hash h t made s = (Inr (Go x), s') \<Longrightarrow> \<exists>env. made = Inr env \<and> x = HopAnswers (js_trim (mt_text t)) env"
  unfolding publish_def by (auto elim!: after_InrE split: sum.splits dest: withheld)

lemma delivered:
  assumes "deliver_phase hash h work t a needs gaps s = (Inr (Go x), s')"
  shows "\<exists>env. x = HopAnswers (js_trim (mt_text t)) env \<and> en_body env = js_trim (mt_text t) \<and> js_trim (mt_text t) \<noteq> []
    \<and> en_requestVersion env = turn_version s \<and> en_goalOutcome env = answer_outcome a needs (turn_version s) gaps"
proof -
  let ?r = "turn_envelope hash work (js_trim (mt_text t)) (answer_outcome a needs (turn_version s) gaps) a s"
  obtain made s1 where made: "assess_envelope h a ?r s = (Inr made, s1)" and out: "publish hash h t made s1 = (Inr (Go x), s')"
    using assms unfolding deliver_phase_def andNext_look by (rule after_InrE)
  obtain env where env: "made = Inr env" "x = HopAnswers (js_trim (mt_text t)) env" using publish_goes [OF out] by blast
  have "?r = Inr env" using made env(1) by (simp add: assess_envelope_Inr)
  then have "createResponseEnvelope hash (js_trim (mt_text t)) (answer_outcome a needs (turn_version s) gaps) (turn_evidence work s) (vs_artifacts s)
      (case ss_request (vs_session s) of None \<Rightarrow> None | Some q \<Rightarrow> rq_contract q)
      (case ss_request (vs_session s) of None \<Rightarrow> None | Some q \<Rightarrow> rq_resourceChecks q) a = Inr env"
    by (simp add: turn_envelope_def)
  note parts = envelope_parts [OF this]
  moreover have "js_trim (mt_text t) \<noteq> []" using parts by (auto simp: blank_def)
  ultimately show ?thesis using env(2) by (simp add: answer_outcome_def)
qed

lemma phase_InrE:
  assumes "phase m f s = (Inr r, s')"
  obtains e where "m s = (Inr (Stop e), s')" and "r = Stop e" | x s1 where "m s = (Inr (Go x), s1)" and "f x s1 = (Inr r, s')"
  using assms unfolding phase_def by (auto elim!: after_InrE split: phase.splits)

subsection \<open>The judgement\<close>

text \<open>Only the delivery answers; every other phase that ends the hop goes on or gives up.\<close>

definition withholds :: "'a phase review \<Rightarrow> bool" where
  "withholds m = (\<forall>s e s'. m s = (Inr (Stop e), s') \<longrightarrow> e = HopContinues \<or> e = HopBreaks)"

lemma withholdsD: "withholds m \<Longrightarrow> m s = (Inr (Stop e), s') \<Longrightarrow> e = HopContinues \<or> e = HopBreaks"
  unfolding withholds_def by blast

lemma withholds_give: "withholds (give (Go x))" "withholds (give (Stop HopContinues))" "withholds (give (Stop HopBreaks))" "withholds (fails e)"
  by (simp_all add: withholds_def)

lemma withholds_next: "(\<And>x. withholds (f x)) \<Longrightarrow> withholds (andNext m f)"
  unfolding withholds_def by (auto elim!: after_InrE)

lemma withholds_phase:
  assumes "withholds m" and "\<And>x. withholds (f x)"
  shows "withholds (phase m f)"
  unfolding withholds_def
proof (intro allI impI)
  fix s e s' assume "phase m f s = (Inr (Stop e), s')"
  then show "e = HopContinues \<or> e = HopBreaks"
    by (rule phase_InrE) (use assms in \<open>auto dest: withholdsD\<close>)
qed

lemma withholds_cases: "(b \<Longrightarrow> withholds x) \<Longrightarrow> (\<not> b \<Longrightarrow> withholds y) \<Longrightarrow> withholds (if b then x else y)"
  by simp

lemma steered_withholds: "withholds (unless_steered h)"
  unfolding unless_steered_def by (intro withholds_next) (simp add: withholds_give)

lemmas withholding = withholds_give withholds_next withholds_phase withholds_cases steered_withholds

lemma parse_withholds: "withholds (parse_candidate hash h work ctx t)"
  unfolding parse_candidate_def by (auto intro!: withholding split: option.split sum.split)

lemma push_withholds: "withholds (push_partial hash h work ctx t a)"
  unfolding push_partial_def by (auto intro!: withholding split: option.split)

lemma checks_withholds: "withholds (check_phases hash h work ctx body a)"
proof -
  have "withholds (verify_phase hash h body p)" for p unfolding verify_phase_def Let_def by (intro withholding)
  moreover have "withholds (resource_phase h work ctx p)" for p unfolding resource_phase_def Let_def by (intro withholding)
  moreover have "withholds (inspect_phase h work ctx p)" for p unfolding inspect_phase_def Let_def
    by (auto intro!: withholding split: option.split)
  moreover have "withholds (after_review hash h work ctx body a p c)" for p c unfolding after_review_def Let_def by (intro withholding)
  then have "withholds (review_phase hash h work ctx body a p)" for p unfolding review_phase_def by (intro withholding)
  ultimately show ?thesis unfolding check_phases_def by (intro withholding)
qed

lemma deliver_withholds: "deliver_phase hash h work t a needs gaps s = (Inr (Stop (HopAnswers text env)), s') \<Longrightarrow> False"
  unfolding deliver_phase_def andNext_look by (auto elim!: after_InrE dest: publish_stops)

text \<open>An answer is delivered by the last phase, after all the others went on.\<close>

lemma judged_answer:
  assumes "judge_candidate hash h work ctx t0 s = (Inr (HopAnswers text env), s')"
  obtains t a s1 s2 where "parse_candidate hash h work ctx t0 s = (Inr (Go (t, a)), s1)" and "push_partial hash h work ctx t a s1 = (Inr (Go ()), s2)"
    and "policy_objection ctx (mt_text t) a = None" and "check_and_deliver hash h work ctx t a s2 = (Inr (Go (HopAnswers text env)), s')"
proof -
  let ?judge = "\<lambda>t a. case policy_objection ctx (mt_text t) a of Some m \<Rightarrow> withhold hash h m | None \<Rightarrow> check_and_deliver hash h work ctx t a"
  obtain r where r: "phase (parse_candidate hash h work ctx t0) (\<lambda>(t, a). phase (push_partial hash h work ctx t a) (\<lambda>_. ?judge t a)) s = (Inr r, s')"
    and ends: "r = Stop (HopAnswers text env) \<or> r = Go (HopAnswers text env)"
    using assms unfolding judge_candidate_def by (rule after_InrE) (auto split: phase.splits)
  obtain t a s1 where parsed: "parse_candidate hash h work ctx t0 s = (Inr (Go (t, a)), s1)"
    and more: "phase (push_partial hash h work ctx t a) (\<lambda>_. ?judge t a) s1 = (Inr r, s')"
    using r by (rule phase_InrE) (use ends in \<open>auto split: prod.splits dest: withholdsD [OF parse_withholds]\<close>)
  obtain s2 where pushed: "push_partial hash h work ctx t a s1 = (Inr (Go ()), s2)" and judged: "?judge t a s2 = (Inr r, s')"
    using more by (rule phase_InrE) (use ends in \<open>auto dest: withholdsD [OF push_withholds]\<close>)
  have policy: "policy_objection ctx (mt_text t) a = None"
    using judged ends by (auto split: option.splits dest: withheld withheld_stop)
  then have run: "check_and_deliver hash h work ctx t a s2 = (Inr r, s')" using judged by simp
  have "r \<noteq> Stop (HopAnswers text env)"
    using run unfolding check_and_deliver_def
    by (auto elim!: phase_InrE split: prod.splits dest: deliver_withholds withholdsD [OF checks_withholds])
  then show thesis using that parsed pushed policy run ends by blast
qed


subsection \<open>The end of the turn\<close>

text \<open>Nothing before the last call commits.\<close>

definition uncommitted :: "review_state \<Rightarrow> review_state \<Rightarrow> bool" where
  "uncommitted s s' = (\<exists>ls. vs_log s' = vs_log s @ ls \<and> \<not> list_ex commits ls)"

lemma uncommitted_chain: "uncommitted s s1 \<Longrightarrow> uncommitted s1 s2 \<Longrightarrow> uncommitted s s2"
  unfolding uncommitted_def by (metis append.assoc list_ex_append)

interpretation calm: review_frame uncommitted
proof unfold_locales
  fix c s assume "neutral c"
  then show "uncommitted s (s\<lparr>vs_log := vs_log s @ [c]\<rparr>)" using neutral_favourable by (simp add: uncommitted_def)
qed (simp add: uncommitted_def, rule uncommitted_chain)

lemma uncommitted_locals: "(\<And>s. vs_log (f s) = vs_log s) \<Longrightarrow> obeys uncommitted (change f)"
  by (simp add: obeys_def change_def uncommitted_def)

lemma steer_calm: "obeys uncommitted (steer_turn hash cmp h steers)"
  unfolding steer_turn_def
  by (auto intro!: calm.andNext_obeys calm.quiet uncommitted_locals split: option.split)

lemma signals_calm: "obeys uncommitted (last_signals h)"
  unfolding last_signals_def by (intro calm.andNext_obeys calm.quiet)

lemma load_calm: "obeys uncommitted (ask LoadCall f)"
  by (simp add: obeys_def ask_def uncommitted_def commits_def)

lemma retained_calm: "obeys uncommitted (retained_answer hash cmp h work)"
  unfolding retained_answer_def Let_def
  by (auto intro!: calm.andNext_obeys calm.quiet uncommitted_locals steer_calm signals_calm load_calm split: option.split)

text \<open>A retained body survives only without new steering.\<close>

lemma steer_forgets:
  assumes "steer_turn hash cmp h steers s = (Inr (), s')" and "steers \<noteq> []"
  shows "vs_lastGood s' = None"
  using assms unfolding steer_turn_def
  by (auto elim!: after_InrE simp: store_turn_def tell_def ask_def append_items_def split: option.splits)

lemma last_signals_Inr: "last_signals h s = (Inr q, s') \<Longrightarrow> s' = s \<and> q = at_queue (vh_signals h (vs_log s))"
  unfolding last_signals_def turn_signals_def by (auto elim!: after_InrE split: if_splits)

lemma retained:
  assumes "retained_answer hash cmp h work s = (Inr (body, env), s')"
  shows "\<exists>env0 ctx. vs_lastGood s = Some (body, env0) \<and> at_queue (vh_signals h (vs_log s)) = [] \<and> vh_context h (vs_log s) = Inr ctx
    \<and> objection (hc_violation ctx body) = None \<and> objection (hc_completion ctx body (partial_assessment (retained_gaps env0 s))) = None
    \<and> en_body env = body \<and> en_goalOutcome env = partial_outcome (turn_version s) (Some (retained_gaps env0 s)) \<and> turn_version s' = turn_version s"
proof -
  let ?deliver = "\<lambda>body env1. andNext (append_items [message_item ''assistant'' body]) (\<lambda>_. andNext (store_turn h) (\<lambda>_.
     andNext (look vs_part) (\<lambda>n. andNext (change (\<lambda>s. s\<lparr>vs_part := n + 1\<rparr>)) (\<lambda>_. andNext (tell h (DeltaCall body n)) (\<lambda>_. give (body, env1))))))"
  let ?rest = "\<lambda>s. case vs_lastGood s of
         None \<Rightarrow> fails (case vs_terminal s of Some e \<Rightarrow> e | None \<Rightarrow> AgentOSFailure ''no_valid_response'' ''No valid answer was produced for the current request'')
       | Some (body, env) \<Rightarrow> andNext (ask LoadCall (\<lambda>l. of_host (vh_context h l))) (\<lambda>ctx.
           if objection (hc_violation ctx body) \<noteq> None \<or> objection (hc_completion ctx body (partial_assessment (retained_gaps env s))) \<noteq> None
           then fails (AgentOSFailure ''response_protocol_exhausted'' ''Retained answer no longer satisfies the response policy'')
           else andNext (plainly (turn_envelope hash work body (partial_outcome (turn_version s) (Some (retained_gaps env s))) None s)) (?deliver body))"
  note run = assms [unfolded retained_answer_def Let_def]
  obtain steers s1 where steers: "last_signals h s = (Inr steers, s1)"
    and steering: "andNext (steer_turn hash cmp h steers) (\<lambda>_. andNext (look (\<lambda>s. s)) ?rest) s1 = (Inr (body, env), s')"
    using run by (rule after_InrE)
  obtain s2 where steered: "steer_turn hash cmp h steers s1 = (Inr (), s2)" and rest: "?rest s2 s2 = (Inr (body, env), s')"
    using steering by (rule after_InrE) (simp add: andNext_look)
  obtain body0 env0 where kept: "vs_lastGood s2 = Some (body0, env0)" using rest by (auto split: option.splits)
  then have none: "steers = []" using steer_forgets [OF steered] by auto
  then have same: "s1 = s" "s2 = s" "at_queue (vh_signals h (vs_log s)) = []"
    using last_signals_Inr [OF steers] steered by (auto simp: steer_turn_def)
  let ?gaps = "retained_gaps env0 s"
  obtain ctx s3 where ctx: "vh_context h (vs_log s) = Inr ctx" and s3: "s3 = s\<lparr>vs_log := vs_log s @ [LoadCall]\<rparr>"
    and fine: "objection (hc_violation ctx body0) = None" "objection (hc_completion ctx body0 (partial_assessment ?gaps)) = None"
    and out: "andNext (plainly (turn_envelope hash work body0 (partial_outcome (turn_version s) (Some ?gaps)) None s)) (?deliver body0) s3 = (Inr (body, env), s')"
  proof -
    have "andNext (ask LoadCall (\<lambda>l. of_host (vh_context h l))) (\<lambda>ctx.
        if objection (hc_violation ctx body0) \<noteq> None \<or> objection (hc_completion ctx body0 (partial_assessment ?gaps)) \<noteq> None
        then fails (AgentOSFailure ''response_protocol_exhausted'' ''Retained answer no longer satisfies the response policy'')
        else andNext (plainly (turn_envelope hash work body0 (partial_outcome (turn_version s) (Some ?gaps)) None s)) (?deliver body0)) s = (Inr (body, env), s')"
      using rest [unfolded kept] by (simp only: same(2) option.case prod.case)
    then show thesis by (rule after_InrE) (use that in \<open>auto simp: ask_Inr of_host_Inr split: if_splits\<close>)
  qed
  have made: "body = body0 \<and> turn_envelope hash work body (partial_outcome (turn_version s) (Some ?gaps)) None s = Inr env"
    using out by (auto elim!: after_InrE simp: plainly_def split: sum.splits)
  have "obeys (reviewed h False {}) (andNext (plainly (turn_envelope hash work body0 (partial_outcome (turn_version s) (Some ?gaps)) None s)) (?deliver body0))"
    by (intro asks.andNext_obeys asks.quiet neutral_simps) (simp add: fixed_part_def turn_version_def)
  then have "reviewed h False {} s3 s'" by (rule obeysD) (rule out)
  then have version: "turn_version s' = turn_version s" using s3 by (auto dest: reviewed_fixed simp: fixed_part_def turn_version_def)
  have "en_body env = body \<and> en_goalOutcome env = partial_outcome (turn_version s) (Some ?gaps)"
    using made envelope_parts unfolding turn_envelope_def by blast
  then show ?thesis using kept same ctx fine made version by auto
qed

text \<open>What the end of the turn may deliver: the accepted answer, or a retained one as a partial answer.\<close>

definition deliverable :: "review_host \<Rightarrow> (string \<times> envelope) option \<Rightarrow> review_state \<Rightarrow> string \<Rightarrow> envelope \<Rightarrow> bool" where
  "deliverable h final s body env = (case final of
       Some x \<Rightarrow> x = (body, env)
     | None \<Rightarrow> at_queue (vh_signals h (vs_log s)) = [] \<and> (case vs_lastGood s of None \<Rightarrow> False
         | Some (kept, env0) \<Rightarrow> kept = body \<and> en_body env = body
           \<and> en_goalOutcome env = partial_outcome (turn_version s) (Some (retained_gaps env0 s))
           \<and> (case vh_context h (vs_log s) of Inl e \<Rightarrow> False | Inr ctx \<Rightarrow> objection (hc_violation ctx body) = None
               \<and> objection (hc_completion ctx body (partial_assessment (retained_gaps env0 s))) = None)))"

lemma final_deliverable:
  assumes "(case final of Some x \<Rightarrow> give x | None \<Rightarrow> retained_answer hash cmp h work) s = (Inr (body, env), s')"
  shows "deliverable h final s body env"
proof (cases final)
  case None
  then show ?thesis using retained [of hash cmp h work s body env s'] assms by (auto simp: deliverable_def)
qed (use assms in \<open>simp add: deliverable_def\<close>)

lemma commit_last:
  assumes "vs_log s' = vs_log s1 @ [StoreCall q, CommitCall m]" and "uncommitted s s1" and "vs_log s' = vs_log s @ ls"
  shows "\<exists>pre. ls = pre @ [StoreCall q, CommitCall m] \<and> \<not> list_ex commits pre"
  using assms unfolding uncommitted_def by auto

lemma no_commit_in: "\<not> list_ex commits ls \<Longrightarrow> CommitCall m \<notin> set ls"
  by (auto simp: list_ex_iff)

text \<open>C8: if the end of the turn asks the control plane to commit a message, that is its last call, made right after
  the final session was stored, and there is no other commit; the message carries the accepted answer, or the retained
  body that the current policy still accepts, as a partial answer of the current version with every known gap.\<close>

lemma turn_delivery:
  assumes "finish_turn hash cmp h work final s = (r, s')"
    and "vs_log s' = vs_log s @ ls" and "CommitCall m \<in> set ls"
  shows "\<exists>pre body env. ls = pre @ [StoreCall (vs_session s'), CommitCall m] \<and> \<not> list_ex commits pre
    \<and> m = answer_message work (js_trim body) env \<and> js_trim body \<noteq> [] \<and> deliverable h final s body env"
proof -
  let ?m = "case final of Some x \<Rightarrow> give x | None \<Rightarrow> retained_answer hash cmp h work"
  obtain x s1 where first: "?m s = (x, s1)" by fastforce
  have "obeys uncommitted ?m" by (auto intro: retained_calm calm.quiet split: option.split)
  then have quiet: "uncommitted s s1" using first by (rule obeysD)
  have silent: False if "vs_log s' = vs_log s1 \<or> vs_log s' = vs_log s1 @ [StoreCall q]" for q
    using that quiet assms(2,3) unfolding uncommitted_def by (auto dest: no_commit_in)
  show ?thesis
  proof (cases x)
    case (Inl e)
    then have "s' = s1" using assms(1) first by (simp add: finish_turn_def andNext_def)
    then show ?thesis using silent by auto
  next
    case (Inr y)
    obtain body env where y: "y = (body, env)" by (cases y)
    let ?q = "vs_session s1"
    let ?c = "CommitCall (answer_message work (js_trim body) env)"
    have run: "(if js_trim body = [] then fails (PlainFailure ''agent produced no durable streamed text'')
        else andNext (store_turn h) (\<lambda>_. tell h ?c)) s1 = (r, s')"
      using assms(1) first Inr y by (simp add: finish_turn_def andNext_def)
    have shape: "js_trim body \<noteq> [] \<and> vs_session s' = ?q \<and> vs_log s' = vs_log s1 @ [StoreCall ?q, ?c]"
      using run silent [of ?q]
      by (auto simp: fails_def store_turn_def look_def tell_def ask_def andNext_def split: if_splits sum.splits)
    then obtain pre where pre: "ls = pre @ [StoreCall ?q, ?c]" "\<not> list_ex commits pre"
      using commit_last quiet assms(2) by blast
    have "m = answer_message work (js_trim body) env" using pre assms(3) by (auto dest: no_commit_in)
    moreover have "deliverable h final s body env" using first Inr y by (intro final_deliverable) simp
    ultimately show ?thesis using pre shape by auto
  qed
qed

subsection \<open>Instances\<close>

definition review_work :: work_item where
  "review_work = toWorkItem (new_row 0 ''x'' (sample_input ''x'' ''s1'')) 0"

definition inspected_ok :: action_result where
  "inspected_ok = (empty_result True)\<lparr>hr_value := Some (JObj [(''requestVersion'', JNum 1), (''pending'', JArr []), (''completedBusinessAction'', JBool True)])\<rparr>"

text \<open>Verified, nothing pending, and the reviewer finds nothing.\<close>

definition sample_context :: hop_context where
  "sample_context = \<lparr>hc_violation = (\<lambda>t. None), hc_completion = (\<lambda>t a. None), hc_rejected = False, hc_dependencies = False, hc_tools = [],
     hc_codeEnabled = True, hc_hop = 0\<rparr>"

definition sample_reviewers :: review_host where
  "sample_reviewers = \<lparr>vh_call = (\<lambda>l c. Inr ()), vh_verify = (\<lambda>l c. Inr [\<lparr>vr_checker = ''file'', vr_status = VerdictPassed, vr_evidence = []\<rparr>]),
     vh_action = (\<lambda>l a. Inr inspected_ok), vh_review = (\<lambda>l b gs. Inr \<lparr>ck_error = None, ck_missing = [], ck_limitations = []\<rparr>),
     vh_signals = (\<lambda>l. start_signals False), vh_context = (\<lambda>l. Inr sample_context)\<rparr>"

definition review_start :: review_state where
  "review_start = \<lparr>vs_session = sample_session\<lparr>ss_request := Some steered_request\<rparr>, vs_budget = new_budget, vs_artifacts = [], vs_executed = [],
     vs_lastGood = None, vs_terminal = None, vs_gaps = [], vs_correction = None, vs_part = 0, vs_log = []\<rparr>"

definition sample_turn :: model_turn where
  "sample_turn = \<lparr>mt_text = ''The report is written.'', mt_final = None, mt_output = []\<rparr>"

definition judged :: "(runtime_error + hop_end) \<times> review_state" where
  "judged = judge_candidate id sample_reviewers review_work sample_context sample_turn review_start"

definition answered_text :: "(runtime_error + hop_end) \<Rightarrow> (string \<times> goal_outcome) option" where
  "answered_text r = (case r of Inr (HopAnswers text env) \<Rightarrow> Some (text, en_goalOutcome env) | _ \<Rightarrow> None)"

lemma judged_run:
  "answered_text (fst judged) = Some (''The report is written.'', \<lparr>go_status = Satisfied, go_verification = Inconclusive, go_requestVersion = 1, go_gaps = None, go_question = None\<rparr>)"
  unfolding judged_def by code_simp


text \<open>A turn that ran out of corrections delivers what it retained.\<close>

definition retained_start :: review_state where
  "retained_start = review_start\<lparr>vs_lastGood := Some (''Half of the report.'', \<lparr>en_presentations = None, en_body = ''Half of the report.'', en_requestVersion = 1,
       en_evidenceSnapshotId = ''x:evidence:1'', en_citations = [], en_citationEvidence = None, en_artifacts = [],
       en_goalOutcome = partial_outcome 1 (Some [''second half'']), en_taskContract = None, en_resourceChecks = None, en_assessment = None\<rparr>),
     vs_gaps := [''figures'']\<rparr>"

definition finished :: "(runtime_error + unit) \<times> review_state" where
  "finished = finish_turn id (\<lambda>_ _. 0) sample_reviewers review_work None retained_start"

definition committed :: "review_call list \<Rightarrow> (string \<times> string list option) list" where
  "committed ls = concat (map (\<lambda>c. case c of CommitCall m \<Rightarrow> [(ms_body m, case ms_envelope m of None \<Rightarrow> None | Some e \<Rightarrow> go_gaps (en_goalOutcome e))] | _ \<Rightarrow> []) ls)"

lemma finished_run: "committed (vs_log (snd finished)) = [(''Half of the report.'', Some [''second half'', ''figures''])]"
  unfolding finished_def by code_simp

lemma committed_call: "committed ls \<noteq> [] \<Longrightarrow> \<exists>m. CommitCall m \<in> set ls"
  by (induction ls) (auto simp: committed_def split: review_call.splits)

lemma turn_delivery_witness:
  "\<exists>pre m body env. vs_log (snd finished) = pre @ [StoreCall (vs_session (snd finished)), CommitCall m] \<and> \<not> list_ex commits pre
     \<and> m = answer_message review_work (js_trim body) env \<and> deliverable sample_reviewers None retained_start body env"
proof -
  obtain r s' where run: "finish_turn id (\<lambda>_ _. 0) sample_reviewers review_work None retained_start = (r, s')" by fastforce
  then have s': "snd finished = s'" by (simp add: finished_def)
  obtain m where m: "CommitCall m \<in> set (vs_log s')" using committed_call [of "vs_log s'"] finished_run s' by auto
  have "vs_log s' = vs_log retained_start @ vs_log s'" by (simp add: retained_start_def review_start_def)
  from turn_delivery [OF run this m] show ?thesis unfolding s' by blast
qed

end
