(* ===== verification/Spec2Isabelle.thy ===== *)
theory Spec2Isabelle
  imports WorkStoreTree WorkStoreRoutes OutcomeProps ExecAuth EventFence CommitProps Graph SharedState CompactionProps ModelCalls Prompt Corrections BodyStream PreviewProps NativeProps
    Quota RestoreProps ToolRoundProps CandidateProps
begin

text \<open>
  LingxiOS is an operating system for agents, written in TypeScript (src/src). This development
  models its own logic as HOL functions over explicit states, in the order and with the names of the
  source, and proves what makes it correct. Paths below are relative to src/src.

  \<^bold>\<open>The program and its parts.\<close>
  A control plane (control-plane/service.ts) keeps durable state behind ports (control-plane/stores.ts):
  work items, an action ledger, run events, model budgets, sessions, execution steps and deliveries. Workers
  claim work under leases with increasing fences; the runtime of a worker (runtime/) turns a work item into
  model calls and tool calls, and everything durable it does goes through the control plane, which checks
  the lease proof again at every call. Actions go through the ledger: an intent is reserved before the
  effect, a receipt is recorded after it, and an attempt that finds an old intent reconciles instead of
  repeating it. Native tools (tools/executor.ts) run inside one database transaction with their receipt.
  A final answer is committed only when it validates against the request, its evidence and its artifacts.

  \<^bold>\<open>Conventions.\<close>
  Records are records, unions are datatypes, a \<open>Map\<close> is an association list in insertion order
  (\<open>jsmap\<close>), a thrown error is \<open>Inl\<close> of \<open>os_error\<close>, an optional field is an option, JavaScript numbers that the
  code checks to be safe integers are integers, timestamps are instants in milliseconds. Strings are lists of
  code units; where surrogate pairs matter (model/preview.ts) they are lists of 16-bit words. Asynchronous
  methods are programs of the state-and-error monad \<open>prog\<close>; where several calls interleave, each awaited
  store call is one step of a transition system. Code that is not in the repository is a parameter:
  SHA-256 (\<open>hash\<close>), random tokens and ids, the clock, \<open>localeCompare\<close>, the model provider, the executor and
  resolver ports of a product, and the data of native tools.

  \<^bold>\<open>Theories and sources.\<close>
  \<^item> Prelude, Json, JsonParse, Base64: errors, programs, ordered maps and the locales \<open>transition_system\<close>
    (invariants by rule induction over reachable states, interpreted for every transition system of the
    development) and \<open>js_comparator\<close> (a comparator that sorts like a key); JSON values with
    \<open>JSON.stringify\<close>, deep equality and canonical form; \<open>JSON.parse\<close>; Node's Base64.
  \<^item> Protocol: protocol/types.ts, protocol/outcome.ts, protocol/constants.ts.
  \<^item> WorkStore: \<open>MemoryWorkStore\<close> of control-plane/memory-store.ts, every method. WorkStoreInv describes what an
    operation may do to a row (\<open>row_evol\<close>) and proves the invariant \<open>conf_ok\<close>; WorkStoreSafety (leases, fences,
    terminal states, cancellation), WorkStoreQueue (claim order, replays), WorkStoreTree (trees of work) and
    WorkStoreRoutes (homes of sessions) prove the properties.
  \<^item> ActionLedger, LedgerInv: \<open>MemoryActionLedger\<close>. Stores: \<open>MemoryEventStore\<close> and the model budgets.
    Sessions: \<open>MemorySessionStore\<close> and the step store of control-plane/steps.ts.
  \<^item> Context, Request, ContextProps: context/evidence.ts, research-evidence.ts, task-contract.ts,
    attachments.ts, resource-checks.ts, request.ts and outcome/obligations.ts.
  \<^item> Tools, ToolOutput, Discovery: tools/catalog.ts, tools/contracts.ts, runtime/tool.ts, context/observations.ts,
    tools/discovery.ts and runtime/execution-policy.ts.
  \<^item> Outcome, Envelope, OutcomeProps: outcome/assessment.ts, completion.ts, envelope.ts, verification.ts.
    Workspace: protocol/workspace.ts and app/workspaces.ts.
  \<^item> Plane, Lifecycle, Records, Actions, Execute, Delivery, Commit, SaveSession, ContextLoad: the methods of
    \<open>ControlPlaneService\<close>, in this order. PlaneFrame states in the locales \<open>plane_rel\<close>, \<open>service_frame\<close> and
    \<open>exec_frame\<close> what one primitive step of a service operation may do, and proves inside them that every
    operation is made of such steps; the interpretations in PlaneSteps (refinement to the stores), EventFence
    (histories of past attempts), ExecOnce and ExecAuth turn that into theorems about all operations. CommitProps
    follows a commit to the delivery port.
  \<^item> NativeTools, NativeProps: tools/executor.ts, tools/contracts.ts, control-plane/action-transaction.ts and
    the approval gate of control-plane/approvals.ts over a record of the database tables they touch.
  \<^item> Access, Graph, SharedState: collaboration/access.ts, the graph validation of collaboration/graphs.ts,
    collaboration/state.ts.
  \<^item> Compaction, CompactionProps, ModelCalls, Prompt, Corrections: runtime/compaction.ts with model/profile.ts,
    model/execution.ts, context/compiler.ts, runtime/corrections.ts.
  \<^item> BodyParser, BodyStream, PreviewStream, PreviewProps: model/preview.ts, runtime/preview.ts,
    protocol/preview.ts and the reception of frames in app/realtime.ts.
  \<^item> Quota: resource-quota.ts (\<open>ResourceQuota\<close> with its recursive \<open>drain\<close>, \<open>ByteBudget\<close>).
  \<^item> Restore, RestoreProps: \<open>restoreSession\<close> of runtime/runtime.ts, over a host that is a parameter; the control
    plane of the theories above is one instance of it. Attempt: errors.ts and, of runtime/runtime.ts, the signals of
    an attempt, steering, event numbers and the \<open>catch\<close> of \<open>runWork\<close> with \<open>finishWithError\<close>. ToolRound,
    ToolRoundProps: \<open>executeCall\<close>, \<open>executeDirect\<close> and the loop of \<open>runTurn\<close> over the calls of a model output; the
    host, the kernel and the signals answer as functions of everything called before, the locale \<open>round_frame\<close>
    says what the parts of a round may do to the state and is interpreted for the history and for the log of calls.
  \<^item> Candidate, CandidateProps: the rest of \<open>runTurn\<close>, from a model output without calls to the commit, with
    runtime/resource-refresh.ts: parsing, policy, verifiers, fresh resource checks, reconciliation and review as
    phases that end the hop or go on, the retained bodies, and the end of the turn. The reviewer of
    outcome/content-check.ts, the policy and the host are parameters that answer as functions of the calls made
    before; the locale \<open>review_frame\<close> gathers what the phases that ask nothing keep, and is interpreted for the answers
    (\<open>reviewed\<close>) and for the commits (\<open>uncommitted\<close>).

  \<^bold>\<open>What is shown.\<close>
  At most one worker holds a session, and a lease that ended never works again (WorkStoreSafety). An action
  whose effect cannot be repeated is executed at most once per key under every interleaving of calls,
  retries and losses (ExecOnce), and only with a live lease, a covering grant and a recorded intent (ExecAuth);
  a native transaction commits its effect and its receipt together and once, and only under its approval
  (NativeProps). Recorded histories of earlier attempts are frozen (EventFence). Delivered messages carry the
  envelope the control plane computed itself (CommitProps). The service refines its stores
  (PlaneSteps). The remaining groups are functional: claim order, replays, closures of cancellation, round
  trips of answers and checkpoints, bounds of budgets, outputs and corrections, termination of the graph
  search, convergence of the preview, isolation of untrusted data in prompts.
  A crash is repaired: a restored session answers every open call exactly once, in order, and repeats only
  actions whose effect may be repeated, under the identity they had (RestoreProps), which is the one they were
  journaled under before they ran (ToolRoundProps); a tool round answers every call, a parking call leaves nothing
  unsaved (ToolRoundProps), steering is neither lost nor doubled, and a failing attempt ends exactly once, never as a
  success (Attempt). A model output becomes an answer only after the checks it needs, as satisfied only if all of
  them spoke for it, and the end of a turn commits once, last, after the session was stored (CandidateProps). Admission keeps its limits and forgets no waiting operation (Quota).

  \<^bold>\<open>Bounds and fuel.\<close>
  The search of \<open>graphNodes\<close> runs with depth \<open>Suc (length nodes)\<close>: a path without repetition is no longer, and
  a repetition is reported as a cycle (Graph). \<open>JSON.parse\<close> runs with twice the length of the text, since every
  nested call consumes a character (JsonParse). Ancestor walks stop after 64 links, as in the source.
  Discovery paging is iterated once per directory entry, since every page returns at least one tool (Discovery).
  Retries of a provider call are at most three, as in the source (ModelCalls). The recursion of \<open>drain\<close> ends because every
  start takes a waiter (Quota), that of the tool round because every batch takes a call (ToolRound). In each case the theorems
  show that a result is reached.

  \<^bold>\<open>Not modelled.\<close>
  The PostgreSQL stores: they are SQL, and the model follows the in-memory implementation of the same ports,
  which the repository keeps as their executable specification; where only an SQL version exists
  (collaboration/state.ts, tools/executor.ts, approvals.ts) its statements are modelled as reads and
  writes of tables by key. HTTP servers and clients, the kernel processes and their sandboxes, model drivers, object storage,
  metrics and logging are I/O. The memory subsystem is SQL with model calls. Of
  runtime/runtime.ts the model call of a hop with its previews and the loop over hops are left out; the parts they
  call (compaction, prompt compilation, corrections) are modelled on their own, and so is what follows the output of the
  model: the judgement of a candidate, the tool round and the end of the turn.
  worker/worker.ts and app/ wire these parts to processes, timers, SQL and products; research/, presentation/, ui/
  and eval/ are product code.
\<close>

end
